(* ===== verification/Prelude.thy ===== *)
theory Prelude
  imports Main "HOL-Library.Char_ord" "HOL-Library.List_Lexorder" "HOL-Library.Code_Target_Nat"
begin

text \<open>
  Shared vocabulary of the development.

  \<^item> Rust text and bytes: a \<open>&str\<close> or \<open>String\<close> is its UTF-8 byte sequence, a byte is a
    \<^typ>\<open>char\<close>. So \<open>len()\<close> is \<^const>\<open>length\<close>, \<open>==\<close> is equality and the derived \<open>Ord\<close> of
    strings is the byte-wise lexicographic order of the library.
  \<^item> \<open>Result\<close>: the sum type, \<^const>\<open>Inl\<close> for \<open>Err\<close>, with \<open>bindE\<close> for the \<open>?\<close> operator.
  \<^item> \<open>usize\<close>, \<open>u64\<close>, \<open>i64\<close>: \<^typ>\<open>nat\<close> and \<^typ>\<open>int\<close> with the width written out in the
    \<open>checked_\<close> operations.
  \<^item> The interfaces that several components implement: codecs (a printer and a parser that
    invert each other) and event systems (states reachable by a step function).
\<close>

named_theorems result_simps \<open>success and failure of compound results\<close>
named_theorems text_defs \<open>definitions of the byte and text predicates\<close>

type_synonym byte = char
type_synonym bytes = "char list"
type_synonym str = "char list"

section \<open>Results\<close>

definition bindE :: "'e + 'a \<Rightarrow> ('a \<Rightarrow> 'e + 'b) \<Rightarrow> 'e + 'b" where
  "bindE m f = (case m of Inl e \<Rightarrow> Inl e | Inr x \<Rightarrow> f x)"

definition ensure :: "bool \<Rightarrow> 'e \<Rightarrow> 'e + unit" where
  "ensure b e = (if b then Inr () else Inl e)"

definition ok_or :: "'e \<Rightarrow> 'a option \<Rightarrow> 'e + 'a" where
  "ok_or e x = (case x of None \<Rightarrow> Inl e | Some v \<Rightarrow> Inr v)"

definition map_err :: "('e \<Rightarrow> 'f) \<Rightarrow> 'e + 'a \<Rightarrow> 'f + 'a" where
  "map_err f m = (case m of Inl e \<Rightarrow> Inl (f e) | Inr x \<Rightarrow> Inr x)"

definition is_ok :: "'e + 'a \<Rightarrow> bool" where
  "is_ok m = (case m of Inl _ \<Rightarrow> False | Inr _ \<Rightarrow> True)"

fun foldE :: "('s \<Rightarrow> 'a \<Rightarrow> 'e + 's) \<Rightarrow> 's \<Rightarrow> 'a list \<Rightarrow> 'e + 's" where
  "foldE f s [] = Inr s"
| "foldE f s (x # xs) = bindE (f s x) (\<lambda>s'. foldE f s' xs)"

fun mapE :: "('a \<Rightarrow> 'e + 'b) \<Rightarrow> 'a list \<Rightarrow> 'e + 'b list" where
  "mapE f [] = Inr []"
| "mapE f (x # xs) = bindE (f x) (\<lambda>y. bindE (mapE f xs) (\<lambda>ys. Inr (y # ys)))"

fun eachE :: "('a \<Rightarrow> 'e + unit) \<Rightarrow> 'a list \<Rightarrow> 'e + unit" where
  "eachE f [] = Inr ()"
| "eachE f (x # xs) = bindE (f x) (\<lambda>_. eachE f xs)"

lemma bindE_Inl [simp]: "bindE (Inl e) f = Inl e"
  by (simp add: bindE_def)

lemma bindE_Inr [simp]: "bindE (Inr x) f = f x"
  by (simp add: bindE_def)

lemma bindE_eq_Inr [result_simps]: "bindE m f = Inr y \<longleftrightarrow> (\<exists>x. m = Inr x \<and> f x = Inr y)"
  by (cases m) auto

lemma bindE_eq_Inl [result_simps]:
  "bindE m f = Inl e \<longleftrightarrow> m = Inl e \<or> (\<exists>x. m = Inr x \<and> f x = Inl e)"
  by (cases m) auto

lemma bindE_assoc: "bindE (bindE m f) g = bindE m (\<lambda>x. bindE (f x) g)"
  by (cases m) auto

lemma bindE_cong [fundef_cong]:
  "m = m' \<Longrightarrow> (\<And>x. m' = Inr x \<Longrightarrow> f x = f' x) \<Longrightarrow> bindE m f = bindE m' f'"
  by (cases m') auto

lemma mapE_cong [fundef_cong]:
  "xs = ys \<Longrightarrow> (\<And>x. x \<in> set ys \<Longrightarrow> f x = g x) \<Longrightarrow> mapE f xs = mapE g ys"
  by (induction ys arbitrary: xs) auto

lemma ensure_simps [simp]: "ensure True e = Inr ()" "ensure False e = Inl e"
  by (simp_all add: ensure_def)

lemma ensure_eq_Inr [result_simps]: "ensure b e = Inr u \<longleftrightarrow> b"
  by (simp add: ensure_def)

lemma ensure_eq_Inl [result_simps]: "ensure b e = Inl e' \<longleftrightarrow> \<not> b \<and> e' = e"
  by (auto simp: ensure_def)

lemma ok_or_simps [simp]: "ok_or e None = Inl e" "ok_or e (Some v) = Inr v"
  by (simp_all add: ok_or_def)

lemma ok_or_eq_Inr [result_simps]: "ok_or e x = Inr v \<longleftrightarrow> x = Some v"
  by (cases x) auto

lemma ok_or_eq_Inl [result_simps]: "ok_or e x = Inl e' \<longleftrightarrow> x = None \<and> e' = e"
  by (cases x) auto

lemma map_err_simps [simp]: "map_err f (Inl e) = Inl (f e)" "map_err f (Inr x) = Inr x"
  by (simp_all add: map_err_def)

lemma map_err_eq_Inr [result_simps]: "map_err f m = Inr x \<longleftrightarrow> m = Inr x"
  by (cases m) auto

lemma map_err_eq_Inl [result_simps]: "map_err f m = Inl e \<longleftrightarrow> (\<exists>d. m = Inl d \<and> e = f d)"
  by (cases m) auto

lemma is_ok_simps [simp]: "\<not> is_ok (Inl e)" "is_ok (Inr x)"
  by (simp_all add: is_ok_def)

lemma is_ok_iff: "is_ok m \<longleftrightarrow> (\<exists>x. m = Inr x)"
  by (cases m) auto

lemma foldE_append: "foldE f s (xs @ ys) = bindE (foldE f s xs) (\<lambda>s'. foldE f s' ys)"
  by (induction xs arbitrary: s) (auto simp: bindE_assoc)

lemma foldE_invariant:
  assumes "foldE f s xs = Inr t" "P s"
    and "\<And>s x t. x \<in> set xs \<Longrightarrow> P s \<Longrightarrow> f s x = Inr t \<Longrightarrow> P t"
  shows "P t"
  using assms by (induction xs arbitrary: s) (auto simp: result_simps)

lemma eachE_eq_Inr [result_simps]: "eachE f xs = Inr u \<longleftrightarrow> (\<forall>x\<in>set xs. is_ok (f x))"
  by (induction xs) (auto simp: result_simps is_ok_iff)

lemma mapE_eq_Inr [result_simps]: "mapE f xs = Inr ys \<longleftrightarrow> list_all2 (\<lambda>x y. f x = Inr y) xs ys"
  by (induction xs arbitrary: ys) (auto simp: result_simps list_all2_Cons1)

text \<open>
  A Rust computation that can also stop by a panic (\<open>expect\<close>, an out-of-range slice): the
  panic is a value of its own, so that its absence is a theorem.
\<close>

datatype 'e fault = Fail 'e | Panic

abbreviation fails :: "'e \<Rightarrow> 'e fault + 'a" where
  "fails e \<equiv> Inl (Fail e)"

abbreviation panics :: "'e fault + 'a" where
  "panics \<equiv> Inl Panic"

abbreviation lift_err :: "'e + 'a \<Rightarrow> 'e fault + 'a" where
  "lift_err \<equiv> map_err Fail"

text \<open>
  \<open>safely P m\<close>: \<open>m\<close> does not panic, and its value, if it has one, satisfies \<open>P\<close>. The rule for
  \<^const>\<open>bindE\<close> carries such a postcondition through a function body.
\<close>

definition safely :: "('a \<Rightarrow> bool) \<Rightarrow> 'e fault + 'a \<Rightarrow> bool" where
  "safely P m = (case m of Inl e \<Rightarrow> e \<noteq> Panic | Inr x \<Rightarrow> P x)"

lemma safely_simps [simp]: "safely P (Inr x) = P x" "safely P (fails e)" "\<not> safely P panics"
  by (simp_all add: safely_def)

lemma safely_bindE: "safely Q m \<Longrightarrow> (\<And>x. m = Inr x \<Longrightarrow> Q x \<Longrightarrow> safely P (f x)) \<Longrightarrow> safely P (bindE m f)"
  by (cases m) (auto simp: safely_def)

lemma safely_lift_err: "safely P (lift_err m) \<longleftrightarrow> (\<forall>x. m = Inr x \<longrightarrow> P x)"
  by (cases m) auto

lemma safely_mono: "safely Q m \<Longrightarrow> (\<And>x. Q x \<Longrightarrow> P x) \<Longrightarrow> safely P m"
  by (auto simp: safely_def split: sum.splits)

lemma safely_no_panic: "safely P m \<Longrightarrow> m \<noteq> panics"
  by (auto simp: safely_def)

lemma safely_value: "safely P m \<Longrightarrow> m = Inr x \<Longrightarrow> P x"
  by (simp add: safely_def)

section \<open>Machine integers\<close>

definition usize_max :: nat where
  "usize_max = 18446744073709551615"

definition u64_max :: nat where
  "u64_max = 18446744073709551615"

definition checked_add :: "nat \<Rightarrow> nat \<Rightarrow> nat option" where
  "checked_add a b = (if a + b \<le> usize_max then Some (a + b) else None)"

definition checked_mul :: "nat \<Rightarrow> nat \<Rightarrow> nat option" where
  "checked_mul a b = (if a * b \<le> usize_max then Some (a * b) else None)"

definition saturating_add :: "nat \<Rightarrow> nat \<Rightarrow> nat" where
  "saturating_add a b = min (a + b) usize_max"

definition in_i64 :: "int \<Rightarrow> bool" where
  "in_i64 i \<longleftrightarrow> -9223372036854775808 \<le> i \<and> i \<le> 9223372036854775807"

lemma checked_add_eq_Some [result_simps]:
  "checked_add a b = Some c \<longleftrightarrow> c = a + b \<and> a + b \<le> usize_max"
  by (auto simp: checked_add_def)

lemma checked_mul_eq_Some [result_simps]:
  "checked_mul a b = Some c \<longleftrightarrow> c = a * b \<and> a * b \<le> usize_max"
  by (auto simp: checked_mul_def)

lemma checked_add_eq_None [result_simps]: "checked_add a b = None \<longleftrightarrow> usize_max < a + b"
  by (auto simp: checked_add_def)

lemma checked_mul_eq_None [result_simps]: "checked_mul a b = None \<longleftrightarrow> usize_max < a * b"
  by (auto simp: checked_mul_def)

section \<open>Bytes and text\<close>

abbreviation byte_val :: "byte \<Rightarrow> nat" where
  "byte_val c \<equiv> of_char c"

definition is_ascii_digit :: "byte \<Rightarrow> bool" where
  [text_defs]: "is_ascii_digit c \<longleftrightarrow> 48 \<le> byte_val c \<and> byte_val c \<le> 57"

definition is_ascii_lowercase :: "byte \<Rightarrow> bool" where
  [text_defs]: "is_ascii_lowercase c \<longleftrightarrow> 97 \<le> byte_val c \<and> byte_val c \<le> 122"

definition is_ascii_alphabetic :: "byte \<Rightarrow> bool" where
  [text_defs]: "is_ascii_alphabetic c \<longleftrightarrow>
     65 \<le> byte_val c \<and> byte_val c \<le> 90 \<or> 97 \<le> byte_val c \<and> byte_val c \<le> 122"

definition is_ascii_hexdigit :: "byte \<Rightarrow> bool" where
  [text_defs]: "is_ascii_hexdigit c \<longleftrightarrow> is_ascii_digit c
     \<or> 65 \<le> byte_val c \<and> byte_val c \<le> 70 \<or> 97 \<le> byte_val c \<and> byte_val c \<le> 102"

text \<open>The lower-case hexadecimal alphabet of digests: \<open>is_ascii_digit() || b'a'..=b'f'\<close>.\<close>

definition is_lower_hex :: "byte \<Rightarrow> bool" where
  [text_defs]: "is_lower_hex c \<longleftrightarrow> is_ascii_digit c \<or> 97 \<le> byte_val c \<and> byte_val c \<le> 102"

definition is_ascii :: "byte \<Rightarrow> bool" where
  [text_defs]: "is_ascii c \<longleftrightarrow> byte_val c < 128"

definition starts_with :: "str \<Rightarrow> str \<Rightarrow> bool" where
  "starts_with s p \<longleftrightarrow> take (length p) s = p"

definition strip_prefix :: "str \<Rightarrow> str \<Rightarrow> str option" where
  "strip_prefix s p = (if starts_with s p then Some (drop (length p) s) else None)"

definition non_empty_suffix :: "str \<Rightarrow> str \<Rightarrow> bool" where
  "non_empty_suffix v prefix = (case strip_prefix v prefix of None \<Rightarrow> False | Some suffix \<Rightarrow> suffix \<noteq> [])"

definition ends_with :: "str \<Rightarrow> str \<Rightarrow> bool" where
  "ends_with s p \<longleftrightarrow> starts_with (rev s) (rev p)"

definition strip_suffix :: "str \<Rightarrow> str \<Rightarrow> str option" where
  "strip_suffix s p = (if ends_with s p then Some (take (length s - length p) s) else None)"

text \<open>\<open>str::split\<close> on one ASCII character: never empty, \<open>"".split(c)\<close> is one empty piece.\<close>

fun split_on :: "byte \<Rightarrow> str \<Rightarrow> str list" where
  "split_on c [] = [[]]"
| "split_on c (x # xs) =
     (if x = c then [] # split_on c xs
      else (case split_on c xs of [] \<Rightarrow> [[x]] | s # ss \<Rightarrow> (x # s) # ss))"

fun join_with :: "byte \<Rightarrow> str list \<Rightarrow> str" where
  "join_with c [] = []"
| "join_with c [s] = s"
| "join_with c (s # t # ss) = s @ c # join_with c (t # ss)"

text \<open>\<open>str::split_once\<close> on a pattern: the text around its first occurrence.\<close>

fun split_once :: "str \<Rightarrow> str \<Rightarrow> (str \<times> str) option" where
  "split_once [] p = (if p = [] then Some ([], []) else None)"
| "split_once (x # xs) p =
     (if starts_with (x # xs) p then Some ([], drop (length p) (x # xs))
      else map_option (\<lambda>(a, b). (x # a, b)) (split_once xs p))"

text \<open>\<open>str::trim_end_matches\<close> on one character.\<close>

definition trim_end_matches :: "byte \<Rightarrow> str \<Rightarrow> str" where
  "trim_end_matches c s = rev (dropWhile (\<lambda>x. x = c) (rev s))"

text \<open>The \<open>i\<close>-th piece an iterator yields, if it yields that many.\<close>

definition get_at :: "'a list \<Rightarrow> nat \<Rightarrow> 'a option" where
  "get_at xs i = (if i < length xs then Some (xs ! i) else None)"

lemma get_at_eq_Some [result_simps]: "get_at xs i = Some x \<longleftrightarrow> i < length xs \<and> xs ! i = x"
  by (simp add: get_at_def)

lemma get_at_eq_None [result_simps]: "get_at xs i = None \<longleftrightarrow> length xs \<le> i"
  by (simp add: get_at_def not_less)

lemma starts_with_iff: "starts_with s p \<longleftrightarrow> (\<exists>r. s = p @ r)"
  unfolding starts_with_def by (metis append_eq_conv_conj append_take_drop_id)

lemma strip_prefix_eq_Some [result_simps]: "strip_prefix s p = Some r \<longleftrightarrow> s = p @ r"
  by (auto simp: strip_prefix_def starts_with_iff)

lemma strip_prefix_eq_None: "strip_prefix s p = None \<longleftrightarrow> (\<forall>r. s \<noteq> p @ r)"
  by (auto simp: strip_prefix_def starts_with_iff)

lemma ends_with_iff: "ends_with s p \<longleftrightarrow> (\<exists>r. s = r @ p)"
proof
  assume "ends_with s p"
  then obtain r where "rev s = rev p @ r" by (auto simp: ends_with_def starts_with_iff)
  then have "s = rev r @ p" by (metis rev_append rev_rev_ident)
  then show "\<exists>r. s = r @ p" ..
qed (auto simp: ends_with_def starts_with_iff)

lemma strip_suffix_eq_Some [result_simps]: "strip_suffix s p = Some r \<longleftrightarrow> s = r @ p"
  by (auto simp: strip_suffix_def ends_with_iff)

lemma strip_suffix_eq_None: "strip_suffix s p = None \<longleftrightarrow> (\<forall>r. s \<noteq> r @ p)"
  by (auto simp: strip_suffix_def ends_with_iff)

lemma split_on_not_Nil [simp]: "split_on c s \<noteq> []"
  by (induction s) (auto split: list.splits)

lemma join_split [simp]: "join_with c (split_on c s) = s"
proof (induction s)
  case (Cons x xs)
  show ?case
  proof (cases "split_on c xs")
    case (Cons a list)
    with Cons.IH show ?thesis by (cases list) auto
  qed simp
qed simp

lemma split_on_free: "seg \<in> set (split_on c s) \<Longrightarrow> c \<notin> set seg"
  by (induction s arbitrary: seg) (auto split: if_splits list.splits)

lemma split_on_append: "c \<notin> set a \<Longrightarrow> split_on c (a @ c # b) = a # split_on c b"
  by (induction a) auto

lemma split_on_no_sep: "c \<notin> set a \<Longrightarrow> split_on c a = [a]"
  by (induction a) auto

lemma append_sep_inject:
  "c \<notin> set a \<Longrightarrow> c \<notin> set b \<Longrightarrow> a @ c # r = b @ c # s \<longleftrightarrow> a = b \<and> r = s"
proof (induction a arbitrary: b)
  case Nil
  then show ?case by (cases b) auto
next
  case (Cons x a)
  then show ?case by (cases b) auto
qed

lemma split_join:
  "ss \<noteq> [] \<Longrightarrow> (\<And>s. s \<in> set ss \<Longrightarrow> c \<notin> set s) \<Longrightarrow> split_on c (join_with c ss) = ss"
proof (induction c ss rule: join_with.induct)
  case (2 c s)
  then show ?case by (simp add: split_on_no_sep)
next
  case (3 c s t ss)
  then have "split_on c (join_with c (t # ss)) = t # ss" by simp
  with 3 show ?case by (simp add: split_on_append)
qed simp

lemma split_once_Some: "split_once s p = Some (a, b) \<Longrightarrow> s = a @ p @ b"
proof (induction s arbitrary: a)
  case (Cons x xs)
  show ?case
  proof (cases "starts_with (x # xs) p")
    case True
    then show ?thesis using Cons.prems by (auto simp: starts_with_iff)
  next
    case False
    with Cons.prems obtain a' where "split_once xs p = Some (a', b)" "a = x # a'" by auto
    with Cons.IH show ?thesis by simp
  qed
qed (auto split: if_splits)

section \<open>Codecs\<close>

text \<open>
  A wire format: \<open>encode\<close> prints the values of \<open>valid\<close>, \<open>decode\<close> reads text back. The law is
  the round trip; \<open>exact_codec\<close> adds that decoding accepts nothing but what is printed, so
  that every value has one spelling.
\<close>

locale codec =
  fixes valid :: "'a \<Rightarrow> bool"
    and encode :: "'a \<Rightarrow> 'w"
    and decode :: "'w \<Rightarrow> 'a option"
  assumes decode_encode: "valid x \<Longrightarrow> decode (encode x) = Some x"
begin

lemma encode_inject: "valid x \<Longrightarrow> valid y \<Longrightarrow> encode x = encode y \<Longrightarrow> x = y"
  by (metis decode_encode option.inject)

lemma decode_complete: "valid x \<Longrightarrow> \<exists>w. decode w = Some x"
  using decode_encode by blast

end

locale exact_codec = codec +
  assumes decode_sound: "decode w = Some x \<Longrightarrow> valid x \<and> encode x = w"
begin

lemma decode_iff: "decode w = Some x \<longleftrightarrow> valid x \<and> w = encode x"
  using decode_encode decode_sound by blast

lemma decode_inject: "decode w = Some x \<Longrightarrow> decode w' = Some x \<Longrightarrow> w = w'"
  using decode_sound by blast

lemma rejects_other: "(\<And>x. valid x \<Longrightarrow> w \<noteq> encode x) \<Longrightarrow> decode w = None"
  using decode_sound by (cases "decode w") auto

end

section \<open>Event systems\<close>

text \<open>
  A component with state: an initial state and a step function that either rejects an event
  and leaves no trace of it, or yields the next state. An invariant that holds initially and
  is kept by every accepted event holds in every state that a sequence of events can reach.
\<close>

fun run_events :: "('s \<Rightarrow> 'ev \<Rightarrow> 'err + 's) \<Rightarrow> 's \<Rightarrow> 'ev list \<Rightarrow> 's" where
  "run_events step s [] = s"
| "run_events step s (e # es) =
     run_events step (case step s e of Inl _ \<Rightarrow> s | Inr s' \<Rightarrow> s') es"

locale event_system =
  fixes init :: "'s \<Rightarrow> bool"
    and step :: "'s \<Rightarrow> 'ev \<Rightarrow> 'err + 's"
    and inv :: "'s \<Rightarrow> bool"
  assumes inv_init: "init s \<Longrightarrow> inv s"
    and inv_step: "inv s \<Longrightarrow> step s e = Inr s' \<Longrightarrow> inv s'"
begin

lemma inv_run: "inv s \<Longrightarrow> inv (run_events step s es)"
proof (induction es arbitrary: s)
  case (Cons e es)
  have "inv (case step s e of Inl _ \<Rightarrow> s | Inr s' \<Rightarrow> s')"
    using Cons.prems inv_step by (auto split: sum.splits)
  with Cons.IH show ?case by simp
qed simp

lemma reachable_inv: "init s \<Longrightarrow> inv (run_events step s es)"
  by (rule inv_run [OF inv_init])

end

end
