(* ===== verification/Canonical_Oid.thy ===== *)
theory Canonical_Oid
  imports Prelude
begin

text \<open>
  The lexical layer of \<^verbatim>\<open>synapse-canonical\<close>: stable error codes, object families, the
  \<open>sg-oid-v1\<close> identifier, hexadecimal digests, Blob identifiers and portable path syntax
  (\<^verbatim>\<open>src/crates/synapse-canonical/src/lib.rs\<close>).

  A \<open>CoreError\<close> is its code: the diagnostic text that the source formats next to it is read
  by people only and no branch of the program depends on it. SHA-256 is the third-party
  \<open>sha2\<close> crate, hence a parameter \<open>sha256\<close> from bytes to the 32 bytes of the digest.
\<close>

section \<open>Error codes and object families\<close>

datatype error_code =
    InvalidUtf8 | BomForbidden | DuplicateKey | NumberTokenForbidden | UnsafeInteger
  | LoneSurrogate | KeyNotNfc | IdentifierNotNfc | SetNotSorted | SetDuplicate
  | TimestampInvalid | IntervalInvalid | FixedPointNotNormalized | PathSegmentInvalid
  | ResourceLimit | SchemaInvalid | ReferenceTypeMismatch | OidMismatch | ClosureMissing
  | AuthorizationDenied | HumanGateRequired | StaleBase | RefConflictCode

primrec error_code_as_str :: "error_code \<Rightarrow> str" where
  "error_code_as_str InvalidUtf8 = ''invalid_utf8''"
| "error_code_as_str BomForbidden = ''bom_forbidden''"
| "error_code_as_str DuplicateKey = ''duplicate_key''"
| "error_code_as_str NumberTokenForbidden = ''number_token_forbidden''"
| "error_code_as_str UnsafeInteger = ''unsafe_integer''"
| "error_code_as_str LoneSurrogate = ''lone_surrogate''"
| "error_code_as_str KeyNotNfc = ''key_not_nfc''"
| "error_code_as_str IdentifierNotNfc = ''identifier_not_nfc''"
| "error_code_as_str SetNotSorted = ''set_not_sorted''"
| "error_code_as_str SetDuplicate = ''set_duplicate''"
| "error_code_as_str TimestampInvalid = ''timestamp_invalid''"
| "error_code_as_str IntervalInvalid = ''interval_invalid''"
| "error_code_as_str FixedPointNotNormalized = ''fixed_point_not_normalized''"
| "error_code_as_str PathSegmentInvalid = ''path_segment_invalid''"
| "error_code_as_str ResourceLimit = ''resource_limit''"
| "error_code_as_str SchemaInvalid = ''schema_invalid''"
| "error_code_as_str ReferenceTypeMismatch = ''reference_type_mismatch''"
| "error_code_as_str OidMismatch = ''oid_mismatch''"
| "error_code_as_str ClosureMissing = ''closure_missing''"
| "error_code_as_str AuthorizationDenied = ''authorization_denied''"
| "error_code_as_str HumanGateRequired = ''human_gate_required''"
| "error_code_as_str StaleBase = ''stale_base''"
| "error_code_as_str RefConflictCode = ''ref_conflict''"

type_synonym core_error = error_code

datatype object_kind = Blob | Record | Tree | Commit

primrec kind_prefix :: "object_kind \<Rightarrow> str" where
  "kind_prefix Blob = ''blob''"
| "kind_prefix Record = ''record''"
| "kind_prefix Tree = ''tree''"
| "kind_prefix Commit = ''commit''"

definition is_structured :: "object_kind \<Rightarrow> bool" where
  "is_structured k \<longleftrightarrow> k \<noteq> Blob"

definition kind_of_prefix :: "str \<Rightarrow> object_kind option" where
  "kind_of_prefix p =
     (if p = ''blob'' then Some Blob
      else if p = ''record'' then Some Record
      else if p = ''tree'' then Some Tree
      else if p = ''commit'' then Some Commit
      else None)"

interpretation kind_names: exact_codec "\<lambda>_. True" kind_prefix kind_of_prefix
proof
  show "kind_of_prefix (kind_prefix k) = Some k" for k
    by (cases k) (simp_all add: kind_of_prefix_def)
next
  show "True \<and> kind_prefix k = p" if "kind_of_prefix p = Some k" for p k
    using that by (auto simp: kind_of_prefix_def split: if_splits)
qed

section \<open>Object identifiers\<close>

text \<open>
  \<open>parse_oid\<close> splits at every colon and looks at the pieces in order; a fifth piece, a digest
  of another length or a digest character outside \<open>[0-9a-f]\<close> is rejected.
\<close>

definition parse_oid :: "str \<Rightarrow> core_error + object_kind" where
  "parse_oid oid =
     (let parts = split_on (CHR '':'') oid in
      bindE (ok_or SchemaInvalid (Option.bind (get_at parts 0) kind_of_prefix)) (\<lambda>kind.
      if get_at parts 1 \<noteq> Some ''sg-oid-v1'' \<or> get_at parts 2 \<noteq> Some ''sha256''
      then Inl SchemaInvalid
      else bindE (ok_or SchemaInvalid (get_at parts 3)) (\<lambda>digest.
      if get_at parts 4 \<noteq> None \<or> length digest \<noteq> 64 \<or> \<not> list_all is_lower_hex digest
      then Inl SchemaInvalid
      else Inr kind)))"

definition oid_infix :: str where
  "oid_infix = '':sg-oid-v1:sha256:''"

definition format_oid :: "object_kind \<Rightarrow> str \<Rightarrow> str" where
  "format_oid k digest = kind_prefix k @ oid_infix @ digest"

definition is_digest :: "str \<Rightarrow> bool" where
  "is_digest d \<longleftrightarrow> length d = 64 \<and> list_all is_lower_hex d"

lemma lower_hex_not_colon: "is_lower_hex c \<Longrightarrow> c \<noteq> CHR '':''"
  by (auto simp: text_defs)

lemma digest_no_colon: "is_digest d \<Longrightarrow> CHR '':'' \<notin> set d"
  using lower_hex_not_colon by (auto simp: is_digest_def list_all_iff)

lemma kind_prefix_no_colon: "CHR '':'' \<notin> set (kind_prefix k)"
  by (cases k) simp_all

lemma split_format_oid:
  assumes "is_digest d"
  shows "split_on (CHR '':'') (format_oid k d) = [kind_prefix k, ''sg-oid-v1'', ''sha256'', d]"
proof -
  have "format_oid k d = join_with (CHR '':'') [kind_prefix k, ''sg-oid-v1'', ''sha256'', d]"
    by (simp add: format_oid_def oid_infix_def)
  moreover have "CHR '':'' \<notin> set s" if "s \<in> set [kind_prefix k, ''sg-oid-v1'', ''sha256'', d]" for s
    using that digest_no_colon [OF assms] kind_prefix_no_colon [of k] by auto
  ultimately show ?thesis
    by (simp only: split_join list.distinct not_False_eq_True)
qed

lemma parse_format_oid: "is_digest d \<Longrightarrow> parse_oid (format_oid k d) = Inr k"
  by (simp add: parse_oid_def split_format_oid kind_names.decode_encode is_digest_def
      get_at_def Let_def)

lemma parse_oid_cases:
  assumes "parse_oid oid = Inr k"
  obtains d where "oid = format_oid k d" "is_digest d"
proof -
  define parts where "parts = split_on (CHR '':'') oid"
  from assms have len: "length parts = 4" and one: "parts ! 1 = ''sg-oid-v1''"
    and two: "parts ! 2 = ''sha256''" and fam: "kind_of_prefix (parts ! 0) = Some k"
    and dig: "is_digest (parts ! 3)"
    by (auto simp: parse_oid_def Let_def parts_def [symmetric] result_simps is_digest_def
        bind_eq_Some_conv split: if_splits)
  define family digest where "family = parts ! 0" and "digest = parts ! 3"
  have parts: "parts = [family, ''sg-oid-v1'', ''sha256'', digest]"
    using len one two unfolding family_def digest_def
    by (auto simp: list_eq_iff_nth_eq less_Suc_eq numeral_eq_Suc)
  from fam have "family = kind_prefix k" unfolding family_def by (simp add: kind_names.decode_iff)
  moreover have "oid = join_with (CHR '':'') [family, ''sg-oid-v1'', ''sha256'', digest]"
    using parts by (metis join_split parts_def)
  ultimately have "oid = format_oid k digest"
    by (simp add: format_oid_def oid_infix_def)
  with dig that show thesis by (simp add: digest_def)
qed

lemma format_oid_inject:
  "is_digest d \<Longrightarrow> is_digest e \<Longrightarrow> format_oid k d = format_oid l e \<longleftrightarrow> k = l \<and> d = e"
  by (metis list.inject parse_format_oid split_format_oid sum.inject(2))

lemma parse_oid_error: "parse_oid oid = Inl e \<Longrightarrow> e = SchemaInvalid"
  by (auto simp: parse_oid_def Let_def result_simps split: if_splits)

interpretation oid_text: exact_codec
  "\<lambda>(k, d). is_digest d" "\<lambda>(k, d). format_oid k d"
  "\<lambda>oid. case parse_oid oid of Inl _ \<Rightarrow> None
     | Inr k \<Rightarrow> Some (k, drop (length (kind_prefix k @ oid_infix)) oid)"
proof
  fix x :: "object_kind \<times> str"
  assume "case x of (k, d) \<Rightarrow> is_digest d"
  then show "(case parse_oid (case x of (k, d) \<Rightarrow> format_oid k d) of Inl _ \<Rightarrow> None
      | Inr k \<Rightarrow> Some (k, drop (length (kind_prefix k @ oid_infix))
          (case x of (k, d) \<Rightarrow> format_oid k d))) = Some x"
    by (cases x) (simp add: parse_format_oid, simp add: format_oid_def)
next
  fix oid and x :: "object_kind \<times> str"
  assume a: "(case parse_oid oid of Inl _ \<Rightarrow> None
      | Inr k \<Rightarrow> Some (k, drop (length (kind_prefix k @ oid_infix)) oid)) = Some x"
  then obtain k where k: "parse_oid oid = Inr k" by (cases "parse_oid oid") auto
  then obtain d where "oid = format_oid k d" "is_digest d" by (rule parse_oid_cases)
  with a k show "(case x of (k, d) \<Rightarrow> is_digest d) \<and> (case x of (k, d) \<Rightarrow> format_oid k d) = oid"
    by (auto simp: format_oid_def)
qed

section \<open>Hexadecimal digests and Blob identifiers\<close>

definition hex_digit :: "nat \<Rightarrow> byte" where
  "hex_digit n = ''0123456789abcdef'' ! n"

fun lower_hex :: "bytes \<Rightarrow> str" where
  "lower_hex [] = []"
| "lower_hex (b # bs) =
     hex_digit (byte_val b div 16) # hex_digit (byte_val b mod 16) # lower_hex bs"

definition sha256_hex :: "(bytes \<Rightarrow> bytes) \<Rightarrow> bytes \<Rightarrow> str" where
  "sha256_hex sha256 bs = lower_hex (sha256 bs)"

definition blob_oid :: "(bytes \<Rightarrow> bytes) \<Rightarrow> bytes \<Rightarrow> str" where
  "blob_oid sha256 bs = ''blob:sg-oid-v1:sha256:'' @ sha256_hex sha256 bs"

definition verify_blob_oid :: "(bytes \<Rightarrow> bytes) \<Rightarrow> str \<Rightarrow> bytes \<Rightarrow> core_error + unit" where
  "verify_blob_oid sha256 claimed bs =
     bindE (parse_oid claimed) (\<lambda>kind.
     if kind \<noteq> Blob then Inl OidMismatch
     else if claimed \<noteq> blob_oid sha256 bs then Inl OidMismatch
     else Inr ())"

lemma less_16_cases: "(n::nat) < 16 \<Longrightarrow> n \<in> {0, 1, 2, 3, 4, 5, 6, 7, 8, 9, 10, 11, 12, 13, 14, 15}"
  by simp presburger

lemma hex_digit_lower_hex: "n < 16 \<Longrightarrow> is_lower_hex (hex_digit n)"
  by (drule less_16_cases) (auto simp: hex_digit_def text_defs)

lemma hex_digit_val: "n < 16 \<Longrightarrow>
  byte_val (hex_digit n) = (if n < 10 then 48 + n else 87 + n)"
  by (drule less_16_cases) (auto simp: hex_digit_def)

lemma hex_digit_inject:
  assumes "m < 16" "n < 16"
  shows "hex_digit m = hex_digit n \<longleftrightarrow> m = n"
proof
  assume "hex_digit m = hex_digit n"
  then have "byte_val (hex_digit m) = byte_val (hex_digit n)" by (rule arg_cong)
  with assms show "m = n"
    by (simp only: hex_digit_val split: if_splits)
qed simp

lemma byte_val_lt: "byte_val c < 256"
  by (simp add: of_char_def)

lemma length_lower_hex [simp]: "length (lower_hex bs) = 2 * length bs"
  by (induction bs) auto

lemma lower_hex_chars: "list_all is_lower_hex (lower_hex bs)"
proof (induction bs)
  case (Cons b bs)
  have "byte_val b div 16 < 16" using byte_val_lt [of b] by linarith
  with Cons show ?case by (simp add: hex_digit_lower_hex)
qed simp

lemma lower_hex_inject: "lower_hex bs = lower_hex cs \<longleftrightarrow> bs = cs"
proof (induction bs arbitrary: cs)
  case Nil
  then show ?case by (cases cs) auto
next
  case (Cons b bs)
  show ?case
  proof (cases cs)
    case (Cons c cs')
    have "byte_val b div 16 < 16" "byte_val c div 16 < 16"
      using byte_val_lt [of b] byte_val_lt [of c] by linarith+
    then have "lower_hex (b # bs) = lower_hex (c # cs') \<longleftrightarrow>
        byte_val b div 16 = byte_val c div 16 \<and> byte_val b mod 16 = byte_val c mod 16 \<and> bs = cs'"
      by (simp add: hex_digit_inject Cons.IH)
    also have "\<dots> \<longleftrightarrow> byte_val b = byte_val c \<and> bs = cs'"
      by (metis div_mult_mod_eq)
    finally show ?thesis by (simp add: Cons)
  qed simp
qed

lemma sha256_hex_digest: "length (sha256 bs) = 32 \<Longrightarrow> is_digest (sha256_hex sha256 bs)"
  by (simp add: is_digest_def sha256_hex_def lower_hex_chars)

lemma blob_oid_format: "blob_oid sha256 bs = format_oid Blob (sha256_hex sha256 bs)"
  by (simp add: blob_oid_def format_oid_def oid_infix_def)

lemma parse_blob_oid: "length (sha256 bs) = 32 \<Longrightarrow> parse_oid (blob_oid sha256 bs) = Inr Blob"
  by (simp add: blob_oid_format parse_format_oid sha256_hex_digest)

lemma blob_oid_inject: "blob_oid h bs = blob_oid h cs \<longleftrightarrow> h bs = h cs"
  by (simp add: blob_oid_def sha256_hex_def lower_hex_inject)

lemma verify_blob_oid_iff:
  assumes "\<And>b. length (sha256 b) = 32"
  shows "verify_blob_oid sha256 claimed bs = Inr () \<longleftrightarrow> claimed = blob_oid sha256 bs"
  using assms by (auto simp: verify_blob_oid_def result_simps parse_blob_oid)

section \<open>Portable paths\<close>

datatype portable_path_error_kind =
    PathEmpty | LeadingSlash | Backslash | WindowsDriveLetter
  | CurrentDirSegment | ParentDirSegment | EmptySegment | NulByte

definition is_portable_segment :: "str \<Rightarrow> bool" where
  "is_portable_segment segment \<longleftrightarrow> segment \<noteq> [] \<and> segment \<noteq> ''.'' \<and> segment \<noteq> ''..''
     \<and> \<not> (CHR ''/'' \<in> set segment \<or> CHR 0x00 \<in> set segment)"

definition has_windows_drive_letter_prefix :: "str \<Rightarrow> bool" where
  "has_windows_drive_letter_prefix path \<longleftrightarrow>
     2 \<le> length path \<and> is_ascii_alphabetic (path ! 0) \<and> path ! 1 = CHR '':''"

fun check_path_segments :: "str list \<Rightarrow> portable_path_error_kind + unit" where
  "check_path_segments [] = Inr ()"
| "check_path_segments (segment # rest) =
     (if segment = [] then Inl EmptySegment
      else if segment = ''.'' then Inl CurrentDirSegment
      else if segment = ''..'' then Inl ParentDirSegment
      else check_path_segments rest)"

definition is_portable_relative_path :: "str \<Rightarrow> portable_path_error_kind + unit" where
  "is_portable_relative_path path =
     (if path = [] then Inl PathEmpty
      else if starts_with path ''/'' then Inl LeadingSlash
      else if CHR 0x5C \<in> set path then Inl Backslash
      else if has_windows_drive_letter_prefix path then Inl WindowsDriveLetter
      else if CHR 0x00 \<in> set path then Inl NulByte
      else check_path_segments (split_on (CHR ''/'') path))"

lemma check_path_segments_ok:
  "check_path_segments ss = Inr () \<longleftrightarrow> (\<forall>s\<in>set ss. s \<noteq> [] \<and> s \<noteq> ''.'' \<and> s \<noteq> ''..'')"
  by (induction ss) auto

lemma set_split_on: "x \<in> set s \<and> x \<noteq> c \<longleftrightarrow> (\<exists>seg\<in>set (split_on c s). x \<in> set seg)"
proof (induction s)
  case (Cons y ys)
  then show ?case by (auto split: list.splits)
qed simp

lemma split_on_leading:
  assumes "starts_with path [c]" shows "[] \<in> set (split_on c path)"
  using assms by (auto simp: starts_with_iff)

lemma portable_path_iff:
  "is_portable_relative_path path = Inr () \<longleftrightarrow>
     (\<forall>seg\<in>set (split_on (CHR ''/'') path). is_portable_segment seg)
     \<and> CHR 0x5C \<notin> set path \<and> \<not> has_windows_drive_letter_prefix path"
proof -
  have nul: "CHR 0x00 \<in> set path \<longleftrightarrow> (\<exists>seg\<in>set (split_on (CHR ''/'') path). CHR 0x00 \<in> set seg)"
    using set_split_on [of "CHR 0x00" path "CHR ''/''"] by simp
  have slash: "\<forall>seg\<in>set (split_on (CHR ''/'') path). CHR ''/'' \<notin> set seg"
    using split_on_free by blast
  show ?thesis
    using nul slash split_on_leading [of path "CHR ''/''"]
    by (auto simp: is_portable_relative_path_def check_path_segments_ok is_portable_segment_def)
qed

section \<open>Properties\<close>

text \<open>
  C21: \<open>parse_oid\<close> accepts exactly the four-part identifiers: a family prefix, the fixed version
  and algorithm, and 64 lower-case hexadecimal digits; every other text is \<open>schema_invalid\<close>.
\<close>

theorem parse_oid_exact:
  "(parse_oid oid = Inr k \<longleftrightarrow> (\<exists>d. oid = format_oid k d \<and> is_digest d))
   \<and> (\<forall>e. parse_oid oid = Inl e \<longrightarrow> e = SchemaInvalid)"
  using parse_oid_cases parse_format_oid parse_oid_error by metis

theorem parse_oid_exact_witness:
  "parse_oid (format_oid Tree (replicate 64 (CHR ''a''))) = Inr Tree \<and> parse_oid ''tree:'' = Inl SchemaInvalid"
proof -
  have "is_digest (replicate 64 (CHR ''a''))" by (simp add: is_digest_def list_all_iff text_defs)
  moreover have "parse_oid ''tree:'' = Inl SchemaInvalid" by code_simp
  ultimately show ?thesis
    using parse_oid_exact [of "format_oid Tree (replicate 64 (CHR ''a''))" Tree] by blast
qed

text \<open>
  \<open>verify_blob_oid\<close> accepts exactly the identifier \<open>blob_oid\<close> computes for those bytes, for any
  32-byte digest function; a well-formed identifier of other bytes is \<open>oid_mismatch\<close>.
\<close>

theorem verify_blob_oid_exact:
  assumes "\<And>b. length (sha256 b) = 32"
  shows "(verify_blob_oid sha256 claimed bs = Inr () \<longleftrightarrow> claimed = blob_oid sha256 bs)
    \<and> (sha256 other \<noteq> sha256 bs \<longrightarrow> verify_blob_oid sha256 (blob_oid sha256 other) bs = Inl OidMismatch)"
proof -
  have "verify_blob_oid sha256 (blob_oid sha256 other) bs = Inl OidMismatch" if "sha256 other \<noteq> sha256 bs"
    using that parse_blob_oid [of sha256 other] assms by (simp add: verify_blob_oid_def blob_oid_inject)
  then show ?thesis using verify_blob_oid_iff [of sha256 claimed bs] assms by blast
qed

theorem verify_blob_oid_exact_witness:
  "verify_blob_oid (\<lambda>b. take 32 (b @ replicate 32 (CHR ''x'')))
     (blob_oid (\<lambda>b. take 32 (b @ replicate 32 (CHR ''x''))) ''one'') ''two'' = Inl OidMismatch"
proof -
  let ?h = "\<lambda>b :: bytes. take 32 (b @ replicate 32 (CHR ''x''))"
  have "?h ''one'' \<noteq> ?h ''two''" by code_simp
  moreover have "\<And>b. length (?h b) = 32" by simp
  ultimately show ?thesis using verify_blob_oid_exact [of ?h "[]" "''two''" "''one''"] by blast
qed

text \<open>
  The two portable-path predicates agree. A relative path is portable exactly when every
  \<open>/\<close>-separated segment is a portable segment and the path has no backslash and no drive-letter
  prefix; the inline segment rules of \<open>is_portable_relative_path\<close> add and lose nothing.
\<close>

theorem portable_path_agreement:
  "is_portable_relative_path path = Inr () \<longleftrightarrow>
     (\<forall>seg\<in>set (split_on (CHR ''/'') path). is_portable_segment seg)
     \<and> CHR 0x5C \<notin> set path \<and> \<not> has_windows_drive_letter_prefix path"
  by (rule portable_path_iff)

theorem portable_path_agreement_witness:
  "is_portable_relative_path ''a/b.txt'' = Inr () \<and> is_portable_relative_path ''a/../b'' \<noteq> Inr ()"
proof -
  have "(\<forall>seg\<in>set (split_on (CHR ''/'') ''a/b.txt''). is_portable_segment seg)
      \<and> CHR 0x5C \<notin> set ''a/b.txt'' \<and> \<not> has_windows_drive_letter_prefix ''a/b.txt''" by code_simp
  moreover have "\<not> (\<forall>seg\<in>set (split_on (CHR ''/'') ''a/../b''). is_portable_segment seg)" by code_simp
  ultimately show ?thesis using portable_path_agreement by blast
qed

end
