(* ===== verification/Decimal_Text.thy ===== *)
theory Decimal_Text
  imports Prelude
begin

text \<open>
  Decimal text as the Rust standard library prints and the program reads it: \<open>Display\<close> of
  integers, zero padding (\<open>{:04}\<close>), and the digit folds of the timestamp, number and
  fixed-point parsers. The order lemma is what makes comparing timestamps as strings sound.
\<close>

definition digit_char :: "nat \<Rightarrow> byte" where
  "digit_char n = char_of (48 + n)"

definition digit_val :: "byte \<Rightarrow> nat" where
  "digit_val c = byte_val c - 48"

definition all_digits :: "str \<Rightarrow> bool" where
  "all_digits s \<longleftrightarrow> list_all is_ascii_digit s"

definition digits_val :: "str \<Rightarrow> nat" where
  "digits_val s = foldl (\<lambda>number digit. number * 10 + digit_val digit) 0 s"

fun nat_to_str :: "nat \<Rightarrow> str" where
  "nat_to_str n = (if n < 10 then [digit_char n] else nat_to_str (n div 10) @ [digit_char (n mod 10)])"

declare nat_to_str.simps [simp del]

definition int_to_str :: "int \<Rightarrow> str" where
  "int_to_str i = (if i < 0 then CHR ''-'' # nat_to_str (nat (- i)) else nat_to_str (nat i))"

definition zero_padded :: "nat \<Rightarrow> nat \<Rightarrow> str" where
  "zero_padded width n = replicate (width - length (nat_to_str n)) (CHR ''0'') @ nat_to_str n"

section \<open>Digits\<close>

lemma byte_val_digit_char [simp]: "n < 10 \<Longrightarrow> byte_val (digit_char n) = 48 + n"
  by (simp add: digit_char_def)

lemma digit_val_char [simp]: "n < 10 \<Longrightarrow> digit_val (digit_char n) = n"
  by (simp add: digit_val_def)

lemma digit_char_digit [simp]: "n < 10 \<Longrightarrow> is_ascii_digit (digit_char n)"
  by (simp add: is_ascii_digit_def)

lemma digit_val_lt: "is_ascii_digit c \<Longrightarrow> digit_val c < 10"
  by (auto simp: is_ascii_digit_def digit_val_def)

lemma digit_char_val [simp]: "is_ascii_digit c \<Longrightarrow> digit_char (digit_val c) = c"
  by (auto simp: is_ascii_digit_def digit_val_def digit_char_def)

lemma byte_val_inject: "byte_val c = byte_val d \<longleftrightarrow> c = d"
  by simp

lemma byte_less_iff: "c < d \<longleftrightarrow> byte_val c < byte_val d"
  by (simp add: less_char_def)

lemma digit_less_iff:
  "is_ascii_digit c \<Longrightarrow> is_ascii_digit d \<Longrightarrow> c < d \<longleftrightarrow> digit_val c < digit_val d"
  by (auto simp: byte_less_iff is_ascii_digit_def digit_val_def)

lemma all_digits_simps [simp]:
  "all_digits []" "all_digits (c # s) \<longleftrightarrow> is_ascii_digit c \<and> all_digits s"
  "all_digits (s @ t) \<longleftrightarrow> all_digits s \<and> all_digits t"
  by (simp_all add: all_digits_def)

lemma all_digits_replicate [simp]: "all_digits (replicate n (CHR ''0''))"
  by (simp add: all_digits_def list_all_iff is_ascii_digit_def)

lemma digits_val_foldl:
  "foldl (\<lambda>number digit. number * 10 + digit_val digit) a s
   = a * 10 ^ length s + foldl (\<lambda>number digit. number * 10 + digit_val digit) 0 s"
proof (induction s arbitrary: a)
  case (Cons c s)
  show ?case
    using Cons.IH [of "a * 10 + digit_val c"] Cons.IH [of "digit_val c"]
    by (simp add: algebra_simps)
qed simp

lemma digits_val_Nil [simp]: "digits_val [] = 0"
  by (simp add: digits_val_def)

lemma digits_val_Cons: "digits_val (c # s) = digit_val c * 10 ^ length s + digits_val s"
  using digits_val_foldl [of "digit_val c" s] by (simp add: digits_val_def)

lemma digits_val_append: "digits_val (s @ t) = digits_val s * 10 ^ length t + digits_val t"
  by (induction s) (auto simp: digits_val_Cons power_add algebra_simps)

lemma digits_val_zeros [simp]: "digits_val (replicate n (CHR ''0'') @ s) = digits_val s"
  by (induction n) (auto simp: digits_val_Cons digit_val_def)

lemma digits_val_less: "all_digits s \<Longrightarrow> digits_val s < 10 ^ length s"
proof (induction s)
  case (Cons c s)
  then have "digit_val c \<le> 9" "digits_val s < 10 ^ length s"
    using digit_val_lt [of c] by auto
  then have "digit_val c * 10 ^ length s + digits_val s < 9 * 10 ^ length s + 10 ^ length s"
    by (intro add_le_less_mono mult_right_mono) auto
  then show ?case by (simp add: digits_val_Cons)
qed simp

lemma digits_order:
  "length a = length b \<Longrightarrow> all_digits a \<Longrightarrow> all_digits b \<Longrightarrow> a < b \<longleftrightarrow> digits_val a < digits_val b"
proof (induction a b rule: list_induct2)
  case (Cons x xs y ys)
  have bx: "digits_val xs < 10 ^ length ys" and by': "digits_val ys < 10 ^ length ys"
    using Cons digits_val_less by force+
  show ?case
  proof (cases "digit_val x" "digit_val y" rule: linorder_cases)
    case less
    then have "digit_val x * 10 ^ length ys + 10 ^ length ys \<le> digit_val y * 10 ^ length ys"
      by (metis Suc_leI add.commute mult_Suc mult_le_mono1)
    with bx less Cons show ?thesis
      by (auto simp: digits_val_Cons digit_less_iff)
  next
    case equal
    then have "x = y" using Cons.prems by (metis all_digits_simps(2) digit_char_val)
    with Cons show ?thesis by (simp add: digits_val_Cons)
  next
    case greater
    then have "digit_val y * 10 ^ length ys + 10 ^ length ys \<le> digit_val x * 10 ^ length ys"
      by (metis Suc_leI add.commute mult_Suc mult_le_mono1)
    moreover have "\<not> x < y" "x \<noteq> y" using greater Cons.prems by (auto simp: digit_less_iff)
    ultimately show ?thesis using by' Cons
      by (auto simp: digits_val_Cons)
  qed
qed simp

lemma digits_inject:
  "length a = length b \<Longrightarrow> all_digits a \<Longrightarrow> all_digits b \<Longrightarrow> digits_val a = digits_val b \<Longrightarrow> a = b"
  by (metis digits_order less_irrefl linorder_neqE)

section \<open>Printing\<close>

lemma nat_to_str_not_Nil [simp]: "nat_to_str n \<noteq> []"
  by (subst nat_to_str.simps) simp

lemma nat_to_str_digits [simp]: "all_digits (nat_to_str n)"
  by (induction n rule: nat_to_str.induct) (subst nat_to_str.simps, simp)

lemma digits_val_nat_to_str [simp]: "digits_val (nat_to_str n) = n"
proof (induction n rule: nat_to_str.induct)
  case (1 n)
  then show ?case
    by (subst nat_to_str.simps) (auto simp: digits_val_append digits_val_Cons)
qed

lemma length_nat_to_str: "0 < w \<Longrightarrow> length (nat_to_str n) \<le> w \<longleftrightarrow> n < 10 ^ w"
proof (induction n arbitrary: w rule: nat_to_str.induct)
  case (1 n)
  show ?case
  proof (cases "n < 10")
    case True
    have "(10::nat) \<le> 10 ^ w" using \<open>0 < w\<close> by (cases w) auto
    then have "n < 10 ^ w" using True by linarith
    with True \<open>0 < w\<close> show ?thesis by (subst nat_to_str.simps) simp
  next
    case False
    then have len: "length (nat_to_str n) = Suc (length (nat_to_str (n div 10)))"
      by (subst nat_to_str.simps) simp
    show ?thesis
    proof (cases "w = 1")
      case True
      with False len show ?thesis by simp
    next
      case w: False
      with \<open>0 < w\<close> obtain v where v: "w = Suc v" "0 < v" by (cases w) auto
      then have "length (nat_to_str n) \<le> w \<longleftrightarrow> n div 10 < 10 ^ v"
        using 1(1) [OF False] len by simp
      also have "\<dots> \<longleftrightarrow> n < 10 ^ w" by (simp add: v less_mult_imp_div_less div_less_iff_less_mult mult.commute)
      finally show ?thesis .
    qed
  qed
qed

lemma nat_to_str_leading: "hd (nat_to_str n) = CHR ''0'' \<longleftrightarrow> n = 0"
proof (induction n rule: nat_to_str.induct)
  case (1 n)
  show ?case
  proof (cases "n < 10")
    case True
    have "byte_val (digit_char n) = byte_val (CHR ''0'') \<longleftrightarrow> n = 0"
      using True by simp
    then have "digit_char n = CHR ''0'' \<longleftrightarrow> n = 0" by (simp only: byte_val_inject)
    with True show ?thesis by (subst nat_to_str.simps) simp
  next
    case False
    with 1 show ?thesis by (subst nat_to_str.simps) simp
  qed
qed

text \<open>Digits without a leading zero are what printing produces.\<close>

lemma nat_to_str_unique:
  assumes "all_digits s" "s \<noteq> []" "s = ''0'' \<or> hd s \<noteq> CHR ''0''"
  shows "nat_to_str (digits_val s) = s"
  using assms
proof (induction s rule: rev_induct)
  case (snoc c s)
  have c: "is_ascii_digit c" "digit_val c < 10" using snoc.prems digit_val_lt by auto
  show ?case
  proof (cases "s = []")
    case True
    with c show ?thesis by (subst nat_to_str.simps) (simp add: digits_val_Cons)
  next
    case False
    with snoc have IH: "nat_to_str (digits_val s) = s" and hd: "hd s \<noteq> CHR ''0''" by auto
    have "digits_val s \<noteq> 0" using nat_to_str_leading [of "digits_val s"] IH hd by auto
    with c IH show ?thesis
      by (subst nat_to_str.simps) (simp add: digits_val_append digits_val_Cons)
  qed
qed simp

lemma zero_padded_digits [simp]: "all_digits (zero_padded w n)"
  by (simp add: zero_padded_def)

lemma zero_padded_val [simp]: "digits_val (zero_padded w n) = n"
  by (simp add: zero_padded_def)

lemma length_zero_padded: "0 < w \<Longrightarrow> n < 10 ^ w \<Longrightarrow> length (zero_padded w n) = w"
  using length_nat_to_str [of w n] by (simp add: zero_padded_def)

lemma zero_padded_unique:
  "0 < length s \<Longrightarrow> all_digits s \<Longrightarrow> zero_padded (length s) (digits_val s) = s"
  by (rule digits_inject) (auto simp: length_zero_padded digits_val_less)

end
