(* ===== verification/Canonical_Time.thy ===== *)
theory Canonical_Time
  imports Canonical_Oid Decimal_Text
begin

text \<open>
  Canonical timestamps: the parser of \<^verbatim>\<open>synapse-canonical\<close>
  (\<open>parse_canonical_timestamp_unix_nanos\<close> and its civil-calendar helpers) and the value type of
  \<^verbatim>\<open>synapse-schema\<close> (\<^verbatim>\<open>src/crates/synapse-schema/src/canonical_timestamp.rs\<close>), which prints an
  instant with a binary search for the year and a month loop.

  The \<open>u32\<close> fields are at most nine decimal digits, so \<^typ>\<open>nat\<close> is exact for them; the
  \<open>i128\<close> arithmetic stays below \<open>2^80\<close> for every four-digit year, so \<^typ>\<open>int\<close> is exact too.
  The month loop has no bound of its own: it is an \<open>option\<close>-valued partial function, and
  that it returns is a lemma.
\<close>

section \<open>Civil calendar (synapse-canonical)\<close>

definition is_civil_leap_year :: "nat \<Rightarrow> bool" where
  "is_civil_leap_year year \<longleftrightarrow> year mod 4 = 0 \<and> (year mod 100 \<noteq> 0 \<or> year mod 400 = 0)"

definition days_in_civil_month :: "nat \<Rightarrow> nat \<Rightarrow> nat" where
  "days_in_civil_month year month =
     (if month \<in> {1, 3, 5, 7, 8, 10, 12} then 31
      else if month \<in> {4, 6, 9, 11} then 30
      else if month = 2 then (if is_civil_leap_year year then 29 else 28)
      else 0)"

definition days_before_civil_year :: "nat \<Rightarrow> int" where
  "days_before_civil_year year =
     (if year = 0 then 0
      else let completed = int (year - 1)
           in int year * 365 + completed div 4 - completed div 100 + completed div 400 + 1)"

section \<open>Parsing (synapse-canonical)\<close>

datatype timestamp_parse_error_kind = ParseInvalidLexicalForm | ParseInvalidCalendarDate

definition timestamp_lexical :: "bytes \<Rightarrow> bool" where
  "timestamp_lexical b \<longleftrightarrow>
     length b = 30
     \<and> b ! 4 = CHR ''-'' \<and> b ! 7 = CHR ''-'' \<and> b ! 10 = CHR ''T'' \<and> b ! 13 = CHR '':''
     \<and> b ! 16 = CHR '':'' \<and> b ! 19 = CHR ''.'' \<and> b ! 29 = CHR ''Z''
     \<and> list_all (\<lambda>i. i \<in> {4, 7, 10, 13, 16, 19, 29} \<or> is_ascii_digit (b ! i)) [0..<length b]"

definition timestamp_number :: "bytes \<Rightarrow> nat \<Rightarrow> nat \<Rightarrow> nat" where
  "timestamp_number b start stop = digits_val (take (stop - start) (drop start b))"

definition parse_canonical_timestamp_unix_nanos ::
    "str \<Rightarrow> timestamp_parse_error_kind + int" where
  "parse_canonical_timestamp_unix_nanos value =
     (if \<not> timestamp_lexical value then Inl ParseInvalidLexicalForm
      else
        let year = timestamp_number value 0 4;
            month = timestamp_number value 5 7;
            day = timestamp_number value 8 10;
            hour = timestamp_number value 11 13;
            minute = timestamp_number value 14 16;
            second = timestamp_number value 17 19;
            nanos = timestamp_number value 20 29
        in if \<not> (1 \<le> month \<and> month \<le> 12) \<or> day = 0 \<or> days_in_civil_month year month < day
              \<or> 23 < hour \<or> 59 < minute \<or> 59 < second
           then Inl ParseInvalidCalendarDate
           else
             let day_of_year =
                   (\<Sum>candidate\<leftarrow>[1..<month]. int (days_in_civil_month year candidate)) + int (day - 1);
                 absolute_days = days_before_civil_year year + day_of_year;
                 unix_days = absolute_days - days_before_civil_year 1970;
                 unix_seconds = unix_days * 86400 + int hour * 3600 + int minute * 60 + int second
             in Inr (unix_seconds * 1000000000 + int nanos))"

section \<open>The timestamp value type (synapse-schema)\<close>

datatype timestamp_error_kind = TsInvalidLexicalForm | TsInvalidCalendarDate | TsOutOfRange

record canonical_timestamp =
  encoded :: str
  unix_nanos :: int

definition is_leap_year :: "nat \<Rightarrow> bool" where
  "is_leap_year year \<longleftrightarrow> year mod 4 = 0 \<and> (year mod 100 \<noteq> 0 \<or> year mod 400 = 0)"

definition days_in_month :: "nat \<Rightarrow> nat \<Rightarrow> nat" where
  "days_in_month year month =
     (if month \<in> {1, 3, 5, 7, 8, 10, 12} then 31
      else if month \<in> {4, 6, 9, 11} then 30
      else if month = 2 then (if is_leap_year year then 29 else 28)
      else 0)"

definition days_before_year :: "nat \<Rightarrow> int" where
  "days_before_year year =
     (if year = 0 then 0
      else let completed = int (year - 1)
           in int year * 365 + completed div 4 - completed div 100 + completed div 400 + 1)"

definition timestamp_parse :: "str \<Rightarrow> timestamp_error_kind + canonical_timestamp" where
  "timestamp_parse value =
     bindE (map_err (\<lambda>k. case k of
              ParseInvalidLexicalForm \<Rightarrow> TsInvalidLexicalForm
            | ParseInvalidCalendarDate \<Rightarrow> TsInvalidCalendarDate)
            (parse_canonical_timestamp_unix_nanos value)) (\<lambda>nanos.
     Inr \<lparr>encoded = value, unix_nanos = nanos\<rparr>)"

text \<open>The binary search for the year and the month loop of \<open>from_unix_nanos\<close>.\<close>

function find_year :: "int \<Rightarrow> nat \<Rightarrow> nat \<Rightarrow> nat" where
  "find_year absolute_days lower upper =
     (if lower + 1 < upper then
        let middle = lower + (upper - lower) div 2
        in if days_before_year middle \<le> absolute_days
           then find_year absolute_days middle upper
           else find_year absolute_days lower middle
      else lower)"
  by pat_completeness auto
termination
  by (relation "measure (\<lambda>(a, lower, upper). upper - lower)") auto

declare find_year.simps [simp del]

partial_function (option) find_month :: "nat \<Rightarrow> nat \<Rightarrow> int \<Rightarrow> (nat \<times> int) option" where
  "find_month year month day_of_year =
     (if int (days_in_month year month) \<le> day_of_year
      then find_month year (month + 1) (day_of_year - int (days_in_month year month))
      else Some (month, day_of_year))"

definition format_timestamp :: "nat \<Rightarrow> nat \<Rightarrow> nat \<Rightarrow> nat \<Rightarrow> nat \<Rightarrow> nat \<Rightarrow> nat \<Rightarrow> str" where
  "format_timestamp year month day hour minute second nanos =
     zero_padded 4 year @ CHR ''-'' # zero_padded 2 month @ CHR ''-'' # zero_padded 2 day
     @ CHR ''T'' # zero_padded 2 hour @ CHR '':'' # zero_padded 2 minute
     @ CHR '':'' # zero_padded 2 second @ CHR ''.'' # zero_padded 9 nanos @ ''Z''"

definition from_unix_nanos :: "int \<Rightarrow> (timestamp_error_kind + canonical_timestamp) option" where
  "from_unix_nanos n =
     (let unix_seconds = n div 1000000000;
          nanos = n mod 1000000000;
          unix_days = unix_seconds div 86400;
          second_of_day = unix_seconds mod 86400;
          absolute_days = unix_days + days_before_year 1970
      in if absolute_days < 0 \<or> days_before_year 10000 \<le> absolute_days
         then Some (Inl TsOutOfRange)
         else
           let year = find_year absolute_days 0 10000
           in map_option (\<lambda>(month, day_of_year).
                let day = day_of_year + 1;
                    hour = second_of_day div 3600;
                    minute = second_of_day mod 3600 div 60;
                    second = second_of_day mod 60
                in Inr \<lparr>encoded = format_timestamp year month (nat day) (nat hour) (nat minute)
                                    (nat second) (nat nanos),
                        unix_nanos = n\<rparr>)
              (find_month year 1 (absolute_days - days_before_year year)))"

section \<open>Layout of the text\<close>

definition timestamp_layout :: "str \<Rightarrow> str \<Rightarrow> str \<Rightarrow> str \<Rightarrow> str \<Rightarrow> str \<Rightarrow> str \<Rightarrow> str" where
  "timestamp_layout y mo d h mi s n =
     y @ CHR ''-'' # mo @ CHR ''-'' # d @ CHR ''T'' # h @ CHR '':'' # mi @ CHR '':'' # s
     @ CHR ''.'' # n @ ''Z''"

definition timestamp_fields :: "str \<Rightarrow> str \<Rightarrow> str \<Rightarrow> str \<Rightarrow> str \<Rightarrow> str \<Rightarrow> str \<Rightarrow> bool" where
  "timestamp_fields y mo d h mi s n \<longleftrightarrow>
     length y = 4 \<and> length mo = 2 \<and> length d = 2 \<and> length h = 2 \<and> length mi = 2 \<and> length s = 2
     \<and> length n = 9 \<and> all_digits y \<and> all_digits mo \<and> all_digits d \<and> all_digits h
     \<and> all_digits mi \<and> all_digits s \<and> all_digits n"

lemma drop_field: "i + k < length b \<Longrightarrow> drop i b = take k (drop i b) @ b ! (i + k) # drop (i + k + 1) b"
  by (metis Cons_nth_drop_Suc Suc_eq_plus1 add.commute append_take_drop_id drop_drop)

lemma digits_slice:
  assumes "\<And>j. j < k \<Longrightarrow> is_ascii_digit (b ! (i + j))" "i + k \<le> length b"
  shows "all_digits (take k (drop i b))"
  using assms by (auto simp: all_digits_def list_all_length)

lemma length_explicit:
  "length s = 2 \<Longrightarrow> \<exists>a b. s = [a, b]"
  "length s = 4 \<Longrightarrow> \<exists>a b c d. s = [a, b, c, d]"
  "length s = 9 \<Longrightarrow> \<exists>a b c d e f g h i. s = [a, b, c, d, e, f, g, h, i]"
  by (simp_all add: numeral_eq_Suc length_Suc_conv) metis+

lemma layout_lexical:
  assumes "timestamp_fields y mo d h mi s n"
  shows "timestamp_lexical (timestamp_layout y mo d h mi s n)"
proof -
  note F = assms [unfolded timestamp_fields_def]
  from F obtain y0 y1 y2 y3 where y: "y = [y0, y1, y2, y3]"
    using length_explicit(2) by blast
  from F obtain mo0 mo1 d0 d1 h0 h1 mi0 mi1 s0 s1
    where two: "mo = [mo0, mo1]" "d = [d0, d1]" "h = [h0, h1]" "mi = [mi0, mi1]" "s = [s0, s1]"
    using length_explicit(1) by metis
  from F obtain n0 n1 n2 n3 n4 n5 n6 n7 n8 where n: "n = [n0, n1, n2, n3, n4, n5, n6, n7, n8]"
    using length_explicit(3) by blast
  show ?thesis
    using F unfolding timestamp_lexical_def timestamp_layout_def y two n by simp
qed

lemma lexical_layout:
  assumes "timestamp_lexical b"
  obtains y mo d h mi s n where "timestamp_fields y mo d h mi s n"
    "b = timestamp_layout y mo d h mi s n"
proof -
  have len: "length b = 30"
    and sep: "b ! 4 = CHR ''-''" "b ! 7 = CHR ''-''" "b ! 10 = CHR ''T''" "b ! 13 = CHR '':''"
      "b ! 16 = CHR '':''" "b ! 19 = CHR ''.''" "b ! 29 = CHR ''Z''"
    using assms by (auto simp: timestamp_lexical_def)
  have dig: "is_ascii_digit (b ! i)" if "i < 30" "i \<notin> {4, 7, 10, 13, 16, 19, 29}" for i
    using assms that by (auto simp: timestamp_lexical_def list_all_iff)
  have y: "all_digits (take 4 b)"
    using digits_slice [of 4 b 0] dig len by simp
  have "timestamp_fields (take 4 (drop 0 b)) (take 2 (drop 5 b)) (take 2 (drop 8 b))
      (take 2 (drop 11 b)) (take 2 (drop 14 b)) (take 2 (drop 17 b)) (take 9 (drop 20 b))"
    unfolding timestamp_fields_def using len y by (auto intro!: digits_slice dig)
  moreover have "b = timestamp_layout (take 4 (drop 0 b)) (take 2 (drop 5 b)) (take 2 (drop 8 b))
      (take 2 (drop 11 b)) (take 2 (drop 14 b)) (take 2 (drop 17 b)) (take 9 (drop 20 b))"
    using drop_field [of 0 4 b] drop_field [of 5 2 b] drop_field [of 8 2 b] drop_field [of 11 2 b]
      drop_field [of 14 2 b] drop_field [of 17 2 b] drop_field [of 20 9 b] len sep
    unfolding timestamp_layout_def by simp
  ultimately show thesis by (rule that)
qed

lemma number_layout:
  assumes "timestamp_fields y mo d h mi s n"
  shows "timestamp_number (timestamp_layout y mo d h mi s n) 0 4 = digits_val y"
    "timestamp_number (timestamp_layout y mo d h mi s n) 5 7 = digits_val mo"
    "timestamp_number (timestamp_layout y mo d h mi s n) 8 10 = digits_val d"
    "timestamp_number (timestamp_layout y mo d h mi s n) 11 13 = digits_val h"
    "timestamp_number (timestamp_layout y mo d h mi s n) 14 16 = digits_val mi"
    "timestamp_number (timestamp_layout y mo d h mi s n) 17 19 = digits_val s"
    "timestamp_number (timestamp_layout y mo d h mi s n) 20 29 = digits_val n"
  using assms unfolding timestamp_fields_def timestamp_number_def timestamp_layout_def
  by (simp_all add: drop_Cons')

section \<open>Calendar arithmetic\<close>

text \<open>Both crates carry the same calendar.\<close>

lemma calendars_agree:
  "is_leap_year = is_civil_leap_year"
  "days_in_month = days_in_civil_month"
  "days_before_year = days_before_civil_year"
  by (simp_all add: fun_eq_iff is_leap_year_def is_civil_leap_year_def days_in_month_def
      days_in_civil_month_def days_before_year_def days_before_civil_year_def)

definition year_length :: "nat \<Rightarrow> int" where
  "year_length y = (if is_civil_leap_year y then 366 else 365)"

definition days_before_month :: "nat \<Rightarrow> nat \<Rightarrow> int" where
  "days_before_month y m = (\<Sum>c\<leftarrow>[1..<m]. int (days_in_civil_month y c))"

definition valid_date :: "nat \<Rightarrow> nat \<Rightarrow> nat \<Rightarrow> bool" where
  "valid_date y m d \<longleftrightarrow> 1 \<le> m \<and> m \<le> 12 \<and> 1 \<le> d \<and> d \<le> days_in_civil_month y m"

definition absolute_day :: "nat \<Rightarrow> nat \<Rightarrow> nat \<Rightarrow> int" where
  "absolute_day y m d = days_before_civil_year y + (days_before_month y m + int (d - 1))"

lemma int_div_Suc: "int (Suc m div k) = int (m div k) + (if Suc m mod k = 0 then 1 else 0)"
  by (simp add: div_Suc)

lemma days_before_Suc: "days_before_civil_year (Suc y) = days_before_civil_year y + year_length y"
proof (cases y)
  case 0
  then show ?thesis
    by (simp add: days_before_civil_year_def year_length_def is_civil_leap_year_def)
next
  case (Suc m)
  have gen: "int y div int k = int m div int k + (if y mod k = 0 then 1 else 0)" for k
    using int_div_Suc [of m k] by (simp only: Suc zdiv_int)
  have steps: "int y div 4 = int m div 4 + (if y mod 4 = 0 then 1 else 0)"
    "int y div 100 = int m div 100 + (if y mod 100 = 0 then 1 else 0)"
    "int y div 400 = int m div 400 + (if y mod 400 = 0 then 1 else 0)"
    using gen [of 4] gen [of 100] gen [of 400] by (simp_all only: of_nat_numeral)
  define A B C where "A \<longleftrightarrow> y mod 4 = 0" and "B \<longleftrightarrow> y mod 100 = 0" and "C \<longleftrightarrow> y mod 400 = 0"
  note ABC = A_def [symmetric] B_def [symmetric] C_def [symmetric]
  have nest: "C \<longrightarrow> B" "B \<longrightarrow> A"
    using dvd_trans [of 100 400 y] dvd_trans [of 4 100 y]
    unfolding A_def B_def C_def mod_eq_0_iff_dvd by simp_all
  have "days_before_civil_year (Suc y) = int (Suc y) * 365 + int y div 4 - int y div 100 + int y div 400 + 1"
    by (simp add: days_before_civil_year_def Let_def)
  moreover have "days_before_civil_year y = int y * 365 + int m div 4 - int m div 100 + int m div 400 + 1"
    by (simp add: days_before_civil_year_def Suc Let_def)
  ultimately show ?thesis
    using nest unfolding steps year_length_def is_civil_leap_year_def ABC
    by (cases A; cases B; cases C) simp_all
qed

lemma year_length_pos: "0 < year_length y"
  by (simp add: year_length_def)

lemma days_before_mono: "y \<le> z \<Longrightarrow> days_before_civil_year y \<le> days_before_civil_year z"
proof (induction z rule: dec_induct)
  case (step z)
  then show ?case using year_length_pos [of z] by (simp add: days_before_Suc)
qed simp

lemma days_before_less: "y < z \<Longrightarrow> days_before_civil_year y + year_length y \<le> days_before_civil_year z"
  using days_before_mono [of "Suc y" z] by (simp add: days_before_Suc)

lemma days_before_month_Suc:
  "1 \<le> m \<Longrightarrow> days_before_month y (Suc m) = days_before_month y m + int (days_in_civil_month y m)"
  by (simp add: days_before_month_def)

lemma days_before_month_1 [simp]: "days_before_month y (Suc 0) = 0"
  by (simp add: days_before_month_def)

lemma days_before_month_13: "days_before_month y 13 = year_length y"
proof -
  have "[1..<13] = [1, 2, 3, 4, 5, 6, 7, 8, 9, 10, 11, 12::nat]"
    by code_simp
  then show ?thesis
    by (simp only: days_before_month_def) (simp add: year_length_def days_in_civil_month_def)
qed

lemma days_before_month_mono: "m \<le> k \<Longrightarrow> 1 \<le> m \<Longrightarrow> days_before_month y m \<le> days_before_month y k"
proof (induction k rule: dec_induct)
  case (step k)
  then show ?case by (simp add: days_before_month_Suc)
qed simp

lemma day_of_year_bounds:
  assumes "valid_date y m d"
  shows "0 \<le> days_before_month y m + int (d - 1)"
    "days_before_month y m + int (d - 1) < days_before_month y (Suc m)"
    "days_before_month y m + int (d - 1) < year_length y"
proof -
  have m: "1 \<le> m" "m \<le> 12" and d: "1 \<le> d" "d \<le> days_in_civil_month y m"
    using assms by (auto simp: valid_date_def)
  show "0 \<le> days_before_month y m + int (d - 1)"
    using days_before_month_mono [of 1 m y] m by simp
  show *: "days_before_month y m + int (d - 1) < days_before_month y (Suc m)"
    using m d by (simp add: days_before_month_Suc)
  have "days_before_month y (Suc m) \<le> days_before_month y 13"
    using m by (intro days_before_month_mono) auto
  with * show "days_before_month y m + int (d - 1) < year_length y"
    by (simp add: days_before_month_13)
qed

text \<open>Calendar dates are ordered as their day numbers are.\<close>

lemma absolute_day_less:
  assumes "valid_date y m d" "valid_date y' m' d'"
    and "y < y' \<or> y = y' \<and> (m < m' \<or> m = m' \<and> d < d')"
  shows "absolute_day y m d < absolute_day y' m' d'"
  using assms(3)
proof (elim disjE conjE)
  assume "y < y'"
  then show ?thesis
    using day_of_year_bounds [OF assms(1)] day_of_year_bounds [OF assms(2)] days_before_less [of y y']
    by (simp add: absolute_day_def)
next
  assume "y = y'" "m < m'"
  then have "days_before_month y (Suc m) \<le> days_before_month y m'"
    using assms by (intro days_before_month_mono) (auto simp: valid_date_def)
  with \<open>y = y'\<close> show ?thesis
    using day_of_year_bounds [OF assms(1)] by (simp add: absolute_day_def)
next
  assume "y = y'" "m = m'" "d < d'"
  then show ?thesis using assms by (auto simp: absolute_day_def valid_date_def)
qed

definition instant :: "nat \<Rightarrow> nat \<Rightarrow> nat \<Rightarrow> nat \<Rightarrow> nat \<Rightarrow> nat \<Rightarrow> nat \<Rightarrow> int" where
  "instant y mo d h mi s n =
     ((absolute_day y mo d - days_before_civil_year 1970) * 86400
      + int h * 3600 + int mi * 60 + int s) * 1000000000 + int n"

definition valid_time :: "nat \<Rightarrow> nat \<Rightarrow> nat \<Rightarrow> nat \<Rightarrow> bool" where
  "valid_time h mi s n \<longleftrightarrow> h \<le> 23 \<and> mi \<le> 59 \<and> s \<le> 59 \<and> n < 1000000000"

text \<open>The parser on a text of the right layout: the calendar check, then the instant.\<close>

lemma parse_layout:
  assumes "timestamp_fields y mo d h mi s n"
  shows "parse_canonical_timestamp_unix_nanos (timestamp_layout y mo d h mi s n) =
     (if valid_date (digits_val y) (digits_val mo) (digits_val d)
         \<and> digits_val h \<le> 23 \<and> digits_val mi \<le> 59 \<and> digits_val s \<le> 59
      then Inr (instant (digits_val y) (digits_val mo) (digits_val d) (digits_val h)
                 (digits_val mi) (digits_val s) (digits_val n))
      else Inl ParseInvalidCalendarDate)"
  unfolding parse_canonical_timestamp_unix_nanos_def Let_def number_layout [OF assms]
  using layout_lexical [OF assms]
  by (auto simp: valid_date_def instant_def absolute_day_def days_before_month_def algebra_simps)

lemma parse_Inr_cases:
  assumes "parse_canonical_timestamp_unix_nanos value = Inr t"
  obtains y mo d h mi s n where "timestamp_fields y mo d h mi s n"
    "value = timestamp_layout y mo d h mi s n"
    "valid_date (digits_val y) (digits_val mo) (digits_val d)"
    "valid_time (digits_val h) (digits_val mi) (digits_val s) (digits_val n)"
    "t = instant (digits_val y) (digits_val mo) (digits_val d) (digits_val h)
           (digits_val mi) (digits_val s) (digits_val n)"
proof -
  have "timestamp_lexical value"
    using assms by (auto simp: parse_canonical_timestamp_unix_nanos_def split: if_splits)
  then obtain y mo d h mi s n where F: "timestamp_fields y mo d h mi s n"
    and v: "value = timestamp_layout y mo d h mi s n"
    by (rule lexical_layout)
  moreover have "digits_val n < 1000000000"
    using F digits_val_less [of n] by (simp add: timestamp_fields_def)
  ultimately show thesis
    using assms that [OF F v] unfolding v parse_layout [OF F]
    by (auto simp: valid_time_def split: if_splits)
qed

section \<open>Order: comparing texts compares instants\<close>

lemma append_less_append:
  fixes a b x y :: "'a::linorder list"
  shows "length a = length b \<Longrightarrow> a @ x < b @ y \<longleftrightarrow> a < b \<or> a = b \<and> x < y"
  by (induction a b rule: list_induct2) auto

lemma instant_less:
  assumes "valid_date y mo d" "valid_date y' mo' d'" "valid_time h mi s n" "valid_time h' mi' s' n'"
    and "y < y' \<or> y = y' \<and> (mo < mo' \<or> mo = mo' \<and> (d < d' \<or> d = d' \<and>
      (h < h' \<or> h = h' \<and> (mi < mi' \<or> mi = mi' \<and> (s < s' \<or> s = s' \<and> n < n')))))"
  shows "instant y mo d h mi s n < instant y' mo' d' h' mi' s' n'"
proof (cases "y = y' \<and> mo = mo' \<and> d = d'")
  case True
  with assms show ?thesis unfolding instant_def valid_time_def by auto
next
  case False
  with assms have "absolute_day y mo d < absolute_day y' mo' d'"
    by (intro absolute_day_less) auto
  moreover define D D' where "D = absolute_day y mo d" and "D' = absolute_day y' mo' d'"
  ultimately have "D + 1 \<le> D'" by simp
  then show ?thesis
    using assms(3,4) unfolding instant_def valid_time_def D_def [symmetric] D'_def [symmetric]
    by auto
qed

lemma field_compare:
  assumes "length a = length b" "all_digits a" "all_digits b"
  shows "a < b \<longleftrightarrow> digits_val a < digits_val b" "a = b \<longleftrightarrow> digits_val a = digits_val b"
  using assms digits_order digits_inject by blast+

lemma layout_less:
  assumes "timestamp_fields y mo d h mi s n" "timestamp_fields y' mo' d' h' mi' s' n'"
  shows "timestamp_layout y mo d h mi s n < timestamp_layout y' mo' d' h' mi' s' n' \<longleftrightarrow>
    y < y' \<or> y = y' \<and> (mo < mo' \<or> mo = mo' \<and> (d < d' \<or> d = d' \<and>
      (h < h' \<or> h = h' \<and> (mi < mi' \<or> mi = mi' \<and> (s < s' \<or> s = s' \<and> n < n')))))"
  using assms unfolding timestamp_fields_def timestamp_layout_def
  by (simp add: append_less_append)

lemma parse_less_imp:
  assumes "parse_canonical_timestamp_unix_nanos v = Inr t"
    and "parse_canonical_timestamp_unix_nanos v' = Inr t'"
    and "v < v'"
  shows "t < t'"
proof -
  from assms(1) obtain y mo d h mi s n where F: "timestamp_fields y mo d h mi s n"
    and v: "v = timestamp_layout y mo d h mi s n"
    and V: "valid_date (digits_val y) (digits_val mo) (digits_val d)"
      "valid_time (digits_val h) (digits_val mi) (digits_val s) (digits_val n)"
    and t: "t = instant (digits_val y) (digits_val mo) (digits_val d) (digits_val h)
           (digits_val mi) (digits_val s) (digits_val n)"
    by (rule parse_Inr_cases)
  from assms(2) obtain y' mo' d' h' mi' s' n' where F': "timestamp_fields y' mo' d' h' mi' s' n'"
    and v': "v' = timestamp_layout y' mo' d' h' mi' s' n'"
    and V': "valid_date (digits_val y') (digits_val mo') (digits_val d')"
      "valid_time (digits_val h') (digits_val mi') (digits_val s') (digits_val n')"
    and t': "t' = instant (digits_val y') (digits_val mo') (digits_val d') (digits_val h')
           (digits_val mi') (digits_val s') (digits_val n')"
    by (rule parse_Inr_cases)
  have "timestamp_layout y mo d h mi s n < timestamp_layout y' mo' d' h' mi' s' n'"
    using assms(3) by (simp only: v v')
  then show ?thesis
    unfolding layout_less [OF F F'] t t' using F F'
    by (intro instant_less V V') (simp add: timestamp_fields_def field_compare)
qed

lemma parse_order:
  assumes "parse_canonical_timestamp_unix_nanos v = Inr t"
    and "parse_canonical_timestamp_unix_nanos v' = Inr t'"
  shows "v < v' \<longleftrightarrow> t < t'" "v = v' \<longleftrightarrow> t = t'"
  using parse_less_imp [OF assms] parse_less_imp [OF assms(2,1)] assms
  by (metis less_asym linorder_neqE sum.inject(2) less_irrefl)+

section \<open>Printing and the round trip\<close>

lemma find_year_bounds:
  "lower < upper \<Longrightarrow> days_before_year lower \<le> a \<Longrightarrow> a < days_before_year upper \<Longrightarrow>
   lower \<le> find_year a lower upper \<and> find_year a lower upper < upper
   \<and> days_before_year (find_year a lower upper) \<le> a
   \<and> a < days_before_year (Suc (find_year a lower upper))"
proof (induction a lower upper rule: find_year.induct)
  case (1 a lower upper)
  let ?m = "lower + (upper - lower) div 2"
  show ?case
  proof (cases "lower + 1 < upper")
    case True
    then have m: "lower < ?m" "?m < upper" by auto
    show ?thesis
    proof (cases "days_before_year ?m \<le> a")
      case le: True
      then have "find_year a lower upper = find_year a ?m upper"
        using True by (subst find_year.simps) (simp add: Let_def)
      with 1(1) [OF True refl le] le m "1.prems" show ?thesis by simp
    next
      case gt: False
      then have "find_year a lower upper = find_year a lower ?m"
        using True by (subst find_year.simps) (simp add: Let_def)
      with 1(2) [OF True refl gt] gt m "1.prems" show ?thesis by simp
    qed
  next
    case False
    with "1.prems" have "upper = Suc lower" by simp
    with False "1.prems" show ?thesis by (subst (1 2 3 4) find_year.simps) simp
  qed
qed

lemma find_month_returns:
  "1 \<le> m \<Longrightarrow> m \<le> 12 \<Longrightarrow> 0 \<le> d \<Longrightarrow> days_before_month y m + d < year_length y \<Longrightarrow>
   \<exists>m' d'. find_month y m d = Some (m', d') \<and> 1 \<le> m' \<and> m' \<le> 12 \<and> 0 \<le> d'
     \<and> d' < int (days_in_civil_month y m') \<and> days_before_month y m' + d' = days_before_month y m + d"
proof (induction "12 - m" arbitrary: m d)
  case 0
  then have "d < int (days_in_civil_month y m)"
    using days_before_month_13 [of y] days_before_month_Suc [of 12 y] by simp
  with 0 show ?case by (subst find_month.simps) (simp add: calendars_agree)
next
  case (Suc k)
  show ?case
  proof (cases "int (days_in_civil_month y m) \<le> d")
    case True
    then have step: "find_month y m d = find_month y (m + 1) (d - int (days_in_civil_month y m))"
      by (subst find_month.simps) (simp add: calendars_agree)
    show ?thesis
      unfolding step using Suc.hyps(1) [of "m + 1" "d - int (days_in_civil_month y m)"] Suc.hyps(2) Suc.prems True
      by (simp add: days_before_month_Suc)
  next
    case False
    with Suc.prems show ?thesis by (subst find_month.simps) (simp add: calendars_agree)
  qed
qed

text \<open>The instants that a four-digit year can show.\<close>

definition timestamp_in_range :: "int \<Rightarrow> bool" where
  "timestamp_in_range n \<longleftrightarrow>
     0 \<le> n div 1000000000 div 86400 + days_before_civil_year 1970
     \<and> n div 1000000000 div 86400 + days_before_civil_year 1970 < days_before_civil_year 10000"

lemma format_layout: "format_timestamp y mo d h mi s n =
  timestamp_layout (zero_padded 4 y) (zero_padded 2 mo) (zero_padded 2 d) (zero_padded 2 h)
    (zero_padded 2 mi) (zero_padded 2 s) (zero_padded 9 n)"
  by (simp add: format_timestamp_def timestamp_layout_def)

lemma days_in_month_le: "days_in_civil_month y m \<le> 31"
  by (simp add: days_in_civil_month_def)

lemma format_fields:
  assumes "y < 10000" "valid_date y mo d" "valid_time h mi s n"
  shows "timestamp_fields (zero_padded 4 y) (zero_padded 2 mo) (zero_padded 2 d) (zero_padded 2 h)
    (zero_padded 2 mi) (zero_padded 2 s) (zero_padded 9 n)"
proof -
  have "d \<le> 31" using assms(2) days_in_month_le [of y mo] by (auto simp: valid_date_def)
  with assms show ?thesis
    by (simp add: timestamp_fields_def length_zero_padded valid_date_def valid_time_def)
qed

lemma parse_format:
  assumes "y < 10000" "valid_date y mo d" "valid_time h mi s n"
  shows "parse_canonical_timestamp_unix_nanos (format_timestamp y mo d h mi s n)
    = Inr (instant y mo d h mi s n)"
  using assms unfolding format_layout parse_layout [OF format_fields [OF assms]]
  by (simp add: valid_time_def)

lemma from_unix_nanos_in_range:
  assumes "timestamp_in_range n"
  shows "\<exists>s. from_unix_nanos n = Some (Inr \<lparr>encoded = s, unix_nanos = n\<rparr>)
    \<and> parse_canonical_timestamp_unix_nanos s = Inr n"
proof -
  define secs days sod where "secs = n div 1000000000" and "days = secs div 86400"
    and "sod = secs mod 86400"
  define a where "a = days + days_before_civil_year 1970"
  define y where "y = find_year a 0 10000"
  have range: "0 \<le> a" "a < days_before_civil_year 10000"
    using assms by (simp_all add: timestamp_in_range_def a_def days_def secs_def)
  have y: "y < 10000" "days_before_civil_year y \<le> a" "a < days_before_civil_year y + year_length y"
    using find_year_bounds [of 0 10000 a] range
    by (simp_all add: y_def calendars_agree days_before_Suc days_before_civil_year_def [of 0])
  obtain m d where md: "find_month y 1 (a - days_before_civil_year y) = Some (m, d)"
    "1 \<le> m" "m \<le> 12" "0 \<le> d" "d < int (days_in_civil_month y m)"
    "days_before_month y m + d = a - days_before_civil_year y"
    using find_month_returns [of 1 "a - days_before_civil_year y" y] y by auto
  have date: "valid_date y m (nat (d + 1))" using md by (auto simp: valid_date_def nat_le_iff)
  have sod: "0 \<le> sod" "sod < 86400" by (simp_all add: sod_def)
  have time: "valid_time (nat (sod div 3600)) (nat (sod mod 3600 div 60)) (nat (sod mod 60)) (nat (n mod 1000000000))"
    using sod by (auto simp: valid_time_def nat_le_iff nat_less_iff)
  have abs: "absolute_day y m (nat (d + 1)) = a"
    using md by (simp add: absolute_day_def nat_diff_distrib' nat_add_distrib)
  have "sod div 3600 * 3600 + sod mod 3600 div 60 * 60 + sod mod 60 = sod"
  proof -
    have "sod mod 3600 mod 60 = sod mod 60" by (rule mod_mod_cancel) simp
    with div_mult_mod_eq [of sod 3600] div_mult_mod_eq [of "sod mod 3600" 60] show ?thesis
      by linarith
  qed
  moreover have "days * 86400 + sod = secs" by (simp add: days_def sod_def)
  moreover have "secs * 1000000000 + n mod 1000000000 = n" by (simp add: secs_def)
  ultimately have "instant y m (nat (d + 1)) (nat (sod div 3600)) (nat (sod mod 3600 div 60))
      (nat (sod mod 60)) (nat (n mod 1000000000)) = n"
    using sod pos_imp_zdiv_nonneg_iff [of 3600 sod] pos_imp_zdiv_nonneg_iff [of 60 "sod mod 3600"]
    unfolding instant_def abs a_def by (simp add: algebra_simps)
  with parse_format [OF y(1) date time] md(1) range show ?thesis
    unfolding from_unix_nanos_def Let_def
    by (simp add: calendars_agree secs_def [symmetric] days_def [symmetric] sod_def [symmetric]
        a_def [symmetric] y_def [symmetric])
qed

lemma from_unix_nanos_out_of_range:
  "\<not> timestamp_in_range n \<Longrightarrow> from_unix_nanos n = Some (Inl TsOutOfRange)"
  by (auto simp: timestamp_in_range_def from_unix_nanos_def Let_def calendars_agree)

lemma parse_in_range:
  assumes "parse_canonical_timestamp_unix_nanos v = Inr n"
  shows "timestamp_in_range n"
proof -
  from assms obtain y mo d h mi s ns where F: "timestamp_fields y mo d h mi s ns"
    and V: "valid_date (digits_val y) (digits_val mo) (digits_val d)"
      "valid_time (digits_val h) (digits_val mi) (digits_val s) (digits_val ns)"
    and n: "n = instant (digits_val y) (digits_val mo) (digits_val d) (digits_val h)
           (digits_val mi) (digits_val s) (digits_val ns)"
    by (rule parse_Inr_cases)
  define D where "D = absolute_day (digits_val y) (digits_val mo) (digits_val d)"
  have days: "n div 1000000000 div 86400 + days_before_civil_year 1970 = D"
    using V(2) unfolding n instant_def D_def [symmetric] valid_time_def by auto
  have "digits_val y < 10000" using F digits_val_less [of y] by (simp add: timestamp_fields_def)
  then have "days_before_civil_year (digits_val y) + year_length (digits_val y) \<le> days_before_civil_year 10000"
    by (rule days_before_less)
  moreover have "0 \<le> days_before_civil_year (digits_val y)"
    using days_before_mono [of 0 "digits_val y"] by (simp add: days_before_civil_year_def [of 0])
  ultimately show ?thesis
    using day_of_year_bounds [OF V(1)] unfolding timestamp_in_range_def days
    by (simp add: D_def absolute_day_def)
qed

text \<open>
  Printing and parsing form an exact codec on the representable instants: every instant has
  exactly one accepted spelling.
\<close>

definition print_instant :: "int \<Rightarrow> str" where
  "print_instant n = (case from_unix_nanos n of Some (Inr t) \<Rightarrow> encoded t | _ \<Rightarrow> [])"

definition read_instant :: "str \<Rightarrow> int option" where
  "read_instant s = (case timestamp_parse s of Inr t \<Rightarrow> Some (unix_nanos t) | Inl _ \<Rightarrow> None)"

lemma read_instant_iff: "read_instant s = Some n \<longleftrightarrow> parse_canonical_timestamp_unix_nanos s = Inr n"
  by (auto simp: read_instant_def timestamp_parse_def split: sum.splits
      simp: result_simps dest!: sym [of _ "bindE _ _"])

interpretation instants: exact_codec timestamp_in_range print_instant read_instant
proof
  fix n assume "timestamp_in_range n"
  from from_unix_nanos_in_range [OF this] show "read_instant (print_instant n) = Some n"
    by (auto simp: print_instant_def read_instant_iff)
next
  fix s n assume "read_instant s = Some n"
  then have p: "parse_canonical_timestamp_unix_nanos s = Inr n" by (simp add: read_instant_iff)
  then have "timestamp_in_range n" by (rule parse_in_range)
  moreover from from_unix_nanos_in_range [OF this] have
    "parse_canonical_timestamp_unix_nanos (print_instant n) = Inr n"
    by (auto simp: print_instant_def)
  ultimately show "timestamp_in_range n \<and> print_instant n = s"
    using p parse_order(2) by blast
qed

section \<open>Properties\<close>

text \<open>
  C20: printing and parsing instants invert each other. For every instant of the years 0000 to
  9999, \<open>from_unix_nanos\<close> returns (its month loop ends) a text that the parser reads as that
  instant; every other instant is \<open>OutOfRange\<close>; and a parsed text is the one \<open>from_unix_nanos\<close>
  prints for its instant, so an instant has one spelling.
\<close>

theorem timestamp_round_trip:
  "(timestamp_in_range n \<longrightarrow> (\<exists>s. from_unix_nanos n = Some (Inr \<lparr>encoded = s, unix_nanos = n\<rparr>)
      \<and> timestamp_parse s = Inr \<lparr>encoded = s, unix_nanos = n\<rparr>))
   \<and> (\<not> timestamp_in_range n \<longrightarrow> from_unix_nanos n = Some (Inl TsOutOfRange))
   \<and> (timestamp_parse s = Inr t \<longrightarrow> from_unix_nanos (unix_nanos t) = Some (Inr t))"
proof (intro conjI impI)
  show "\<exists>s. from_unix_nanos n = Some (Inr \<lparr>encoded = s, unix_nanos = n\<rparr>)
      \<and> timestamp_parse s = Inr \<lparr>encoded = s, unix_nanos = n\<rparr>" if "timestamp_in_range n"
    using from_unix_nanos_in_range [OF that] by (auto simp: timestamp_parse_def)
  show "from_unix_nanos n = Some (Inl TsOutOfRange)" if "\<not> timestamp_in_range n"
    using that by (rule from_unix_nanos_out_of_range)
  assume t: "timestamp_parse s = Inr t"
  then have p: "parse_canonical_timestamp_unix_nanos s = Inr (unix_nanos t)"
    and e: "t = \<lparr>encoded = s, unix_nanos = unix_nanos t\<rparr>"
    by (auto simp: timestamp_parse_def result_simps)
  obtain r where "from_unix_nanos (unix_nanos t) = Some (Inr \<lparr>encoded = r, unix_nanos = unix_nanos t\<rparr>)"
    "parse_canonical_timestamp_unix_nanos r = Inr (unix_nanos t)"
    using from_unix_nanos_in_range [OF parse_in_range [OF p]] by blast
  then show "from_unix_nanos (unix_nanos t) = Some (Inr t)" using p e parse_order(2) by metis
qed

theorem timestamp_round_trip_witness:
  "from_unix_nanos 0 = Some (Inr \<lparr>encoded = ''1970-01-01T00:00:00.000000000Z'', unix_nanos = 0\<rparr>)"
proof -
  have "timestamp_parse ''1970-01-01T00:00:00.000000000Z''
      = Inr \<lparr>encoded = ''1970-01-01T00:00:00.000000000Z'', unix_nanos = 0\<rparr>" by code_simp
  from timestamp_round_trip [THEN conjunct2, THEN conjunct2, rule_format, OF this] show ?thesis by simp
qed

text \<open>
  The byte order of canonical timestamps is the order of the instants they denote, which is
  what lets the rest of the workspace compare timestamps as strings.
\<close>

theorem timestamp_string_order:
  assumes "parse_canonical_timestamp_unix_nanos v = Inr t"
    and "parse_canonical_timestamp_unix_nanos w = Inr u"
  shows "(v < w \<longleftrightarrow> t < u) \<and> (v = w \<longleftrightarrow> t = u)"
  using parse_order [OF assms] by blast

theorem timestamp_string_order_witness:
  "''1969-12-31T23:59:59.999999999Z'' < ''1970-01-01T00:00:00.000000000Z''"
proof -
  have "parse_canonical_timestamp_unix_nanos ''1969-12-31T23:59:59.999999999Z'' = Inr (- 1)"
    "parse_canonical_timestamp_unix_nanos ''1970-01-01T00:00:00.000000000Z'' = Inr 0" by code_simp+
  from timestamp_string_order [OF this] show ?thesis by simp
qed

text \<open>
  The two crates' calendars (duplicated so that each crate stands alone) are the same
  functions, and consecutive years differ by the days of their months.
\<close>

theorem calendar_consistent:
  "is_leap_year = is_civil_leap_year \<and> days_in_month = days_in_civil_month
   \<and> days_before_year = days_before_civil_year
   \<and> days_before_civil_year (Suc y) - days_before_civil_year y
       = (\<Sum>m\<leftarrow>[1..<13]. int (days_in_civil_month y m))"
  using calendars_agree days_before_Suc [of y] days_before_month_13 [of y]
  by (simp add: days_before_month_def del: upt_rec_numeral)

end
