(* ===== verification/Ref_Store.thy ===== *)
theory Ref_Store
  imports Canonical_Oid "HOL-Library.AList" "HOL-Library.Multiset"
begin

text \<open>
  The mutable half of a repository, \<^verbatim>\<open>src/crates/synapse-sqlite/src/lib.rs\<close>: named Refs that
  point at Commits, and the append-only reflog.

  The two SQLite tables are lists of rows in insertion order; the statements of the source are
  functions on them, with the declared constraints (primary keys, \<open>UNIQUE\<close>, the foreign key,
  the \<open>CHECK\<close>s and \<open>AUTOINCREMENT\<close>) written out: a violated constraint is \<open>Storage\<close>. A function
  that fails drops its transaction, so an \<^const>\<open>Inl\<close> stands for an unchanged store. I/O failures
  of SQLite itself, and the private file copy behind a read-only handle, are not modelled; that a
  handle is read-only is a field of the state. Message texts of errors are dropped.

  The validator and the guard are the caller's code: arguments of the operations.
\<close>

section \<open>Data\<close>

record ref_record =
  name :: str
  head :: str
  updated_event_id :: int

record reflog_entry =
  event_id :: int
  ref_name :: str
  old_head :: "str option"
  new_head :: str
  occurred_at_unix_nanos :: int
  actor :: "str option"
  message :: "str option"

record ref_store =
  refs :: "ref_record list"
  ref_events :: "reflog_entry list"
  sequence :: int
  read_only :: bool

record ref_read_page =
  page_snapshot :: "ref_record list"
  entries :: "reflog_entry list"
  next_after_event_id :: "int option"

record ref_transition_evidence =
  evidence_snapshot :: "ref_record list"
  candidate_touch_count :: nat
  exact_transition_count :: nat
  exact_transition_entry :: "reflog_entry option"
  latest_entry :: "reflog_entry option"

record ref_archive =
  snapshot :: "ref_record list"
  reflog :: "reflog_entry list"

record ref_archive_export_limits =
  max_refs :: nat
  max_reflog_entries :: nat
  max_text_bytes :: nat

record reflog_metadata =
  md_occurred_at :: int
  md_actor :: "str option"
  md_message :: "str option"

record ref_update =
  up_ref_name :: str
  up_expected_head :: "str option"
  up_new_head :: str
  up_metadata :: reflog_metadata

record ref_precondition =
  pre_ref_name :: str
  pre_expected_head :: "str option"

datatype validation_error = ValidationError str

datatype ref_store_error =
    ReadOnly
  | ReadOnlySourceBusy
  | ReadOnlySourceChanged
  | ReadOnlySourceTooLarge
  | ReadOnlySnapshotIo
  | InvalidRefName str
  | InvalidCommitOid str
  | InvalidMetadata
  | Validation validation_error
  | RefConflict str "str option" "str option"
  | PreconditionFailed str "str option" "str option"
  | ArchiveNotEmpty
  | ArchiveInvalid
  | UnsupportedSchemaVersion int
  | Storage

primrec validation_code :: "validation_error \<Rightarrow> str" where
  "validation_code (ValidationError code) = code"

primrec ref_store_error_code :: "ref_store_error \<Rightarrow> str" where
  "ref_store_error_code ReadOnly = ''read_only''"
| "ref_store_error_code ReadOnlySourceBusy = ''read_only_source_busy''"
| "ref_store_error_code ReadOnlySourceChanged = ''read_only_source_busy''"
| "ref_store_error_code ReadOnlySourceTooLarge = ''resource_limit''"
| "ref_store_error_code ReadOnlySnapshotIo = ''storage_error''"
| "ref_store_error_code (InvalidRefName _) = ''path_segment_invalid''"
| "ref_store_error_code (InvalidCommitOid _) = ''oid_mismatch''"
| "ref_store_error_code InvalidMetadata = ''schema_invalid''"
| "ref_store_error_code (Validation e) = validation_code e"
| "ref_store_error_code (RefConflict _ _ _) = ''ref_conflict''"
| "ref_store_error_code (PreconditionFailed _ _ _) = ''ref_conflict''"
| "ref_store_error_code ArchiveNotEmpty = ''archive_invalid''"
| "ref_store_error_code ArchiveInvalid = ''archive_invalid''"
| "ref_store_error_code (UnsupportedSchemaVersion _) = ''storage_error''"
| "ref_store_error_code Storage = ''storage_error''"

definition ref_archive_resource_limit :: ref_store_error where
  "ref_archive_resource_limit = Validation (ValidationError ''resource_limit'')"

section \<open>Lexical rules\<close>

definition valid_ref_segment :: "str \<Rightarrow> bool" where
  "valid_ref_segment segment =
     (case segment of
        [] \<Rightarrow> False
      | first # rest \<Rightarrow>
          length segment \<le> 128 \<and> (is_ascii_lowercase first \<or> is_ascii_digit first)
          \<and> list_all (\<lambda>b. is_ascii_lowercase b \<or> is_ascii_digit b
                \<or> b \<in> {CHR ''.'', CHR ''_'', CHR '':'', CHR ''-''}) rest)"

definition ref_namespaces :: "str list" where
  "ref_namespaces = [''proposal'', ''decision'', ''release'', ''observed'', ''material-events'']"

definition validate_ref_name :: "str \<Rightarrow> ref_store_error + unit" where
  "validate_ref_name n =
     (let segments = split_on (CHR ''/'') n; namespace = hd segments; rest = tl segments in
      if length n \<le> 500 \<and> namespace \<in> set ref_namespaces \<and> rest \<noteq> [] \<and> list_all valid_ref_segment rest
      then Inr () else Inl (InvalidRefName n))"

definition COMMIT_OID_PREFIX :: str where
  "COMMIT_OID_PREFIX = ''commit:sg-oid-v1:sha256:''"

definition validate_commit_oid :: "str \<Rightarrow> ref_store_error + unit" where
  "validate_commit_oid oid =
     (case strip_prefix oid COMMIT_OID_PREFIX of
        Some digest \<Rightarrow>
          if length digest = 64 \<and> list_all is_lower_hex digest then Inr () else Inl (InvalidCommitOid oid)
      | None \<Rightarrow> Inl (InvalidCommitOid oid))"

definition validate_commit_oid_opt :: "str option \<Rightarrow> ref_store_error + unit" where
  "validate_commit_oid_opt oid = (case oid of None \<Rightarrow> Inr () | Some h \<Rightarrow> validate_commit_oid h)"

definition validate_metadata :: "str option \<Rightarrow> str option \<Rightarrow> ref_store_error + unit" where
  "validate_metadata act msg =
     (if (case act of Some a \<Rightarrow> length a > 1024 | None \<Rightarrow> False) then Inl InvalidMetadata
      else if (case msg of Some s \<Rightarrow> length s > 16384 | None \<Rightarrow> False) then Inl InvalidMetadata
      else Inr ())"

section \<open>The tables\<close>

definition i64_max :: int where
  "i64_max = 9223372036854775807"

text \<open>
  The \<open>CHECK\<close> clauses. \<open>length\<close> of SQLite counts characters; on the names and identifiers that
  reach it (ASCII, checked before) it is the number of bytes.
\<close>

definition commit_column_ok :: "str \<Rightarrow> bool" where
  "commit_column_ok h \<longleftrightarrow> length h = 88 \<and> take 24 h = COMMIT_OID_PREFIX"

definition name_column_ok :: "str \<Rightarrow> bool" where
  "name_column_ok n \<longleftrightarrow> 1 \<le> length n \<and> length n \<le> 500"

definition event_row_ok :: "reflog_entry \<Rightarrow> bool" where
  "event_row_ok e \<longleftrightarrow> name_column_ok (ref_name e)
     \<and> (case old_head e of None \<Rightarrow> True | Some h \<Rightarrow> commit_column_ok h)
     \<and> commit_column_ok (new_head e)
     \<and> (case actor e of None \<Rightarrow> True | Some a \<Rightarrow> length a \<le> 1024)
     \<and> (case message e of None \<Rightarrow> True | Some m \<Rightarrow> length m \<le> 16384)"

text \<open>\<open>INSERT INTO ref_events\<close> with an explicit id, and with the next \<open>AUTOINCREMENT\<close> id.\<close>

definition insert_event :: "ref_store \<Rightarrow> reflog_entry \<Rightarrow> ref_store_error + ref_store" where
  "insert_event s e =
     (if \<not> event_row_ok e \<or> event_id e \<in> set (map event_id (ref_events s)) then Inl Storage
      else Inr (s\<lparr>ref_events := ref_events s @ [e], sequence := max (sequence s) (event_id e)\<rparr>))"

definition append_event :: "ref_store \<Rightarrow> reflog_entry \<Rightarrow> ref_store_error + int \<times> ref_store" where
  "append_event s e =
     (if sequence s \<ge> i64_max then Inl Storage
      else bindE (insert_event s (e\<lparr>event_id := sequence s + 1\<rparr>)) (\<lambda>s'. Inr (sequence s + 1, s')))"

definition find_ref :: "ref_record list \<Rightarrow> str \<Rightarrow> ref_record option" where
  "find_ref rs n = find (\<lambda>r. name r = n) rs"

definition query_head :: "ref_store \<Rightarrow> str \<Rightarrow> str option" where
  "query_head s n = map_option head (find_ref (refs s) n)"

definition ref_row_ok :: "ref_record \<Rightarrow> bool" where
  "ref_row_ok r \<longleftrightarrow> name_column_ok (name r) \<and> commit_column_ok (head r)"

definition foreign_key_ok :: "ref_store \<Rightarrow> int \<Rightarrow> bool" where
  "foreign_key_ok s i \<longleftrightarrow> i \<in> set (map event_id (ref_events s))"

text \<open>\<open>INSERT INTO refs\<close>; with \<open>OR IGNORE\<close> a uniqueness conflict inserts nothing.\<close>

definition ref_unique_ok :: "ref_store \<Rightarrow> ref_record \<Rightarrow> bool" where
  "ref_unique_ok s r \<longleftrightarrow> name r \<notin> set (map name (refs s))
     \<and> updated_event_id r \<notin> set (map updated_event_id (refs s))"

definition insert_ref :: "ref_store \<Rightarrow> ref_record \<Rightarrow> ref_store_error + ref_store" where
  "insert_ref s r =
     (if \<not> ref_row_ok r \<or> \<not> ref_unique_ok s r \<or> \<not> foreign_key_ok s (updated_event_id r) then Inl Storage
      else Inr (s\<lparr>refs := refs s @ [r]\<rparr>))"

definition insert_or_ignore_ref :: "ref_store \<Rightarrow> ref_record \<Rightarrow> ref_store_error + nat \<times> ref_store" where
  "insert_or_ignore_ref s r =
     (if \<not> ref_row_ok r \<or> \<not> ref_unique_ok s r then Inr (0, s)
      else if \<not> foreign_key_ok s (updated_event_id r) then Inl Storage
      else Inr (1, s\<lparr>refs := refs s @ [r]\<rparr>))"

text \<open>\<open>UPDATE refs SET head, updated_event_id WHERE name AND head\<close>: the number of rows and the rows.\<close>

definition update_ref :: "ref_store \<Rightarrow> str \<Rightarrow> int \<Rightarrow> str \<Rightarrow> str \<Rightarrow> ref_store_error + nat \<times> ref_store" where
  "update_ref s new_h eid n expected =
     (let hit = (\<lambda>r. name r = n \<and> head r = expected);
          rows = map (\<lambda>r. if hit r then r\<lparr>head := new_h, updated_event_id := eid\<rparr> else r) (refs s);
          changed = length (filter hit (refs s)) in
      if changed = 0 then Inr (0, s)
      else if \<not> commit_column_ok new_h \<or> \<not> distinct (map updated_event_id rows) \<or> \<not> foreign_key_ok s eid
      then Inl Storage
      else Inr (changed, s\<lparr>refs := rows\<rparr>))"

definition empty_store :: ref_store where
  "empty_store = \<lparr>refs = [], ref_events = [], sequence = 0, read_only = False\<rparr>"

definition ensure_writable :: "ref_store \<Rightarrow> ref_store_error + unit" where
  "ensure_writable s = ensure (\<not> read_only s) ReadOnly"

section \<open>Reading\<close>

definition load_snapshot :: "ref_store \<Rightarrow> ref_record list" where
  "load_snapshot s = sort_key name (refs s)"

definition get_ref :: "ref_store \<Rightarrow> str \<Rightarrow> ref_store_error + ref_record option" where
  "get_ref s n = bindE (validate_ref_name n) (\<lambda>_. Inr (find_ref (refs s) n))"

definition store_is_empty :: "ref_store \<Rightarrow> bool" where
  "store_is_empty s \<longleftrightarrow> refs s = [] \<and> ref_events s = []"

definition validate_snapshot_limit :: "nat \<Rightarrow> ref_store_error + unit" where
  "validate_snapshot_limit limit = ensure (limit \<noteq> 0) ref_archive_resource_limit"

text \<open>\<open>LIMIT max_refs + 1\<close>, and an error on the row that is one too many.\<close>

definition load_snapshot_count_limited :: "ref_store \<Rightarrow> nat \<Rightarrow> ref_store_error + ref_record list" where
  "load_snapshot_count_limited s limit =
     (if int (saturating_add limit 1) > i64_max then Inl ref_archive_resource_limit
      else
        let rows = take (saturating_add limit 1) (load_snapshot s) in
        if length rows > limit then Inl ref_archive_resource_limit else Inr rows)"

definition snapshot_limited :: "ref_store \<Rightarrow> nat \<Rightarrow> ref_store_error + ref_record list" where
  "snapshot_limited s limit =
     bindE (validate_snapshot_limit limit) (\<lambda>_. load_snapshot_count_limited s limit)"

definition select_events :: "ref_store \<Rightarrow> str option \<Rightarrow> reflog_entry list" where
  "select_events s n =
     sort_key event_id (filter (\<lambda>e. case n of None \<Rightarrow> True | Some n \<Rightarrow> ref_name e = n) (ref_events s))"

definition load_reflog :: "ref_store \<Rightarrow> str option \<Rightarrow> reflog_entry list" where
  "load_reflog s n = select_events s n"

definition reflog_for_ref :: "ref_store \<Rightarrow> str \<Rightarrow> ref_store_error + reflog_entry list" where
  "reflog_for_ref s n = bindE (validate_ref_name n) (\<lambda>_. Inr (load_reflog s (Some n)))"

definition load_reflog_page :: "ref_store \<Rightarrow> str option \<Rightarrow> int \<Rightarrow> nat \<Rightarrow> ref_store_error + reflog_entry list" where
  "load_reflog_page s n after row_limit =
     (if int row_limit > i64_max then Inl ref_archive_resource_limit
      else Inr (take row_limit (filter (\<lambda>e. event_id e > after) (select_events s n))))"

definition MAX_REFLOG_PAGE_ENTRIES :: nat where
  "MAX_REFLOG_PAGE_ENTRIES = 500"

definition MAX_REF_SNAPSHOT_ENTRIES :: nat where
  "MAX_REF_SNAPSHOT_ENTRIES = 100000"

definition read_reflog_page ::
    "ref_store \<Rightarrow> str option \<Rightarrow> int option \<Rightarrow> nat \<Rightarrow> ref_store_error fault + ref_read_page" where
  "read_reflog_page s n after limit =
     bindE (case n of None \<Rightarrow> Inr () | Some n \<Rightarrow> lift_err (validate_ref_name n)) (\<lambda>_.
     if (case after of None \<Rightarrow> False | Some i \<Rightarrow> i < 0) then fails InvalidMetadata
     else if \<not> (1 \<le> limit \<and> limit \<le> MAX_REFLOG_PAGE_ENTRIES) then fails ref_archive_resource_limit
     else
       bindE (lift_err (load_snapshot_count_limited s MAX_REF_SNAPSHOT_ENTRIES)) (\<lambda>snap.
       bindE (lift_err (load_reflog_page s n (case after of None \<Rightarrow> 0 | Some i \<Rightarrow> i) (limit + 1))) (\<lambda>rows.
       let has_more = length rows > limit;
           kept = (if has_more then butlast rows else rows)
       in if has_more \<and> kept = [] then panics
          else Inr \<lparr>page_snapshot = snap, entries = kept,
                    next_after_event_id = (if has_more then Some (event_id (last kept)) else None)\<rparr>)))"

definition read_ref_transition_evidence ::
    "ref_store \<Rightarrow> str \<Rightarrow> str option \<Rightarrow> str \<Rightarrow> ref_store_error + ref_transition_evidence" where
  "read_ref_transition_evidence s n expected_old candidate =
     bindE (validate_ref_name n) (\<lambda>_.
     bindE (validate_commit_oid_opt expected_old) (\<lambda>_.
     bindE (validate_commit_oid candidate) (\<lambda>_.
     bindE (load_snapshot_count_limited s MAX_REF_SNAPSHOT_ENTRIES) (\<lambda>snap.
     let rows = select_events s (Some n);
         touches = filter (\<lambda>e. old_head e = Some candidate \<or> new_head e = candidate) rows;
         exact = filter (\<lambda>e. old_head e = expected_old \<and> new_head e = candidate) rows
     in Inr \<lparr>evidence_snapshot = snap,
             candidate_touch_count = length touches,
             exact_transition_count = length exact,
             exact_transition_entry = (if exact = [] then None else Some (last exact)),
             latest_entry = (if rows = [] then None else Some (last rows))\<rparr>))))"

section \<open>Archives\<close>

fun adjacent_equal :: "'a list \<Rightarrow> bool" where
  "adjacent_equal (x # y # zs) = (x = y \<or> adjacent_equal (y # zs))"
| "adjacent_equal _ = False"

definition as_archive_invalid :: "ref_store_error + 'a \<Rightarrow> ref_store_error + 'a" where
  "as_archive_invalid m = map_err (\<lambda>_. ArchiveInvalid) m"

definition check_snapshot_record :: "ref_record \<Rightarrow> ref_store_error + unit" where
  "check_snapshot_record r =
     bindE (as_archive_invalid (validate_ref_name (name r))) (\<lambda>_.
     bindE (as_archive_invalid (validate_commit_oid (head r))) (\<lambda>_.
     ensure (updated_event_id r > 0) ArchiveInvalid))"

type_synonym final_states = "(str \<times> str \<times> int) list"

text \<open>One round of the loop over the reflog: the sorted set of heads and the chain end per Ref.\<close>

definition check_event :: "str list \<times> final_states \<Rightarrow> reflog_entry \<Rightarrow> ref_store_error + str list \<times> final_states" where
  "check_event acc e =
     (case acc of (heads, final_state) \<Rightarrow>
        bindE (ensure (event_id e > 0) ArchiveInvalid) (\<lambda>_.
        bindE (as_archive_invalid (validate_ref_name (ref_name e))) (\<lambda>_.
        bindE (as_archive_invalid (validate_commit_oid_opt (old_head e))) (\<lambda>_.
        bindE (as_archive_invalid (validate_commit_oid (new_head e))) (\<lambda>_.
        bindE (as_archive_invalid (validate_metadata (actor e) (message e))) (\<lambda>_.
        if old_head e \<noteq> map_option fst (map_of final_state (ref_name e)) then Inl ArchiveInvalid
        else Inr (insort_insert (new_head e) heads,
                  AList.update (ref_name e) (new_head e, event_id e) final_state)))))))"

definition check_final_record :: "final_states \<Rightarrow> ref_record \<Rightarrow> ref_store_error + unit" where
  "check_final_record final_state r =
     (case map_of final_state (name r) of
        None \<Rightarrow> Inl ArchiveInvalid
      | Some (final_head, final_event_id) \<Rightarrow>
          if final_head \<noteq> head r \<or> final_event_id \<noteq> updated_event_id r then Inl ArchiveInvalid else Inr ())"

record prepared_archive =
  prepared_refs :: "ref_record list"
  prepared_reflog :: "reflog_entry list"
  prepared_heads :: "str list"

definition prepare_archive :: "ref_archive \<Rightarrow> ref_store_error + prepared_archive" where
  "prepare_archive archive =
     (let rs = sort_key name (snapshot archive) in
      if adjacent_equal (map name rs) then Inl ArchiveInvalid
      else
        bindE (eachE check_snapshot_record rs) (\<lambda>_.
        let log = sort_key event_id (reflog archive) in
        if adjacent_equal (map event_id log) then Inl ArchiveInvalid
        else
          bindE (foldE check_event ([], []) log) (\<lambda>(heads, final_state).
          if length final_state \<noteq> length rs then Inl ArchiveInvalid
          else
            bindE (eachE (check_final_record final_state) rs) (\<lambda>_.
            Inr \<lparr>prepared_refs = rs, prepared_reflog = log, prepared_heads = heads\<rparr>))))"

definition export_archive :: "ref_store \<Rightarrow> ref_archive" where
  "export_archive s = \<lparr>snapshot = load_snapshot s, reflog = load_reflog s None\<rparr>"

definition validate_ref_archive_export_limits :: "ref_archive_export_limits \<Rightarrow> ref_store_error + unit" where
  "validate_ref_archive_export_limits lim =
     bindE (ensure (max_refs lim \<noteq> 0) ref_archive_resource_limit) (\<lambda>_.
     bindE (ensure (max_reflog_entries lim \<noteq> 0) ref_archive_resource_limit) (\<lambda>_.
     ensure (max_text_bytes lim \<noteq> 0) ref_archive_resource_limit))"

definition add_ref_archive_text_bytes :: "nat \<Rightarrow> nat \<Rightarrow> nat \<Rightarrow> ref_store_error + nat" where
  "add_ref_archive_text_bytes acc additional limit =
     bindE (ok_or ref_archive_resource_limit (checked_add acc additional)) (\<lambda>n.
     if n > limit then Inl ref_archive_resource_limit else Inr n)"

definition add_snapshot_row ::
    "ref_archive_export_limits \<Rightarrow> ref_record list \<times> nat \<Rightarrow> ref_record \<Rightarrow> ref_store_error + ref_record list \<times> nat" where
  "add_snapshot_row lim acc r =
     (case acc of (rows, text_bytes) \<Rightarrow>
        if length rows = max_refs lim then Inl ref_archive_resource_limit
        else bindE (add_ref_archive_text_bytes text_bytes (length (name r)) (max_text_bytes lim)) (\<lambda>t.
          Inr (rows @ [r], t)))"

definition entry_text_bytes :: "reflog_entry \<Rightarrow> nat option" where
  "entry_text_bytes e =
     Option.bind (checked_add (length (ref_name e)) (case actor e of None \<Rightarrow> 0 | Some a \<Rightarrow> length a)) (\<lambda>n.
     checked_add n (case message e of None \<Rightarrow> 0 | Some m \<Rightarrow> length m))"

definition add_reflog_row ::
    "ref_archive_export_limits \<Rightarrow> reflog_entry list \<times> nat \<Rightarrow> reflog_entry \<Rightarrow> ref_store_error + reflog_entry list \<times> nat" where
  "add_reflog_row lim acc e =
     (case acc of (rows, text_bytes) \<Rightarrow>
        if length rows = max_reflog_entries lim then Inl ref_archive_resource_limit
        else bindE (ok_or ref_archive_resource_limit (entry_text_bytes e)) (\<lambda>n.
          bindE (add_ref_archive_text_bytes text_bytes n (max_text_bytes lim)) (\<lambda>t.
          Inr (rows @ [e], t))))"

definition export_archive_with_limits :: "ref_store \<Rightarrow> ref_archive_export_limits \<Rightarrow> ref_store_error + ref_archive" where
  "export_archive_with_limits s lim =
     bindE (validate_ref_archive_export_limits lim) (\<lambda>_.
     bindE (foldE (add_snapshot_row lim) ([], 0) (load_snapshot s)) (\<lambda>(snap, text_bytes).
     bindE (foldE (add_reflog_row lim) ([], text_bytes) (load_reflog s None)) (\<lambda>(log, text_bytes).
     let archive = \<lparr>snapshot = snap, reflog = log\<rparr> in
     bindE (prepare_archive archive) (\<lambda>_. Inr archive))))"

section \<open>Writing\<close>

definition check_precondition_syntax :: "ref_precondition \<Rightarrow> ref_store_error + unit" where
  "check_precondition_syntax p =
     bindE (validate_ref_name (pre_ref_name p)) (\<lambda>_. validate_commit_oid_opt (pre_expected_head p))"

definition check_precondition :: "ref_store \<Rightarrow> ref_precondition \<Rightarrow> ref_store_error + unit" where
  "check_precondition s p =
     (let actual_head = query_head s (pre_ref_name p) in
      if actual_head \<noteq> pre_expected_head p
      then Inl (PreconditionFailed (pre_ref_name p) (pre_expected_head p) actual_head) else Inr ())"

text \<open>
  The statements of the transaction once every comparison has passed: append the event, move the
  Ref, and report a conflict if not exactly one row changed.
\<close>

definition commit_update ::
    "ref_store \<Rightarrow> ref_update \<Rightarrow> str option \<Rightarrow> ref_store_error + reflog_entry \<times> ref_store" where
  "commit_update s up current_head =
     (let entry = \<lparr>event_id = 0, ref_name = up_ref_name up, old_head = current_head,
                   new_head = up_new_head up, occurred_at_unix_nanos = md_occurred_at (up_metadata up),
                   actor = md_actor (up_metadata up), message = md_message (up_metadata up)\<rparr> in
      bindE (append_event s entry) (\<lambda>(eid, s1).
      bindE (case up_expected_head up of
               Some expected \<Rightarrow> update_ref s1 (up_new_head up) eid (up_ref_name up) expected
             | None \<Rightarrow> insert_or_ignore_ref s1
                 \<lparr>name = up_ref_name up, head = up_new_head up, updated_event_id = eid\<rparr>) (\<lambda>(changed, s2).
      if changed \<noteq> 1
      then Inl (RefConflict (up_ref_name up) (up_expected_head up) (query_head s2 (up_ref_name up)))
      else Inr (entry\<lparr>event_id := eid\<rparr>, s2))))"

definition compare_and_swap_with_preconditions_and_guard ::
    "(str \<Rightarrow> validation_error + unit) \<Rightarrow> (validation_error + unit) \<Rightarrow> ref_store \<Rightarrow> ref_update
      \<Rightarrow> ref_precondition list \<Rightarrow> ref_store_error + reflog_entry \<times> ref_store" where
  "compare_and_swap_with_preconditions_and_guard validator guard s up preconditions =
     bindE (ensure_writable s) (\<lambda>_.
     bindE (validate_ref_name (up_ref_name up)) (\<lambda>_.
     bindE (validate_commit_oid_opt (up_expected_head up)) (\<lambda>_.
     bindE (validate_commit_oid (up_new_head up)) (\<lambda>_.
     bindE (validate_metadata (md_actor (up_metadata up)) (md_message (up_metadata up))) (\<lambda>_.
     bindE (eachE check_precondition_syntax preconditions) (\<lambda>_.
     bindE (map_err Validation (validator (up_new_head up))) (\<lambda>_.
     bindE (map_err Validation guard) (\<lambda>_.
     bindE (eachE (check_precondition s) preconditions) (\<lambda>_.
     let current_head = query_head s (up_ref_name up) in
     if current_head \<noteq> up_expected_head up
     then Inl (RefConflict (up_ref_name up) (up_expected_head up) current_head)
     else commit_update s up current_head)))))))))"

definition allow_transaction :: "validation_error + unit" where
  "allow_transaction = Inr ()"

definition compare_and_swap ::
    "(str \<Rightarrow> validation_error + unit) \<Rightarrow> ref_store \<Rightarrow> ref_update \<Rightarrow> ref_store_error + reflog_entry \<times> ref_store" where
  "compare_and_swap validator s up =
     compare_and_swap_with_preconditions_and_guard validator allow_transaction s up []"

definition restore_archive ::
    "(str \<Rightarrow> validation_error + unit) \<Rightarrow> ref_store \<Rightarrow> ref_archive \<Rightarrow> ref_store_error + ref_store" where
  "restore_archive validator s archive =
     bindE (ensure_writable s) (\<lambda>_.
     bindE (prepare_archive archive) (\<lambda>prepared.
     bindE (eachE (\<lambda>h. map_err Validation (validator h)) (prepared_heads prepared)) (\<lambda>_.
     if refs s \<noteq> [] \<or> ref_events s \<noteq> [] then Inl ArchiveNotEmpty
     else
       bindE (foldE insert_event s (prepared_reflog prepared)) (\<lambda>s1.
       foldE insert_ref s1 (prepared_refs prepared)))))"

section \<open>Lexical facts\<close>

lemma commit_prefix_append: "COMMIT_OID_PREFIX @ d = format_oid Commit d"
  by (simp add: COMMIT_OID_PREFIX_def format_oid_def oid_infix_def)

lemma validate_commit_oid_iff:
  "validate_commit_oid oid = Inr () \<longleftrightarrow> (\<exists>d. oid = format_oid Commit d \<and> is_digest d)"
proof (cases "strip_prefix oid COMMIT_OID_PREFIX")
  case None
  then have "\<forall>d. oid \<noteq> format_oid Commit d" by (simp add: strip_prefix_eq_None commit_prefix_append)
  with None show ?thesis by (simp add: validate_commit_oid_def)
next
  case (Some d)
  then have "oid = format_oid Commit d" by (simp add: strip_prefix_eq_Some commit_prefix_append)
  moreover have "format_oid Commit d = format_oid Commit e \<longleftrightarrow> d = e" for e by (simp add: format_oid_def)
  ultimately show ?thesis using Some by (auto simp: validate_commit_oid_def is_digest_def)
qed

lemma validate_commit_oid_column: "validate_commit_oid oid = Inr () \<Longrightarrow> commit_column_ok oid"
  by (auto simp: validate_commit_oid_def strip_prefix_eq_Some commit_column_ok_def COMMIT_OID_PREFIX_def
      split: option.splits if_splits)

lemma validate_ref_name_column: "validate_ref_name n = Inr () \<Longrightarrow> name_column_ok n"
  by (cases n) (auto simp: validate_ref_name_def name_column_ok_def Let_def Suc_le_eq split: if_splits)

lemma validate_metadata_iff:
  "validate_metadata a m = Inr () \<longleftrightarrow>
     (case a of None \<Rightarrow> True | Some x \<Rightarrow> length x \<le> 1024) \<and> (case m of None \<Rightarrow> True | Some x \<Rightarrow> length x \<le> 16384)"
  by (auto simp: validate_metadata_def split: option.splits)

section \<open>Invariant\<close>

definition event_valid :: "reflog_entry \<Rightarrow> bool" where
  "event_valid e \<longleftrightarrow> event_id e > 0 \<and> validate_ref_name (ref_name e) = Inr ()
     \<and> validate_commit_oid_opt (old_head e) = Inr () \<and> validate_commit_oid (new_head e) = Inr ()
     \<and> validate_metadata (actor e) (message e) = Inr ()"

text \<open>The state of every Ref after a reflog, and that each event starts where the last one ended.\<close>

definition chain_step :: "(str \<rightharpoonup> str \<times> int) \<Rightarrow> reflog_entry \<Rightarrow> (str \<rightharpoonup> str \<times> int)" where
  "chain_step m e = m(ref_name e \<mapsto> (new_head e, event_id e))"

definition chain_end :: "reflog_entry list \<Rightarrow> str \<rightharpoonup> str \<times> int" where
  "chain_end es = foldl chain_step Map.empty es"

fun chained :: "(str \<rightharpoonup> str \<times> int) \<Rightarrow> reflog_entry list \<Rightarrow> bool" where
  "chained m [] = True"
| "chained m (e # es) = (old_head e = map_option fst (m (ref_name e)) \<and> chained (chain_step m e) es)"

definition store_inv :: "ref_store \<Rightarrow> bool" where
  "store_inv s \<longleftrightarrow>
     (\<forall>e\<in>set (ref_events s). event_valid e \<and> event_id e \<le> sequence s)
     \<and> sorted_wrt (<) (map event_id (ref_events s))
     \<and> 0 \<le> sequence s \<and> sequence s \<le> i64_max
     \<and> chained Map.empty (ref_events s)
     \<and> distinct (map name (refs s))
     \<and> (\<forall>n. chain_end (ref_events s) n = map_option (\<lambda>r. (head r, updated_event_id r)) (find_ref (refs s) n))"

lemma chain_end_snoc: "chain_end (es @ [e]) = chain_step (chain_end es) e"
  by (simp add: chain_end_def)

lemma chained_snoc:
  "chained m (es @ [e]) \<longleftrightarrow> chained m es \<and> old_head e = map_option fst (foldl chain_step m es (ref_name e))"
  by (induction es arbitrary: m) auto

lemma chain_end_source:
  "chain_end es n = Some (h, i) \<Longrightarrow> \<exists>e\<in>set es. ref_name e = n \<and> new_head e = h \<and> event_id e = i"
  by (induction es rule: rev_induct) (auto simp: chain_end_def chain_step_def split: if_splits)

lemma find_ref_Some: "find_ref rs n = Some r \<Longrightarrow> r \<in> set rs \<and> name r = n"
  by (auto simp: find_ref_def find_Some_iff)

lemma find_ref_None: "find_ref rs n = None \<longleftrightarrow> n \<notin> set (map name rs)"
  by (auto simp: find_ref_def find_None_iff)

lemma find_ref_member: "distinct (map name rs) \<Longrightarrow> r \<in> set rs \<Longrightarrow> find_ref rs (name r) = Some r"
  by (induction rs) (auto simp: find_ref_def)

definition put_ref :: "ref_record list \<Rightarrow> ref_record \<Rightarrow> ref_record list" where
  "put_ref rs r =
     (if name r \<in> set (map name rs) then map (\<lambda>q. if name q = name r then r else q) rs else rs @ [r])"

lemma map_name_put: "map name (put_ref rs r) = (if name r \<in> set (map name rs) then map name rs else map name rs @ [name r])"
  by (auto simp: put_ref_def)

lemma find_ref_replace:
  "find_ref (map (\<lambda>q. if name q = name r then r else q) rs) n =
     (if n = name r then (if name r \<in> set (map name rs) then Some r else None) else find_ref rs n)"
  by (induction rs) (auto simp: find_ref_def)

lemma find_ref_append: "find_ref (rs @ [r]) n = (case find_ref rs n of None \<Rightarrow> if name r = n then Some r else None | q \<Rightarrow> q)"
  by (induction rs) (simp_all add: find_ref_def)

lemma find_ref_put: "find_ref (put_ref rs r) n = (if n = name r then Some r else find_ref rs n)"
  using find_ref_None [of rs n]
  by (auto simp: put_ref_def find_ref_replace find_ref_append split: option.splits)

lemma store_inv_ref:
  assumes "store_inv s" "r \<in> set (refs s)"
  obtains e where "e \<in> set (ref_events s)" "ref_name e = name r" "new_head e = head r" "event_id e = updated_event_id r"
proof -
  have "find_ref (refs s) (name r) = Some r"
    using assms by (auto simp: store_inv_def intro: find_ref_member)
  then have "chain_end (ref_events s) (name r) = Some (head r, updated_event_id r)"
    using assms(1) by (simp add: store_inv_def)
  then show thesis using chain_end_source that by blast
qed

lemma sorted_ids_inject:
  "sorted_wrt (<) (map event_id es) \<Longrightarrow> e \<in> set es \<Longrightarrow> f \<in> set es \<Longrightarrow> event_id e = event_id f \<Longrightarrow> e = f"
  by (induction es) auto

lemma store_inv_updated_inject:
  assumes "store_inv s" "q \<in> set (refs s)" "r \<in> set (refs s)" "updated_event_id q = updated_event_id r"
  shows "q = r"
proof -
  obtain e where e: "e \<in> set (ref_events s)" "ref_name e = name q" "event_id e = updated_event_id q"
    using assms(1,2) by (rule store_inv_ref)
  obtain f where f: "f \<in> set (ref_events s)" "ref_name f = name r" "event_id f = updated_event_id r"
    using assms(1,3) by (rule store_inv_ref)
  have "e = f" using sorted_ids_inject e f assms(1,4) unfolding store_inv_def by metis
  then have "name q = name r" using e f by simp
  then show ?thesis using find_ref_member assms(1-3) by (metis option.inject store_inv_def)
qed

lemma store_inv_distinct_updated: "store_inv s \<Longrightarrow> distinct (map updated_event_id (refs s))"
proof -
  assume s: "store_inv s"
  then have "distinct (refs s)" by (simp add: store_inv_def distinct_map)
  moreover have "inj_on updated_event_id (set (refs s))"
    using store_inv_updated_inject [OF s] by (auto intro: inj_onI)
  ultimately show ?thesis by (simp add: distinct_map)
qed

lemma store_inv_updated_le: "store_inv s \<Longrightarrow> r \<in> set (refs s) \<Longrightarrow> updated_event_id r \<le> sequence s"
  by (metis store_inv_def store_inv_ref)

lemma empty_store_inv: "store_inv empty_store"
  by (simp add: store_inv_def empty_store_def chain_end_def find_ref_def i64_max_def)

section \<open>Compare and swap\<close>

definition update_entry :: "ref_store \<Rightarrow> ref_update \<Rightarrow> reflog_entry" where
  "update_entry s up =
     \<lparr>event_id = sequence s + 1, ref_name = up_ref_name up, old_head = query_head s (up_ref_name up),
      new_head = up_new_head up, occurred_at_unix_nanos = md_occurred_at (up_metadata up),
      actor = md_actor (up_metadata up), message = md_message (up_metadata up)\<rparr>"

text \<open>The abstract update: one more event, and the Ref points at its new head.\<close>

definition advance :: "ref_store \<Rightarrow> ref_update \<Rightarrow> ref_store" where
  "advance s up = s\<lparr>
     refs := put_ref (refs s) \<lparr>name = up_ref_name up, head = up_new_head up, updated_event_id = sequence s + 1\<rparr>,
     ref_events := ref_events s @ [update_entry s up],
     sequence := sequence s + 1\<rparr>"

definition update_valid :: "ref_update \<Rightarrow> bool" where
  "update_valid up \<longleftrightarrow> validate_ref_name (up_ref_name up) = Inr ()
     \<and> validate_commit_oid_opt (up_expected_head up) = Inr () \<and> validate_commit_oid (up_new_head up) = Inr ()
     \<and> validate_metadata (md_actor (up_metadata up)) (md_message (up_metadata up)) = Inr ()"

definition update_admissible ::
    "(str \<Rightarrow> validation_error + unit) \<Rightarrow> (validation_error + unit) \<Rightarrow> ref_store \<Rightarrow> ref_update
      \<Rightarrow> ref_precondition list \<Rightarrow> bool" where
  "update_admissible validator guard s up pres \<longleftrightarrow>
     \<not> read_only s \<and> update_valid up \<and> validator (up_new_head up) = Inr () \<and> guard = Inr ()
     \<and> (\<forall>p\<in>set pres. is_ok (check_precondition_syntax p) \<and> query_head s (pre_ref_name p) = pre_expected_head p)
     \<and> query_head s (up_ref_name up) = up_expected_head up"

lemma query_head_valid:
  assumes "store_inv s" shows "validate_commit_oid_opt (query_head s n) = Inr ()"
proof (cases "find_ref (refs s) n")
  case (Some r)
  then obtain e where "e \<in> set (ref_events s)" "new_head e = head r"
    using store_inv_ref [OF assms] find_ref_Some by metis
  then have "validate_commit_oid (head r) = Inr ()" using assms unfolding store_inv_def event_valid_def by metis
  then show ?thesis by (simp add: Some query_head_def validate_commit_oid_opt_def)
qed (simp add: query_head_def validate_commit_oid_opt_def)

lemma update_entry_valid:
  assumes "store_inv s" "update_valid up"
  shows "event_valid (update_entry s up)" "event_row_ok (update_entry s up)"
proof -
  show v: "event_valid (update_entry s up)"
    using assms query_head_valid [OF assms(1)]
    by (simp add: event_valid_def update_entry_def update_valid_def store_inv_def)
  then show "event_row_ok (update_entry s up)"
    unfolding event_valid_def event_row_ok_def
    by (auto simp: validate_ref_name_column validate_commit_oid_column validate_metadata_iff
        validate_commit_oid_opt_def split: option.splits)
qed

lemma append_event_ok:
  assumes "store_inv s" "update_valid up" "sequence s < i64_max"
  shows "append_event s ((update_entry s up)\<lparr>event_id := 0\<rparr>) =
    Inr (sequence s + 1, s\<lparr>ref_events := ref_events s @ [update_entry s up], sequence := sequence s + 1\<rparr>)"
proof -
  have "sequence s + 1 \<notin> set (map event_id (ref_events s))"
    using assms(1) by (force simp: store_inv_def)
  then show ?thesis
    using update_entry_valid(2) [OF assms(1,2)] assms(3)
    by (simp add: append_event_def insert_event_def update_entry_def)
qed

lemma filter_unique:
  assumes "distinct xs" "x \<in> set xs" "\<And>y. y \<in> set xs \<Longrightarrow> P y = (y = x)"
  shows "filter P xs = [x]"
  using assms
proof (induction xs)
  case (Cons y ys)
  show ?case
  proof (cases "y = x")
    case True
    then have "filter P ys = []" using Cons.prems by (auto simp: filter_empty_conv)
    with True Cons.prems show ?thesis by simp
  qed (use Cons in auto)
qed simp

lemma put_ref_distinct_updated:
  assumes s: "store_inv s" and fresh: "updated_event_id r > sequence s"
  shows "distinct (map updated_event_id (put_ref (refs s) r))"
proof (cases "name r \<in> set (map name (refs s))")
  case True
  have "inj_on (\<lambda>q. updated_event_id (if name q = name r then r else q)) (set (refs s))"
  proof (rule inj_onI)
    fix p q assume "p \<in> set (refs s)" "q \<in> set (refs s)"
      and "updated_event_id (if name p = name r then r else p) = updated_event_id (if name q = name r then r else q)"
    then show "p = q"
      using store_inv_updated_inject [OF s, of p q] store_inv_updated_le [OF s, of p]
        store_inv_updated_le [OF s, of q] fresh find_ref_member [of "refs s" p] find_ref_member [of "refs s" q] s
      by (auto simp: store_inv_def split: if_splits)
  qed
  moreover have "distinct (refs s)" using s by (simp add: store_inv_def distinct_map)
  ultimately show ?thesis using True by (simp add: put_ref_def distinct_map comp_def)
next
  case False
  then show ?thesis
    using store_inv_distinct_updated [OF s] store_inv_updated_le [OF s] fresh by (force simp: put_ref_def)
qed

lemma update_ref_ok:
  assumes s: "store_inv s" and v: "update_valid up" and h: "query_head s (up_ref_name up) = Some expected"
    and s1: "s1 = s\<lparr>ref_events := ref_events s @ [update_entry s up], sequence := sequence s + 1\<rparr>"
  shows "update_ref s1 (up_new_head up) (sequence s + 1) (up_ref_name up) expected = Inr (1, advance s up)"
proof -
  obtain r where r: "find_ref (refs s) (up_ref_name up) = Some r" "head r = expected"
    using h by (auto simp: query_head_def)
  then have mem: "r \<in> set (refs s)" "name r = up_ref_name up" using find_ref_Some by blast+
  have d: "distinct (map name (refs s))" using s by (simp add: store_inv_def)
  have hit: "(name q = up_ref_name up \<and> head q = expected) = (q = r)" if "q \<in> set (refs s)" for q
    using that mem r d find_ref_member by (metis option.inject)
  let ?new = "\<lparr>name = up_ref_name up, head = up_new_head up, updated_event_id = sequence s + 1\<rparr>"
  have rows: "map (\<lambda>q. if name q = up_ref_name up \<and> head q = expected
        then q\<lparr>head := up_new_head up, updated_event_id := sequence s + 1\<rparr> else q) (refs s)
      = put_ref (refs s) ?new"
  proof -
    have "(if name q = up_ref_name up \<and> head q = expected
        then q\<lparr>head := up_new_head up, updated_event_id := sequence s + 1\<rparr> else q)
        = (if name q = name ?new then ?new else q)" if "q \<in> set (refs s)" for q
      using that d mem r find_ref_member [OF d that] by (cases q) auto
    moreover have "up_ref_name up \<in> set (map name (refs s))" using mem by force
    ultimately show ?thesis by (simp add: put_ref_def)
  qed
  have "filter (\<lambda>q. name q = up_ref_name up \<and> head q = expected) (refs s) = [r]"
    using d mem hit by (intro filter_unique) (auto simp: distinct_map)
  then show ?thesis
    using put_ref_distinct_updated [OF s, of ?new] v validate_commit_oid_column
    by (simp add: update_ref_def rows s1 Let_def foreign_key_ok_def update_entry_def advance_def update_valid_def)
qed

lemma insert_or_ignore_ref_ok:
  assumes s: "store_inv s" and v: "update_valid up" and h: "query_head s (up_ref_name up) = None"
    and s1: "s1 = s\<lparr>ref_events := ref_events s @ [update_entry s up], sequence := sequence s + 1\<rparr>"
  shows "insert_or_ignore_ref s1
    \<lparr>name = up_ref_name up, head = up_new_head up, updated_event_id = sequence s + 1\<rparr> = Inr (1, advance s up)"
proof -
  have new: "up_ref_name up \<notin> set (map name (refs s))" using h by (simp add: query_head_def find_ref_None)
  have "sequence s + 1 \<notin> set (map updated_event_id (refs s))" using store_inv_updated_le [OF s] by force
  then show ?thesis
    using new v
    by (simp add: insert_or_ignore_ref_def ref_row_ok_def ref_unique_ok_def foreign_key_ok_def s1 advance_def
        put_ref_def update_entry_def update_valid_def validate_ref_name_column validate_commit_oid_column)
qed

lemma commit_update_exact:
  assumes s: "store_inv s" and v: "update_valid up" and h: "query_head s (up_ref_name up) = up_expected_head up"
  shows "commit_update s up (query_head s (up_ref_name up)) = Inr x \<longleftrightarrow>
    sequence s < i64_max \<and> x = (update_entry s up, advance s up)"
proof (cases "sequence s < i64_max")
  case True
  let ?s1 = "s\<lparr>ref_events := ref_events s @ [update_entry s up], sequence := sequence s + 1\<rparr>"
  let ?e = "\<lparr>event_id = 0, ref_name = up_ref_name up, old_head = query_head s (up_ref_name up),
     new_head = up_new_head up, occurred_at_unix_nanos = md_occurred_at (up_metadata up),
     actor = md_actor (up_metadata up), message = md_message (up_metadata up)\<rparr>"
  have e: "(update_entry s up)\<lparr>event_id := 0\<rparr> = ?e" "?e\<lparr>event_id := sequence s + 1\<rparr> = update_entry s up"
    by (simp_all add: update_entry_def)
  have moved: "(case up_expected_head up of
            Some expected \<Rightarrow> update_ref ?s1 (up_new_head up) (sequence s + 1) (up_ref_name up) expected
          | None \<Rightarrow> insert_or_ignore_ref ?s1
              \<lparr>name = up_ref_name up, head = up_new_head up, updated_event_id = sequence s + 1\<rparr>)
      = Inr (1, advance s up)"
    using h update_ref_ok [OF s v _ refl] insert_or_ignore_ref_ok [OF s v _ refl]
    by (simp split: option.splits)
  show ?thesis
    unfolding commit_update_def Let_def append_event_ok [OF s v True, unfolded e(1)] bindE_Inr prod.case moved e(2)
    using True by auto
qed (simp add: commit_update_def append_event_def)

lemma cas_exact:
  assumes s: "store_inv s"
  shows "compare_and_swap_with_preconditions_and_guard validator guard s up pres = Inr x \<longleftrightarrow>
    update_admissible validator guard s up pres \<and> sequence s < i64_max \<and> x = (update_entry s up, advance s up)"
    (is "?cas = Inr x \<longleftrightarrow> ?ok \<and> _")
proof (cases ?ok)
  case True
  have pres: "eachE check_precondition_syntax pres = Inr ()" "eachE (check_precondition s) pres = Inr ()"
    using True by (auto simp: update_admissible_def eachE_eq_Inr check_precondition_def Let_def)
  have "?cas = commit_update s up (query_head s (up_ref_name up))"
    using True pres
    by (simp add: compare_and_swap_with_preconditions_and_guard_def update_admissible_def update_valid_def
        ensure_writable_def Let_def)
  with commit_update_exact [OF s, of up x] True show ?thesis by (auto simp: update_admissible_def)
next
  case False
  then have "?cas \<noteq> Inr x"
    by (auto simp: compare_and_swap_with_preconditions_and_guard_def update_admissible_def update_valid_def
        ensure_writable_def Let_def result_simps check_precondition_def split: if_splits)
  with False show ?thesis by simp
qed

lemma advance_inv:
  assumes s: "store_inv s" and v: "update_valid up" and room: "sequence s < i64_max"
  shows "store_inv (advance s up)"
proof -
  let ?new = "\<lparr>name = up_ref_name up, head = up_new_head up, updated_event_id = sequence s + 1\<rparr>"
  have "chained Map.empty (ref_events s @ [update_entry s up])"
    using s by (simp add: store_inv_def chained_snoc chain_end_def [symmetric] update_entry_def query_head_def
        option.map_comp comp_def)
  moreover have "chain_end (ref_events s @ [update_entry s up]) n
      = map_option (\<lambda>r. (head r, updated_event_id r)) (find_ref (put_ref (refs s) ?new) n)" for n
    using s by (simp add: chain_end_snoc chain_step_def find_ref_put store_inv_def update_entry_def)
  moreover have "\<forall>e\<in>set (ref_events s). event_id e < sequence s + 1" using s by (auto simp: store_inv_def)
  ultimately show ?thesis
    using s room update_entry_valid(1) [OF s v]
    unfolding store_inv_def advance_def
    by (auto simp: sorted_wrt_append map_name_put update_entry_def)
qed

lemma query_head_advance:
  "query_head (advance s up) n = (if n = up_ref_name up then Some (up_new_head up) else query_head s n)"
  by (simp add: query_head_def advance_def find_ref_put)

section \<open>The compare-and-swap interface\<close>

text \<open>
  What clients of the store rely on: a swap succeeds only on the expected value, changes that
  key alone, and keeps the store well-formed. From these laws alone: a stale expectation never
  succeeds, and the accepted swaps of one key form an unbroken chain.
\<close>

locale compare_swap =
  fixes wf :: "'s \<Rightarrow> bool"
    and lookup :: "'s \<Rightarrow> 'k \<Rightarrow> 'v option"
    and swap :: "'s \<Rightarrow> 'k \<Rightarrow> 'v option \<Rightarrow> 'v \<Rightarrow> 's option"
  assumes swap_wf: "wf s \<Longrightarrow> swap s k e v = Some s' \<Longrightarrow> wf s'"
    and swap_expected: "wf s \<Longrightarrow> swap s k e v = Some s' \<Longrightarrow> lookup s k = e"
    and swap_lookup: "wf s \<Longrightarrow> swap s k e v = Some s' \<Longrightarrow> lookup s' l = (if l = k then Some v else lookup s l)"
begin

lemma stale_swap_fails:
  "wf s \<Longrightarrow> swap s k e v = Some s' \<Longrightarrow> e \<noteq> Some v \<Longrightarrow> swap s' k e w = None"
  using swap_wf swap_expected swap_lookup by (metis not_Some_eq)

lemma swap_other_key: "wf s \<Longrightarrow> swap s k e v = Some s' \<Longrightarrow> l \<noteq> k \<Longrightarrow> lookup s' l = lookup s l"
  using swap_lookup by simp

end

definition ref_swap ::
    "(str \<Rightarrow> validation_error + unit) \<Rightarrow> (validation_error + unit) \<Rightarrow> reflog_metadata \<Rightarrow> ref_precondition list
      \<Rightarrow> ref_store \<Rightarrow> str \<Rightarrow> str option \<Rightarrow> str \<Rightarrow> ref_store option" where
  "ref_swap validator guard md pres s n e v =
     (case compare_and_swap_with_preconditions_and_guard validator guard s
         \<lparr>up_ref_name = n, up_expected_head = e, up_new_head = v, up_metadata = md\<rparr> pres of
        Inl _ \<Rightarrow> None | Inr (_, s') \<Rightarrow> Some s')"

interpretation ref_cas: compare_swap store_inv query_head "ref_swap validator guard md pres"
  for validator guard md pres
proof
  fix s n e v s' l
  assume s: "store_inv s" and "ref_swap validator guard md pres s n e v = Some s'"
  then obtain entry where "compare_and_swap_with_preconditions_and_guard validator guard s
      \<lparr>up_ref_name = n, up_expected_head = e, up_new_head = v, up_metadata = md\<rparr> pres = Inr (entry, s')"
    by (auto simp: ref_swap_def split: sum.splits)
  then have ok: "update_admissible validator guard s
      \<lparr>up_ref_name = n, up_expected_head = e, up_new_head = v, up_metadata = md\<rparr> pres" "sequence s < i64_max"
    and s': "s' = advance s \<lparr>up_ref_name = n, up_expected_head = e, up_new_head = v, up_metadata = md\<rparr>"
    by (simp_all add: cas_exact [OF s])
  show "store_inv s'" unfolding s' using ok by (intro advance_inv [OF s]) (auto simp: update_admissible_def)
  show "query_head s n = e" using ok by (simp add: update_admissible_def)
  show "query_head s' l = (if l = n then Some v else query_head s l)" by (simp add: s' query_head_advance)
qed

section \<open>Archives and the store\<close>

lemma sorted_adjacent:
  fixes xs :: "'a :: linorder list"
  assumes "sorted xs"
  shows "adjacent_equal xs \<longleftrightarrow> \<not> sorted_wrt (<) xs"
  using assms by (induction xs rule: adjacent_equal.induct) (auto simp: less_le)

lemma strict_sorted_distinct: "sorted_wrt (<) (xs :: 'a :: linorder list) \<longleftrightarrow> sorted xs \<and> distinct xs"
  by (rule strict_sorted_iff)

definition finals_update :: "final_states \<Rightarrow> reflog_entry \<Rightarrow> final_states" where
  "finals_update f e = AList.update (ref_name e) (new_head e, event_id e) f"

definition heads_update :: "str list \<Rightarrow> reflog_entry \<Rightarrow> str list" where
  "heads_update h e = insort_insert (new_head e) h"

lemma as_archive_invalid_eq: "as_archive_invalid m = Inr x \<longleftrightarrow> m = Inr x"
  by (simp add: as_archive_invalid_def map_err_eq_Inr)

lemma check_event_eq:
  "check_event (h, f) e = Inr x \<longleftrightarrow>
     event_valid e \<and> old_head e = map_option fst (map_of f (ref_name e)) \<and> x = (heads_update h e, finals_update f e)"
  by (auto simp: check_event_def result_simps as_archive_invalid_eq event_valid_def heads_update_def
      finals_update_def)

lemma map_of_finals_update: "map_of (finals_update f e) = chain_step (map_of f) e"
  by (simp add: finals_update_def chain_step_def update_conv')

lemma fold_check_event:
  "foldE check_event (h, f) es = Inr x \<longleftrightarrow>
     (\<forall>e\<in>set es. event_valid e) \<and> chained (map_of f) es
     \<and> x = (foldl heads_update h es, foldl finals_update f es)"
proof (induction es arbitrary: h f)
  case (Cons e es)
  show ?case
    by (auto simp: bindE_eq_Inr check_event_eq Cons.IH map_of_finals_update)
qed auto

lemma map_of_finals: "map_of (foldl finals_update f es) = foldl chain_step (map_of f) es"
  by (induction es arbitrary: f) (simp_all add: map_of_finals_update)

lemma distinct_finals: "distinct (map fst f) \<Longrightarrow> distinct (map fst (foldl finals_update f es))"
  by (induction es arbitrary: f) (simp_all add: finals_update_def distinct_update)

lemma heads_set: "set (foldl heads_update h es) = set h \<union> new_head ` set es"
  by (induction es arbitrary: h) (auto simp: heads_update_def set_insort_insert)

text \<open>What an archive must satisfy; an id of the source is an \<open>i64\<close> by its type.\<close>

definition archive_consistent :: "ref_archive \<Rightarrow> bool" where
  "archive_consistent ar \<longleftrightarrow>
     distinct (map name (snapshot ar))
     \<and> (\<forall>r\<in>set (snapshot ar). validate_ref_name (name r) = Inr () \<and> validate_commit_oid (head r) = Inr ()
          \<and> updated_event_id r > 0)
     \<and> distinct (map event_id (reflog ar))
     \<and> (\<forall>e\<in>set (reflog ar). event_valid e)
     \<and> chained Map.empty (sort_key event_id (reflog ar))
     \<and> (\<forall>n. chain_end (sort_key event_id (reflog ar)) n
          = map_option (\<lambda>r. (head r, updated_event_id r)) (find_ref (snapshot ar) n))"

lemma distinct_sort_key: "distinct (map f (sort_key f xs)) = distinct (map f xs)"
  by (metis mset_eq_imp_distinct_iff mset_map mset_sort)

lemma sort_key_idem: "sort_key f (sort_key f xs) = sort_key f xs"
  by (rule sort_key_id_if_sorted) simp

lemma adjacent_sort_key: "adjacent_equal (map f (sort_key f xs)) \<longleftrightarrow> \<not> distinct (map f xs)"
  using sorted_adjacent [of "map f (sort_key f xs)"]
  by (simp add: strict_sorted_distinct distinct_sort_key)

lemma check_snapshot_record_ok:
  "is_ok (check_snapshot_record r) \<longleftrightarrow>
     validate_ref_name (name r) = Inr () \<and> validate_commit_oid (head r) = Inr () \<and> updated_event_id r > 0"
  by (auto simp: check_snapshot_record_def is_ok_iff result_simps as_archive_invalid_eq)

lemma check_final_record_ok:
  "is_ok (check_final_record f r) \<longleftrightarrow> map_of f (name r) = Some (head r, updated_event_id r)"
  by (auto simp: check_final_record_def is_ok_iff split: option.splits if_splits)

lemma finals_match:
  assumes "distinct (map fst f)" "distinct (map name rs)"
  shows "length f = length rs \<and> (\<forall>r\<in>set rs. map_of f (name r) = Some (head r, updated_event_id r)) \<longleftrightarrow>
    (\<forall>n. map_of f n = map_option (\<lambda>r. (head r, updated_event_id r)) (find_ref rs n))" (is "?L \<longleftrightarrow> ?R")
proof
  assume L: ?L
  have names: "set (map name rs) \<subseteq> set (map fst f)"
    using L by (force simp: map_of_eq_None_iff [symmetric] dom_map_of_conv_image_fst [symmetric])
  moreover have "card (set (map name rs)) = card (set (map fst f))"
    using assms L by (metis distinct_card length_map)
  ultimately have "set (map name rs) = set (map fst f)" by (intro card_subset_eq) auto
  then have "map_of f n = None" if "find_ref rs n = None" for n
    using that by (auto simp: find_ref_None map_of_eq_None_iff)
  then show ?R
  proof (intro allI)
    fix n
    show "map_of f n = map_option (\<lambda>r. (head r, updated_event_id r)) (find_ref rs n)"
    proof (cases "find_ref rs n")
      case (Some r)
      then show ?thesis using L find_ref_Some [OF Some] by auto
    qed (use \<open>\<And>n. find_ref rs n = None \<Longrightarrow> map_of f n = None\<close> in simp)
  qed
next
  assume R: ?R
  then have "\<forall>r\<in>set rs. map_of f (name r) = Some (head r, updated_event_id r)"
    using find_ref_member [OF assms(2)] by simp
  moreover have "set (map name rs) = set (map fst f)"
  proof -
    have "n \<in> set (map fst f) \<longleftrightarrow> n \<in> set (map name rs)" for n
      using R find_ref_None [of rs n] by (metis map_of_eq_None_iff option.map_disc_iff set_map)
    then show ?thesis by blast
  qed
  ultimately show ?L using assms by (metis distinct_card length_map)
qed

lemma find_ref_sorted:
  assumes "distinct (map name rs)" shows "find_ref (sort_key name rs) n = find_ref rs n"
proof (cases "find_ref rs n")
  case None
  then show ?thesis using find_ref_None [of "sort_key name rs" n] find_ref_None [of rs n] by simp
next
  case (Some r)
  then have "r \<in> set (sort_key name rs)" "name r = n" using find_ref_Some by fastforce+
  then show ?thesis
    using find_ref_member [of "sort_key name rs" r] assms Some by (simp add: distinct_sort_key)
qed

lemma prepare_archive_iff:
  "prepare_archive ar = Inr p \<longleftrightarrow> archive_consistent ar
     \<and> p = \<lparr>prepared_refs = sort_key name (snapshot ar), prepared_reflog = sort_key event_id (reflog ar),
            prepared_heads = foldl heads_update [] (sort_key event_id (reflog ar))\<rparr>"
proof -
  let ?log = "sort_key event_id (reflog ar)" and ?rs = "sort_key name (snapshot ar)"
  let ?f = "foldl finals_update [] ?log"
  have match: "length ?f = length ?rs \<and> (\<forall>r\<in>set ?rs. map_of ?f (name r) = Some (head r, updated_event_id r)) \<longleftrightarrow>
      (\<forall>n. chain_end ?log n = map_option (\<lambda>r. (head r, updated_event_id r)) (find_ref (snapshot ar) n))"
    if "distinct (map name (snapshot ar))"
    using finals_match [of ?f ?rs] distinct_finals [of "[]" ?log] that
    by (simp add: distinct_sort_key map_of_finals chain_end_def find_ref_sorted)
  have "prepare_archive ar = Inr p \<longleftrightarrow>
      distinct (map name (snapshot ar)) \<and> (\<forall>r\<in>set ?rs. is_ok (check_snapshot_record r))
      \<and> distinct (map event_id (reflog ar)) \<and> (\<forall>e\<in>set ?log. event_valid e) \<and> chained Map.empty ?log
      \<and> length ?f = length ?rs \<and> (\<forall>r\<in>set ?rs. is_ok (check_final_record ?f r))
      \<and> p = \<lparr>prepared_refs = ?rs, prepared_reflog = ?log, prepared_heads = foldl heads_update [] ?log\<rparr>"
    by (auto simp: prepare_archive_def Let_def adjacent_sort_key bindE_eq_Inr eachE_eq_Inr fold_check_event)
  then show ?thesis
    using match by (auto simp: archive_consistent_def check_snapshot_record_ok check_final_record_ok)
qed

text \<open>A well-formed store always exports an archive that the restore path accepts.\<close>

lemma sorted_events: "store_inv s \<Longrightarrow> sort_key event_id (ref_events s) = ref_events s"
  by (rule sort_key_id_if_sorted) (simp add: store_inv_def strict_sorted_distinct)

lemma load_reflog_all: "store_inv s \<Longrightarrow> load_reflog s None = ref_events s"
  by (simp add: load_reflog_def select_events_def sorted_events)

lemma export_consistent:
  assumes s: "store_inv s" shows "archive_consistent (export_archive s)"
proof -
  have d: "distinct (map name (refs s))" using s by (simp add: store_inv_def)
  have rec: "validate_ref_name (name r) = Inr () \<and> validate_commit_oid (head r) = Inr () \<and> updated_event_id r > 0"
    if "r \<in> set (refs s)" for r
    using store_inv_ref [OF s that] s unfolding store_inv_def event_valid_def by metis
  show ?thesis
    using s d rec
    by (auto simp: archive_consistent_def export_archive_def load_snapshot_def load_reflog_all [OF s]
        sorted_events [OF s] distinct_sort_key find_ref_sorted store_inv_def strict_sorted_distinct)
qed

lemma event_valid_row: "event_valid e \<Longrightarrow> event_row_ok e"
  by (auto simp: event_valid_def event_row_ok_def validate_ref_name_column validate_commit_oid_column
      validate_metadata_iff validate_commit_oid_opt_def split: option.splits)

definition max_event_id :: "int \<Rightarrow> reflog_entry list \<Rightarrow> int" where
  "max_event_id = foldl (\<lambda>m e. max m (event_id e))"

lemma max_event_id_simps [simp]:
  "max_event_id m [] = m" "max_event_id m (e # es) = max_event_id (max m (event_id e)) es"
  by (simp_all add: max_event_id_def)

lemma max_event_id_ge: "m \<le> max_event_id m es"
proof (induction es arbitrary: m)
  case (Cons e es)
  from Cons [of "max m (event_id e)"] show ?case by simp
qed simp

lemma max_event_id_member: "e \<in> set es \<Longrightarrow> event_id e \<le> max_event_id m es"
proof (induction es arbitrary: m)
  case (Cons f es)
  then show ?case using max_event_id_ge [of "max m (event_id f)" es] by auto
qed simp

lemma max_event_id_le: "m \<le> b \<Longrightarrow> \<forall>e\<in>set es. event_id e \<le> b \<Longrightarrow> max_event_id m es \<le> b"
  by (induction es arbitrary: m) auto

lemmas max_event_id_bounds = max_event_id_ge max_event_id_member max_event_id_le

lemma fold_insert_event:
  "\<forall>e\<in>set es. event_valid e \<Longrightarrow> distinct (map event_id (ref_events s @ es)) \<Longrightarrow>
   foldE insert_event s es = Inr (s\<lparr>ref_events := ref_events s @ es, sequence := max_event_id (sequence s) es\<rparr>)"
proof (induction es arbitrary: s)
  case (Cons e es)
  then have "insert_event s e = Inr (s\<lparr>ref_events := ref_events s @ [e], sequence := max (sequence s) (event_id e)\<rparr>)"
    by (auto simp: insert_event_def event_valid_row)
  with Cons show ?case by (simp add: max_event_id_def)
qed (simp add: max_event_id_def)

lemma fold_insert_ref:
  "\<forall>r\<in>set rs. ref_row_ok r \<and> foreign_key_ok s (updated_event_id r) \<Longrightarrow>
   distinct (map name (refs s @ rs)) \<Longrightarrow> distinct (map updated_event_id (refs s @ rs)) \<Longrightarrow>
   foldE insert_ref s rs = Inr (s\<lparr>refs := refs s @ rs\<rparr>)"
proof (induction rs arbitrary: s)
  case (Cons r rs)
  then have "insert_ref s r = Inr (s\<lparr>refs := refs s @ [r]\<rparr>)"
    by (auto simp: insert_ref_def ref_unique_ok_def)
  with Cons show ?case by (simp add: foreign_key_ok_def)
qed simp

definition restored :: "ref_store \<Rightarrow> ref_archive \<Rightarrow> ref_store" where
  "restored s ar = s\<lparr>refs := sort_key name (snapshot ar), ref_events := sort_key event_id (reflog ar),
     sequence := max_event_id (sequence s) (sort_key event_id (reflog ar))\<rparr>"

definition archive_i64 :: "ref_archive \<Rightarrow> bool" where
  "archive_i64 ar \<longleftrightarrow> (\<forall>e\<in>set (reflog ar). event_id e \<le> i64_max)"

lemma restored_inv:
  assumes "archive_consistent ar" "archive_i64 ar" "0 \<le> sequence s" "sequence s \<le> i64_max"
  shows "store_inv (restored s ar)"
proof -
  let ?log = "sort_key event_id (reflog ar)"
  have "sorted_wrt (<) (map event_id ?log)"
    using assms(1) by (simp add: strict_sorted_distinct distinct_sort_key archive_consistent_def)
  moreover have "\<forall>e\<in>set ?log. event_valid e \<and> event_id e \<le> max_event_id (sequence s) ?log"
    using assms(1) max_event_id_bounds(2) by (auto simp: archive_consistent_def)
  moreover have "max_event_id (sequence s) ?log \<le> i64_max" "0 \<le> max_event_id (sequence s) ?log"
    using assms max_event_id_bounds(3) [of "sequence s" i64_max ?log] max_event_id_bounds(1) [of "sequence s" ?log]
    by (auto simp: archive_i64_def)
  ultimately show ?thesis
    using assms(1)
    by (auto simp: store_inv_def restored_def archive_consistent_def distinct_sort_key find_ref_sorted)
qed

lemma restore_exact:
  assumes "archive_i64 ar" "0 \<le> sequence s" "sequence s \<le> i64_max"
  shows "restore_archive validator s ar = Inr s' \<longleftrightarrow>
    \<not> read_only s \<and> archive_consistent ar \<and> (\<forall>e\<in>set (reflog ar). validator (new_head e) = Inr ())
    \<and> refs s = [] \<and> ref_events s = [] \<and> s' = restored s ar" (is "_ \<longleftrightarrow> ?R")
proof -
  let ?log = "sort_key event_id (reflog ar)" and ?rs = "sort_key name (snapshot ar)"
  let ?s1 = "s\<lparr>ref_events := ?log, sequence := max_event_id (sequence s) ?log\<rparr>"
  have inserts: "bindE (foldE insert_event s ?log) (\<lambda>s1. foldE insert_ref s1 ?rs) = Inr (restored s ar)"
    if ar: "archive_consistent ar" and empty: "refs s = []" "ref_events s = []"
  proof -
    have inv: "store_inv (restored s ar)" using restored_inv [OF ar assms] .
    have "foldE insert_event s ?log = Inr ?s1"
      using ar empty by (subst fold_insert_event) (auto simp: archive_consistent_def distinct_sort_key)
    moreover have "foldE insert_ref ?s1 ?rs = Inr (?s1\<lparr>refs := refs ?s1 @ ?rs\<rparr>)"
    proof (rule fold_insert_ref)
      show "\<forall>r\<in>set ?rs. ref_row_ok r \<and> foreign_key_ok ?s1 (updated_event_id r)"
      proof
        fix r assume "r \<in> set ?rs"
        then have "r \<in> set (refs (restored s ar))" by (simp add: restored_def)
        then obtain e where "e \<in> set (ref_events (restored s ar))" "event_id e = updated_event_id r"
          using store_inv_ref [OF inv] by metis
        then have "foreign_key_ok ?s1 (updated_event_id r)" by (force simp: foreign_key_ok_def restored_def)
        moreover have "ref_row_ok r"
          using \<open>r \<in> set ?rs\<close> ar
          by (auto simp: archive_consistent_def ref_row_ok_def validate_ref_name_column validate_commit_oid_column)
        ultimately show "ref_row_ok r \<and> foreign_key_ok ?s1 (updated_event_id r)" by simp
      qed
      show "distinct (map name (refs ?s1 @ ?rs))"
        using ar empty by (simp add: archive_consistent_def distinct_sort_key)
      show "distinct (map updated_event_id (refs ?s1 @ ?rs))"
        using store_inv_distinct_updated [OF inv] empty by (simp add: restored_def)
    qed
    ultimately show ?thesis using empty by (simp add: restored_def)
  qed
  have heads: "eachE (\<lambda>h. map_err Validation (validator h)) (foldl heads_update [] ?log) = Inr () \<longleftrightarrow>
      (\<forall>e\<in>set (reflog ar). validator (new_head e) = Inr ())"
    by (auto simp: eachE_eq_Inr heads_set is_ok_iff map_err_eq_Inr)
  show ?thesis
    using inserts heads
    by (auto simp: restore_archive_def bindE_eq_Inr prepare_archive_iff ensure_writable_def ensure_eq_Inr
        split: if_splits)
qed

section \<open>Reachable stores\<close>

datatype store_event =
    SwapRef "str \<Rightarrow> validation_error + unit" "validation_error + unit" ref_update "ref_precondition list"
  | RestoreRefs "str \<Rightarrow> validation_error + unit" ref_archive

text \<open>An archive whose ids are not \<open>i64\<close> does not exist in the source; such an event is rejected.\<close>

fun store_step :: "ref_store \<Rightarrow> store_event \<Rightarrow> ref_store_error + ref_store" where
  "store_step s (SwapRef validator guard up pres) =
     bindE (compare_and_swap_with_preconditions_and_guard validator guard s up pres) (\<lambda>(_, s'). Inr s')"
| "store_step s (RestoreRefs validator ar) =
     (if archive_i64 ar then restore_archive validator s ar else Inl ArchiveInvalid)"

interpretation ref_history: event_system "\<lambda>s. s = empty_store" store_step store_inv
proof
  show "store_inv s" if "s = empty_store" for s using that empty_store_inv by simp
next
  fix s ev s'
  assume s: "store_inv s" and step: "store_step s ev = Inr s'"
  show "store_inv s'"
  proof (cases ev)
    case (SwapRef validator guard up pres)
    then obtain entry where "compare_and_swap_with_preconditions_and_guard validator guard s up pres = Inr (entry, s')"
      using step by (auto simp: bindE_eq_Inr)
    then show ?thesis
      using advance_inv [OF s] by (auto simp: cas_exact [OF s] update_admissible_def)
  next
    case (RestoreRefs validator ar)
    then have ar: "archive_i64 ar" and r: "restore_archive validator s ar = Inr s'"
      using step by (auto split: if_splits)
    have q: "0 \<le> sequence s" "sequence s \<le> i64_max" using s by (simp_all add: store_inv_def)
    show ?thesis
      using r restored_inv [OF _ ar q] by (simp add: restore_exact [OF ar q])
  qed
qed

section \<open>Bounded export, pages and evidence\<close>

lemma add_text_error: "add_ref_archive_text_bytes a b c = Inl e \<Longrightarrow> e = ref_archive_resource_limit"
  by (auto simp: add_ref_archive_text_bytes_def result_simps split: if_splits)

lemma fold_add_snapshot:
  "foldE (add_snapshot_row lim) (rows, t) rs = Inr (rows', t') \<Longrightarrow> rows' = rows @ rs"
  "foldE (add_snapshot_row lim) (rows, t) rs = Inl e \<Longrightarrow> e = ref_archive_resource_limit"
  by (induction rs arbitrary: rows t)
    (auto simp: add_snapshot_row_def result_simps split: if_splits dest: add_text_error, fastforce)

lemma fold_add_reflog:
  "foldE (add_reflog_row lim) (rows, t) es = Inr (rows', t') \<Longrightarrow> rows' = rows @ es"
  "foldE (add_reflog_row lim) (rows, t) es = Inl e \<Longrightarrow> e = ref_archive_resource_limit"
  by (induction es arbitrary: rows t)
    (auto simp: add_reflog_row_def result_simps split: if_splits dest: add_text_error, fastforce)

lemma export_limits_error: "validate_ref_archive_export_limits lim = Inl e \<Longrightarrow> e = ref_archive_resource_limit"
  by (auto simp: validate_ref_archive_export_limits_def result_simps)

lemma export_with_limits_cases:
  assumes s: "store_inv s"
  shows "export_archive_with_limits s lim = Inr ar \<Longrightarrow> ar = export_archive s"
    and "export_archive_with_limits s lim = Inl e \<Longrightarrow> e = ref_archive_resource_limit"
proof -
  have prep: "\<exists>p. prepare_archive (export_archive s) = Inr p"
    using export_consistent [OF s] by (simp add: prepare_archive_iff)
  show "ar = export_archive s" if "export_archive_with_limits s lim = Inr ar"
    using that by (auto simp: export_archive_with_limits_def bindE_eq_Inr Let_def export_archive_def
        dest!: fold_add_snapshot(1) fold_add_reflog(1))
  show "e = ref_archive_resource_limit" if "export_archive_with_limits s lim = Inl e"
    using that prep
    by (auto simp: export_archive_with_limits_def bindE_eq_Inl bindE_eq_Inr Let_def export_archive_def
        dest: export_limits_error fold_add_snapshot(2) fold_add_reflog(2) dest!: fold_add_snapshot(1) fold_add_reflog(1))
qed

text \<open>The events of a query after a cursor: what a page is cut from.\<close>

definition events_after :: "ref_store \<Rightarrow> str option \<Rightarrow> int \<Rightarrow> reflog_entry list" where
  "events_after s n after = filter (\<lambda>e. event_id e > after) (select_events s n)"

lemma select_events_sorted: "store_inv s \<Longrightarrow> sorted_wrt (<) (map event_id (select_events s n))"
proof -
  assume s: "store_inv s"
  let ?p = "\<lambda>e. case n of None \<Rightarrow> True | Some n \<Rightarrow> ref_name e = n"
  have "distinct (map event_id (filter ?p (ref_events s)))"
    using s by (auto simp: store_inv_def strict_sorted_distinct distinct_map_filter)
  then show ?thesis by (simp add: select_events_def strict_sorted_distinct distinct_sort_key)
qed

lemma sorted_filter_after:
  fixes f :: "'a \<Rightarrow> int"
  assumes "sorted_wrt (<) (map f (xs @ y # zs))"
  shows "filter (\<lambda>e. f e > f y) (xs @ y # zs) = zs"
proof -
  have "filter (\<lambda>e. f y < f e) xs = []" "filter (\<lambda>e. f y < f e) zs = zs"
    using assms by (auto simp: sorted_wrt_append filter_empty_conv filter_id_conv)
  then show ?thesis by simp
qed

lemma events_after_cut:
  assumes s: "store_inv s" and cut: "events_after s n after = xs @ y # zs"
  shows "events_after s n (event_id y) = zs"
proof -
  have "y \<in> set (events_after s n after)" using cut by simp
  then have y: "event_id y > after" by (simp add: events_after_def)
  then have "events_after s n (event_id y) = filter (\<lambda>e. event_id e > event_id y) (events_after s n after)"
    by (auto simp: events_after_def intro!: filter_cong)
  moreover have "sorted_wrt (<) (map event_id (events_after s n after))"
    using select_events_sorted [OF s, of n] by (auto simp: events_after_def sorted_wrt_map intro: sorted_wrt_filter)
  ultimately show ?thesis unfolding cut by (simp only: sorted_filter_after)
qed

lemma read_page_law:
  assumes s: "store_inv s" and pg: "read_reflog_page s n after limit = Inr pg"
  shows "events_after s n (case after of None \<Rightarrow> 0 | Some i \<Rightarrow> i) = entries pg @
      (case next_after_event_id pg of None \<Rightarrow> [] | Some i \<Rightarrow> events_after s n i)
    \<and> length (entries pg) \<le> limit \<and> (next_after_event_id pg \<noteq> None \<longrightarrow> length (entries pg) = limit)"
proof -
  let ?a = "case after of None \<Rightarrow> 0 | Some i \<Rightarrow> i"
  define rows where "rows = take (limit + 1) (events_after s n ?a)"
  have lim: "1 \<le> limit" and
    pg': "entries pg = (if length rows > limit then butlast rows else rows)"
      "next_after_event_id pg = (if length rows > limit then Some (event_id (last (entries pg))) else None)"
    using pg by (auto simp: read_reflog_page_def bindE_eq_Inr load_reflog_page_def map_err_eq_Inr Let_def
        events_after_def [symmetric] rows_def split: if_splits)
  show ?thesis
  proof (cases "length rows > limit")
    case False
    then have "rows = events_after s n ?a" by (auto simp: rows_def)
    with False pg' show ?thesis by simp
  next
    case True
    then have len: "length rows = limit + 1" by (simp add: rows_def)
    then have kept: "length (entries pg) = limit" "entries pg = take limit (events_after s n ?a)"
      using True pg' by (simp_all add: rows_def butlast_take)
    have "entries pg \<noteq> []" using kept(1) lim by auto
    then obtain xs y where xy: "entries pg = xs @ [y]" by (metis rev_exhaust)
    have "events_after s n ?a = xs @ y # drop limit (events_after s n ?a)"
      using kept(2) xy by (metis append.assoc append_Cons append_Nil append_take_drop_id)
    note cut = events_after_cut [OF s this]
    have "next_after_event_id pg = Some (event_id y)" using True pg'(2) xy by simp
    moreover have "events_after s n ?a = entries pg @ events_after s n (event_id y)"
      unfolding cut using kept(2) by (metis append_take_drop_id)
    ultimately show ?thesis using kept(1) by simp
  qed
qed

lemma read_page_no_panic: "read_reflog_page s n after limit \<noteq> panics"
proof -
  have "butlast (rows :: reflog_entry list) \<noteq> []" if "1 \<le> limit" "limit < length rows" for rows
  proof -
    have "0 < length (butlast rows)" using that by simp
    then show ?thesis by (metis less_irrefl list.size(3))
  qed
  then show ?thesis
    by (auto simp: read_reflog_page_def bindE_eq_Inl map_err_eq_Inl Let_def split: option.splits if_splits)
qed

lemma chain_end_last:
  "chain_end es n = (let fs = filter (\<lambda>e. ref_name e = n) es in
     if fs = [] then None else Some (new_head (last fs), event_id (last fs)))"
  by (induction es rule: rev_induct) (auto simp: chain_end_def chain_step_def Let_def)

lemma select_events_name: "store_inv s \<Longrightarrow> select_events s (Some n) = filter (\<lambda>e. ref_name e = n) (ref_events s)"
proof -
  assume s: "store_inv s"
  have "sorted (map event_id (filter (\<lambda>e. ref_name e = n) (ref_events s)))"
    using s by (auto simp: store_inv_def strict_sorted_distinct sorted_filter)
  then show ?thesis by (simp add: select_events_def sort_key_id_if_sorted)
qed

lemma query_head_last_event:
  assumes s: "store_inv s"
  shows "query_head s n = (let fs = select_events s (Some n) in if fs = [] then None else Some (new_head (last fs)))"
proof -
  have "map_option fst (chain_end (ref_events s) n) = query_head s n"
    using s by (simp add: store_inv_def query_head_def option.map_comp comp_def)
  then show ?thesis by (auto simp: chain_end_last select_events_name [OF s] Let_def split: if_splits)
qed

section \<open>Properties\<close>

definition sample_oid :: "byte \<Rightarrow> str" where
  "sample_oid c = COMMIT_OID_PREFIX @ replicate 64 c"

definition sample_update :: "str option \<Rightarrow> str \<Rightarrow> ref_update" where
  "sample_update e v = \<lparr>up_ref_name = ''decision/main'', up_expected_head = e, up_new_head = v,
     up_metadata = \<lparr>md_occurred_at = 1, md_actor = Some ''ana'', md_message = None\<rparr>\<rparr>"

definition sample_store :: ref_store where
  "sample_store = advance empty_store (sample_update None (sample_oid (CHR ''a'')))"

lemma sample_update_valid:
  "update_valid (sample_update None (sample_oid (CHR ''a'')))"
  "update_valid (sample_update (Some (sample_oid (CHR ''a''))) (sample_oid (CHR ''b'')))"
  by code_simp+

lemma sample_store_inv: "store_inv sample_store"
  unfolding sample_store_def
  by (rule advance_inv [OF empty_store_inv sample_update_valid(1)]) (simp add: empty_store_def i64_max_def)

text \<open>
  C9: compare-and-swap is exact. On a well-formed store it succeeds exactly when the handle is
  writable, the request is well-formed, the validator and the guard accept, every precondition
  and the expected head match, and ids remain; then it appends one event with the next id and
  moves that one Ref. None of the table constraints can fire, and every other outcome is an error
  that leaves the store as it was.
\<close>

theorem compare_and_swap_exact:
  assumes "store_inv s"
  shows "compare_and_swap_with_preconditions_and_guard validator guard s up pres = Inr (entry, s') \<longleftrightarrow>
    \<not> read_only s \<and> update_valid up \<and> validator (up_new_head up) = Inr () \<and> guard = Inr ()
    \<and> (\<forall>p\<in>set pres. is_ok (check_precondition_syntax p) \<and> query_head s (pre_ref_name p) = pre_expected_head p)
    \<and> query_head s (up_ref_name up) = up_expected_head up \<and> sequence s < i64_max
    \<and> entry = update_entry s up \<and> s' = advance s up"
  by (auto simp: cas_exact [OF assms] update_admissible_def)

theorem compare_and_swap_exact_witness:
  "compare_and_swap_with_preconditions_and_guard (\<lambda>_. Inr ()) (Inr ()) sample_store
     (sample_update (Some (sample_oid (CHR ''a''))) (sample_oid (CHR ''b''))) []
   = Inr (update_entry sample_store (sample_update (Some (sample_oid (CHR ''a''))) (sample_oid (CHR ''b''))),
          advance sample_store (sample_update (Some (sample_oid (CHR ''a''))) (sample_oid (CHR ''b''))))"
proof -
  have "query_head sample_store ''decision/main'' = Some (sample_oid (CHR ''a''))"
    by (simp add: sample_store_def query_head_advance sample_update_def)
  moreover have "sequence sample_store < i64_max" "\<not> read_only sample_store"
    by (simp_all add: sample_store_def advance_def empty_store_def i64_max_def)
  ultimately show ?thesis
    by (subst compare_and_swap_exact [OF sample_store_inv])
      (simp add: sample_update_valid, simp add: sample_update_def)
qed

text \<open>
  C22: in every state that any sequence of swaps and restores reaches from an empty store, the
  reflog of each Ref is an unbroken chain (every event starts at the head the previous one left),
  event ids grow strictly, and the current head of each Ref is the new head of its last event.
\<close>

theorem reachable_store_history:
  "let s = run_events store_step empty_store evs in
     chained Map.empty (ref_events s) \<and> sorted_wrt (<) (map event_id (ref_events s))
     \<and> distinct (map name (refs s)) \<and> (\<forall>e\<in>set (ref_events s). event_valid e)
     \<and> (\<forall>n. query_head s n = (let fs = select_events s (Some n) in
              if fs = [] then None else Some (new_head (last fs))))"
proof -
  have "store_inv (run_events store_step empty_store evs)" by (rule ref_history.reachable_inv [OF refl])
  then show ?thesis using query_head_last_event by (auto simp: Let_def store_inv_def)
qed

theorem reachable_store_history_witness:
  "let s = run_events store_step empty_store
        [SwapRef (\<lambda>_. Inr ()) (Inr ()) (sample_update None (sample_oid (CHR ''a''))) []] in
     \<forall>e\<in>set (ref_events s). event_valid e"
  using reachable_store_history
    [of "[SwapRef (\<lambda>_. Inr ()) (Inr ()) (sample_update None (sample_oid (CHR ''a''))) []]"]
  unfolding Let_def by blast

text \<open>
  No lost update. Once a swap has moved a Ref away from a head, no second swap that still
  expects that head succeeds, whatever validator, guard and preconditions it uses; the store
  answers with the conflict and the actual head when the request is otherwise acceptable.
\<close>

theorem stale_compare_and_swap:
  assumes s: "store_inv s"
    and first: "compare_and_swap_with_preconditions_and_guard validator guard s up pres = Inr (entry, s')"
    and moved: "up_expected_head up \<noteq> Some (up_new_head up)"
    and again: "up_ref_name up2 = up_ref_name up" "up_expected_head up2 = up_expected_head up"
  shows "(\<nexists>x. compare_and_swap_with_preconditions_and_guard validator2 guard2 s' up2 pres2 = Inr x)
    \<and> (update_valid up2 \<and> validator2 (up_new_head up2) = Inr () \<and> guard2 = Inr () \<and> pres2 = [] \<longrightarrow>
        compare_and_swap_with_preconditions_and_guard validator2 guard2 s' up2 pres2
        = Inl (RefConflict (up_ref_name up2) (up_expected_head up2) (Some (up_new_head up))))"
proof -
  have f: "update_admissible validator guard s up pres" "s' = advance s up" "sequence s < i64_max"
    using first by (simp_all add: cas_exact [OF s])
  have s': "store_inv s'" using f advance_inv [OF s] by (auto simp: update_admissible_def)
  have h: "query_head s' (up_ref_name up2) = Some (up_new_head up)" by (simp add: f(2) query_head_advance again)
  then have "\<not> update_admissible validator2 guard2 s' up2 pres2"
    using moved again by (auto simp: update_admissible_def)
  moreover have "\<not> read_only s'" using f by (simp add: update_admissible_def advance_def)
  ultimately show ?thesis
    using h moved again unfolding cas_exact [OF s']
    by (auto simp: compare_and_swap_with_preconditions_and_guard_def update_valid_def
        ensure_writable_def Let_def)
qed

theorem stale_compare_and_swap_witness:
  "\<nexists>x. compare_and_swap_with_preconditions_and_guard (\<lambda>_. Inr ()) (Inr ()) sample_store
     (sample_update None (sample_oid (CHR ''b''))) [] = Inr x"
proof -
  have "compare_and_swap_with_preconditions_and_guard (\<lambda>_. Inr ()) (Inr ()) empty_store
      (sample_update None (sample_oid (CHR ''a''))) []
      = Inr (update_entry empty_store (sample_update None (sample_oid (CHR ''a''))), sample_store)"
    using sample_update_valid(1)
    by (simp add: cas_exact [OF empty_store_inv] update_admissible_def sample_store_def)
      (simp add: empty_store_def i64_max_def query_head_def find_ref_def sample_update_def)
  from stale_compare_and_swap [OF empty_store_inv this, of "sample_update None (sample_oid (CHR ''b''))"
      "\<lambda>_. Inr ()" "Inr ()" "[]"]
  show ?thesis by (simp add: sample_update_def)
qed

text \<open>
  C23: export and restore invert each other. The archive of a well-formed store is accepted by the
  restore path of an empty store whose validator accepts the archived heads, and the restored
  store shows the same snapshot, the same reflog with the same ids, and the same heads.
\<close>

theorem export_restore_round_trip:
  assumes s: "store_inv s" and ok: "\<forall>e\<in>set (ref_events s). validator (new_head e) = Inr ()"
  shows "\<exists>s'. restore_archive validator empty_store (export_archive s) = Inr s' \<and> store_inv s'
    \<and> load_snapshot s' = load_snapshot s \<and> load_reflog s' n = load_reflog s n
    \<and> query_head s' r = query_head s r"
proof -
  let ?ar = "export_archive s"
  have i64: "archive_i64 ?ar"
    using s by (auto simp: archive_i64_def export_archive_def load_reflog_all [OF s] store_inv_def)
  have q: "0 \<le> sequence empty_store" "sequence empty_store \<le> i64_max" by (simp_all add: empty_store_def i64_max_def)
  have fields: "ref_events (restored empty_store ?ar) = ref_events s"
    "refs (restored empty_store ?ar) = sort_key name (refs s)"
    by (simp_all add: restored_def export_archive_def load_reflog_all [OF s] sorted_events [OF s]
        load_snapshot_def sort_key_idem)
  have "restore_archive validator empty_store ?ar = Inr (restored empty_store ?ar)"
    unfolding restore_exact [OF i64 q] using export_consistent [OF s] ok
    by (simp add: empty_store_def) (simp add: export_archive_def load_reflog_all [OF s])
  moreover have "store_inv (restored empty_store ?ar)" by (rule restored_inv [OF export_consistent [OF s] i64 q])
  ultimately show ?thesis
    using s fields
    by (simp add: load_snapshot_def load_reflog_def select_events_def query_head_def find_ref_sorted
        store_inv_def [of s] sort_key_idem)
qed

theorem export_restore_round_trip_witness:
  "\<exists>s'. restore_archive (\<lambda>_. Inr ()) empty_store (export_archive sample_store) = Inr s' \<and> store_inv s'
     \<and> load_snapshot s' = load_snapshot sample_store \<and> load_reflog s' None = load_reflog sample_store None
     \<and> query_head s' ''decision/main'' = query_head sample_store ''decision/main''"
  by (rule export_restore_round_trip [OF sample_store_inv]) simp

text \<open>
  C24: restoring accepts exactly the consistent archives. For \<open>i64\<close> ids, \<open>restore_archive\<close> succeeds
  exactly when the handle is writable, the store is empty, the archive is consistent (valid
  distinct names and ids, an unbroken chain per Ref that ends at the declared head and event) and
  the validator accepts every archived head; the result satisfies the store invariant.
\<close>

theorem restore_archive_exact:
  assumes "archive_i64 ar" "store_inv s"
  shows "(restore_archive validator s ar = Inr s' \<longleftrightarrow>
      \<not> read_only s \<and> refs s = [] \<and> ref_events s = [] \<and> archive_consistent ar
      \<and> (\<forall>e\<in>set (reflog ar). validator (new_head e) = Inr ()) \<and> s' = restored s ar)
    \<and> (restore_archive validator s ar = Inr s' \<longrightarrow> store_inv s')"
  using restore_exact [OF assms(1), of s validator s'] restored_inv [OF _ assms(1), of s] assms(2)
  by (auto simp: store_inv_def [of s])

theorem restore_archive_exact_witness:
  "restore_archive (\<lambda>_. Inr ()) empty_store (export_archive sample_store)
   = Inr (restored empty_store (export_archive sample_store))"
proof -
  have "archive_i64 (export_archive sample_store)"
    using sample_store_inv
    by (auto simp: archive_i64_def export_archive_def load_reflog_all [OF sample_store_inv] store_inv_def)
  from restore_archive_exact [OF this empty_store_inv] show ?thesis
    using export_consistent [OF sample_store_inv] by (simp add: empty_store_def)
qed

text \<open>
  C25: bounded export. On a well-formed store \<open>export_archive_with_limits\<close> returns the complete
  archive or fails with \<open>resource_limit\<close>; its own re-validation never rejects a reachable store.
\<close>

theorem bounded_export_exact:
  assumes "store_inv s"
  shows "(\<forall>ar. export_archive_with_limits s lim = Inr ar \<longrightarrow> ar = export_archive s)
    \<and> (\<forall>e. export_archive_with_limits s lim = Inl e \<longrightarrow> e = ref_archive_resource_limit)"
  using export_with_limits_cases [OF assms] by blast

theorem bounded_export_exact_witness:
  "export_archive_with_limits sample_store \<lparr>max_refs = 5, max_reflog_entries = 5, max_text_bytes = 10000\<rparr>
     = Inr (export_archive sample_store)
   \<and> export_archive_with_limits sample_store \<lparr>max_refs = 5, max_reflog_entries = 5, max_text_bytes = 10\<rparr>
     = Inl ref_archive_resource_limit"
proof
  let ?big = "export_archive_with_limits sample_store \<lparr>max_refs = 5, max_reflog_entries = 5, max_text_bytes = 10000\<rparr>"
  let ?small = "export_archive_with_limits sample_store \<lparr>max_refs = 5, max_reflog_entries = 5, max_text_bytes = 10\<rparr>"
  have "is_ok ?big" "\<not> is_ok ?small" by code_simp+
  then obtain ar e where "?big = Inr ar" "?small = Inl e" by (metis is_ok_iff sumE)
  then show "?big = Inr (export_archive sample_store)" "?small = Inl ref_archive_resource_limit"
    using bounded_export_exact [OF sample_store_inv] by auto
qed

text \<open>
  Reflog pages partition the reflog. A page holds the events right after its cursor; with a
  next cursor the page is full and the remaining events are exactly those after that cursor,
  without one the page is the rest. So following cursors yields every event once, in order; the
  page function never panics.
\<close>

theorem reflog_page_law:
  assumes "store_inv s" "read_reflog_page s n after limit = Inr pg"
  shows "events_after s n (case after of None \<Rightarrow> 0 | Some i \<Rightarrow> i) = entries pg @
      (case next_after_event_id pg of None \<Rightarrow> [] | Some i \<Rightarrow> events_after s n i)
    \<and> length (entries pg) \<le> limit \<and> (next_after_event_id pg \<noteq> None \<longrightarrow> length (entries pg) = limit)
    \<and> read_reflog_page s m from k \<noteq> panics"
  using read_page_law [OF assms] read_page_no_panic by blast

theorem reflog_page_law_witness:
  "\<exists>pg. read_reflog_page sample_store None None 1 = Inr pg
     \<and> events_after sample_store None 0 = entries pg @
         (case next_after_event_id pg of None \<Rightarrow> [] | Some i \<Rightarrow> events_after sample_store None i)"
proof -
  have "\<exists>pg. read_reflog_page sample_store None None 1 = Inr pg"
    by (simp add: read_reflog_page_def load_snapshot_count_limited_def load_reflog_page_def sample_store_def
        advance_def empty_store_def load_snapshot_def put_ref_def select_events_def update_entry_def
        saturating_add_def MAX_REF_SNAPSHOT_ENTRIES_def MAX_REFLOG_PAGE_ENTRIES_def usize_max_def i64_max_def)
  then show ?thesis using reflog_page_law [OF sample_store_inv, of None None 1] by auto
qed

text \<open>
  Transition evidence agrees with the snapshot it is read with: the newest event of the Ref
  carries the Ref's current head, and an exact transition is counted exactly when some event of
  the Ref moved it from the expected old head to the candidate.
\<close>

theorem transition_evidence_exact:
  assumes s: "store_inv s" and ev: "read_ref_transition_evidence s n old cand = Inr ev"
  shows "map_option new_head (latest_entry ev) = query_head s n
    \<and> (exact_transition_count ev > 0 \<longleftrightarrow>
        (\<exists>e\<in>set (ref_events s). ref_name e = n \<and> old_head e = old \<and> new_head e = cand))
    \<and> (exact_transition_entry ev = None \<longleftrightarrow> exact_transition_count ev = 0)
    \<and> exact_transition_count ev \<le> candidate_touch_count ev"
proof -
  let ?rows = "select_events s (Some n)"
  let ?exact = "filter (\<lambda>e. old_head e = old \<and> new_head e = cand) ?rows"
  have ev': "exact_transition_count ev = length ?exact"
    "candidate_touch_count ev = length (filter (\<lambda>e. old_head e = Some cand \<or> new_head e = cand) ?rows)"
    "exact_transition_entry ev = (if ?exact = [] then None else Some (last ?exact))"
    "latest_entry ev = (if ?rows = [] then None else Some (last ?rows))"
    using ev by (auto simp: read_ref_transition_evidence_def bindE_eq_Inr Let_def)
  have "length (filter (\<lambda>e. old_head e = old \<and> new_head e = cand) rows)
      \<le> length (filter (\<lambda>e. old_head e = Some cand \<or> new_head e = cand) rows)" for rows
    by (induction rows) auto
  then have le: "exact_transition_count ev \<le> candidate_touch_count ev" by (simp only: ev'(1,2))
  have "map_option new_head (latest_entry ev) = query_head s n"
    unfolding query_head_last_event [OF s] ev'(4) by simp
  moreover have "exact_transition_count ev > 0 \<longleftrightarrow>
      (\<exists>e\<in>set (ref_events s). ref_name e = n \<and> old_head e = old \<and> new_head e = cand)"
    unfolding ev'(1) select_events_name [OF s] by (auto simp: filter_empty_conv)
  moreover have "exact_transition_entry ev = None \<longleftrightarrow> exact_transition_count ev = 0"
    by (simp only: ev'(1,3) length_0_conv split: if_splits) simp
  ultimately show ?thesis using le by blast
qed

theorem transition_evidence_exact_witness:
  "\<exists>ev. read_ref_transition_evidence sample_store ''decision/main'' None (sample_oid (CHR ''a'')) = Inr ev
     \<and> map_option new_head (latest_entry ev) = query_head sample_store ''decision/main''"
proof -
  have "validate_ref_name ''decision/main'' = Inr ()" "validate_commit_oid (sample_oid (CHR ''a'')) = Inr ()"
    by code_simp+
  then have "\<exists>ev. read_ref_transition_evidence sample_store ''decision/main'' None (sample_oid (CHR ''a'')) = Inr ev"
    by (simp add: read_ref_transition_evidence_def validate_commit_oid_opt_def load_snapshot_count_limited_def
        sample_store_def advance_def empty_store_def load_snapshot_def put_ref_def
        saturating_add_def MAX_REF_SNAPSHOT_ENTRIES_def usize_max_def i64_max_def Let_def)
  then show ?thesis using transition_evidence_exact [OF sample_store_inv] by blast
qed

text \<open>
  The store's own Commit check agrees with the identifier parser of the canonical crate, which
  it does not call.
\<close>

theorem validate_commit_oid_agrees:
  "validate_commit_oid oid = Inr () \<longleftrightarrow> parse_oid oid = Inr Commit"
  using parse_oid_cases parse_format_oid by (metis validate_commit_oid_iff)

end
