(* ===== verification/Canonical_Utf8.thy ===== *)
theory Canonical_Utf8
  imports Canonical_Oid Decimal_Text
begin

text \<open>
  Text as the Rust standard library sees it, as far as \<^verbatim>\<open>synapse-canonical\<close> uses it: a
  \<open>char\<close> is a Unicode scalar value (a \<^typ>\<open>nat\<close>), \<open>push\<close> appends its UTF-8 bytes,
  \<open>len_utf8\<close> counts them, \<open>std::str::from_utf8\<close> accepts exactly the well-formed sequences (no
  overlong forms, no surrogates, nothing above U+10FFFF) and \<open>chars\<close> reads them back.
\<close>

section \<open>One scalar value\<close>

definition is_scalar :: "nat \<Rightarrow> bool" where
  "is_scalar c \<longleftrightarrow> c < 0xD800 \<or> 0xE000 \<le> c \<and> c \<le> 0x10FFFF"

definition len_utf8 :: "nat \<Rightarrow> nat" where
  "len_utf8 c = (if c < 0x80 then 1 else if c < 0x800 then 2 else if c < 0x10000 then 3 else 4)"

definition utf8_encode :: "nat \<Rightarrow> bytes" where
  "utf8_encode c =
     map char_of
       (if c < 0x80 then [c]
        else if c < 0x800 then [0xC0 + c div 64, 0x80 + c mod 64]
        else if c < 0x10000 then [0xE0 + c div 4096, 0x80 + c div 64 mod 64, 0x80 + c mod 64]
        else [0xF0 + c div 262144, 0x80 + c div 4096 mod 64, 0x80 + c div 64 mod 64, 0x80 + c mod 64])"

definition is_cont :: "nat \<Rightarrow> bool" where
  "is_cont b \<longleftrightarrow> 0x80 \<le> b \<and> b \<le> 0xBF"

definition utf8_next :: "bytes \<Rightarrow> nat option" where
  "utf8_next bs =
     (case map byte_val (take 4 bs) of
        [] \<Rightarrow> None
      | a # rest \<Rightarrow>
          if a < 0x80 then Some a
          else if 0xC2 \<le> a \<and> a \<le> 0xDF then
            (case rest of b # _ \<Rightarrow> if is_cont b then Some ((a - 0xC0) * 64 + (b - 0x80)) else None
             | _ \<Rightarrow> None)
          else if 0xE0 \<le> a \<and> a \<le> 0xEF then
            (case rest of b # c # _ \<Rightarrow>
               if is_cont b \<and> is_cont c \<and> (a = 0xE0 \<longrightarrow> 0xA0 \<le> b) \<and> (a = 0xED \<longrightarrow> b \<le> 0x9F)
               then Some ((a - 0xE0) * 4096 + (b - 0x80) * 64 + (c - 0x80)) else None
             | _ \<Rightarrow> None)
          else if 0xF0 \<le> a \<and> a \<le> 0xF4 then
            (case rest of b # c # d # _ \<Rightarrow>
               if is_cont b \<and> is_cont c \<and> is_cont d \<and> (a = 0xF0 \<longrightarrow> 0x90 \<le> b) \<and> (a = 0xF4 \<longrightarrow> b \<le> 0x8F)
               then Some ((a - 0xF0) * 262144 + (b - 0x80) * 4096 + (c - 0x80) * 64 + (d - 0x80)) else None
             | _ \<Rightarrow> None)
          else None)"

lemma length_utf8_encode [simp]: "length (utf8_encode c) = len_utf8 c"
  by (simp add: utf8_encode_def len_utf8_def)

lemma len_utf8_pos [simp]: "0 < len_utf8 c"
  by (simp add: len_utf8_def)

lemma utf8_encode_not_Nil [simp]: "utf8_encode c \<noteq> []"
  by (metis len_utf8_pos length_utf8_encode length_greater_0_conv)

lemma utf8_encode_ascii: "c < 0x80 \<Longrightarrow> utf8_encode c = [char_of c]"
  by (simp add: utf8_encode_def)

lemma byte_val_char_of: "n < 256 \<Longrightarrow> byte_val (char_of n) = n"
  by simp

lemma scalar_cases:
  assumes "is_scalar c"
  obtains (one) "c < 0x80"
  | (two) a b where "c = a * 64 + b" "2 \<le> a" "a < 32" "b < 64"
  | (three) a b d where "c = a * 4096 + b * 64 + d" "a < 16" "b < 64" "d < 64"
      "a = 0 \<longrightarrow> 32 \<le> b" "a = 13 \<longrightarrow> b \<le> 31"
  | (four) a b d e where "c = a * 262144 + b * 4096 + d * 64 + e" "a < 5" "b < 64" "d < 64" "e < 64"
      "a = 0 \<longrightarrow> 16 \<le> b" "a = 4 \<longrightarrow> b \<le> 15"
proof -
  consider "c < 0x80" | "0x80 \<le> c" "c < 0x800" | "0x800 \<le> c" "c < 0x10000" | "0x10000 \<le> c" "c < 0x110000"
    using assms unfolding is_scalar_def by linarith
  then show thesis
  proof cases
    case 1
    then show thesis by (rule one)
  next
    case 2
    have "c = c div 64 * 64 + c mod 64" "2 \<le> c div 64" "c div 64 < 32" "c mod 64 < 64"
      using 2 by auto
    then show thesis by (rule two)
  next
    case 3
    define a r where "a = c div 4096" and "r = c mod 4096"
    define b d where "b = r div 64" and "d = r mod 64"
    have eq: "c = a * 4096 + b * 64 + d" and "a < 16" "b < 64" "d < 64"
      using 3 by (simp_all add: a_def r_def b_def d_def)
    moreover have "a = 0 \<longrightarrow> 32 \<le> b" using eq 3 \<open>d < 64\<close> by auto
    moreover have "a = 13 \<longrightarrow> b \<le> 31"
      using assms eq \<open>b < 64\<close> \<open>d < 64\<close> unfolding is_scalar_def by auto
    ultimately show thesis by (rule three)
  next
    case 4
    define a r where "a = c div 262144" and "r = c mod 262144"
    define b q where "b = r div 4096" and "q = r mod 4096"
    define d e where "d = q div 64" and "e = q mod 64"
    have eq: "c = a * 262144 + b * 4096 + d * 64 + e" and "a < 5" "b < 64" "d < 64" "e < 64"
      using 4 by (simp_all add: a_def r_def b_def q_def d_def e_def)
    moreover have "a = 0 \<longrightarrow> 16 \<le> b" using eq 4 \<open>d < 64\<close> \<open>e < 64\<close> by auto
    moreover have "a = 4 \<longrightarrow> b \<le> 15" using eq 4 by auto
    ultimately show thesis by (rule four)
  qed
qed

lemma base64_div: "d < 64 \<Longrightarrow> (n * 64 + d) div 64 = (n::nat)"
  by simp

lemma base64_mod: "d < 64 \<Longrightarrow> (n * 64 + d) mod 64 = (d::nat)"
  by (metis mod_less mod_mult_self3)

lemma utf8_encode_two: "2 \<le> a \<Longrightarrow> a < 32 \<Longrightarrow> b < 64 \<Longrightarrow>
  utf8_encode (a * 64 + b) = map char_of [0xC0 + a, 0x80 + b]"
  by (simp add: utf8_encode_def)

lemma utf8_encode_three:
  assumes "a < 16" "b < 64" "d < 64" "a = 0 \<longrightarrow> 32 \<le> b"
  shows "utf8_encode (a * 4096 + b * 64 + d) = map char_of [0xE0 + a, 0x80 + b, 0x80 + d]"
proof -
  have "a * 4096 + b * 64 + d = (a * 64 + b) * 64 + d" by simp
  then have "(a * 4096 + b * 64 + d) div 64 = a * 64 + b" "(a * 4096 + b * 64 + d) mod 64 = d"
    using assms by (metis base64_div, metis base64_mod)
  moreover have "(a * 4096 + b * 64 + d) div 4096 = a" using assms by simp
  moreover have "0x800 \<le> a * 4096 + b * 64 + d" using assms by (cases a) auto
  moreover have "a * 4096 + b * 64 + d < 0x10000" using assms by linarith
  ultimately show ?thesis using assms by (simp add: utf8_encode_def)
qed

lemma utf8_encode_four:
  assumes "a < 5" "b < 64" "d < 64" "e < 64" "a = 0 \<longrightarrow> 16 \<le> b"
  shows "utf8_encode (a * 262144 + b * 4096 + d * 64 + e)
    = map char_of [0xF0 + a, 0x80 + b, 0x80 + d, 0x80 + e]"
proof -
  define c where "c = a * 262144 + b * 4096 + d * 64 + e"
  have "c = (a * 4096 + b * 64 + d) * 64 + e" by (simp add: c_def)
  then have 1: "c div 64 = a * 4096 + b * 64 + d" "c mod 64 = e"
    using assms by (simp_all only: base64_div base64_mod)
  have "c = (a * 64 + b) * 4096 + (d * 64 + e)" by (simp add: c_def)
  then have 2: "c div 4096 = a * 64 + b" using assms by simp
  have 3: "c div 262144 = a" using assms by (simp add: c_def)
  have 4: "0x10000 \<le> c" using assms by (cases a) (auto simp: c_def)
  have 5: "(a * 4096 + b * 64 + d) mod 64 = d"
  proof -
    have "a * 4096 + b * 64 + d = (a * 64 + b) * 64 + d" by simp
    then show ?thesis using assms by (simp only: base64_mod)
  qed
  show ?thesis
    unfolding c_def [symmetric] utf8_encode_def using assms 4 1 2 3 5 by simp
qed

lemma utf8_next_encode: "is_scalar c \<Longrightarrow> utf8_next (utf8_encode c @ rest) = Some c"
  by (erule scalar_cases)
    (simp_all add: utf8_encode_ascii utf8_encode_two utf8_encode_three utf8_encode_four
      utf8_next_def is_cont_def)

lemma char_of_byte_val: "char_of (byte_val x) = x"
  by simp

lemma utf8_next_Some:
  assumes "utf8_next bs = Some c"
  shows "is_scalar c \<and> (\<exists>rest. bs = utf8_encode c @ rest)"
proof -
  obtain x xs where bs: "bs = x # xs" using assms by (cases bs) (auto simp: utf8_next_def)
  define a where "a = byte_val x"
  have x: "x = char_of a" by (simp add: a_def)
  consider "a < 0x80" | "0xC2 \<le> a" "a \<le> 0xDF" | "0xE0 \<le> a" "a \<le> 0xEF" | "0xF0 \<le> a" "a \<le> 0xF4"
    using assms by (auto simp: bs utf8_next_def a_def split: if_splits)
  then show ?thesis
  proof cases
    case 1
    then have "c = a" using assms by (simp add: bs utf8_next_def a_def)
    with 1 show ?thesis by (simp add: bs x utf8_encode_ascii is_scalar_def)
  next
    case 2
    then obtain y ys where xs: "xs = y # ys"
      using assms by (cases xs) (auto simp: bs utf8_next_def a_def)
    define b where "b = byte_val y"
    have y: "y = char_of b" by (simp add: b_def)
    from 2 assms have b: "is_cont b" and c: "c = (a - 0xC0) * 64 + (b - 0x80)"
      by (auto simp: bs xs utf8_next_def a_def b_def split: if_splits)
    have "utf8_encode c = [x, y]"
      unfolding c x y using 2 b by (subst utf8_encode_two) (auto simp: is_cont_def)
    moreover have "is_scalar c" unfolding c is_scalar_def using 2 b by (auto simp: is_cont_def)
    ultimately show ?thesis by (simp add: bs xs)
  next
    case 3
    then obtain y z ys where xs: "xs = y # z # ys"
      using assms by (cases xs rule: list.exhaust; cases "tl xs" rule: list.exhaust)
        (auto simp: bs utf8_next_def a_def split: list.splits)
    define b d where "b = byte_val y" and "d = byte_val z"
    have yz: "y = char_of b" "z = char_of d" by (simp_all add: b_def d_def)
    from 3 assms have b: "is_cont b" "is_cont d" "a = 0xE0 \<longrightarrow> 0xA0 \<le> b" "a = 0xED \<longrightarrow> b \<le> 0x9F"
      and c: "c = (a - 0xE0) * 4096 + (b - 0x80) * 64 + (d - 0x80)"
      by (auto simp: bs xs utf8_next_def a_def b_def d_def split: if_splits)
    have "utf8_encode c = [x, y, z]"
      unfolding c x yz using 3 b by (subst utf8_encode_three) (auto simp: is_cont_def)
    moreover have "is_scalar c"
    proof -
      consider "a \<le> 0xEC" | "a = 0xED" "b \<le> 0x9F" | "0xEE \<le> a" using b by linarith
      then show ?thesis
      proof cases
        case 1
        with 3 b show ?thesis unfolding c is_scalar_def is_cont_def by linarith
      next
        case 2
        with b show ?thesis unfolding c is_scalar_def is_cont_def by linarith
      next
        case 3
        with \<open>a \<le> 0xEF\<close> b show ?thesis unfolding c is_scalar_def is_cont_def by linarith
      qed
    qed
    ultimately show ?thesis by (simp add: bs xs)
  next
    case 4
    then have "3 \<le> length xs"
      using assms by (cases xs rule: remdups_adj.cases; cases "drop 2 xs")
        (auto simp: bs utf8_next_def a_def split: if_splits)
    then obtain y z w ys where xs: "xs = y # z # w # ys"
      by (auto simp: numeral_eq_Suc Suc_le_length_iff)
    define b d e where "b = byte_val y" and "d = byte_val z" and "e = byte_val w"
    have yz: "y = char_of b" "z = char_of d" "w = char_of e" by (simp_all add: b_def d_def e_def)
    from 4 assms have b: "is_cont b" "is_cont d" "is_cont e" "a = 0xF0 \<longrightarrow> 0x90 \<le> b" "a = 0xF4 \<longrightarrow> b \<le> 0x8F"
      and c: "c = (a - 0xF0) * 262144 + (b - 0x80) * 4096 + (d - 0x80) * 64 + (e - 0x80)"
      by (auto simp: bs xs utf8_next_def a_def b_def d_def e_def split: if_splits)
    have "utf8_encode c = [x, y, z, w]"
      unfolding c x yz using 4 b by (subst utf8_encode_four) (auto simp: is_cont_def)
    moreover have "is_scalar c" unfolding c is_scalar_def using 4 b by (auto simp: is_cont_def)
    ultimately show ?thesis by (simp add: bs xs)
  qed
qed

section \<open>Whole texts\<close>

function utf8_chars :: "bytes \<Rightarrow> nat list option" where
  "utf8_chars bs =
     (if bs = [] then Some []
      else case utf8_next bs of
        None \<Rightarrow> None
      | Some c \<Rightarrow> map_option (\<lambda>cs. c # cs) (utf8_chars (drop (len_utf8 c) bs)))"
  by pat_completeness auto
termination
  by (relation "measure length") auto

declare utf8_chars.simps [simp del]

text \<open>\<open>std::str::from_utf8\<close>, \<open>str::chars\<close> and the text that a sequence of \<open>push\<close> builds.\<close>

definition valid_utf8 :: "bytes \<Rightarrow> bool" where
  "valid_utf8 bs \<longleftrightarrow> utf8_chars bs \<noteq> None"

definition chars :: "str \<Rightarrow> nat list" where
  "chars s = (case utf8_chars s of None \<Rightarrow> [] | Some cs \<Rightarrow> cs)"

text \<open>Rust's \<^verbatim>\<open>char::is_control\<close>.\<close>

definition is_control :: "nat \<Rightarrow> bool" where
  "is_control c \<longleftrightarrow> c < 32 \<or> (127 \<le> c \<and> c < 160)"

definition utf8_text :: "nat list \<Rightarrow> str" where
  "utf8_text cs = concat (map utf8_encode cs)"

lemma utf8_text_simps [simp]:
  "utf8_text [] = []" "utf8_text (c # cs) = utf8_encode c @ utf8_text cs"
  "utf8_text (cs @ ds) = utf8_text cs @ utf8_text ds"
  by (simp_all add: utf8_text_def)

lemma utf8_chars_Nil [simp]: "utf8_chars [] = Some []"
  by (simp add: utf8_chars.simps)

lemma utf8_chars_encode [simp]:
  "is_scalar c \<Longrightarrow> utf8_chars (utf8_encode c @ bs) = map_option (\<lambda>cs. c # cs) (utf8_chars bs)"
  by (subst utf8_chars.simps) (simp add: utf8_next_encode)

lemma utf8_chars_text: "list_all is_scalar cs \<Longrightarrow>
  utf8_chars (utf8_text cs @ bs) = map_option (\<lambda>ds. cs @ ds) (utf8_chars bs)"
  by (induction cs; cases "utf8_chars bs") simp_all

lemma utf8_chars_Some:
  "utf8_chars bs = Some cs \<Longrightarrow> list_all is_scalar cs \<and> bs = utf8_text cs"
proof (induction bs arbitrary: cs rule: utf8_chars.induct)
  case (1 bs)
  show ?case
  proof (cases "bs = []")
    case False
    then obtain c ds where c: "utf8_next bs = Some c"
      and ds: "utf8_chars (drop (len_utf8 c) bs) = Some ds" "cs = c # ds"
      using "1.prems" by (subst (asm) utf8_chars.simps) (auto split: option.splits)
    then have "list_all is_scalar ds \<and> drop (len_utf8 c) bs = utf8_text ds"
      using "1.IH" False by blast
    moreover obtain rest where "is_scalar c" "bs = utf8_encode c @ rest"
      using utf8_next_Some [OF c] by blast
    ultimately show ?thesis using ds by simp
  qed (use "1.prems" in simp)
qed

interpretation utf8: exact_codec "list_all is_scalar" utf8_text utf8_chars
proof
  show "utf8_chars (utf8_text cs) = Some cs" if "list_all is_scalar cs" for cs
    using utf8_chars_text [OF that, of "[]"] by simp
  show "list_all is_scalar cs \<and> utf8_text cs = bs" if "utf8_chars bs = Some cs" for bs cs
    using utf8_chars_Some [OF that] by simp
qed

lemma valid_utf8_iff: "valid_utf8 bs \<longleftrightarrow> (\<exists>cs. list_all is_scalar cs \<and> bs = utf8_text cs)"
  by (auto simp: valid_utf8_def utf8.decode_iff)

lemma chars_text [simp]: "list_all is_scalar cs \<Longrightarrow> chars (utf8_text cs) = cs"
  by (simp add: chars_def utf8.decode_encode)

lemma valid_utf8_text [simp, intro]: "list_all is_scalar cs \<Longrightarrow> valid_utf8 (utf8_text cs)"
  by (auto simp: valid_utf8_iff)

lemma valid_utf8_cases [consumes 1]:
  assumes "valid_utf8 s" obtains cs where "list_all is_scalar cs" "s = utf8_text cs"
  using assms by (auto simp: valid_utf8_iff)

lemma text_of_chars [simp]: "valid_utf8 s \<Longrightarrow> utf8_text (chars s) = s"
  by (erule valid_utf8_cases) simp

lemma chars_scalar: "valid_utf8 s \<Longrightarrow> list_all is_scalar (chars s)"
  by (erule valid_utf8_cases) simp

lemma chars_inject: "valid_utf8 s \<Longrightarrow> valid_utf8 t \<Longrightarrow> chars s = chars t \<longleftrightarrow> s = t"
  by (metis text_of_chars)

lemma valid_utf8_Nil [simp]: "valid_utf8 []"
  by (simp add: valid_utf8_def)

lemma valid_utf8_encode [simp]: "is_scalar c \<Longrightarrow> valid_utf8 (utf8_encode c @ bs) = valid_utf8 bs"
  by (simp add: valid_utf8_def)

lemma valid_utf8_prefix: "valid_utf8 a \<Longrightarrow> valid_utf8 (a @ b) = valid_utf8 b"
  by (erule valid_utf8_cases) (simp add: valid_utf8_def utf8_chars_text)

lemma ascii_scalar: "byte_val x < 0x80 \<Longrightarrow> is_scalar (byte_val x) \<and> utf8_encode (byte_val x) = [x]"
  by (simp add: is_scalar_def utf8_encode_ascii)

lemma valid_utf8_ascii_Cons [simp]: "byte_val x < 0x80 \<Longrightarrow> valid_utf8 (x # bs) = valid_utf8 bs"
  using valid_utf8_encode [of "byte_val x" bs] ascii_scalar [of x] by simp

lemma valid_utf8_ascii_append: "list_all is_ascii a \<Longrightarrow> valid_utf8 (a @ b) = valid_utf8 b"
  by (induction a) (simp_all add: is_ascii_def)

lemma valid_utf8_next:
  assumes "valid_utf8 bs" "bs \<noteq> []"
  obtains c rest where "utf8_next bs = Some c" "is_scalar c" "bs = utf8_encode c @ rest" "valid_utf8 rest"
proof -
  from assms(1) obtain cs where "list_all is_scalar cs" "bs = utf8_text cs" by (rule valid_utf8_cases)
  with assms(2) obtain c ds where c: "is_scalar c" "list_all is_scalar ds" "bs = utf8_encode c @ utf8_text ds"
    by (cases cs) auto
  then show thesis using that [of c "utf8_text ds"] by (simp add: utf8_next_encode)
qed

section \<open>UTF-16 code units\<close>

text \<open>\<open>str::encode_utf16\<close>, the order of object keys in canonical output.\<close>

definition utf16_units :: "nat \<Rightarrow> nat list" where
  "utf16_units c = (if c < 0x10000 then [c]
     else [0xD800 + (c - 0x10000) div 1024, 0xDC00 + (c - 0x10000) mod 1024])"

definition encode_utf16 :: "str \<Rightarrow> nat list" where
  "encode_utf16 s = concat (map utf16_units (chars s))"

lemma utf16_units_surrogate:
  assumes "is_scalar c" "is_scalar d" "c < 0x10000" "\<not> d < 0x10000"
  shows "utf16_units c @ xs \<noteq> utf16_units d @ ys"
proof -
  define q where "q = (d - 0x10000) div 1024"
  have "q < 0x400" using assms by (simp add: q_def is_scalar_def)
  then have "c \<noteq> 0xD800 + q" using assms(1) unfolding is_scalar_def by linarith
  then show ?thesis using assms by (simp add: utf16_units_def q_def)
qed

lemma utf16_units_append_inject:
  assumes "is_scalar c" "is_scalar d" "utf16_units c @ xs = utf16_units d @ ys"
  shows "c = d \<and> xs = ys"
proof (cases "c < 0x10000")
  case True
  moreover have "d < 0x10000"
    using utf16_units_surrogate [OF assms(1,2), of xs ys] True assms(3) by argo
  ultimately show ?thesis using assms by (simp add: utf16_units_def)
next
  case False
  moreover have d: "\<not> d < 0x10000"
    using utf16_units_surrogate [OF assms(2,1), of ys xs] False assms(3) by argo
  ultimately have "(c - 0x10000) div 1024 = (d - 0x10000) div 1024"
    "(c - 0x10000) mod 1024 = (d - 0x10000) mod 1024" "xs = ys"
    using assms(3) by (simp_all add: utf16_units_def)
  then have "c - 0x10000 = d - 0x10000" by (metis div_mult_mod_eq)
  with False d \<open>xs = ys\<close> show ?thesis by linarith
qed

lemma utf16_units_not_Nil [simp]: "utf16_units c \<noteq> []"
  by (simp add: utf16_units_def)

lemma concat_utf16_inject:
  "list_all is_scalar cs \<Longrightarrow> list_all is_scalar ds \<Longrightarrow>
   concat (map utf16_units cs) = concat (map utf16_units ds) \<Longrightarrow> cs = ds"
proof (induction cs arbitrary: ds)
  case Nil
  then show ?case by (cases ds) auto
next
  case (Cons c cs)
  have "ds \<noteq> []" using Cons.prems(3) by auto
  then obtain d es where ds: "ds = d # es" by (cases ds) simp_all
  with Cons.prems have "utf16_units c @ concat (map utf16_units cs) = utf16_units d @ concat (map utf16_units es)"
    by simp
  with Cons.prems have "c = d \<and> concat (map utf16_units cs) = concat (map utf16_units es)"
    unfolding ds by (intro utf16_units_append_inject) simp_all
  with Cons ds show ?case by simp
qed

lemma encode_utf16_inject: "valid_utf8 s \<Longrightarrow> valid_utf8 t \<Longrightarrow> encode_utf16 s = encode_utf16 t \<longleftrightarrow> s = t"
  unfolding encode_utf16_def using concat_utf16_inject chars_scalar chars_inject by blast

end
