(* ===== verification/Canonical_Json.thy ===== *)
theory Canonical_Json
  imports Canonical_Utf8 "HOL-Library.Multiset"
begin

text \<open>
  The value half of \<^verbatim>\<open>src/crates/synapse-canonical/src/lib.rs\<close>: JSON values, the resource
  limits, the size pass, the canonical writer and the structured object identifiers.

  \<^item> \<open>Value\<close> is \<^verbatim>\<open>json\<close>; an \<open>Object\<close> keeps its entries in insertion order, as the
    \<open>Vec\<close> of the source does.
  \<^item> \<open>ResourceLimits\<close> is \<^verbatim>\<open>resource_limits\<close>; \<open>usize\<close> counters are \<^typ>\<open>nat\<close> with checked
    additions.
  \<^item> \<open>write_canonical\<close> appends to a \<open>String\<close>; the model returns the appended text.
  \<^item> Unicode normalization (the \<open>unicode_normalization\<close> crate) is the argument \<open>nfc\<close>.

  The specification side is \<open>render\<close> (what canonical text is) and \<open>json_fits\<close> (which values
  have one); the size pass and the writer are proved to implement them.
\<close>

section \<open>Values and limits\<close>

datatype json =
    Null
  | Bool bool
  | Integer int
  | String str
  | Array "json list"
  | Object "(str \<times> json) list"

fun find_entry :: "(str \<times> 'a) list \<Rightarrow> str \<Rightarrow> 'a option" where
  "find_entry [] key = None"
| "find_entry ((candidate, x) # rest) key = (if candidate = key then Some x else find_entry rest key)"

fun json_get :: "json \<Rightarrow> str \<Rightarrow> json option" where
  "json_get (Object entries) key = find_entry entries key"
| "json_get _ key = None"

fun as_str :: "json \<Rightarrow> str option" where
  "as_str (String s) = Some s"
| "as_str _ = None"

fun as_i64 :: "json \<Rightarrow> int option" where
  "as_i64 (Integer i) = Some i"
| "as_i64 _ = None"

fun as_array :: "json \<Rightarrow> json list option" where
  "as_array (Array xs) = Some xs"
| "as_array _ = None"

fun as_object :: "json \<Rightarrow> (str \<times> json) list option" where
  "as_object (Object es) = Some es"
| "as_object _ = None"

record resource_limits =
  max_input_bytes :: nat
  max_nesting_depth :: nat
  max_nodes :: nat
  max_container_items :: nat
  max_canonical_bytes :: nat

definition HARD_MAX_NESTING_DEPTH :: nat where
  "HARD_MAX_NESTING_DEPTH = 256"

definition default_limits :: resource_limits where
  "default_limits = \<lparr> max_input_bytes = 16777216, max_nesting_depth = 128, max_nodes = 100000,
     max_container_items = 50000, max_canonical_bytes = 16777216 \<rparr>"

definition MAX_SAFE_INTEGER :: int where
  "MAX_SAFE_INTEGER = 9007199254740991"

definition safe_integer :: "int \<Rightarrow> bool" where
  "safe_integer i \<longleftrightarrow> - MAX_SAFE_INTEGER \<le> i \<and> i \<le> MAX_SAFE_INTEGER"

text \<open>A limit is a \<open>usize\<close>.\<close>

definition limits_usize :: "resource_limits \<Rightarrow> bool" where
  "limits_usize lim \<longleftrightarrow> max_input_bytes lim \<le> usize_max \<and> max_nesting_depth lim \<le> usize_max
     \<and> max_nodes lim \<le> usize_max \<and> max_container_items lim \<le> usize_max
     \<and> max_canonical_bytes lim \<le> usize_max"

definition validate_limits :: "resource_limits \<Rightarrow> core_error + unit" where
  "validate_limits lim = ensure (max_nesting_depth lim \<le> HARD_MAX_NESTING_DEPTH) ResourceLimit"

definition consume_node :: "nat \<Rightarrow> nat \<Rightarrow> core_error + nat" where
  "consume_node nodes limit =
     bindE (ok_or ResourceLimit (checked_add nodes 1)) (\<lambda>n.
     if n > limit then Inl ResourceLimit else Inr n)"

definition check_container_items :: "nat \<Rightarrow> nat \<Rightarrow> core_error + unit" where
  "check_container_items items limit = ensure (items \<le> limit) ResourceLimit"

definition checked_child_depth :: "nat \<Rightarrow> nat \<Rightarrow> core_error + nat" where
  "checked_child_depth depth limit =
     bindE (ok_or ResourceLimit (checked_add depth 1)) (\<lambda>d.
     if d > limit then Inl ResourceLimit else Inr d)"

definition ensure_size :: "nat \<Rightarrow> nat \<Rightarrow> core_error + nat" where
  "ensure_size sz limit = (if sz > limit then Inl ResourceLimit else Inr sz)"

definition checked_size_add :: "nat \<Rightarrow> nat \<Rightarrow> nat \<Rightarrow> core_error + nat" where
  "checked_size_add acc addition limit =
     bindE (ok_or ResourceLimit (checked_add acc addition)) (\<lambda>sz. ensure_size sz limit)"

definition require_nfc_key :: "(str \<Rightarrow> str) \<Rightarrow> str \<Rightarrow> core_error + unit" where
  "require_nfc_key nfc key = ensure (nfc key = key) KeyNotNfc"

section \<open>The size pass\<close>

definition char_size :: "nat \<Rightarrow> nat" where
  "char_size c =
     (if c \<in> {0x22, 0x5C, 0x08, 0x09, 0x0A, 0x0C, 0x0D} then 2
      else if c \<le> 0x1F then 6
      else len_utf8 c)"

definition canonical_string_size :: "str \<Rightarrow> nat \<Rightarrow> core_error + nat" where
  "canonical_string_size value limit =
     foldE (\<lambda>acc c. checked_size_add acc (char_size c) limit) 2 (chars value)"

text \<open>
  The loops over array elements and object entries carry the running total, the node counter
  and, for objects, the set of keys seen; the first child has no separator.
\<close>

fun canonical_size ::
    "(str \<Rightarrow> str) \<Rightarrow> resource_limits \<Rightarrow> json \<Rightarrow> nat \<Rightarrow> nat \<Rightarrow> core_error + nat \<times> nat"
  and size_elements ::
    "(str \<Rightarrow> str) \<Rightarrow> resource_limits \<Rightarrow> json list \<Rightarrow> nat \<Rightarrow> bool \<Rightarrow> nat \<Rightarrow> nat \<Rightarrow> core_error + nat \<times> nat"
  and size_entries ::
    "(str \<Rightarrow> str) \<Rightarrow> resource_limits \<Rightarrow> (str \<times> json) list \<Rightarrow> nat \<Rightarrow> bool \<Rightarrow> str list \<Rightarrow> nat \<Rightarrow> nat
      \<Rightarrow> core_error + nat \<times> nat"
where
  "canonical_size nfc lim v depth nodes0 =
     bindE (consume_node nodes0 (max_nodes lim)) (\<lambda>nodes.
     bindE (case v of
         Null \<Rightarrow> Inr (4, nodes)
       | Bool b \<Rightarrow> Inr (if b then 4 else 5, nodes)
       | Integer i \<Rightarrow>
           if \<not> safe_integer i then Inl NumberTokenForbidden
           else Inr (length (int_to_str i), nodes)
       | String s \<Rightarrow>
           bindE (canonical_string_size s (max_canonical_bytes lim)) (\<lambda>n. Inr (n, nodes))
       | Array values \<Rightarrow>
           bindE (checked_child_depth depth (max_nesting_depth lim)) (\<lambda>child_depth.
           bindE (check_container_items (length values) (max_container_items lim)) (\<lambda>_.
           size_elements nfc lim values child_depth True 2 nodes))
       | Object entries \<Rightarrow>
           bindE (checked_child_depth depth (max_nesting_depth lim)) (\<lambda>child_depth.
           bindE (check_container_items (length entries) (max_container_items lim)) (\<lambda>_.
           size_entries nfc lim entries child_depth True [] 2 nodes))) (\<lambda>(sz, nodes).
     bindE (ensure_size sz (max_canonical_bytes lim)) (\<lambda>sz. Inr (sz, nodes))))"
| "size_elements nfc lim [] depth first acc nodes = Inr (acc, nodes)"
| "size_elements nfc lim (child # rest) depth first acc nodes =
     bindE (if first then Inr acc else checked_size_add acc 1 (max_canonical_bytes lim)) (\<lambda>acc.
     bindE (canonical_size nfc lim child depth nodes) (\<lambda>(n, nodes).
     bindE (checked_size_add acc n (max_canonical_bytes lim)) (\<lambda>acc.
     size_elements nfc lim rest depth False acc nodes)))"
| "size_entries nfc lim [] depth first seen acc nodes = Inr (acc, nodes)"
| "size_entries nfc lim ((key, child) # rest) depth first seen acc nodes =
     (if key \<in> set seen then Inl DuplicateKey
      else
        bindE (require_nfc_key nfc key) (\<lambda>_.
        bindE (if first then Inr acc else checked_size_add acc 1 (max_canonical_bytes lim)) (\<lambda>acc.
        bindE (canonical_string_size key (max_canonical_bytes lim)) (\<lambda>k.
        bindE (checked_size_add acc k (max_canonical_bytes lim)) (\<lambda>acc.
        bindE (checked_size_add acc 1 (max_canonical_bytes lim)) (\<lambda>acc.
        bindE (canonical_size nfc lim child depth nodes) (\<lambda>(n, nodes).
        bindE (checked_size_add acc n (max_canonical_bytes lim)) (\<lambda>acc.
        size_entries nfc lim rest depth False (key # seen) acc nodes))))))))"

declare canonical_size.simps [simp del]

section \<open>The canonical writer\<close>

definition hex4 :: "nat \<Rightarrow> str" where
  "hex4 n = [hex_digit (n div 4096 mod 16), hex_digit (n div 256 mod 16),
     hex_digit (n div 16 mod 16), hex_digit (n mod 16)]"

definition write_char :: "nat \<Rightarrow> str" where
  "write_char c =
     (if c = 0x22 then [CHR 0x5C, CHR 0x22]
      else if c = 0x5C then [CHR 0x5C, CHR 0x5C]
      else if c = 0x08 then CHR 0x5C # ''b''
      else if c = 0x09 then CHR 0x5C # ''t''
      else if c = 0x0A then CHR 0x5C # ''n''
      else if c = 0x0C then CHR 0x5C # ''f''
      else if c = 0x0D then CHR 0x5C # ''r''
      else if c \<le> 0x1F then CHR 0x5C # CHR ''u'' # hex4 c
      else utf8_encode c)"

definition write_json_string :: "str \<Rightarrow> str" where
  "write_json_string value = [CHR 0x22] @ concat (map write_char (chars value)) @ [CHR 0x22]"

fun check_keys :: "(str \<Rightarrow> str) \<Rightarrow> str list \<Rightarrow> (str \<times> 'a) list \<Rightarrow> core_error + unit" where
  "check_keys nfc seen [] = Inr ()"
| "check_keys nfc seen ((key, _) # rest) =
     (if key \<in> set seen then Inl DuplicateKey
      else bindE (require_nfc_key nfc key) (\<lambda>_. check_keys nfc (key # seen) rest))"

definition sort_entries :: "(str \<times> 'a) list \<Rightarrow> (str \<times> 'a) list" where
  "sort_entries entries = sort_key (\<lambda>(key, _). encode_utf16 key) entries"

lemma set_sort_entries [simp]: "set (sort_entries es) = set es"
  by (simp add: sort_entries_def)

lemma size_element [termination_simp]: "x \<in> set xs \<Longrightarrow> size x < Suc (size_list size xs)"
  by (induction xs) auto

lemma size_entry [termination_simp]:
  "e \<in> set es \<Longrightarrow> size (snd e) < Suc (size_list (size_prod (\<lambda>_. 0) size) es)"
  by (induction es; cases e) auto

lemma size_entry_child [termination_simp]:
  "(key, child) \<in> set es \<Longrightarrow> size child < Suc (size_list (size_prod (\<lambda>_. 0) size) es)"
  using size_entry by fastforce

function write_canonical :: "(str \<Rightarrow> str) \<Rightarrow> json \<Rightarrow> core_error + str" where
  "write_canonical nfc Null = Inr ''null''"
| "write_canonical nfc (Bool b) = Inr (if b then ''true'' else ''false'')"
| "write_canonical nfc (Integer i) =
     (if \<not> safe_integer i then Inl NumberTokenForbidden else Inr (int_to_str i))"
| "write_canonical nfc (String s) = Inr (write_json_string s)"
| "write_canonical nfc (Array values) =
     bindE (mapE (write_canonical nfc) values) (\<lambda>parts.
     Inr (''['' @ join_with (CHR '','') parts @ '']''))"
| "write_canonical nfc (Object entries) =
     bindE (check_keys nfc [] entries) (\<lambda>_.
     bindE (mapE (\<lambda>(key, child).
         bindE (write_canonical nfc child) (\<lambda>text.
         Inr (write_json_string key @ '':'' @ text))) (sort_entries entries)) (\<lambda>parts.
     Inr (''{'' @ join_with (CHR '','') parts @ ''}'')))"
  by pat_completeness auto

termination
  by (relation "measure (\<lambda>(_, v). size v)") (auto simp: termination_simp)

definition canonical_json_with_limits ::
    "(str \<Rightarrow> str) \<Rightarrow> resource_limits \<Rightarrow> json \<Rightarrow> core_error fault + str" where
  "canonical_json_with_limits nfc lim v =
     bindE (lift_err (validate_limits lim)) (\<lambda>_.
     bindE (lift_err (canonical_size nfc lim v 0 0)) (\<lambda>(sz, nodes).
     bindE (lift_err (write_canonical nfc v)) (\<lambda>output.
     if length output \<noteq> sz then panics else Inr output)))"

definition canonical_json :: "(str \<Rightarrow> str) \<Rightarrow> json \<Rightarrow> core_error fault + str" where
  "canonical_json nfc v = canonical_json_with_limits nfc default_limits v"

section \<open>What canonical text is\<close>

fun render :: "json \<Rightarrow> str" where
  "render Null = ''null''"
| "render (Bool b) = (if b then ''true'' else ''false'')"
| "render (Integer i) = int_to_str i"
| "render (String s) = write_json_string s"
| "render (Array values) = ''['' @ join_with (CHR '','') (map render values) @ '']''"
| "render (Object entries) =
     ''{'' @ join_with (CHR '','')
       (map (\<lambda>e. write_json_string (fst e) @ '':'' @ render (snd e)) (sort_entries entries)) @ ''}''"

fun json_nodes :: "json \<Rightarrow> nat" where
  "json_nodes (Array values) = 1 + sum_list (map json_nodes values)"
| "json_nodes (Object entries) = 1 + sum_list (map (\<lambda>e. json_nodes (snd e)) entries)"
| "json_nodes _ = 1"

fun json_fits :: "(str \<Rightarrow> str) \<Rightarrow> resource_limits \<Rightarrow> nat \<Rightarrow> json \<Rightarrow> bool" where
  "json_fits nfc lim d (Integer i) = safe_integer i"
| "json_fits nfc lim d (Array values) \<longleftrightarrow>
     Suc d \<le> max_nesting_depth lim \<and> length values \<le> max_container_items lim
     \<and> (\<forall>v\<in>set values. json_fits nfc lim (Suc d) v)"
| "json_fits nfc lim d (Object entries) \<longleftrightarrow>
     Suc d \<le> max_nesting_depth lim \<and> length entries \<le> max_container_items lim
     \<and> distinct (map fst entries)
     \<and> (\<forall>e\<in>set entries. nfc (fst e) = fst e \<and> json_fits nfc lim (Suc d) (snd e))"
| "json_fits nfc lim d _ = True"

text \<open>A \<open>String\<close> of the source is valid UTF-8 by its type.\<close>

fun json_utf8 :: "json \<Rightarrow> bool" where
  "json_utf8 (String s) = valid_utf8 s"
| "json_utf8 (Array values) = (\<forall>v\<in>set values. json_utf8 v)"
| "json_utf8 (Object entries) = (\<forall>e\<in>set entries. valid_utf8 (fst e) \<and> json_utf8 (snd e))"
| "json_utf8 _ = True"

text \<open>The same value with the keys of every object in canonical order.\<close>

fun key_ordered :: "json \<Rightarrow> json" where
  "key_ordered (Array values) = Array (map key_ordered values)"
| "key_ordered (Object entries) =
     Object (sort_entries (map (\<lambda>e. (fst e, key_ordered (snd e))) entries))"
| "key_ordered v = v"

section \<open>The size pass and the writer meet the specification\<close>

lemma consume_node_eq [result_simps]:
  "limit \<le> usize_max \<Longrightarrow> consume_node n limit = Inr m \<longleftrightarrow> m = Suc n \<and> Suc n \<le> limit"
  by (auto simp: consume_node_def result_simps split: if_splits)

lemma checked_child_depth_eq [result_simps]:
  "limit \<le> usize_max \<Longrightarrow> checked_child_depth d limit = Inr m \<longleftrightarrow> m = Suc d \<and> Suc d \<le> limit"
  by (auto simp: checked_child_depth_def result_simps split: if_splits)

lemma ensure_size_eq [result_simps]: "ensure_size n limit = Inr m \<longleftrightarrow> m = n \<and> n \<le> limit"
  by (auto simp: ensure_size_def)

lemma checked_size_add_eq [result_simps]:
  "limit \<le> usize_max \<Longrightarrow> checked_size_add t a limit = Inr m \<longleftrightarrow> m = t + a \<and> t + a \<le> limit"
  by (auto simp: checked_size_add_def result_simps)

lemma length_write_char [simp]: "length (write_char c) = char_size c"
  by (simp add: write_char_def char_size_def hex4_def)

lemma length_join_with: "length (join_with c ps) = sum_list (map length ps) + (length ps - 1)"
  by (induction c ps rule: join_with.induct) auto

lemma length_write_json_string:
  "length (write_json_string s) = 2 + sum_list (map char_size (chars s))"
  by (simp add: write_json_string_def length_concat comp_def)

lemma foldE_size_add:
  assumes "limit \<le> usize_max"
  shows "foldE (\<lambda>t c. checked_size_add t (f c) limit) t cs = Inr n \<longleftrightarrow>
    n = t + sum_list (map f cs) \<and> (cs = [] \<or> n \<le> limit)"
proof (induction cs arbitrary: t)
  case (Cons c cs)
  show ?case
    by (simp add: bindE_eq_Inr checked_size_add_eq [OF assms] Cons.IH) (use le_add1 in auto)
qed auto

lemma canonical_string_size_eq [result_simps]:
  "limit \<le> usize_max \<Longrightarrow> canonical_string_size s limit = Inr n \<longleftrightarrow>
     n = length (write_json_string s) \<and> (chars s = [] \<or> n \<le> limit)"
  by (auto simp: canonical_string_size_def foldE_size_add length_write_json_string)

lemma sum_list_sort_entries [simp]:
  "sum_list (map f (sort_entries es)) = (sum_list (map f es) :: nat)"
proof -
  have "mset (map f (sort_entries es)) = mset (map f es)" by (simp add: sort_entries_def)
  then show ?thesis by (metis sum_mset_sum_list)
qed

lemma length_sort_entries [simp]: "length (sort_entries es) = length es"
  by (simp add: sort_entries_def)

lemma length_render_Array: "length (render (Array vs)) =
  2 + sum_list (map (\<lambda>v. length (render v)) vs) + (length vs - 1)"
  by (simp add: length_join_with comp_def)

definition entry_size :: "str \<times> json \<Rightarrow> nat" where
  "entry_size e = length (write_json_string (fst e)) + 1 + length (render (snd e))"

lemma length_render_Object: "length (render (Object es)) =
  2 + sum_list (map entry_size es) + (length es - 1)"
proof -
  have "sum_list (map length (map (\<lambda>e. write_json_string (fst e) @ '':'' @ render (snd e)) (sort_entries es)))
      = sum_list (map entry_size (sort_entries es))"
    by (simp add: comp_def entry_size_def [abs_def])
  then show ?thesis by (simp add: length_join_with)
qed

lemma json_induct [case_names Null Bool Integer String Array Object]:
  assumes "P Null" "\<And>b. P (Bool b)" "\<And>i. P (Integer i)" "\<And>s. P (String s)"
    and "\<And>vs. (\<And>v. v \<in> set vs \<Longrightarrow> P v) \<Longrightarrow> P (Array vs)"
    and "\<And>es. (\<And>k v. (k, v) \<in> set es \<Longrightarrow> P v) \<Longrightarrow> P (Object es)"
  shows "P v"
proof (induction v rule: json.induct)
  case (Object es)
  show ?case
  proof (rule assms(6))
    show "P v" if "(k, v) \<in> set es" for k v
      using Object [OF that, of v] by simp
  qed
qed (use assms in auto)

definition sized :: "(str \<Rightarrow> str) \<Rightarrow> resource_limits \<Rightarrow> nat \<Rightarrow> json \<Rightarrow> bool" where
  "sized nfc lim d v \<longleftrightarrow> (\<forall>n z n'. canonical_size nfc lim v d n = Inr (z, n') \<longleftrightarrow>
      json_fits nfc lim d v \<and> n + json_nodes v \<le> max_nodes lim \<and> length (render v) \<le> max_canonical_bytes lim
      \<and> z = length (render v) \<and> n' = n + json_nodes v)"

lemma size_elements_iff:
  assumes lim: "max_canonical_bytes lim \<le> usize_max" and "\<And>v. v \<in> set vs \<Longrightarrow> sized nfc lim d v"
    and "n \<le> max_nodes lim"
  shows "size_elements nfc lim vs d first acc n = Inr (z, n') \<longleftrightarrow>
      (\<forall>v\<in>set vs. json_fits nfc lim d v) \<and> n + sum_list (map json_nodes vs) \<le> max_nodes lim
      \<and> z = acc + sum_list (map (\<lambda>v. length (render v)) vs) + (if first then length vs - 1 else length vs)
      \<and> (vs = [] \<or> z \<le> max_canonical_bytes lim) \<and> n' = n + sum_list (map json_nodes vs)"
  using assms(2,3)
proof (induction vs arbitrary: first acc n)
  case Nil
  then show ?case by auto
next
  case (Cons v vs)
  have v: "sized nfc lim d v" and IH: "\<And>first acc m. m \<le> max_nodes lim \<Longrightarrow> size_elements nfc lim vs d first acc m = Inr (z, n') \<longleftrightarrow>
      (\<forall>v\<in>set vs. json_fits nfc lim d v) \<and> m + sum_list (map json_nodes vs) \<le> max_nodes lim
      \<and> z = acc + sum_list (map (\<lambda>v. length (render v)) vs) + (if first then length vs - 1 else length vs)
      \<and> (vs = [] \<or> z \<le> max_canonical_bytes lim) \<and> n' = m + sum_list (map json_nodes vs)"
    using Cons by auto
  let ?a = "if first then acc else Suc acc"
  have "size_elements nfc lim (v # vs) d first acc n = Inr (z, n') \<longleftrightarrow>
      (first \<or> ?a \<le> max_canonical_bytes lim) \<and> json_fits nfc lim d v \<and> n + json_nodes v \<le> max_nodes lim
      \<and> length (render v) \<le> max_canonical_bytes lim \<and> ?a + length (render v) \<le> max_canonical_bytes lim
      \<and> size_elements nfc lim vs d False (?a + length (render v)) (n + json_nodes v) = Inr (z, n')"
    using v by (auto simp: bindE_eq_Inr checked_size_add_eq [OF lim] sized_def)
  also have "\<dots> \<longleftrightarrow> json_fits nfc lim d v \<and> n + json_nodes v \<le> max_nodes lim
      \<and> ?a + length (render v) \<le> max_canonical_bytes lim
      \<and> size_elements nfc lim vs d False (?a + length (render v)) (n + json_nodes v) = Inr (z, n')"
    by auto
  also have "\<dots> \<longleftrightarrow> (json_fits nfc lim d v \<and> (\<forall>v\<in>set vs. json_fits nfc lim d v))
      \<and> n + json_nodes v + sum_list (map json_nodes vs) \<le> max_nodes lim
      \<and> z = ?a + length (render v) + sum_list (map (\<lambda>v. length (render v)) vs) + length vs
      \<and> z \<le> max_canonical_bytes lim \<and> n' = n + json_nodes v + sum_list (map json_nodes vs)"
    using IH [of "n + json_nodes v" False "?a + length (render v)"] by (auto simp del: size_elements.simps)
  finally show ?case by (auto simp del: size_elements.simps)
qed

lemma size_entries_step:
  assumes lim: "max_canonical_bytes lim \<le> usize_max" and v: "sized nfc lim d v"
  shows "size_entries nfc lim ((k, v) # es) d first seen acc n = Inr (z, n') \<longleftrightarrow>
      k \<notin> set seen \<and> nfc k = k \<and> json_fits nfc lim d v \<and> n + json_nodes v \<le> max_nodes lim
      \<and> (if first then acc else Suc acc) + entry_size (k, v) \<le> max_canonical_bytes lim
      \<and> size_entries nfc lim es d False (k # seen) ((if first then acc else Suc acc) + entry_size (k, v))
           (n + json_nodes v) = Inr (z, n')"
proof -
  have size: "canonical_size nfc lim v d n = Inr (a, b) \<longleftrightarrow>
      json_fits nfc lim d v \<and> n + json_nodes v \<le> max_nodes lim \<and> length (render v) \<le> max_canonical_bytes lim
      \<and> a = length (render v) \<and> b = n + json_nodes v" for a b
    using v by (simp add: sized_def)
  show ?thesis
    by (auto simp: bindE_eq_Inr checked_size_add_eq [OF lim] canonical_string_size_eq [OF lim]
        size entry_size_def require_nfc_key_def ensure_eq_Inr add.assoc)
qed

lemma size_entries_iff:
  assumes lim: "max_canonical_bytes lim \<le> usize_max" and "\<And>k v. (k, v) \<in> set es \<Longrightarrow> sized nfc lim d v"
    and "n \<le> max_nodes lim"
  shows "size_entries nfc lim es d first seen acc n = Inr (z, n') \<longleftrightarrow>
      distinct (map fst es) \<and> set seen \<inter> fst ` set es = {}
      \<and> (\<forall>e\<in>set es. nfc (fst e) = fst e \<and> json_fits nfc lim d (snd e))
      \<and> n + sum_list (map (\<lambda>e. json_nodes (snd e)) es) \<le> max_nodes lim
      \<and> z = acc + sum_list (map entry_size es) + (if first then length es - 1 else length es)
      \<and> (es = [] \<or> z \<le> max_canonical_bytes lim) \<and> n' = n + sum_list (map (\<lambda>e. json_nodes (snd e)) es)"
  using assms(2,3)
proof (induction es arbitrary: first seen acc n)
  case Nil
  then show ?case by auto
next
  case (Cons e es)
  obtain k v where e: "e = (k, v)" by (cases e)
  let ?a = "(if first then acc else Suc acc) + entry_size (k, v)"
  have v: "sized nfc lim d v" using Cons.prems e by auto
  have IH: "size_entries nfc lim es d False (k # seen) ?a (n + json_nodes v) = Inr (z, n') \<longleftrightarrow>
      distinct (map fst es) \<and> set (k # seen) \<inter> fst ` set es = {}
      \<and> (\<forall>e\<in>set es. nfc (fst e) = fst e \<and> json_fits nfc lim d (snd e))
      \<and> n + json_nodes v + sum_list (map (\<lambda>e. json_nodes (snd e)) es) \<le> max_nodes lim
      \<and> z = ?a + sum_list (map entry_size es) + length es
      \<and> (es = [] \<or> z \<le> max_canonical_bytes lim)
      \<and> n' = n + json_nodes v + sum_list (map (\<lambda>e. json_nodes (snd e)) es)"
    if "n + json_nodes v \<le> max_nodes lim"
  proof -
    have "sized nfc lim d w" if "(l, w) \<in> set es" for l w using Cons.prems(1) [of l w] that by simp
    then show ?thesis using Cons.IH [OF _ that, of False "k # seen" ?a] by simp
  qed
  define A B where "A \<longleftrightarrow> (\<forall>e\<in>set es. nfc (fst e) = fst e \<and> json_fits nfc lim d (snd e))"
    and "B = fst ` set es"
  have all: "(\<forall>e\<in>set ((k, v) # es). nfc (fst e) = fst e \<and> json_fits nfc lim d (snd e))
      \<longleftrightarrow> nfc k = k \<and> json_fits nfc lim d v \<and> A" "fst ` set ((k, v) # es) = insert k B"
    by (simp_all add: A_def B_def)
  show ?case
    unfolding e size_entries_step [OF lim v] all
    using IH [folded A_def B_def] by (auto simp: B_def [symmetric] simp del: size_entries.simps)
qed

lemma json_nodes_pos [simp]: "0 < json_nodes v"
  by (cases v) auto

lemma canonical_size_sized: "limits_usize lim \<Longrightarrow> sized nfc lim d v"
proof (induction v arbitrary: d rule: json_induct)
  case (Array vs)
  then have lim: "max_canonical_bytes lim \<le> usize_max" "max_nodes lim \<le> usize_max"
    "max_nesting_depth lim \<le> usize_max" by (simp_all add: limits_usize_def)
  have "size_elements nfc lim vs (Suc d) True 2 (Suc n) = Inr (z, n') \<longleftrightarrow>
      (\<forall>v\<in>set vs. json_fits nfc lim (Suc d) v) \<and> Suc n + sum_list (map json_nodes vs) \<le> max_nodes lim
      \<and> z = length (render (Array vs))
      \<and> (vs = [] \<or> z \<le> max_canonical_bytes lim) \<and> n' = Suc n + sum_list (map json_nodes vs)"
    if "Suc n \<le> max_nodes lim" for n z n'
    using size_elements_iff [OF lim(1) _ that, of vs nfc "Suc d" True 2] Array
    unfolding length_render_Array by auto
  then show ?case
    using lim unfolding sized_def
    by (auto simp: bindE_eq_Inr result_simps check_container_items_def
        canonical_size.simps [of nfc lim _ d] simp del: render.simps)
next
  case (Object es)
  then have lim: "max_canonical_bytes lim \<le> usize_max" "max_nodes lim \<le> usize_max"
    "max_nesting_depth lim \<le> usize_max" by (simp_all add: limits_usize_def)
  have "size_entries nfc lim es (Suc d) True [] 2 (Suc n) = Inr (z, n') \<longleftrightarrow>
      distinct (map fst es) \<and> (\<forall>e\<in>set es. nfc (fst e) = fst e \<and> json_fits nfc lim (Suc d) (snd e))
      \<and> Suc n + sum_list (map (\<lambda>e. json_nodes (snd e)) es) \<le> max_nodes lim
      \<and> z = length (render (Object es))
      \<and> (es = [] \<or> z \<le> max_canonical_bytes lim) \<and> n' = Suc n + sum_list (map (\<lambda>e. json_nodes (snd e)) es)"
    if "Suc n \<le> max_nodes lim" for n z n'
    using size_entries_iff [OF lim(1) _ that, of es nfc "Suc d" True "[]" 2] Object
    unfolding length_render_Object by auto
  then show ?case
    using lim unfolding sized_def
    by (auto simp: bindE_eq_Inr result_simps check_container_items_def
        canonical_size.simps [of nfc lim _ d] simp del: render.simps)
qed (auto simp: sized_def result_simps limits_usize_def canonical_size.simps)

lemmas canonical_size_iff = canonical_size_sized [unfolded sized_def, rule_format]

lemma check_keys_ok:
  "check_keys nfc seen es = Inr () \<longleftrightarrow>
     distinct (map fst es) \<and> set seen \<inter> fst ` set es = {} \<and> (\<forall>e\<in>set es. nfc (fst e) = fst e)"
  by (induction nfc seen es rule: check_keys.induct)
    (auto simp: result_simps require_nfc_key_def split: if_splits)

lemma mapE_Inr: "(\<And>x. x \<in> set xs \<Longrightarrow> f x = Inr (g x)) \<Longrightarrow> mapE f xs = Inr (map g xs)"
  by (induction xs) auto

lemma write_canonical_render: "json_fits nfc lim d v \<Longrightarrow> write_canonical nfc v = Inr (render v)"
proof (induction v arbitrary: d rule: json_induct)
  case (Array vs)
  then have "mapE (write_canonical nfc) vs = Inr (map render vs)"
    by (intro mapE_Inr) auto
  then show ?case by simp
next
  case (Object es)
  let ?f = "\<lambda>e. write_json_string (fst e) @ '':'' @ render (snd e)"
  have child: "write_canonical nfc v = Inr (render v)" if "(k, v) \<in> set es" for k v
    using Object that by fastforce
  then have "mapE (\<lambda>(key, child). bindE (write_canonical nfc child)
      (\<lambda>text. Inr (write_json_string key @ '':'' @ text))) (sort_entries es) = Inr (map ?f (sort_entries es))"
    by (intro mapE_Inr) auto
  moreover have "check_keys nfc [] es = Inr ()" using Object.prems by (simp add: check_keys_ok)
  ultimately show ?case by simp
qed auto

text \<open>
  \<open>canonical_json_with_limits\<close> returns exactly \<open>render v\<close>, exactly for the values within the
  limits; its \<open>debug_assert_eq!\<close> never fires.
\<close>

lemma canonical_json_iff:
  assumes "limits_usize lim"
  shows "canonical_json_with_limits nfc lim v = Inr out \<longleftrightarrow>
    max_nesting_depth lim \<le> HARD_MAX_NESTING_DEPTH \<and> json_fits nfc lim 0 v \<and> json_nodes v \<le> max_nodes lim
    \<and> length (render v) \<le> max_canonical_bytes lim \<and> out = render v"
  using write_canonical_render [of nfc lim 0 v]
  by (auto simp: canonical_json_with_limits_def validate_limits_def result_simps
      canonical_size_iff [OF assms])

lemma canonical_json_no_panic:
  assumes "limits_usize lim"
  shows "canonical_json_with_limits nfc lim v \<noteq> panics"
  using write_canonical_render [of nfc lim 0 v]
  by (auto simp: canonical_json_with_limits_def validate_limits_def result_simps
      canonical_size_iff [OF assms])

section \<open>Key order\<close>

lemma insort_key_map: "(\<And>x. f (g x) = f' x) \<Longrightarrow>
  insort_key f (g x) (map g xs) = map g (insort_key f' x xs)"
  by (induction xs) auto

lemma sort_key_map: "(\<And>x. f (g x) = f' x) \<Longrightarrow> sort_key f (map g xs) = map g (sort_key f' xs)"
  by (induction xs) (simp_all add: insort_key_map)

lemma sort_entries_map: "sort_entries (map (\<lambda>e. (fst e, h (snd e))) es)
    = map (\<lambda>e. (fst e, h (snd e))) (sort_entries es)"
  unfolding sort_entries_def by (rule sort_key_map) (simp add: case_prod_beta)

lemma sort_entries_idem [simp]: "sort_entries (sort_entries es) = sort_entries es"
  unfolding sort_entries_def by (rule sort_key_id_if_sorted) simp

lemma mset_sort_entries [simp]: "mset (sort_entries es) = mset es"
  by (simp add: sort_entries_def)

lemma distinct_sort_entries: "distinct (map fst (sort_entries es)) = distinct (map fst es)"
  by (metis mset_map mset_sort_entries mset_eq_imp_distinct_iff)

lemma render_key_ordered [simp]: "render (key_ordered v) = render v"
proof (induction v rule: json_induct)
  case (Object es)
  then have "\<forall>e\<in>set (sort_entries es). render (key_ordered (snd e)) = render (snd e)" by auto
  then show ?case
    by (simp add: sort_entries_map comp_def del: set_sort_entries cong: map_cong)
qed (auto simp: comp_def cong: map_cong)

lemma key_ordered_idem [simp]: "key_ordered (key_ordered v) = key_ordered v"
proof (induction v rule: json_induct)
  case (Object es)
  then have "\<forall>e\<in>set (sort_entries es). key_ordered (key_ordered (snd e)) = key_ordered (snd e)" by auto
  then show ?case
    by (simp add: sort_entries_map comp_def sort_entries_map [of "\<lambda>v. key_ordered (key_ordered v)"]
        cong: map_cong)
qed auto

lemma json_nodes_key_ordered [simp]: "json_nodes (key_ordered v) = json_nodes v"
proof (induction v rule: json_induct)
  case (Object es)
  then have "\<forall>e\<in>set es. json_nodes (key_ordered (snd e)) = json_nodes (snd e)" by auto
  then show ?case by (simp add: comp_def cong: map_cong)
qed (auto simp: comp_def cong: map_cong)

lemma json_fits_key_ordered [simp]: "json_fits nfc lim d (key_ordered v) = json_fits nfc lim d v"
proof (induction v arbitrary: d rule: json_induct)
  case (Object es)
  then have "(\<forall>e\<in>set es. nfc (fst e) = fst e \<and> json_fits nfc lim (Suc d) (key_ordered (snd e)))
      = (\<forall>e\<in>set es. nfc (fst e) = fst e \<and> json_fits nfc lim (Suc d) (snd e))"
    by (intro ball_cong) auto
  then show ?case by (simp add: distinct_sort_entries comp_def)
qed auto

text \<open>
  Two valid objects with the same entries in different orders have the same canonical order:
  distinct UTF-8 keys have distinct UTF-16 sort keys.
\<close>

lemma sort_entries_perm:
  assumes "mset es = mset fs" "distinct (map fst es)" "\<And>k v. (k, v) \<in> set es \<Longrightarrow> valid_utf8 k"
  shows "sort_entries es = sort_entries fs"
proof -
  have "inj_on (\<lambda>(key, _). encode_utf16 key) (set es)"
  proof (rule inj_onI)
    fix x y assume xy: "x \<in> set es" "y \<in> set es"
      and "(case x of (key, _) \<Rightarrow> encode_utf16 key) = (case y of (key, _) \<Rightarrow> encode_utf16 key)"
    then have "fst x = fst y"
      using assms(3) by (auto simp: encode_utf16_inject split: prod.splits)
    then show "x = y" using xy assms(2) by (metis eq_key_imp_eq_value prod.collapse)
  qed
  then have "inj_on (\<lambda>(key, _). encode_utf16 key) (set (sort_entries es))" by simp
  moreover have "mset (sort_entries es) = mset (sort_entries fs)" using assms(1) by simp
  ultimately show ?thesis
    unfolding sort_entries_def
    by (metis (no_types, lifting) mset_sort sort_entries_def properties_for_sort_key
        sort_key_inj_key_eq sorted_sort_key)
qed

section \<open>Structured object identifiers\<close>

definition PROFILE_DOMAIN :: str where
  "PROFILE_DOMAIN = ''synapsegit/core/v0.1''"

definition oid_domain :: "str \<Rightarrow> nat \<Rightarrow> bytes" where
  "oid_domain object_type n =
     PROFILE_DOMAIN @ [CHR 0x00] @ object_type @ [CHR 0x00] @ nat_to_str n @ [CHR 0x00]"

definition structured_oid_unchecked_with_limits ::
    "(bytes \<Rightarrow> bytes) \<Rightarrow> (str \<Rightarrow> str) \<Rightarrow> resource_limits \<Rightarrow> json \<Rightarrow> core_error fault + str" where
  "structured_oid_unchecked_with_limits sha256 nfc lim v =
     bindE (ok_or (Fail SchemaInvalid) (Option.bind (json_get v ''object_type'') as_str)) (\<lambda>object_type.
     bindE (if object_type = ''record'' then Inr ''record''
            else if object_type = ''tree'' then Inr ''tree''
            else if object_type = ''commit'' then Inr ''commit''
            else fails SchemaInvalid) (\<lambda>prefix.
     bindE (canonical_json_with_limits nfc lim v) (\<lambda>body.
     Inr (prefix @ '':sg-oid-v1:sha256:'' @ lower_hex (sha256 (oid_domain object_type (length body) @ body))))))"

definition verify_claimed_oid_unchecked_with_limits ::
    "(bytes \<Rightarrow> bytes) \<Rightarrow> (str \<Rightarrow> str) \<Rightarrow> resource_limits \<Rightarrow> str \<Rightarrow> json \<Rightarrow> core_error fault + unit" where
  "verify_claimed_oid_unchecked_with_limits sha256 nfc lim claimed v =
     bindE (structured_oid_unchecked_with_limits sha256 nfc lim v) (\<lambda>expected.
     if claimed \<noteq> expected then fails OidMismatch else Inr ())"

definition structured_kind :: "json \<Rightarrow> object_kind option" where
  "structured_kind v =
     (case Option.bind (json_get v ''object_type'') as_str of
        None \<Rightarrow> None
      | Some t \<Rightarrow> if t = ''blob'' then None else kind_of_prefix t)"

lemma structured_oid_cases:
  assumes "structured_oid_unchecked_with_limits sha256 nfc lim v = Inr oid"
  obtains k body where "structured_kind v = Some k" "k \<noteq> Blob"
    "canonical_json_with_limits nfc lim v = Inr body"
    "oid = format_oid k (lower_hex (sha256 (oid_domain (kind_prefix k) (length body) @ body)))"
proof -
  from assms obtain t body where t: "Option.bind (json_get v ''object_type'') as_str = Some t"
    and p: "t = ''record'' \<or> t = ''tree'' \<or> t = ''commit''"
    and body: "canonical_json_with_limits nfc lim v = Inr body"
    and oid: "oid = t @ '':sg-oid-v1:sha256:'' @ lower_hex (sha256 (oid_domain t (length body) @ body))"
    by (auto simp: structured_oid_unchecked_with_limits_def result_simps split: if_splits)
  then obtain k where k: "t = kind_prefix k" "k \<noteq> Blob" "kind_of_prefix t = Some k"
    by (metis kind_names.decode_encode kind_prefix.simps(2,3,4) object_kind.distinct(1,3,5))
  show thesis
  proof (rule that)
    show "structured_kind v = Some k" using t k p by (auto simp: structured_kind_def)
  qed (use k oid body in \<open>simp_all add: format_oid_def oid_infix_def\<close>)
qed

text \<open>The hash preimage is an injective framing of the family and the body.\<close>

lemma oid_domain_inject:
  assumes "oid_domain (kind_prefix k) m @ a = oid_domain (kind_prefix l) n @ b"
  shows "k = l \<and> m = n \<and> a = b"
proof -
  have zero: "CHR 0x00 \<notin> set (kind_prefix k)" for k by (cases k) simp_all
  have digits: "CHR 0x00 \<notin> set (nat_to_str n)" for n
    using nat_to_str_digits [of n] by (auto simp: all_digits_def list_all_iff text_defs)
  from assms have "kind_prefix k @ CHR 0x00 # nat_to_str m @ CHR 0x00 # a
      = kind_prefix l @ CHR 0x00 # nat_to_str n @ CHR 0x00 # b"
    by (simp add: oid_domain_def)
  then have p: "kind_prefix k = kind_prefix l"
    and "nat_to_str m @ CHR 0x00 # a = nat_to_str n @ CHR 0x00 # b"
    using append_sep_inject [OF zero zero] by blast+
  from this(2) have "nat_to_str m = nat_to_str n" "a = b"
    using append_sep_inject [OF digits digits] by blast+
  moreover from this have "m = n" by (metis digits_val_nat_to_str)
  moreover have "k = l" using p by (metis kind_names.decode_encode option.inject)
  ultimately show ?thesis by simp
qed

end
