(* ===== verification/Canonical_Parser.thy ===== *)
theory Canonical_Parser
  imports Canonical_Json "HOL-Library.Word"
begin

unbundle bit_operations_syntax

text \<open>
  The reading half of \<^verbatim>\<open>src/crates/synapse-canonical/src/lib.rs\<close>: the strict parser.

  The \<open>Parser\<close> of the source keeps the whole text and a byte position that only moves forward;
  the model keeps the bytes from that position on, so \<open>peek\<close> is the head of the list and
  \<open>position += n\<close> drops \<open>n\<close> bytes. \<open>self.text[self.position..].chars().next().expect(..)\<close> and the
  other \<open>expect\<close>s and slices are \<^const>\<open>Panic\<close> when they fail. Every function is total: the loops end
  because they consume input or run into the item and depth limits, so no fuel is used.
\<close>

section \<open>Lexical level\<close>

definition is_whitespace :: "byte \<Rightarrow> bool" where
  "is_whitespace b \<longleftrightarrow> b \<in> {CHR '' '', CHR 0x09, CHR 0x0D, CHR 0x0A}"

definition skip_whitespace :: "bytes \<Rightarrow> bytes" where
  "skip_whitespace bs = dropWhile is_whitespace bs"

definition peek :: "bytes \<Rightarrow> byte option" where
  "peek bs = (case bs of [] \<Rightarrow> None | b # _ \<Rightarrow> Some b)"

definition hex_value :: "byte \<Rightarrow> nat" where
  "hex_value c =
     (if is_ascii_digit c then byte_val c - 48
      else if byte_val c \<le> 70 then byte_val c - 55
      else byte_val c - 87)"

definition from_str_radix_16 :: "str \<Rightarrow> nat" where
  "from_str_radix_16 s = foldl (\<lambda>n c. n * 16 + hex_value c) 0 s"

definition parse_hex_u16 :: "bytes \<Rightarrow> core_error fault + nat \<times> bytes" where
  "parse_hex_u16 bs =
     (if length bs < 4 then fails SchemaInvalid
      else if \<not> list_all is_ascii_hexdigit (take 4 bs) then fails SchemaInvalid
      else if \<not> valid_utf8 (take 4 bs) \<or> 65535 < from_str_radix_16 (take 4 bs) then panics
      else Inr (from_str_radix_16 (take 4 bs), drop 4 bs))"

text \<open>The \<open>let scalar = if ..\<close> of \<open>parse_unicode_escape\<close>.\<close>

definition unicode_scalar :: "nat \<Rightarrow> bytes \<Rightarrow> core_error fault + nat \<times> bytes" where
  "unicode_scalar first bs =
     (if 0xD800 \<le> first \<and> first \<le> 0xDBFF then
        (if take 2 bs \<noteq> [CHR 0x5C, CHR ''u''] then fails LoneSurrogate
         else bindE (parse_hex_u16 (drop 2 bs)) (\<lambda>(second, bs).
           if \<not> (0xDC00 \<le> second \<and> second \<le> 0xDFFF) then fails LoneSurrogate
           else Inr (0x10000 + (push_bit 10 (first - 0xD800) OR (second - 0xDC00)), bs)))
      else if 0xDC00 \<le> first \<and> first \<le> 0xDFFF then fails LoneSurrogate
      else Inr (first, bs))"

definition parse_unicode_escape :: "bytes \<Rightarrow> core_error fault + nat \<times> bytes" where
  "parse_unicode_escape bs0 =
     bindE (parse_hex_u16 bs0) (\<lambda>(first, bs).
     bindE (unicode_scalar first bs) (\<lambda>(scalar, bs).
     if is_scalar scalar then Inr (scalar, bs) else panics))"

text \<open>\<open>parse_escape\<close> appends one character to its output; the model returns it.\<close>

definition parse_escape :: "bytes \<Rightarrow> core_error fault + nat \<times> bytes" where
  "parse_escape bs =
     (case bs of
        [] \<Rightarrow> fails SchemaInvalid
      | escaped # rest \<Rightarrow>
          if escaped = CHR 0x22 then Inr (0x22, rest)
          else if escaped = CHR 0x5C then Inr (0x5C, rest)
          else if escaped = CHR ''/'' then Inr (0x2F, rest)
          else if escaped = CHR ''b'' then Inr (0x08, rest)
          else if escaped = CHR ''f'' then Inr (0x0C, rest)
          else if escaped = CHR ''n'' then Inr (0x0A, rest)
          else if escaped = CHR ''r'' then Inr (0x0D, rest)
          else if escaped = CHR ''t'' then Inr (0x09, rest)
          else if escaped = CHR ''u'' then parse_unicode_escape rest
          else fails SchemaInvalid)"

lemma parse_hex_u16_shorter: "parse_hex_u16 bs = Inr (n, rest) \<Longrightarrow> length rest < length bs"
  by (auto simp: parse_hex_u16_def split: if_splits)

lemma parse_unicode_escape_shorter:
  "parse_unicode_escape bs = Inr (c, rest) \<Longrightarrow> length rest < length bs"
  by (auto simp: parse_unicode_escape_def unicode_scalar_def result_simps
      split: if_splits dest!: parse_hex_u16_shorter)

lemma parse_escape_shorter: "parse_escape bs = Inr (c, rest) \<Longrightarrow> length rest < length bs"
  by (auto simp: parse_escape_def split: list.splits if_splits dest!: parse_unicode_escape_shorter)

function parse_string_loop :: "bytes \<Rightarrow> str \<Rightarrow> core_error fault + str \<times> bytes" where
  "parse_string_loop bs acc =
     (case bs of
        [] \<Rightarrow> fails SchemaInvalid
      | b # rest \<Rightarrow>
          if b = CHR 0x22 then Inr (acc, rest)
          else if b = CHR 0x5C then
            bindE (parse_escape rest) (\<lambda>(c, rest). parse_string_loop rest (acc @ utf8_encode c))
          else if byte_val b \<le> 0x1F then fails SchemaInvalid
          else if byte_val b \<le> 0x7F then parse_string_loop rest (acc @ utf8_encode (byte_val b))
          else (case utf8_next bs of
                  None \<Rightarrow> panics
                | Some c \<Rightarrow> parse_string_loop (drop (len_utf8 c) bs) (acc @ utf8_encode c)))"
  by pat_completeness auto
termination
  by (relation "measure (\<lambda>(bs, _). length bs)") (auto dest: parse_escape_shorter)

declare parse_string_loop.simps [simp del]

definition parse_string :: "bytes \<Rightarrow> core_error fault + str \<times> bytes" where
  "parse_string bs =
     (if peek bs \<noteq> Some (CHR 0x22) then panics else parse_string_loop (tl bs) [])"

definition valid_integer_token :: "str \<Rightarrow> bool" where
  "valid_integer_token token =
     (let digits = (case strip_prefix token ''-'' of Some d \<Rightarrow> d | None \<Rightarrow> token) in
      if digits = [] \<or> \<not> all_digits digits then False
      else digits = ''0'' \<or> \<not> starts_with digits ''0'')"

text \<open>\<open>str::parse::<i64>\<close> on a validated token: sign and digits, an error out of range.\<close>

definition parse_i64 :: "str \<Rightarrow> int option" where
  "parse_i64 token =
     (let i = (case strip_prefix token ''-'' of
                 Some d \<Rightarrow> - int (digits_val d) | None \<Rightarrow> int (digits_val token))
      in if in_i64 i then Some i else None)"

definition ends_number :: "byte \<Rightarrow> bool" where
  "ends_number b \<longleftrightarrow> is_whitespace b \<or> b \<in> {CHR '','', CHR '']'', CHR ''}''}"

text \<open>Rust's \<^verbatim>\<open>str::is_char_boundary\<close> at the position where these bytes are left; a slice elsewhere panics.\<close>

definition is_char_boundary :: "bytes \<Rightarrow> bool" where
  "is_char_boundary bs \<longleftrightarrow> (case bs of [] \<Rightarrow> True | b # _ \<Rightarrow> \<not> is_cont (byte_val b))"

definition parse_number :: "bytes \<Rightarrow> core_error fault + json \<times> bytes" where
  "parse_number bs =
     (let token = takeWhile (\<lambda>b. \<not> ends_number b) bs; rest = dropWhile (\<lambda>b. \<not> ends_number b) bs in
      if \<not> is_char_boundary bs \<or> \<not> is_char_boundary rest then panics
      else if \<not> valid_integer_token token \<or> token = ''-0'' then fails NumberTokenForbidden
      else bindE (ok_or (Fail UnsafeInteger) (parse_i64 token)) (\<lambda>i.
        if \<not> safe_integer i then fails UnsafeInteger
        else Inr (Integer i, rest)))"

definition parse_keyword :: "bytes \<Rightarrow> str \<Rightarrow> json \<Rightarrow> core_error fault + json \<times> bytes" where
  "parse_keyword bs keyword v =
     (if \<not> starts_with bs keyword then fails SchemaInvalid
      else Inr (v, drop (length keyword) bs))"

section \<open>Values\<close>

lemma checked_child_depth_bound:
  "checked_child_depth depth limit = Inr d \<Longrightarrow> d = Suc depth \<and> Suc depth \<le> limit"
  by (auto simp: checked_child_depth_def result_simps split: if_splits)

text \<open>
  \<open>parse_value\<close>, \<open>parse_object\<close> and \<open>parse_array\<close> call each other; the two \<open>loop\<close>s are functions
  of their own. The \<open>HashSet\<close> of keys holds the keys of the entries read so far.
\<close>

function (sequential)
      parse_value :: "(str \<Rightarrow> str) \<Rightarrow> resource_limits \<Rightarrow> nat \<Rightarrow> bytes \<Rightarrow> nat
        \<Rightarrow> core_error fault + json \<times> bytes \<times> nat"
  and parse_object :: "(str \<Rightarrow> str) \<Rightarrow> resource_limits \<Rightarrow> nat \<Rightarrow> bytes \<Rightarrow> nat
        \<Rightarrow> core_error fault + json \<times> bytes \<times> nat"
  and parse_object_loop :: "(str \<Rightarrow> str) \<Rightarrow> resource_limits \<Rightarrow> nat \<Rightarrow> bytes \<Rightarrow> nat \<Rightarrow> (str \<times> json) list
        \<Rightarrow> core_error fault + json \<times> bytes \<times> nat"
  and parse_array :: "(str \<Rightarrow> str) \<Rightarrow> resource_limits \<Rightarrow> nat \<Rightarrow> bytes \<Rightarrow> nat
        \<Rightarrow> core_error fault + json \<times> bytes \<times> nat"
  and parse_array_loop :: "(str \<Rightarrow> str) \<Rightarrow> resource_limits \<Rightarrow> nat \<Rightarrow> bytes \<Rightarrow> nat \<Rightarrow> json list
        \<Rightarrow> core_error fault + json \<times> bytes \<times> nat"
where
  "parse_value nfc lim depth bs0 nodes0 =
     (let bs = skip_whitespace bs0 in
      bindE (lift_err (consume_node nodes0 (max_nodes lim))) (\<lambda>nodes.
      case peek bs of
        None \<Rightarrow> fails SchemaInvalid
      | Some b \<Rightarrow>
          if b = CHR ''{'' then
            bindE (lift_err (checked_child_depth depth (max_nesting_depth lim))) (\<lambda>child_depth.
            parse_object nfc lim child_depth bs nodes)
          else if b = CHR ''['' then
            bindE (lift_err (checked_child_depth depth (max_nesting_depth lim))) (\<lambda>child_depth.
            parse_array nfc lim child_depth bs nodes)
          else if b = CHR 0x22 then bindE (parse_string bs) (\<lambda>(s, bs). Inr (String s, bs, nodes))
          else if b = CHR ''t'' then
            bindE (parse_keyword bs ''true'' (Bool True)) (\<lambda>(v, bs). Inr (v, bs, nodes))
          else if b = CHR ''f'' then
            bindE (parse_keyword bs ''false'' (Bool False)) (\<lambda>(v, bs). Inr (v, bs, nodes))
          else if b = CHR ''n'' then
            bindE (parse_keyword bs ''null'' Null) (\<lambda>(v, bs). Inr (v, bs, nodes))
          else if b = CHR ''-'' \<or> is_ascii_digit b then
            bindE (parse_number bs) (\<lambda>(v, bs). Inr (v, bs, nodes))
          else fails SchemaInvalid))"
| "parse_object nfc lim depth bs0 nodes =
     (let bs = skip_whitespace (tl bs0) in
      if peek bs = Some (CHR ''}'') then Inr (Object [], tl bs, nodes)
      else parse_object_loop nfc lim depth bs nodes [])"
| "parse_object_loop nfc lim depth bs0 nodes0 entries =
     (if length entries \<ge> max_container_items lim then fails ResourceLimit
      else if peek bs0 \<noteq> Some (CHR 0x22) then fails SchemaInvalid
      else
        bindE (parse_string bs0) (\<lambda>(key, bs1).
        if key \<in> set (map fst entries) then fails DuplicateKey
        else
          bindE (lift_err (require_nfc_key nfc key)) (\<lambda>_.
          let bs2 = skip_whitespace bs1 in
          if peek bs2 \<noteq> Some (CHR '':'') then fails SchemaInvalid
          else
            bindE (parse_value nfc lim depth (skip_whitespace (tl bs2)) nodes0) (\<lambda>(v, bs3, nodes).
            let bs4 = skip_whitespace bs3; entries' = entries @ [(key, v)] in
            if peek bs4 = Some (CHR ''}'') then Inr (Object entries', tl bs4, nodes)
            else if peek bs4 = Some (CHR '','') then
              parse_object_loop nfc lim depth (skip_whitespace (tl bs4)) nodes entries'
            else fails SchemaInvalid))))"
| "parse_array nfc lim depth bs0 nodes =
     (let bs = skip_whitespace (tl bs0) in
      if peek bs = Some (CHR '']'') then Inr (Array [], tl bs, nodes)
      else parse_array_loop nfc lim depth bs nodes [])"
| "parse_array_loop nfc lim depth bs0 nodes0 values =
     (if length values \<ge> max_container_items lim then fails ResourceLimit
      else
        bindE (parse_value nfc lim depth bs0 nodes0) (\<lambda>(v, bs1, nodes).
        let bs2 = skip_whitespace bs1; values' = values @ [v] in
        if peek bs2 = Some (CHR '']'') then Inr (Array values', tl bs2, nodes)
        else if peek bs2 = Some (CHR '','') then
          parse_array_loop nfc lim depth (skip_whitespace (tl bs2)) nodes values'
        else fails SchemaInvalid))"
  by pat_completeness auto

termination
  by (relation "measures
       [\<lambda>x. case x of
            Inl (Inl (_, lim, d, _)) \<Rightarrow> max_nesting_depth lim - d
          | Inl (Inr (_, lim, d, _)) \<Rightarrow> max_nesting_depth lim - d
          | Inr (Inl (_, lim, d, _)) \<Rightarrow> max_nesting_depth lim - d
          | Inr (Inr (Inl (_, lim, d, _))) \<Rightarrow> max_nesting_depth lim - d
          | Inr (Inr (Inr (_, lim, d, _))) \<Rightarrow> max_nesting_depth lim - d,
        \<lambda>x. case x of
            Inl (Inl _) \<Rightarrow> 0
          | Inl (Inr _) \<Rightarrow> 2
          | Inr (Inl _) \<Rightarrow> 1
          | Inr (Inr (Inl _)) \<Rightarrow> 2
          | Inr (Inr (Inr _)) \<Rightarrow> 1,
        \<lambda>x. case x of
            Inl _ \<Rightarrow> 0
          | Inr (Inl (_, lim, _, _, _, es)) \<Rightarrow> max_container_items lim - length es
          | Inr (Inr (Inl _)) \<Rightarrow> 0
          | Inr (Inr (Inr (_, lim, _, _, _, vs))) \<Rightarrow> max_container_items lim - length vs]")
    (auto simp: map_err_eq_Inr dest: checked_child_depth_bound)

declare parse_value.simps [simp del] parse_object.simps [simp del] parse_object_loop.simps [simp del]
  parse_array.simps [simp del] parse_array_loop.simps [simp del]

definition parse_text :: "(str \<Rightarrow> str) \<Rightarrow> resource_limits \<Rightarrow> str \<Rightarrow> core_error fault + json" where
  "parse_text nfc lim text =
     bindE (parse_value nfc lim 0 (skip_whitespace text) 0) (\<lambda>(v, bs, nodes).
     if skip_whitespace bs \<noteq> [] then fails SchemaInvalid else Inr v)"

definition BOM :: bytes where
  "BOM = [CHR 0xEF, CHR 0xBB, CHR 0xBF]"

definition parse_strict_with_limits ::
    "(str \<Rightarrow> str) \<Rightarrow> resource_limits \<Rightarrow> bytes \<Rightarrow> core_error fault + json" where
  "parse_strict_with_limits nfc lim input =
     bindE (lift_err (validate_limits lim)) (\<lambda>_.
     if length input > max_input_bytes lim then fails ResourceLimit
     else if starts_with input BOM then fails BomForbidden
     else if \<not> valid_utf8 input then fails InvalidUtf8
     else if starts_with input (utf8_encode 0xFEFF) then fails BomForbidden
     else parse_text nfc lim input)"

definition parse_strict :: "(str \<Rightarrow> str) \<Rightarrow> bytes \<Rightarrow> core_error fault + json" where
  "parse_strict nfc input = parse_strict_with_limits nfc default_limits input"

section \<open>The lexical level keeps text well-formed and never panics\<close>

lemma is_whitespace_ascii: "is_whitespace b \<Longrightarrow> byte_val b < 0x80"
  by (auto simp: is_whitespace_def)

lemma is_ascii_hexdigit_ascii: "is_ascii_hexdigit b \<Longrightarrow> is_ascii b"
  by (auto simp: text_defs)

lemma skip_whitespace_valid [simp]: "valid_utf8 (skip_whitespace bs) = valid_utf8 bs"
  by (induction bs) (auto simp: skip_whitespace_def is_whitespace_ascii)

lemma peek_simps [simp]: "peek [] = None" "peek (b # bs) = Some b"
  by (simp_all add: peek_def)

lemma peek_eq_Some: "peek bs = Some b \<longleftrightarrow> (\<exists>rest. bs = b # rest)"
  by (cases bs) auto

lemma peek_tl_valid: "peek bs = Some b \<Longrightarrow> byte_val b < 0x80 \<Longrightarrow> valid_utf8 bs \<Longrightarrow> valid_utf8 (tl bs)"
  by (auto simp: peek_eq_Some)

lemma hex_value_lt: "is_ascii_hexdigit c \<Longrightarrow> hex_value c < 16"
  by (auto simp: hex_value_def text_defs)

lemma from_str_radix_lt: "list_all is_ascii_hexdigit s \<Longrightarrow> from_str_radix_16 s < 16 ^ length s"
proof (induction s rule: rev_induct)
  case (snoc c s)
  then have "from_str_radix_16 s < 16 ^ length s" "hex_value c < 16" by (simp_all add: hex_value_lt)
  then have "from_str_radix_16 s * 16 + hex_value c < 16 ^ length s * 16" by linarith
  then show ?case by (simp add: from_str_radix_16_def)
qed (simp add: from_str_radix_16_def)

lemma hexdigits_valid: "list_all is_ascii_hexdigit s \<Longrightarrow> valid_utf8 s"
  using valid_utf8_ascii_append [of s "[]"] by (auto simp: list_all_iff is_ascii_hexdigit_ascii)

lemma parse_hex_u16_safe:
  assumes "valid_utf8 bs"
  shows "safely (\<lambda>(n, rest). n < 0x10000 \<and> valid_utf8 rest) (parse_hex_u16 bs)"
proof (cases "4 \<le> length bs \<and> list_all is_ascii_hexdigit (take 4 bs)")
  case True
  then have "list_all is_ascii (take 4 bs)" by (auto simp: list_all_iff is_ascii_hexdigit_ascii)
  then have "valid_utf8 (drop 4 bs)"
    using assms by (metis append_take_drop_id valid_utf8_ascii_append)
  moreover have "from_str_radix_16 (take 4 bs) < 16 ^ length (take 4 bs)"
    using True from_str_radix_lt by blast
  moreover have "valid_utf8 (take 4 bs)" using True by (intro hexdigits_valid) simp
  ultimately show ?thesis using True by (simp add: parse_hex_u16_def)
qed (auto simp: parse_hex_u16_def)

lemma push_bit_or_add: "b < 1024 \<Longrightarrow> push_bit 10 a OR b = a * 1024 + (b::nat)"
proof -
  assume b: "b < 1024"
  have "push_bit 10 a AND b = 0"
  proof (rule bit_eqI)
    fix n
    have "\<not> bit b n" if "10 \<le> n"
    proof -
      have "take_bit 10 b = b" using b by (simp add: take_bit_nat_eq_self_iff)
      then show ?thesis using that by (metis bit_take_bit_iff not_le)
    qed
    then show "bit (push_bit 10 a AND b) n \<longleftrightarrow> bit (0::nat) n"
      by (auto simp: bit_and_iff bit_push_bit_iff)
  qed
  then have "push_bit 10 a + b = push_bit 10 a OR b" by (rule disjunctive_add_eq_or)
  then show ?thesis by (simp add: push_bit_eq_mult)
qed

lemma surrogate_pair_scalar:
  assumes "0xD800 \<le> a" "a \<le> 0xDBFF" "0xDC00 \<le> b" "b \<le> 0xDFFF"
  shows "is_scalar (0x10000 + (push_bit 10 (a - 0xD800) OR (b - 0xDC00)))"
proof -
  have "push_bit 10 (a - 0xD800) OR (b - 0xDC00) = (a - 0xD800) * 1024 + (b - 0xDC00)"
    using assms by (intro push_bit_or_add) simp
  then show ?thesis using assms unfolding is_scalar_def by linarith
qed

lemma drop_escape_valid:
  assumes "valid_utf8 bs" "take 2 bs = [CHR 0x5C, CHR ''u'']"
  shows "valid_utf8 (drop 2 bs)"
proof -
  have "bs = [CHR 0x5C, CHR ''u''] @ drop 2 bs" using assms(2) by (metis append_take_drop_id)
  then have "valid_utf8 ([CHR 0x5C, CHR ''u''] @ drop 2 bs)" using assms(1) by simp
  then show ?thesis by (simp add: valid_utf8_ascii_append)
qed

lemma unicode_scalar_safe:
  assumes "a < 0x10000" "valid_utf8 bs"
  shows "safely (\<lambda>(c, rest). is_scalar c \<and> valid_utf8 rest) (unicode_scalar a bs)"
proof (cases "0xD800 \<le> a \<and> a \<le> 0xDBFF \<and> take 2 bs = [CHR 0x5C, CHR ''u'']")
  case True
  then have "safely (\<lambda>(n, rest). n < 0x10000 \<and> valid_utf8 rest) (parse_hex_u16 (drop 2 bs))"
    using assms by (intro parse_hex_u16_safe drop_escape_valid) auto
  then have "safely (\<lambda>(c, rest). is_scalar c \<and> valid_utf8 rest)
      (bindE (parse_hex_u16 (drop 2 bs)) (\<lambda>(b, bs).
          if \<not> (0xDC00 \<le> b \<and> b \<le> 0xDFFF) then fails LoneSurrogate
          else Inr (0x10000 + (push_bit 10 (a - 0xD800) OR (b - 0xDC00)), bs)))"
    by (rule safely_bindE) (use True surrogate_pair_scalar in auto)
  then show ?thesis using True by (simp add: unicode_scalar_def)
next
  case False
  then show ?thesis using assms by (auto simp: is_scalar_def unicode_scalar_def)
qed

lemma parse_unicode_escape_safe:
  assumes "valid_utf8 bs"
  shows "safely (\<lambda>(c, rest). is_scalar c \<and> valid_utf8 rest) (parse_unicode_escape bs)"
  unfolding parse_unicode_escape_def
proof (rule safely_bindE [OF parse_hex_u16_safe [OF assms]], clarify)
  fix a :: nat and bs1 assume "a < 0x10000" "valid_utf8 bs1"
  then show "safely (\<lambda>(c, rest). is_scalar c \<and> valid_utf8 rest)
      (bindE (unicode_scalar a bs1) (\<lambda>(scalar, bs). if is_scalar scalar then Inr (scalar, bs) else panics))"
    by (intro safely_bindE [OF unicode_scalar_safe]) auto
qed

lemma parse_escape_safe:
  assumes "valid_utf8 bs"
  shows "safely (\<lambda>(c, rest). is_scalar c \<and> valid_utf8 rest) (parse_escape bs)"
proof (cases bs)
  case (Cons b rest)
  have ascii: "valid_utf8 rest" if "b = x" "byte_val x < 128" for x
    using that assms Cons by simp
  then show ?thesis
    using parse_unicode_escape_safe [of rest] unfolding Cons
    by (auto simp: parse_escape_def is_scalar_def)
qed (simp add: parse_escape_def)

lemma parse_string_loop_safe:
  "valid_utf8 bs \<Longrightarrow> valid_utf8 acc \<Longrightarrow>
   safely (\<lambda>(s, rest). valid_utf8 s \<and> valid_utf8 rest) (parse_string_loop bs acc)"
proof (induction bs acc rule: parse_string_loop.induct)
  case (1 bs acc)
  have pushed: "valid_utf8 (acc @ utf8_encode c)" if "is_scalar c" for c
    using that \<open>valid_utf8 acc\<close> valid_utf8_encode [OF that, of "[]"] by (simp add: valid_utf8_prefix)
  show ?case
  proof (cases bs)
    case (Cons b rest)
    have bs: "valid_utf8 (b # rest)" using "1.prems"(1) Cons by simp
    consider (quote) "b = CHR 0x22" | (escape) "b = CHR 0x5C" "b \<noteq> CHR 0x22"
      | (ascii) "b \<noteq> CHR 0x22" "b \<noteq> CHR 0x5C" "byte_val b \<le> 0x7F"
      | (wide) "b \<noteq> CHR 0x22" "b \<noteq> CHR 0x5C" "0x7F < byte_val b" by fastforce
    then show ?thesis
    proof cases
      case quote
      then show ?thesis using bs "1.prems"(2) by (simp add: Cons parse_string_loop.simps)
    next
      case escape
      then have "valid_utf8 rest" using bs by simp
      then have "safely (\<lambda>(s, rest). valid_utf8 s \<and> valid_utf8 rest)
          (bindE (parse_escape rest) (\<lambda>(c, rest). parse_string_loop rest (acc @ utf8_encode c)))"
        by (intro safely_bindE [OF parse_escape_safe]) (auto intro!: "1.IH"(1) [OF Cons] escape pushed)
      then show ?thesis unfolding Cons escape(1) by (subst parse_string_loop.simps) simp
    next
      case ascii
      then have "valid_utf8 rest" "is_scalar (byte_val b)" using bs by (simp_all add: is_scalar_def)
      then show ?thesis using "1.IH"(2) [OF Cons] ascii pushed
        by (simp add: Cons parse_string_loop.simps [of "b # rest"])
    next
      case wide
      obtain c rest' where c: "utf8_next (b # rest) = Some c" "is_scalar c" "b # rest = utf8_encode c @ rest'"
          "valid_utf8 rest'"
        using valid_utf8_next [OF bs] by auto
      then have d: "drop (len_utf8 c) (b # rest) = rest'"
        by (metis append_eq_conv_conj length_utf8_encode)
      have "safely (\<lambda>(s, rest). valid_utf8 s \<and> valid_utf8 rest) (parse_string_loop rest' (acc @ utf8_encode c))"
        using "1.IH"(3) [OF Cons _ _ _ _ c(1) [folded Cons]] wide c(2,4) d pushed Cons by simp
      then show ?thesis using wide c(1) d by (simp add: Cons parse_string_loop.simps [of "b # rest"])
    qed
  qed (simp add: parse_string_loop.simps)
qed

lemma parse_string_safe:
  assumes "valid_utf8 bs" "peek bs = Some (CHR 0x22)"
  shows "safely (\<lambda>(s, rest). valid_utf8 s \<and> valid_utf8 rest) (parse_string bs)"
proof -
  obtain rest where "bs = CHR 0x22 # rest" using assms(2) by (auto simp: peek_eq_Some)
  with assms show ?thesis by (simp add: parse_string_def parse_string_loop_safe)
qed

lemma valid_integer_token_ascii: "valid_integer_token token \<Longrightarrow> list_all is_ascii token"
  by (auto simp: valid_integer_token_def Let_def all_digits_def list_all_iff text_defs result_simps
      split: option.splits if_splits)

lemma valid_utf8_boundary: "valid_utf8 bs \<Longrightarrow> is_char_boundary bs"
proof (cases bs)
  case (Cons b xs)
  assume "valid_utf8 bs"
  then obtain c where "utf8_next (b # xs) = Some c" using valid_utf8_next Cons by blast
  then show ?thesis using Cons by (auto simp: is_char_boundary_def is_cont_def utf8_next_def split: if_splits)
qed (simp add: is_char_boundary_def)

lemma ends_number_boundary: "is_char_boundary (dropWhile (\<lambda>b. \<not> ends_number b) bs)"
proof (cases "dropWhile (\<lambda>b. \<not> ends_number b) bs")
  case (Cons b xs)
  then have "ends_number b" by (simp add: dropWhile_eq_Cons_conv)
  then show ?thesis using Cons by (auto simp: is_char_boundary_def is_cont_def ends_number_def is_whitespace_def)
qed (simp only: is_char_boundary_def list.case)

lemma ascii_boundary: "list_all is_ascii s \<Longrightarrow> is_char_boundary rest \<Longrightarrow> is_char_boundary (s @ rest)"
  by (cases s) (auto simp: is_char_boundary_def is_cont_def is_ascii_def)

lemma parse_number_safe:
  assumes "valid_utf8 bs"
  shows "safely (\<lambda>(v, rest). (\<exists>i. v = Integer i \<and> safe_integer i) \<and> valid_utf8 rest) (parse_number bs)"
proof -
  define token rest where "token = takeWhile (\<lambda>b. \<not> ends_number b) bs"
    and "rest = dropWhile (\<lambda>b. \<not> ends_number b) bs"
  have "valid_utf8 rest" if "valid_integer_token token"
    using assms valid_utf8_ascii_append [OF valid_integer_token_ascii [OF that], of rest]
    by (simp add: token_def rest_def)
  then show ?thesis
    unfolding parse_number_def Let_def token_def [symmetric] rest_def [symmetric]
    using valid_utf8_boundary [OF assms] ends_number_boundary [of bs, folded rest_def]
    by (cases "parse_i64 token") auto
qed

lemma parse_keyword_safe:
  assumes "valid_utf8 bs" "list_all is_ascii keyword"
  shows "safely (\<lambda>(w, rest). w = v \<and> valid_utf8 rest) (parse_keyword bs keyword v)"
  using assms valid_utf8_ascii_append
  by (auto simp: parse_keyword_def starts_with_iff)

section \<open>What the parser accepts is in the canonical domain\<close>

definition value_post :: "(str \<Rightarrow> str) \<Rightarrow> resource_limits \<Rightarrow> nat \<Rightarrow> nat \<Rightarrow> json \<times> bytes \<times> nat \<Rightarrow> bool" where
  "value_post nfc lim d n = (\<lambda>(v, rest, m).
     json_fits nfc lim d v \<and> json_utf8 v \<and> m = n + json_nodes v \<and> m \<le> max_nodes lim \<and> valid_utf8 rest)"

definition entries_ok :: "(str \<Rightarrow> str) \<Rightarrow> resource_limits \<Rightarrow> nat \<Rightarrow> (str \<times> json) list \<Rightarrow> bool" where
  "entries_ok nfc lim d es \<longleftrightarrow> length es \<le> max_container_items lim \<and> distinct (map fst es)
     \<and> (\<forall>e\<in>set es. nfc (fst e) = fst e \<and> valid_utf8 (fst e) \<and> json_fits nfc lim d (snd e) \<and> json_utf8 (snd e))"

definition elements_ok :: "(str \<Rightarrow> str) \<Rightarrow> resource_limits \<Rightarrow> nat \<Rightarrow> json list \<Rightarrow> bool" where
  "elements_ok nfc lim d vs \<longleftrightarrow> length vs \<le> max_container_items lim
     \<and> (\<forall>v\<in>set vs. json_fits nfc lim d v \<and> json_utf8 v)"

text \<open>\<open>n\<close> counts the nodes consumed before the children in \<open>es\<close> (or \<open>vs\<close>).\<close>

definition object_post :: "(str \<Rightarrow> str) \<Rightarrow> resource_limits \<Rightarrow> nat \<Rightarrow> nat \<Rightarrow> json \<times> bytes \<times> nat \<Rightarrow> bool" where
  "object_post nfc lim d n = (\<lambda>(v, rest, m).
     (\<exists>es. v = Object es \<and> entries_ok nfc lim d es \<and> m = n + sum_list (map (\<lambda>e. json_nodes (snd e)) es))
     \<and> m \<le> max_nodes lim \<and> valid_utf8 rest)"

definition array_post :: "(str \<Rightarrow> str) \<Rightarrow> resource_limits \<Rightarrow> nat \<Rightarrow> nat \<Rightarrow> json \<times> bytes \<times> nat \<Rightarrow> bool" where
  "array_post nfc lim d n = (\<lambda>(v, rest, m).
     (\<exists>vs. v = Array vs \<and> elements_ok nfc lim d vs \<and> m = n + sum_list (map json_nodes vs))
     \<and> m \<le> max_nodes lim \<and> valid_utf8 rest)"

lemma consume_node_bound: "consume_node n limit = Inr m \<Longrightarrow> m = Suc n \<and> Suc n \<le> limit"
  by (auto simp: consume_node_def result_simps split: if_splits)

lemma object_post_value:
  "object_post nfc lim (Suc d) (Suc n) x \<Longrightarrow> Suc d \<le> max_nesting_depth lim \<Longrightarrow> value_post nfc lim d n x"
  by (auto simp: object_post_def value_post_def entries_ok_def split: prod.splits)

lemma array_post_value:
  "array_post nfc lim (Suc d) (Suc n) x \<Longrightarrow> Suc d \<le> max_nesting_depth lim \<Longrightarrow> value_post nfc lim d n x"
  by (auto simp: array_post_def value_post_def elements_ok_def split: prod.splits)

lemma entries_ok_snoc:
  "entries_ok nfc lim d es \<Longrightarrow> length es < max_container_items lim \<Longrightarrow> key \<notin> set (map fst es) \<Longrightarrow>
   nfc key = key \<Longrightarrow> valid_utf8 key \<Longrightarrow> json_fits nfc lim d v \<Longrightarrow> json_utf8 v \<Longrightarrow>
   entries_ok nfc lim d (es @ [(key, v)])"
  by (auto simp: entries_ok_def)

lemma elements_ok_snoc:
  "elements_ok nfc lim d vs \<Longrightarrow> length vs < max_container_items lim \<Longrightarrow>
   json_fits nfc lim d v \<Longrightarrow> json_utf8 v \<Longrightarrow> elements_ok nfc lim d (vs @ [v])"
  by (auto simp: elements_ok_def)

lemma parse_value_branches:
  assumes v: "valid_utf8 bs" and b: "peek bs = Some b" and n: "nodes = Suc n" "nodes \<le> max_nodes lim"
    and obj: "\<And>cd. b = CHR ''{'' \<Longrightarrow> checked_child_depth d (max_nesting_depth lim) = Inr cd \<Longrightarrow>
      safely (object_post nfc lim cd nodes) (parse_object nfc lim cd bs nodes)"
    and arr: "\<And>cd. b = CHR ''['' \<Longrightarrow> checked_child_depth d (max_nesting_depth lim) = Inr cd \<Longrightarrow>
      safely (array_post nfc lim cd nodes) (parse_array nfc lim cd bs nodes)"
  shows "b = CHR ''{'' \<Longrightarrow> safely (value_post nfc lim d n)
      (bindE (lift_err (checked_child_depth d (max_nesting_depth lim))) (\<lambda>cd. parse_object nfc lim cd bs nodes))"
    and "b = CHR ''['' \<Longrightarrow> safely (value_post nfc lim d n)
      (bindE (lift_err (checked_child_depth d (max_nesting_depth lim))) (\<lambda>cd. parse_array nfc lim cd bs nodes))"
    and "b = CHR 0x22 \<Longrightarrow> safely (value_post nfc lim d n)
      (bindE (parse_string bs) (\<lambda>(s, bs). Inr (String s, bs, nodes)))"
    and "list_all is_ascii kw \<Longrightarrow> w \<in> {Null, Bool True, Bool False} \<Longrightarrow> safely (value_post nfc lim d n)
      (bindE (parse_keyword bs kw w) (\<lambda>(v, bs). Inr (v, bs, nodes)))"
    and "safely (value_post nfc lim d n) (bindE (parse_number bs) (\<lambda>(v, bs). Inr (v, bs, nodes)))"
proof -
  have depth: "safely (\<lambda>cd. cd = Suc d \<and> Suc d \<le> max_nesting_depth lim)
      (lift_err (checked_child_depth d (max_nesting_depth lim)))"
    by (auto simp: safely_lift_err dest: checked_child_depth_bound)
  show "safely (value_post nfc lim d n)
      (bindE (lift_err (checked_child_depth d (max_nesting_depth lim))) (\<lambda>cd. parse_object nfc lim cd bs nodes))"
    if "b = CHR ''{''"
    using obj [OF that] n
    by (intro safely_bindE [OF depth]) (auto simp: map_err_eq_Inr intro: safely_mono object_post_value)
  show "safely (value_post nfc lim d n)
      (bindE (lift_err (checked_child_depth d (max_nesting_depth lim))) (\<lambda>cd. parse_array nfc lim cd bs nodes))"
    if "b = CHR ''[''"
    using arr [OF that] n
    by (intro safely_bindE [OF depth]) (auto simp: map_err_eq_Inr intro: safely_mono array_post_value)
  show "safely (value_post nfc lim d n)
      (bindE (parse_string bs) (\<lambda>(s, bs). Inr (String s, bs, nodes)))" if "b = CHR 0x22"
    using v b n that by (intro safely_bindE [OF parse_string_safe]) (auto simp: value_post_def)
  show "safely (value_post nfc lim d n)
      (bindE (parse_keyword bs kw w) (\<lambda>(v, bs). Inr (v, bs, nodes)))"
    if "list_all is_ascii kw" "w \<in> {Null, Bool True, Bool False}"
    using n that by (intro safely_bindE [OF parse_keyword_safe [OF v that(1)]]) (auto simp: value_post_def)
  show "safely (value_post nfc lim d n) (bindE (parse_number bs) (\<lambda>(v, bs). Inr (v, bs, nodes)))"
    using n by (intro safely_bindE [OF parse_number_safe [OF v]]) (auto simp: value_post_def)
qed

lemma parse_object_loop_safe_step:
  assumes pre: "valid_utf8 bs0" "entries_ok nfc lim d es" "n = n0 + sum_list (map (\<lambda>e. json_nodes (snd e)) es)"
    and g: "length es < max_container_items lim" "peek bs0 = Some (CHR 0x22)"
    and key: "parse_string bs0 = Inr (key, bs1)" "key \<notin> set (map fst es)" "nfc key = key"
      "peek (skip_whitespace bs1) = Some (CHR '':'')"
    and child: "safely (value_post nfc lim d n)
      (parse_value nfc lim d (skip_whitespace (tl (skip_whitespace bs1))) n)"
    and next_entry: "\<And>v bs3 m. parse_value nfc lim d (skip_whitespace (tl (skip_whitespace bs1))) n = Inr (v, bs3, m) \<Longrightarrow>
      peek (skip_whitespace bs3) = Some (CHR '','') \<Longrightarrow> valid_utf8 (skip_whitespace (tl (skip_whitespace bs3))) \<Longrightarrow>
      m \<le> max_nodes lim \<Longrightarrow> entries_ok nfc lim d (es @ [(key, v)]) \<Longrightarrow>
      m = n0 + sum_list (map (\<lambda>e. json_nodes (snd e)) (es @ [(key, v)])) \<Longrightarrow>
      safely (object_post nfc lim d n0)
        (parse_object_loop nfc lim d (skip_whitespace (tl (skip_whitespace bs3))) m (es @ [(key, v)]))"
  shows "safely (object_post nfc lim d n0) (parse_object_loop nfc lim d bs0 n es)"
proof -
  let ?body = "\<lambda>(v, bs3, nodes).
     let bs4 = skip_whitespace bs3; entries' = es @ [(key, v)] in
     if peek bs4 = Some (CHR ''}'') then Inr (Object entries', tl bs4, nodes)
     else if peek bs4 = Some (CHR '','') then
       parse_object_loop nfc lim d (skip_whitespace (tl bs4)) nodes entries'
     else fails SchemaInvalid"
  have vkey: "valid_utf8 key"
    using safely_value [OF parse_string_safe [OF pre(1) g(2)] key(1)] by simp
  have "safely (object_post nfc lim d n0)
      (bindE (parse_value nfc lim d (skip_whitespace (tl (skip_whitespace bs1))) n) ?body)"
  proof (rule safely_bindE [OF child], goal_cases)
    case (1 y)
    then obtain v bs3 m where y: "y = (v, bs3, m)"
      and val: "parse_value nfc lim d (skip_whitespace (tl (skip_whitespace bs1))) n = Inr (v, bs3, m)"
      and post: "json_fits nfc lim d v" "json_utf8 v" "m = n + json_nodes v" "m \<le> max_nodes lim" "valid_utf8 bs3"
      by (cases y) (auto simp: value_post_def)
    have es': "entries_ok nfc lim d (es @ [(key, v)])"
      "m = n0 + sum_list (map (\<lambda>e. json_nodes (snd e)) (es @ [(key, v)]))"
      using pre g key vkey post by (auto intro!: entries_ok_snoc)
    have "valid_utf8 (tl (skip_whitespace bs3))" if "peek (skip_whitespace bs3) = Some c" "byte_val c < 0x80" for c
      using peek_tl_valid [OF that] post(5) by simp
    then show ?case
      using next_entry [OF val _ _ post(4) es'] es' post(4)
      by (auto simp: y Let_def object_post_def simp del: map_append sum_list_append)
  qed
  then show ?thesis
    using g key by (simp add: parse_object_loop.simps [of nfc lim d bs0] require_nfc_key_def)
qed

lemma parse_array_loop_safe_step:
  assumes pre: "elements_ok nfc lim d vs" "n = n0 + sum_list (map json_nodes vs)"
    and g: "length vs < max_container_items lim"
    and child: "safely (value_post nfc lim d n) (parse_value nfc lim d bs0 n)"
    and next_element: "\<And>v bs1 m. parse_value nfc lim d bs0 n = Inr (v, bs1, m) \<Longrightarrow>
      peek (skip_whitespace bs1) = Some (CHR '','') \<Longrightarrow> valid_utf8 (skip_whitespace (tl (skip_whitespace bs1))) \<Longrightarrow>
      m \<le> max_nodes lim \<Longrightarrow> elements_ok nfc lim d (vs @ [v]) \<Longrightarrow>
      m = n0 + sum_list (map json_nodes (vs @ [v])) \<Longrightarrow>
      safely (array_post nfc lim d n0)
        (parse_array_loop nfc lim d (skip_whitespace (tl (skip_whitespace bs1))) m (vs @ [v]))"
  shows "safely (array_post nfc lim d n0) (parse_array_loop nfc lim d bs0 n vs)"
proof -
  have "safely (array_post nfc lim d n0) (bindE (parse_value nfc lim d bs0 n) (\<lambda>(v, bs1, nodes).
        let bs2 = skip_whitespace bs1; values' = vs @ [v] in
        if peek bs2 = Some (CHR '']'') then Inr (Array values', tl bs2, nodes)
        else if peek bs2 = Some (CHR '','') then
          parse_array_loop nfc lim d (skip_whitespace (tl bs2)) nodes values'
        else fails SchemaInvalid))"
  proof (rule safely_bindE [OF child], goal_cases)
    case (1 y)
    then obtain v bs1 m where y: "y = (v, bs1, m)"
      and val: "parse_value nfc lim d bs0 n = Inr (v, bs1, m)"
      and post: "json_fits nfc lim d v" "json_utf8 v" "m = n + json_nodes v" "m \<le> max_nodes lim" "valid_utf8 bs1"
      by (cases y) (auto simp: value_post_def)
    have vs': "elements_ok nfc lim d (vs @ [v])" "m = n0 + sum_list (map json_nodes (vs @ [v]))"
      using pre g post by (auto intro!: elements_ok_snoc)
    have "valid_utf8 (tl (skip_whitespace bs1))" if "peek (skip_whitespace bs1) = Some c" "byte_val c < 0x80" for c
      using peek_tl_valid [OF that] post(5) by simp
    then show ?case
      using next_element [OF val _ _ post(4) vs'] vs' post(4)
      by (auto simp: y Let_def array_post_def simp del: map_append sum_list_append)
  qed
  then show ?thesis using g by (simp add: parse_array_loop.simps [of nfc lim d bs0])
qed

lemma parse_value_safe:
  shows "valid_utf8 bs \<Longrightarrow> safely (value_post nfc lim d n) (parse_value nfc lim d bs n)"
    and "valid_utf8 obs \<Longrightarrow> peek obs = Some (CHR ''{'') \<Longrightarrow> n \<le> max_nodes lim \<Longrightarrow>
      safely (object_post nfc lim d n) (parse_object nfc lim d obs n)"
    and "valid_utf8 lbs \<Longrightarrow> n \<le> max_nodes lim \<Longrightarrow> entries_ok nfc lim d es \<Longrightarrow>
      n = n0 + sum_list (map (\<lambda>e. json_nodes (snd e)) es) \<Longrightarrow>
      safely (object_post nfc lim d n0) (parse_object_loop nfc lim d lbs n es)"
    and "valid_utf8 cbs \<Longrightarrow> peek cbs = Some (CHR ''['') \<Longrightarrow> n \<le> max_nodes lim \<Longrightarrow>
      safely (array_post nfc lim d n) (parse_array nfc lim d cbs n)"
    and "valid_utf8 vbs \<Longrightarrow> n \<le> max_nodes lim \<Longrightarrow> elements_ok nfc lim d vs \<Longrightarrow>
      n = n0 + sum_list (map json_nodes vs) \<Longrightarrow>
      safely (array_post nfc lim d n0) (parse_array_loop nfc lim d vbs n vs)"
proof (induction nfc lim d bs n and nfc lim d obs n and nfc lim d lbs n es and nfc lim d cbs n
    and nfc lim d vbs n vs
    arbitrary: and and n0 and and n0
    rule: parse_value_parse_object_parse_object_loop_parse_array_parse_array_loop.induct)
  case (1 nfc lim d bs0 n)
  define bs where "bs = skip_whitespace bs0"
  have v: "valid_utf8 bs" using "1.prems" by (simp add: bs_def)
  have start: "safely (\<lambda>m. m = Suc n \<and> m \<le> max_nodes lim) (lift_err (consume_node n (max_nodes lim)))"
    by (auto simp: safely_lift_err dest: consume_node_bound)
  show ?case
    unfolding parse_value.simps [of nfc lim d bs0] Let_def bs_def [symmetric]
  proof (rule safely_bindE [OF start], goal_cases)
    case (1 nodes)
    show ?case
    proof (cases "peek bs")
      case (Some b)
      have obj: "safely (object_post nfc lim cd nodes) (parse_object nfc lim cd bs nodes)"
        if "b = CHR ''{''" "checked_child_depth d (max_nesting_depth lim) = Inr cd" for cd
        using "1.IH"(1) [OF bs_def 1(1) Some that(1)] that 1(2) v Some by simp
      have arr: "safely (array_post nfc lim cd nodes) (parse_array nfc lim cd bs nodes)"
        if "b = CHR ''[''" "checked_child_depth d (max_nesting_depth lim) = Inr cd" for cd
        using "1.IH"(2) [OF bs_def 1(1) Some _ that(1)] that 1(2) v Some by simp
      have nodes: "nodes = Suc n" "nodes \<le> max_nodes lim" using 1(2) by auto
      note branches = parse_value_branches [OF v Some nodes obj arr]
      show ?thesis
        unfolding Some option.case by (auto simp: is_ascii_def intro!: branches)
    qed simp
  qed
next
  case (2 nfc lim d bs0 n)
  define bs where "bs = skip_whitespace (tl bs0)"
  have v: "valid_utf8 bs" unfolding bs_def using 2 by (simp add: peek_tl_valid [of _ "CHR ''{''"])
  show ?case
  proof (cases "peek bs = Some (CHR ''}'')")
    case True
    then show ?thesis
      using peek_tl_valid [OF True] v "2.prems"
      by (simp add: parse_object.simps bs_def [symmetric] object_post_def entries_ok_def)
  next
    case False
    then have "safely (object_post nfc lim d n) (parse_object_loop nfc lim d bs n [])"
      using "2.IH" [OF bs_def] v "2.prems" by (simp add: entries_ok_def)
    then show ?thesis using False by (simp add: parse_object.simps bs_def [symmetric])
  qed
next
  case (3 nfc lim d bs0 n es)
  show ?case
  proof (cases "length es < max_container_items lim \<and> peek bs0 = Some (CHR 0x22)")
    case g: True
    then have g': "\<not> max_container_items lim \<le> length es" "\<not> peek bs0 \<noteq> Some (CHR 0x22)" by auto
    have str: "safely (\<lambda>(s, rest). valid_utf8 s \<and> valid_utf8 rest) (parse_string bs0)"
      using g "3.prems" by (intro parse_string_safe) auto
    show ?thesis
    proof (cases "parse_string bs0")
      case (Inl e)
      then show ?thesis using str g by (cases e) (auto simp: parse_object_loop.simps)
    next
      case (Inr x)
      then obtain key bs1 where key: "parse_string bs0 = Inr (key, bs1)" by (cases x) auto
      show ?thesis
      proof (cases "key \<notin> set (map fst es) \<and> nfc key = key \<and> peek (skip_whitespace bs1) = Some (CHR '':'')")
        case True
        then have f: "key \<notin> set (map fst es)" "lift_err (require_nfc_key nfc key) = Inr ()"
          "\<not> peek (skip_whitespace bs1) \<noteq> Some (CHR '':'')" by (auto simp: require_nfc_key_def)
        note IH = "3.IH" [OF g' key refl f(1,2) refl f(3)]
        have "valid_utf8 (tl (skip_whitespace bs1))"
          using True safely_value [OF str key] by (simp add: peek_tl_valid [of _ "CHR '':''"])
        then show ?thesis
          using IH(2) "3.prems" g key True
          by (intro parse_object_loop_safe_step [of bs0 nfc lim d es n n0 key bs1] IH(1)) auto
      next
        case False
        then show ?thesis
          using g key by (cases "nfc key = key") (auto simp: parse_object_loop.simps require_nfc_key_def)
      qed
    qed
  qed (auto simp: parse_object_loop.simps)
next
  case (4 nfc lim d bs0 n)
  define bs where "bs = skip_whitespace (tl bs0)"
  have v: "valid_utf8 bs" unfolding bs_def using 4 by (simp add: peek_tl_valid [of _ "CHR ''[''"])
  show ?case
  proof (cases "peek bs = Some (CHR '']'')")
    case True
    then show ?thesis
      using peek_tl_valid [OF True] v "4.prems"
      by (simp add: parse_array.simps bs_def [symmetric] array_post_def elements_ok_def)
  next
    case False
    then have "safely (array_post nfc lim d n) (parse_array_loop nfc lim d bs n [])"
      using "4.IH" [OF bs_def] v "4.prems" by (simp add: elements_ok_def)
    then show ?thesis using False by (simp add: parse_array.simps bs_def [symmetric])
  qed
next
  case (5 nfc lim d bs0 n vs)
  show ?case
  proof (cases "length vs < max_container_items lim")
    case True
    then have g: "\<not> max_container_items lim \<le> length vs" by simp
    show ?thesis
      using "5.IH"(2) [OF g] "5.prems" True
      by (intro parse_array_loop_safe_step [of nfc lim d vs n n0 bs0] "5.IH"(1) [OF g]) auto
  qed (simp add: parse_array_loop.simps)
qed

lemma parse_strict_safe:
  "safely (\<lambda>v. json_fits nfc lim 0 v \<and> json_utf8 v \<and> json_nodes v \<le> max_nodes lim
     \<and> max_nesting_depth lim \<le> HARD_MAX_NESTING_DEPTH) (parse_strict_with_limits nfc lim input)"
proof -
  have "safely (\<lambda>v. json_fits nfc lim 0 v \<and> json_utf8 v \<and> json_nodes v \<le> max_nodes lim) (parse_text nfc lim input)"
    if "valid_utf8 input"
    unfolding parse_text_def
    by (rule safely_bindE [OF parse_value_safe(1)]) (auto simp: that value_post_def)
  then show ?thesis
    by (auto simp: parse_strict_with_limits_def validate_limits_def safely_lift_err result_simps
        intro!: safely_bindE [where Q = "\<lambda>_. max_nesting_depth lim \<le> HARD_MAX_NESTING_DEPTH"]
        elim: safely_mono)
qed

section \<open>Reading canonical text back\<close>

lemma hex_value_digit: "n < 16 \<Longrightarrow> hex_value (hex_digit n) = n \<and> is_ascii_hexdigit (hex_digit n)"
  by (drule less_16_cases) (auto simp: hex_digit_def hex_value_def text_defs)

lemma parse_hex4: "n < 0x10000 \<Longrightarrow> parse_hex_u16 (hex4 n @ rest) = Inr (n, rest)"
proof -
  assume "n < 0x10000"
  then have "((n div 4096 mod 16 * 16 + n div 256 mod 16) * 16 + n div 16 mod 16) * 16 + n mod 16 = n"
  proof -
    have "n div 4096 mod 16 * 16 + n div 256 mod 16 = n div 256"
      using div_mult_mod_eq [of "n div 256" 16] \<open>n < 0x10000\<close> by (simp add: div_mult2_eq [symmetric])
    moreover have "n div 256 * 16 + n div 16 mod 16 = n div 16"
      using div_mult_mod_eq [of "n div 16" 16] by (simp add: div_mult2_eq [symmetric])
    ultimately show ?thesis using div_mult_mod_eq [of n 16] by (simp only:)
  qed
  then show ?thesis
    using \<open>n < 0x10000\<close>
    by (simp add: parse_hex_u16_def hex4_def from_str_radix_16_def hex_value_digit hexdigits_valid)
qed

lemma parse_string_loop_char:
  assumes "is_scalar c"
  shows "parse_string_loop (write_char c @ rest) acc = parse_string_loop rest (acc @ utf8_encode c)"
proof -
  consider (esc) "c \<in> {0x22, 0x5C, 0x08, 0x09, 0x0A, 0x0C, 0x0D}"
    | (ctl) "c \<notin> {0x22, 0x5C, 0x08, 0x09, 0x0A, 0x0C, 0x0D}" "c \<le> 0x1F"
    | (ascii) "c \<notin> {0x22, 0x5C}" "0x1F < c" "c \<le> 0x7F" | (wide) "0x7F < c" by fastforce
  then show ?thesis
  proof cases
    case esc
    then show ?thesis
      by (auto simp: write_char_def parse_string_loop.simps [of "CHR 0x5C # _"] parse_escape_def)
  next
    case ctl
    then have "unicode_scalar c rest = Inr (c, rest)" by (simp add: unicode_scalar_def)
    then have "parse_unicode_escape (hex4 c @ rest) = Inr (c, rest)"
      using ctl assms by (simp add: parse_unicode_escape_def parse_hex4)
    then show ?thesis
      using ctl by (simp add: write_char_def parse_string_loop.simps [of "CHR 0x5C # _"] parse_escape_def)
  next
    case ascii
    then have "write_char c = [char_of c]" "byte_val (char_of c) = c"
      "char_of c \<noteq> CHR 0x22" "char_of c \<noteq> CHR 0x5C"
      by (auto simp: write_char_def utf8_encode_ascii byte_val_inject [symmetric])
    then show ?thesis using ascii by (simp add: parse_string_loop.simps [of "char_of c # _"])
  next
    case wide
    then have w: "write_char c = utf8_encode c" by (simp add: write_char_def)
    obtain b bs where b: "utf8_encode c = b # bs" by (metis list.exhaust utf8_encode_not_Nil)
    have next_char: "utf8_next (b # bs @ rest) = Some c" using utf8_next_encode [OF assms, of rest] b by simp
    have "0x7F < byte_val b"
    proof (rule ccontr)
      assume "\<not> 0x7F < byte_val b"
      then have "utf8_next (b # bs @ rest) = Some (byte_val b)" by (simp add: utf8_next_def)
      with next_char wide \<open>\<not> 0x7F < byte_val b\<close> show False by simp
    qed
    moreover from this have "b \<noteq> CHR 0x22" "b \<noteq> CHR 0x5C" by auto
    moreover have "drop (len_utf8 c) (b # bs @ rest) = rest"
      by (metis append_Cons append_eq_conv_conj b length_utf8_encode)
    ultimately show ?thesis
      using next_char unfolding w b append_Cons
      by (subst parse_string_loop.simps) (simp add: b)
  qed
qed

lemma parse_string_loop_chars:
  "list_all is_scalar cs \<Longrightarrow>
   parse_string_loop (concat (map write_char cs) @ CHR 0x22 # rest) acc = Inr (acc @ utf8_text cs, rest)"
proof (induction cs arbitrary: acc)
  case Nil
  then show ?case by (simp add: parse_string_loop.simps)
qed (simp add: parse_string_loop_char)

lemma parse_write_string:
  "valid_utf8 s \<Longrightarrow> parse_string (write_json_string s @ rest) = Inr (s, rest)"
  using parse_string_loop_chars [OF chars_scalar, of s rest "[]"]
  by (simp add: parse_string_def write_json_string_def)

definition stops :: "bytes \<Rightarrow> bool" where
  "stops rest \<longleftrightarrow> (case rest of [] \<Rightarrow> True | b # _ \<Rightarrow> ends_number b)"

lemma digit_not_end: "is_ascii_digit b \<or> b = CHR ''-'' \<Longrightarrow> \<not> ends_number b"
  by (auto simp: ends_number_def is_whitespace_def is_ascii_digit_def)

lemma takeWhile_stops:
  assumes "\<forall>b\<in>set token. \<not> ends_number b" "stops rest"
  shows "takeWhile (\<lambda>b. \<not> ends_number b) (token @ rest) = token"
    and "dropWhile (\<lambda>b. \<not> ends_number b) (token @ rest) = rest"
  using assms by (auto simp: stops_def dropWhile_append takeWhile_append split: list.splits)

lemma nat_to_str_unsigned [simp]: "nat_to_str n \<noteq> CHR ''-'' # r"
proof
  assume "nat_to_str n = CHR ''-'' # r"
  with nat_to_str_digits [of n] have "all_digits (CHR ''-'' # r)" by (simp only:)
  then show False by (simp add: is_ascii_digit_def)
qed

lemma strip_minus [simp]:
  "strip_prefix (CHR ''-'' # s) ''-'' = Some s" "strip_prefix (nat_to_str n) ''-'' = None"
  by (simp_all add: strip_prefix_eq_None strip_prefix_eq_Some)

lemma nat_to_str_zero_start: "starts_with (nat_to_str n) ''0'' \<Longrightarrow> nat_to_str n = ''0''"
proof -
  assume "starts_with (nat_to_str n) ''0''"
  then have "n = 0" using nat_to_str_leading [of n] by (auto simp: starts_with_iff)
  then show ?thesis by (simp add: nat_to_str.simps digit_char_def byte_val_inject [symmetric])
qed

lemma int_to_str_cases:
  obtains (neg) n where "i = - int n" "0 < n" "int_to_str i = CHR ''-'' # nat_to_str n"
  | (pos) n where "i = int n" "int_to_str i = nat_to_str n"
proof (cases "i < 0")
  case True
  then show thesis using neg [of "nat (- i)"] by (simp add: int_to_str_def)
next
  case False
  then show thesis using pos [of "nat i"] by (simp add: int_to_str_def)
qed

lemma int_to_str_token:
  "valid_integer_token (int_to_str i)" "int_to_str i \<noteq> ''-0''" "\<forall>b\<in>set (int_to_str i). \<not> ends_number b"
proof -
  have digits: "\<forall>b\<in>set (nat_to_str n). \<not> ends_number b" for n
    using nat_to_str_digits [of n] digit_not_end by (auto simp: all_digits_def list_all_iff)
  show "valid_integer_token (int_to_str i)"
    by (cases i rule: int_to_str_cases)
      (auto simp: valid_integer_token_def Let_def dest: nat_to_str_zero_start)
  show "\<forall>b\<in>set (int_to_str i). \<not> ends_number b"
    by (cases i rule: int_to_str_cases) (use digits digit_not_end in auto)
  show "int_to_str i \<noteq> ''-0''"
  proof (cases i rule: int_to_str_cases)
    case (neg n)
    then have "nat_to_str n \<noteq> ''0''" using nat_to_str_leading [of n] by auto
    with neg show ?thesis by simp
  next
    case (pos n)
    then show ?thesis by simp
  qed
qed

lemma parse_i64_int_to_str: "in_i64 i \<Longrightarrow> parse_i64 (int_to_str i) = Some i"
  by (cases i rule: int_to_str_cases) (simp_all add: parse_i64_def)

lemma parse_number_int:
  assumes "safe_integer i" "stops rest"
  shows "parse_number (int_to_str i @ rest) = Inr (Integer i, rest)"
proof -
  have "in_i64 i" using assms(1) by (simp add: safe_integer_def in_i64_def MAX_SAFE_INTEGER_def)
  moreover have "is_char_boundary rest"
    using assms(2) by (auto simp: stops_def is_char_boundary_def is_cont_def ends_number_def is_whitespace_def split: list.splits)
  ultimately show ?thesis
    unfolding parse_number_def Let_def takeWhile_stops [OF int_to_str_token(3) assms(2)]
    using ascii_boundary [OF valid_integer_token_ascii [OF int_to_str_token(1)]]
    by (simp add: int_to_str_token(1,2) parse_i64_int_to_str assms(1))
qed

lemma skip_id: "\<not> is_whitespace b \<Longrightarrow> skip_whitespace (b # bs) = b # bs"
  by (simp add: skip_whitespace_def)

text \<open>What a rendered value starts with: never white space, and its first byte selects its branch.\<close>

definition starts_value :: "byte \<Rightarrow> bool" where
  "starts_value b \<longleftrightarrow> b \<in> {CHR ''{'', CHR ''['', CHR 0x22, CHR ''t'', CHR ''f'', CHR ''n'', CHR ''-''}
     \<or> is_ascii_digit b"

lemma starts_value_not_end: "starts_value b \<Longrightarrow> \<not> is_whitespace b \<and> b \<noteq> CHR '']'' \<and> b \<noteq> CHR ''}''"
  by (auto simp: starts_value_def is_whitespace_def is_ascii_digit_def)

lemma int_to_str_start:
  obtains b bs where "int_to_str i = b # bs" "b = CHR ''-'' \<or> is_ascii_digit b"
proof (cases i rule: int_to_str_cases)
  case (neg n)
  then show thesis using that by blast
next
  case (pos n)
  obtain b bs where b: "nat_to_str n = b # bs" by (metis list.exhaust nat_to_str_not_Nil)
  with nat_to_str_digits [of n] have "all_digits (b # bs)" by (simp only:)
  with b pos that show thesis by simp
qed

lemma render_start: obtains b bs where "render v = b # bs" "starts_value b"
proof (cases v)
  case (Integer i)
  obtain b bs where "int_to_str i = b # bs" "b = CHR ''-'' \<or> is_ascii_digit b"
    by (rule int_to_str_start)
  then show thesis using Integer by (intro that) (auto simp: starts_value_def)
next
  case (Bool b)
  then show thesis using that by (cases b) (auto simp: starts_value_def)
qed (use that in \<open>auto simp: starts_value_def write_json_string_def\<close>)

lemma skip_render [simp]: "skip_whitespace (render v @ rest) = render v @ rest"
proof -
  obtain b bs where "render v = b # bs" "starts_value b" by (rule render_start)
  then show ?thesis using starts_value_not_end by (simp add: skip_id)
qed

definition reads_back :: "(str \<Rightarrow> str) \<Rightarrow> resource_limits \<Rightarrow> nat \<Rightarrow> json \<Rightarrow> bool" where
  "reads_back nfc lim d v \<longleftrightarrow> (\<forall>n rest. n + json_nodes v \<le> max_nodes lim \<longrightarrow> stops rest \<longrightarrow>
     parse_value nfc lim d (render v @ rest) n = Inr (key_ordered v, rest, n + json_nodes v))"

lemma reads_back_whole:
  assumes "reads_back nfc lim d v" "n + json_nodes v \<le> max_nodes lim"
  shows "parse_value nfc lim d (render v) n = Inr (key_ordered v, [], n + json_nodes v)"
proof -
  have "stops []" by (simp add: stops_def)
  with assms have "parse_value nfc lim d (render v @ []) n = Inr (key_ordered v, [], n + json_nodes v)"
    unfolding reads_back_def by blast
  then show ?thesis by simp
qed

lemma parse_array_loop_reads:
  assumes "vs \<noteq> []" "\<And>v. v \<in> set vs \<Longrightarrow> reads_back nfc lim d v"
    "length acc + length vs \<le> max_container_items lim" "n + sum_list (map json_nodes vs) \<le> max_nodes lim"
  shows "parse_array_loop nfc lim d (join_with (CHR '','') (map render vs) @ CHR '']'' # rest) n acc
    = Inr (Array (acc @ map key_ordered vs), rest, n + sum_list (map json_nodes vs))"
  using assms
proof (induction vs arbitrary: acc n)
  case (Cons v vs)
  have v: "parse_value nfc lim d (render v @ r) n = Inr (key_ordered v, r, n + json_nodes v)" if "stops r" for r
    using Cons.prems that by (auto simp: reads_back_def)
  show ?case
  proof (cases "vs = []")
    case True
    then show ?thesis
      using v [of "CHR '']'' # rest"] Cons.prems
      by (simp add: parse_array_loop.simps [of _ _ _ "render v @ _"] stops_def ends_number_def skip_id is_whitespace_def)
  next
    case False
    then obtain w ws where ws: "vs = w # ws" by (cases vs) auto
    let ?tail = "join_with (CHR '','') (map render vs) @ CHR '']'' # rest"
    have whole: "join_with (CHR '','') (map render (v # vs)) @ CHR '']'' # rest = render v @ CHR '','' # ?tail"
      by (simp add: ws)
    obtain t where tail: "?tail = render w @ t" by (cases ws) (auto simp: ws)
    have "parse_array_loop nfc lim d ?tail (n + json_nodes v) (acc @ [key_ordered v])
        = Inr (Array ((acc @ [key_ordered v]) @ map key_ordered vs), rest, n + json_nodes v + sum_list (map json_nodes vs))"
      using Cons.prems False by (intro Cons.IH) auto
    then show ?thesis
      unfolding whole using v [of "CHR '','' # ?tail"] Cons.prems
      by (simp add: parse_array_loop.simps [of _ _ _ "render v @ _"] stops_def ends_number_def skip_id
          is_whitespace_def tail add.assoc)
  qed
qed simp

definition render_entry :: "str \<times> json \<Rightarrow> str" where
  "render_entry e = write_json_string (fst e) @ '':'' @ render (snd e)"

lemma render_entry_start: obtains t where "render_entry e = CHR 0x22 # t"
  by (simp add: render_entry_def write_json_string_def)

lemma parse_object_loop_entry:
  assumes "reads_back nfc lim d v" "valid_utf8 key" "nfc key = key" "key \<notin> set (map fst acc)"
    "length acc < max_container_items lim" "n + json_nodes v \<le> max_nodes lim" "stops rest"
  shows "parse_object_loop nfc lim d (render_entry (key, v) @ rest) n acc =
    (let bs4 = skip_whitespace rest; entries' = acc @ [(key, key_ordered v)] in
     if peek bs4 = Some (CHR ''}'') then Inr (Object entries', tl bs4, n + json_nodes v)
     else if peek bs4 = Some (CHR '','') then
       parse_object_loop nfc lim d (skip_whitespace (tl bs4)) (n + json_nodes v) entries'
     else fails SchemaInvalid)"
proof -
  have key: "parse_string (render_entry (key, v) @ rest) = Inr (key, CHR '':'' # render v @ rest)"
    using parse_write_string [OF assms(2)] by (simp add: render_entry_def)
  have quote: "peek (render_entry (key, v) @ rest) = Some (CHR 0x22)"
    by (simp add: render_entry_def write_json_string_def)
  have val: "parse_value nfc lim d (render v @ rest) n = Inr (key_ordered v, rest, n + json_nodes v)"
    using assms by (simp add: reads_back_def)
  show ?thesis
    using assms(3,4,5)
    by (simp add: parse_object_loop.simps [of _ _ _ "render_entry (key, v) @ rest"] key quote val
        require_nfc_key_def skip_id is_whitespace_def)
qed

lemma parse_object_loop_reads:
  assumes "es \<noteq> []" "\<And>k v. (k, v) \<in> set es \<Longrightarrow> reads_back nfc lim d v \<and> valid_utf8 k \<and> nfc k = k"
    "distinct (map fst (acc @ es))"
    "length acc + length es \<le> max_container_items lim"
    "n + sum_list (map (\<lambda>e. json_nodes (snd e)) es) \<le> max_nodes lim"
  shows "parse_object_loop nfc lim d (join_with (CHR '','') (map render_entry es) @ CHR ''}'' # rest) n acc
    = Inr (Object (acc @ map (\<lambda>e. (fst e, key_ordered (snd e))) es), rest,
        n + sum_list (map (\<lambda>e. json_nodes (snd e)) es))"
  using assms
proof (induction es arbitrary: acc n)
  case (Cons e es)
  obtain k v where e: "e = (k, v)" by (cases e)
  note entry = parse_object_loop_entry [of nfc lim d v k acc n]
  have pre: "reads_back nfc lim d v" "valid_utf8 k" "nfc k = k" "k \<notin> set (map fst acc)"
    "length acc < max_container_items lim" "n + json_nodes v \<le> max_nodes lim"
    using Cons.prems by (auto simp: e)
  show ?case
  proof (cases "es = []")
    case True
    then show ?thesis
      using entry [OF pre, of "CHR ''}'' # rest"]
      by (simp add: e stops_def ends_number_def skip_id is_whitespace_def Let_def)
  next
    case False
    then obtain f fs where fs: "es = f # fs" by (cases es) auto
    let ?tail = "join_with (CHR '','') (map render_entry es) @ CHR ''}'' # rest"
    have whole: "join_with (CHR '','') (map render_entry (e # es)) @ CHR ''}'' # rest
        = render_entry (k, v) @ CHR '','' # ?tail"
      by (simp add: fs e)
    obtain q where "render_entry f = CHR 0x22 # q" by (rule render_entry_start)
    then obtain t where tail: "?tail = CHR 0x22 # t" by (cases fs) (auto simp: fs)
    have "parse_object_loop nfc lim d ?tail (n + json_nodes v) (acc @ [(k, key_ordered v)])
        = Inr (Object ((acc @ [(k, key_ordered v)]) @ map (\<lambda>e. (fst e, key_ordered (snd e))) es), rest,
            n + json_nodes v + sum_list (map (\<lambda>e. json_nodes (snd e)) es))"
      using Cons.prems False by (intro Cons.IH) (auto simp: e)
    then show ?thesis
      unfolding whole using entry [OF pre, of "CHR '','' # ?tail"]
      by (simp add: e stops_def ends_number_def skip_id is_whitespace_def Let_def tail add.assoc)
  qed
qed simp

lemma consume_node_ok: "limits_usize lim \<Longrightarrow> n < max_nodes lim \<Longrightarrow> consume_node n (max_nodes lim) = Inr (Suc n)"
  by (simp add: consume_node_def checked_add_def limits_usize_def)

lemma child_depth_ok: "limits_usize lim \<Longrightarrow> Suc d \<le> max_nesting_depth lim \<Longrightarrow>
  checked_child_depth d (max_nesting_depth lim) = Inr (Suc d)"
  by (simp add: checked_child_depth_def checked_add_def limits_usize_def)

lemma render_Object_entries:
  "render (Object es) = CHR ''{'' # join_with (CHR '','') (map render_entry (sort_entries es)) @ ''}''"
  by (simp add: render_entry_def [abs_def])

lemma sort_entries_eq_Nil [simp]: "sort_entries es = [] \<longleftrightarrow> es = []"
  by (metis length_0_conv length_sort_entries)

lemma reads_back_array:
  assumes lim: "limits_usize lim" and fits: "json_fits nfc lim d (Array vs)"
    and IH: "\<And>v. v \<in> set vs \<Longrightarrow> reads_back nfc lim (Suc d) v"
  shows "reads_back nfc lim d (Array vs)"
  unfolding reads_back_def
proof (intro allI impI)
  fix n rest assume n: "n + json_nodes (Array vs) \<le> max_nodes lim"
  have start: "parse_value nfc lim d (CHR ''['' # t) n = parse_array nfc lim (Suc d) (CHR ''['' # t) (Suc n)" for t
    using lim fits n
    by (simp add: parse_value.simps skip_id is_whitespace_def consume_node_ok child_depth_ok)
  show "parse_value nfc lim d (render (Array vs) @ rest) n = Inr (key_ordered (Array vs), rest, n + json_nodes (Array vs))"
  proof (cases "vs = []")
    case True
    then show ?thesis by (simp add: start parse_array.simps skip_id is_whitespace_def)
  next
    case False
    then obtain w ws where ws: "vs = w # ws" by (cases vs) auto
    let ?body = "join_with (CHR '','') (map render vs) @ CHR '']'' # rest"
    obtain b bs where "render w = b # bs" and b: "starts_value b" by (rule render_start)
    then obtain t where t: "?body = b # t" by (cases ws) (auto simp: ws)
    have "parse_array nfc lim (Suc d) (CHR ''['' # ?body) (Suc n) = parse_array_loop nfc lim (Suc d) ?body (Suc n) []"
      using starts_value_not_end [OF b] by (simp add: parse_array.simps t skip_id)
    also have "\<dots> = Inr (Array ([] @ map key_ordered vs), rest, Suc n + sum_list (map json_nodes vs))"
      using False IH fits n by (intro parse_array_loop_reads) auto
    finally show ?thesis by (simp add: start)
  qed
qed

lemma reads_back_object:
  assumes lim: "limits_usize lim" and fits: "json_fits nfc lim d (Object es)" and utf8: "json_utf8 (Object es)"
    and IH: "\<And>k v. (k, v) \<in> set es \<Longrightarrow> reads_back nfc lim (Suc d) v"
  shows "reads_back nfc lim d (Object es)"
  unfolding reads_back_def
proof (intro allI impI)
  fix n rest assume n: "n + json_nodes (Object es) \<le> max_nodes lim"
  have start: "parse_value nfc lim d (CHR ''{'' # t) n = parse_object nfc lim (Suc d) (CHR ''{'' # t) (Suc n)" for t
    using lim fits n
    by (simp add: parse_value.simps skip_id is_whitespace_def consume_node_ok child_depth_ok)
  show "parse_value nfc lim d (render (Object es) @ rest) n = Inr (key_ordered (Object es), rest, n + json_nodes (Object es))"
  proof (cases "sort_entries es")
    case Nil
    then have "es = []" by simp
    then show ?thesis by (simp add: start parse_object.simps skip_id is_whitespace_def sort_entries_def)
  next
    case (Cons e fs)
    let ?body = "join_with (CHR '','') (map render_entry (sort_entries es)) @ CHR ''}'' # rest"
    obtain q where "render_entry e = CHR 0x22 # q" by (rule render_entry_start)
    then obtain t where t: "?body = CHR 0x22 # t" by (cases fs) (auto simp: Cons)
    have "parse_object nfc lim (Suc d) (CHR ''{'' # ?body) (Suc n)
        = parse_object_loop nfc lim (Suc d) ?body (Suc n) []"
      by (simp add: parse_object.simps t skip_id is_whitespace_def)
    also have "\<dots> = Inr (Object ([] @ map (\<lambda>e. (fst e, key_ordered (snd e))) (sort_entries es)), rest,
        Suc n + sum_list (map (\<lambda>e. json_nodes (snd e)) (sort_entries es)))"
    proof (rule parse_object_loop_reads)
      show "sort_entries es \<noteq> []" using Cons by simp
      show "reads_back nfc lim (Suc d) v \<and> valid_utf8 k \<and> nfc k = k" if "(k, v) \<in> set (sort_entries es)" for k v
        using that IH fits utf8 by fastforce
    qed (use fits n in \<open>simp_all add: distinct_sort_entries\<close>)
    finally show ?thesis by (simp add: render_Object_entries start sort_entries_map del: render.simps)
  qed
qed

lemma render_reads_back:
  "limits_usize lim \<Longrightarrow> json_fits nfc lim d v \<Longrightarrow> json_utf8 v \<Longrightarrow> reads_back nfc lim d v"
proof (induction v arbitrary: d rule: json_induct)
  case (Integer i)
  obtain b bs where b: "int_to_str i = b # bs" "b = CHR ''-'' \<or> is_ascii_digit b"
    by (rule int_to_str_start)
  then have ws: "\<not> is_whitespace b"
    "b \<notin> {CHR ''{'', CHR ''['', CHR 0x22, CHR ''t'', CHR ''f'', CHR ''n''}"
    by (auto simp: is_whitespace_def is_ascii_digit_def)
  have "parse_number (b # bs @ rest) = Inr (Integer i, rest)" if "stops rest" for rest
    using parse_number_int [of i rest] Integer.prems that b by simp
  then show ?case
    using ws b Integer.prems
    by (auto simp: reads_back_def parse_value.simps skip_id consume_node_ok)
next
  case (String s)
  have "parse_string (write_json_string s @ rest) = Inr (s, rest)" for rest
    using String.prems by (simp add: parse_write_string)
  then show ?case
    using String.prems
    by (auto simp: reads_back_def parse_value.simps write_json_string_def skip_id is_whitespace_def consume_node_ok)
next
  case (Array vs)
  then show ?case by (intro reads_back_array) auto
next
  case (Object es)
  show ?case
  proof (rule reads_back_object)
    show "reads_back nfc lim (Suc d) v" if "(k, v) \<in> set es" for k v
      using Object that by fastforce
  qed (use Object.prems in auto)
qed (auto simp: reads_back_def parse_value.simps skip_id is_whitespace_def consume_node_ok
    parse_keyword_def starts_with_def)

section \<open>Canonical text is valid UTF-8\<close>

lemma valid_utf8_append: "valid_utf8 a \<Longrightarrow> valid_utf8 b \<Longrightarrow> valid_utf8 (a @ b)"
  by (simp add: valid_utf8_prefix)

lemma valid_utf8_ascii: "list_all is_ascii a \<Longrightarrow> valid_utf8 a"
  using valid_utf8_ascii_append [of a "[]"] by simp

lemma hex4_ascii: "list_all is_ascii (hex4 n)"
  using hex_value_digit is_ascii_hexdigit_ascii by (simp add: hex4_def)

lemma write_char_valid: "is_scalar c \<Longrightarrow> valid_utf8 (write_char c)"
proof (cases "c \<le> 0x1F \<or> c = 0x22 \<or> c = 0x5C")
  case True
  then have "list_all is_ascii (write_char c)"
    using hex4_ascii [of c] by (auto simp: write_char_def is_ascii_def)
  then show ?thesis by (rule valid_utf8_ascii)
next
  case False
  assume "is_scalar c"
  with False show ?thesis using valid_utf8_encode [of c "[]"] by (auto simp: write_char_def)
qed

lemma write_json_string_valid: "valid_utf8 s \<Longrightarrow> valid_utf8 (write_json_string s)"
proof -
  have "valid_utf8 (concat (map write_char cs))" if "list_all is_scalar cs" for cs
    using that by (induction cs) (auto intro: valid_utf8_append write_char_valid)
  then show "valid_utf8 s \<Longrightarrow> ?thesis"
    by (auto simp: write_json_string_def intro!: valid_utf8_append dest: chars_scalar)
qed

lemma join_valid: "(\<And>p. p \<in> set ps \<Longrightarrow> valid_utf8 p) \<Longrightarrow> valid_utf8 (join_with (CHR '','') ps)"
  by (induction "CHR '',''" ps rule: join_with.induct) (auto intro!: valid_utf8_append)

lemma int_to_str_ascii: "list_all is_ascii (int_to_str i)"
  using valid_integer_token_ascii int_to_str_token(1) by blast

lemma render_valid: "json_utf8 v \<Longrightarrow> valid_utf8 (render v)"
proof (induction v rule: json_induct)
  case (Integer i)
  then show ?case by (simp add: valid_utf8_ascii int_to_str_ascii)
next
  case (Array vs)
  then have "valid_utf8 (join_with (CHR '','') (map render vs))" by (intro join_valid) auto
  then show ?case by (auto intro!: valid_utf8_append)
next
  case (Object es)
  have "valid_utf8 (join_with (CHR '','') (map render_entry (sort_entries es)))"
    using Object by (intro join_valid) (force simp: render_entry_def intro!: valid_utf8_append write_json_string_valid)
  then show ?case
    unfolding render_Object_entries by (auto intro!: valid_utf8_append)
qed (auto simp: write_json_string_valid valid_utf8_ascii is_ascii_def)

section \<open>The round trip\<close>

lemma parse_render:
  assumes lim: "limits_usize lim" "max_nesting_depth lim \<le> HARD_MAX_NESTING_DEPTH"
    and v: "json_fits nfc lim 0 v" "json_utf8 v" "json_nodes v \<le> max_nodes lim"
    and len: "length (render v) \<le> max_input_bytes lim"
  shows "parse_strict_with_limits nfc lim (render v) = Inr (key_ordered v)"
proof -
  obtain b bs where b: "render v = b # bs" "starts_value b" by (rule render_start)
  then have "byte_val b < 0x80" by (auto simp: starts_value_def is_ascii_digit_def)
  moreover have "utf8_encode 0xFEFF = BOM"
    by (simp add: utf8_encode_def BOM_def byte_val_inject [symmetric])
  ultimately have bom: "\<not> starts_with (render v) BOM" "\<not> starts_with (render v) (utf8_encode 0xFEFF)"
    by (auto simp: b starts_with_def BOM_def)
  have "parse_value nfc lim 0 (render v) 0 = Inr (key_ordered v, [], json_nodes v)"
    using reads_back_whole [OF render_reads_back [OF lim(1) v(1,2)], of 0] v(3) by simp
  then have "parse_text nfc lim (render v) = Inr (key_ordered v)"
    using skip_render [of v "[]"] by (simp add: parse_text_def skip_whitespace_def)
  then show ?thesis
    using lim(2) len bom render_valid [OF v(2)] by (simp add: parse_strict_with_limits_def validate_limits_def)
qed

lemma render_inject:
  assumes "json_utf8 v" "json_utf8 w" "limits_usize lim" "json_fits nfc lim 0 v" "json_fits nfc lim 0 w"
    "json_nodes v \<le> max_nodes lim" "json_nodes w \<le> max_nodes lim"
  shows "render v = render w \<longleftrightarrow> key_ordered v = key_ordered w"
proof
  assume eq: "render v = render w"
  have "parse_value nfc lim 0 (render u) 0 = Inr (key_ordered u, [], json_nodes u)"
    if "json_utf8 u" "json_fits nfc lim 0 u" "json_nodes u \<le> max_nodes lim" for u
    using reads_back_whole [OF render_reads_back [OF assms(3) that(2,1)], of 0] that(3) by simp
  from this [of v] this [of w] show "key_ordered v = key_ordered w" using assms eq by simp
qed (metis render_key_ordered)

section \<open>Structured object identifiers\<close>

section \<open>Properties\<close>

text \<open>
  C7: canonical text reads back. What \<open>canonical_json_with_limits\<close> prints for a value (all of whose strings are valid
  UTF-8, as Rust's type guarantees), the strict parser accepts under the same limits and returns that value with
  the keys of every object in canonical order, unless the text is longer than \<open>max_input_bytes\<close>: then, and only
  then, it is refused, with \<open>resource_limit\<close>.
\<close>

theorem canonical_round_trip:
  assumes "limits_usize lim" "json_utf8 v" and "canonical_json_with_limits nfc lim v = Inr out"
  shows "parse_strict_with_limits nfc lim out =
    (if length out \<le> max_input_bytes lim then Inr (key_ordered v) else fails ResourceLimit)"
proof (cases "length out \<le> max_input_bytes lim")
  case True
  with assms parse_render show ?thesis by (auto simp: canonical_json_iff)
next
  case False
  have "validate_limits lim = Inr ()" using assms by (simp add: canonical_json_iff validate_limits_def)
  with False show ?thesis by (simp add: parse_strict_with_limits_def)
qed

theorem canonical_round_trip_witness:
  "parse_strict_with_limits (\<lambda>s. s) default_limits
     (CHR ''{'' # write_json_string ''a'' @ '':null,'' @ write_json_string ''b'' @ '':-1}'')
   = Inr (key_ordered (Object [(''b'', Integer (- 1)), (''a'', Null)]))
   \<and> parse_strict_with_limits (\<lambda>s. s) (default_limits\<lparr> max_input_bytes := 4 \<rparr>) ''[1,2]'' = fails ResourceLimit"
proof
  let ?v = "Object [(''b'', Integer (- 1)), (''a'', Null)]"
  let ?out = "CHR ''{'' # write_json_string ''a'' @ '':null,'' @ write_json_string ''b'' @ '':-1}''"
  have "limits_usize default_limits" "json_utf8 ?v" "canonical_json_with_limits (\<lambda>s. s) default_limits ?v = Inr ?out"
    "length ?out \<le> max_input_bytes default_limits" by code_simp+
  from canonical_round_trip [OF this(1-3)] this(4)
  show "parse_strict_with_limits (\<lambda>s. s) default_limits ?out = Inr (key_ordered ?v)" by simp
next
  let ?lim = "default_limits\<lparr> max_input_bytes := 4 \<rparr>"
  have "limits_usize ?lim" "json_utf8 (Array [Integer 1, Integer 2])"
    "canonical_json_with_limits (\<lambda>s. s) ?lim (Array [Integer 1, Integer 2]) = Inr ''[1,2]''" by code_simp+
  from canonical_round_trip [OF this] show "parse_strict_with_limits (\<lambda>s. s) ?lim ''[1,2]'' = fails ResourceLimit" by simp
qed

text \<open>
  C18: the canonical domain and its exact output. \<open>canonical_json_with_limits\<close> succeeds exactly on
  the values with safe integers, distinct NFC keys and depth, items, nodes and bytes within the
  limits; the text is the sorted rendering, so the size computed up front is its exact length
  (the \<open>debug_assert_eq!\<close> never fires).
\<close>

theorem canonical_json_exact:
  assumes "limits_usize lim"
  shows "(canonical_json_with_limits nfc lim v = Inr out \<longleftrightarrow>
      max_nesting_depth lim \<le> HARD_MAX_NESTING_DEPTH \<and> json_fits nfc lim 0 v \<and> json_nodes v \<le> max_nodes lim
      \<and> length (render v) \<le> max_canonical_bytes lim \<and> out = render v)
    \<and> canonical_json_with_limits nfc lim v \<noteq> panics"
  using canonical_json_iff [OF assms] canonical_json_no_panic [OF assms] by blast

theorem canonical_json_exact_witness:
  "canonical_json_with_limits (\<lambda>s. s) default_limits (Array [Integer 7, Bool True]) = Inr ''[7,true]''"
  by (rule canonical_json_exact [THEN conjunct1, THEN iffD2]) code_simp+

text \<open>
  C16: the strict parser never panics, on any byte string and any limits, and every value it
  returns is in the canonical domain: valid UTF-8, safe integers, distinct NFC keys, nesting,
  items and nodes within the limits.
\<close>

theorem parse_strict_sound:
  "parse_strict_with_limits nfc lim input \<noteq> panics \<and>
   (\<forall>v. parse_strict_with_limits nfc lim input = Inr v \<longrightarrow>
      json_fits nfc lim 0 v \<and> json_utf8 v \<and> json_nodes v \<le> max_nodes lim
      \<and> max_nesting_depth lim \<le> HARD_MAX_NESTING_DEPTH)"
proof (intro conjI allI impI)
  show "parse_strict_with_limits nfc lim input \<noteq> panics"
    by (rule safely_no_panic [OF parse_strict_safe])
qed (use safely_value [OF parse_strict_safe] in auto)

theorem parse_strict_sound_witness:
  "parse_strict_with_limits (\<lambda>s. s) default_limits '' [ 1 ] '' = Inr (Array [Integer 1])
   \<and> json_fits (\<lambda>s. s) default_limits 0 (Array [Integer 1])"
proof -
  have "parse_strict_with_limits (\<lambda>s. s) default_limits '' [ 1 ] '' = Inr (Array [Integer 1])" by code_simp
  with parse_strict_sound [of "\<lambda>s. s" default_limits "'' [ 1 ] ''"] show ?thesis by blast
qed

text \<open>
  C19: canonical bytes identify a value. Two values that both have canonical text have the same
  text exactly when they agree up to the order of object keys.
\<close>

theorem canonical_bytes_identify:
  assumes "limits_usize lim" "json_utf8 v" "json_utf8 w"
    and "canonical_json_with_limits nfc lim v = Inr a" "canonical_json_with_limits nfc lim w = Inr b"
  shows "a = b \<longleftrightarrow> key_ordered v = key_ordered w"
  using assms render_inject by (auto simp: canonical_json_iff)

theorem canonical_bytes_identify_witness:
  "key_ordered (Object [(''b'', Null), (''a'', Null)]) = key_ordered (Object [(''a'', Null), (''b'', Null)])"
proof -
  let ?v = "Object [(''b'', Null), (''a'', Null)]" and ?w = "Object [(''a'', Null), (''b'', Null)]"
  have "canonical_json_with_limits (\<lambda>s. s) default_limits ?v = Inr (render ?w)"
    "canonical_json_with_limits (\<lambda>s. s) default_limits ?w = Inr (render ?w)"
    "limits_usize default_limits" "json_utf8 ?v" "json_utf8 ?w" by code_simp+
  from canonical_bytes_identify [OF this(3,4,5,1,2)] show ?thesis by simp
qed

text \<open>
  Canonical text is a fixed point. Re-reading canonical text and printing the result gives the
  same bytes, whatever spelling the value was first read from.
\<close>

theorem canonical_fixed_point:
  assumes "limits_usize lim" "max_canonical_bytes lim \<le> max_input_bytes lim"
    and "parse_strict_with_limits nfc lim input = Inr v" "canonical_json_with_limits nfc lim v = Inr out"
  shows "\<exists>w. parse_strict_with_limits nfc lim out = Inr w \<and> canonical_json_with_limits nfc lim w = Inr out"
proof -
  have v: "json_fits nfc lim 0 v \<and> json_utf8 v \<and> json_nodes v \<le> max_nodes lim
      \<and> max_nesting_depth lim \<le> HARD_MAX_NESTING_DEPTH"
    using safely_value [OF parse_strict_safe assms(3)] .
  have out: "out = render v" "length (render v) \<le> max_canonical_bytes lim"
    using assms(4) by (simp_all add: canonical_json_iff [OF assms(1)])
  have "parse_strict_with_limits nfc lim out = Inr (key_ordered v)"
    using v out assms(1,2) by (simp add: parse_render)
  moreover have "canonical_json_with_limits nfc lim (key_ordered v) = Inr out"
    using v out by (simp add: canonical_json_iff [OF assms(1)])
  ultimately show ?thesis by blast
qed

theorem canonical_fixed_point_witness:
  "\<exists>w. parse_strict_with_limits (\<lambda>s. s) default_limits ''[1,2]'' = Inr w
     \<and> canonical_json_with_limits (\<lambda>s. s) default_limits w = Inr ''[1,2]''"
proof (rule canonical_fixed_point)
  show "parse_strict_with_limits (\<lambda>s. s) default_limits ''[ 1, 2 ]'' = Inr (Array [Integer 1, Integer 2])"
    by code_simp
qed code_simp+



end
