(* ===== verification/File_Tree.thy ===== *)
theory File_Tree
  imports Prelude
begin

text \<open>
  The part of \<open>std::fs\<close> that the object store uses, and actions that thread a state.

  A directory tree is a list of (path, node) pairs; a path is the list of its components below
  the store root, which itself is the empty path and always a directory. An operation fails
  exactly where the tree determines a failure (a missing name, a name that is taken, a
  component that is no directory); failures of the device are not modelled, and no path goes
  through a symbolic link. The order of \<open>read_dir\<close> is the order of the list, which nothing in
  the store relies on.
\<close>

section \<open>Actions\<close>

type_synonym ('s, 'e, 'a) action = "'s \<Rightarrow> ('e + 'a) \<times> 's"

definition bindA :: "('s, 'e, 'a) action \<Rightarrow> ('a \<Rightarrow> ('s, 'e, 'b) action) \<Rightarrow> ('s, 'e, 'b) action" where
  "bindA m f = (\<lambda>s. case m s of (Inl e, t) \<Rightarrow> (Inl e, t) | (Inr x, t) \<Rightarrow> f x t)"

definition resultA :: "'e + 'a \<Rightarrow> ('s, 'e, 'a) action" where
  "resultA r = (\<lambda>s. (r, s))"

definition readA :: "('s \<Rightarrow> 'e + 'a) \<Rightarrow> ('s, 'e, 'a) action" where
  "readA f = (\<lambda>s. (f s, s))"

lemma bindA_Inl: "m s = (Inl e, t) \<Longrightarrow> bindA m f s = (Inl e, t)"
  by (simp add: bindA_def)

lemma bindA_Inr: "m s = (Inr x, t) \<Longrightarrow> bindA m f s = f x t"
  by (simp add: bindA_def)

lemma resultA_apply [simp]: "resultA r s = (r, s)"
  by (simp add: resultA_def)

lemma readA_apply [simp]: "readA f s = (f s, s)"
  by (simp add: readA_def)

lemma bindA_resultA [simp]:
  "bindA (resultA (Inr x)) f = f x" "bindA (resultA (Inl e)) f = resultA (Inl e)"
  by (auto simp: bindA_def)

lemma bindA_readA: "bindA (readA g) f s = (case g s of Inl e \<Rightarrow> (Inl e, s) | Inr x \<Rightarrow> f x s)"
  by (auto simp: bindA_def split: sum.splits)

text \<open>
  A relation between the states before and after an action, whatever its result; a reflexive
  and transitive one passes through sequential composition.
\<close>

definition moves :: "('s \<Rightarrow> 's \<Rightarrow> bool) \<Rightarrow> ('s, 'e, 'a) action \<Rightarrow> bool" where
  "moves R m \<longleftrightarrow> (\<forall>s. R s (snd (m s)))"

lemma movesD: "moves R m \<Longrightarrow> m s = (r, t) \<Longrightarrow> R s t"
  by (metis moves_def snd_conv)

lemma moves_resultA: "reflp R \<Longrightarrow> moves R (resultA r)"
  by (simp add: moves_def reflp_def)

lemma moves_readA: "reflp R \<Longrightarrow> moves R (readA f)"
  by (simp add: moves_def reflp_def)

lemma moves_bindA: "transp R \<Longrightarrow> moves R m \<Longrightarrow> (\<And>x. moves R (f x)) \<Longrightarrow> moves R (bindA m f)"
  unfolding moves_def bindA_def by (auto split: prod.splits sum.splits) (metis snd_conv transpE)+

section \<open>The directory tree\<close>

datatype fs_node = File bytes | Dir | Symlink

type_synonym path = "str list"
type_synonym tree = "(path \<times> fs_node) list"

datatype io_error = NotFound | AlreadyExists | NotADirectory

definition fs_ancestors :: "path \<Rightarrow> path list" where
  "fs_ancestors p = map (\<lambda>n. take n p) [1..<length p]"

definition fs_parents :: "tree \<Rightarrow> path \<Rightarrow> io_error + unit" where
  "fs_parents t p =
     (case find (\<lambda>q. map_of t q \<noteq> Some Dir) (fs_ancestors p) of
        None \<Rightarrow> Inr ()
      | Some q \<Rightarrow> Inl (if map_of t q = None then NotFound else NotADirectory))"

definition symlink_metadata :: "tree \<Rightarrow> path \<Rightarrow> io_error + fs_node" where
  "symlink_metadata t p = bindE (fs_parents t p) (\<lambda>_. ok_or NotFound (map_of t p))"

text \<open>\<open>create_new\<close>, \<open>create_dir\<close> and \<open>hard_link\<close> add a name and never replace one.\<close>

definition fs_add :: "tree \<Rightarrow> path \<Rightarrow> fs_node \<Rightarrow> io_error + tree" where
  "fs_add t p n =
     bindE (fs_parents t p) (\<lambda>_.
     if map_of t p \<noteq> None then Inl AlreadyExists else Inr ((p, n) # t))"

definition fs_write :: "tree \<Rightarrow> path \<Rightarrow> bytes \<Rightarrow> tree" where
  "fs_write t p bs = map (\<lambda>(q, n). (q, if q = p then File bs else n)) t"

definition remove_file :: "tree \<Rightarrow> path \<Rightarrow> tree" where
  "remove_file t p = filter (\<lambda>(q, _). q \<noteq> p) t"

definition open_file :: "tree \<Rightarrow> path \<Rightarrow> bytes option" where
  "open_file t p = (case symlink_metadata t p of Inr (File bs) \<Rightarrow> Some bs | _ \<Rightarrow> None)"

definition under :: "path \<Rightarrow> path \<Rightarrow> bool" where
  "under p q \<longleftrightarrow> take (length p) q = p"

text \<open>\<open>rename\<close> moves a node with everything below it; a file at the target name is replaced.\<close>

definition fs_rename :: "tree \<Rightarrow> path \<Rightarrow> path \<Rightarrow> io_error + tree" where
  "fs_rename t src dst =
     bindE (symlink_metadata t src) (\<lambda>_.
     bindE (fs_parents t dst) (\<lambda>_.
     Inr (map (\<lambda>(q, n). (if under src q then dst @ drop (length src) q else q, n)) (remove_file t dst))))"

definition read_dir :: "tree \<Rightarrow> path \<Rightarrow> io_error + (str \<times> fs_node) list" where
  "read_dir t p =
     (let entries = map (\<lambda>(q, n). (last q, n)) (filter (\<lambda>(q, _). q \<noteq> [] \<and> butlast q = p) t)
      in if p = [] then Inr entries
         else bindE (symlink_metadata t p) (\<lambda>n.
              if n = Dir then Inr entries else Inl NotADirectory))"

text \<open>Every name stands once, is not the root, and hangs below real directories.\<close>

definition tree_ok :: "tree \<Rightarrow> bool" where
  "tree_ok t \<longleftrightarrow> distinct (map fst t) \<and> (\<forall>(p, _)\<in>set t. p \<noteq> [] \<and> fs_parents t p = Inr ())"

lemma fs_parents_ok: "fs_parents t p = Inr () \<longleftrightarrow> (\<forall>q\<in>set (fs_ancestors p). map_of t q = Some Dir)"
  by (auto simp: fs_parents_def find_None_iff find_Some_iff split: option.splits)

lemma fs_parents_cases:
  "fs_parents t p = Inl e \<Longrightarrow> e = NotFound \<or> e = NotADirectory"
  by (auto simp: fs_parents_def split: option.splits if_splits)

lemma fs_parents_NotFound:
  assumes "tree_ok t" "fs_parents t p = Inl NotFound"
  shows "map_of t p = None"
proof (rule ccontr)
  assume "map_of t p \<noteq> None"
  then obtain n where "(p, n) \<in> set t" by (auto dest: map_of_SomeD)
  with assms show False by (force simp: tree_ok_def)
qed

lemma symlink_metadata_ok:
  "symlink_metadata t p = Inr n \<longleftrightarrow> fs_parents t p = Inr () \<and> map_of t p = Some n"
  by (auto simp: symlink_metadata_def result_simps)

lemma tree_ok_metadata:
  assumes "tree_ok t"
  shows "symlink_metadata t p = Inr n \<longleftrightarrow> map_of t p = Some n"
  using assms by (auto simp: symlink_metadata_ok tree_ok_def dest!: map_of_SomeD)

lemma open_file_ok: "open_file t p = Some bs \<longleftrightarrow> symlink_metadata t p = Inr (File bs)"
  by (auto simp: open_file_def split: sum.splits fs_node.splits)

lemma fs_add_ok:
  "fs_add t p n = Inr u \<longleftrightarrow> fs_parents t p = Inr () \<and> map_of t p = None \<and> u = (p, n) # t"
  by (auto simp: fs_add_def result_simps split: if_splits)

lemma map_of_remove_file: "map_of (remove_file t p) q = (if q = p then None else map_of t q)"
  by (induction t) (auto simp: remove_file_def)

lemma map_of_fs_write:
  "map_of (fs_write t p bs) q = (if q = p \<and> map_of t p \<noteq> None then Some (File bs) else map_of t q)"
  by (induction t) (auto simp: fs_write_def)

lemma fs_ancestors_length: "q \<in> set (fs_ancestors p) \<Longrightarrow> length q < length p \<and> q \<noteq> []"
  by (auto simp: fs_ancestors_def)

lemma read_dir_ok:
  assumes "tree_ok t" "map_of t p = Some Dir"
  shows "\<exists>es. read_dir t p = Inr es \<and> (\<forall>x n. (x, n) \<in> set es \<longleftrightarrow> map_of t (p @ [x]) = Some n) \<and> distinct (map fst es)"
proof -
  have d: "distinct (map fst t)" and ne: "\<And>q n. (q, n) \<in> set t \<Longrightarrow> q \<noteq> []"
    using assms(1) by (auto simp: tree_ok_def)
  let ?es = "map (\<lambda>(q, n). (last q, n)) (filter (\<lambda>(q, _). q \<noteq> [] \<and> butlast q = p) t)"
  have "read_dir t p = Inr ?es"
    using assms tree_ok_metadata [of t p Dir] by (auto simp: read_dir_def Let_def)
  moreover have "(x, n) \<in> set ?es \<longleftrightarrow> map_of t (p @ [x]) = Some n" for x n
  proof -
    have "(x, n) \<in> set ?es \<longleftrightarrow> (p @ [x], n) \<in> set t"
      by (force simp: image_iff dest: append_butlast_last_id)
    then show ?thesis using d by simp
  qed
  moreover have "distinct (map fst ?es)"
  proof -
    have "inj_on (last \<circ> fst) (set (filter (\<lambda>(q, _). q \<noteq> [] \<and> butlast q = p) t))"
    proof (rule inj_onI, clarify)
      fix q m r n
      assume q: "(q, m) \<in> set (filter (\<lambda>(q, _). q \<noteq> [] \<and> butlast q = p) t)"
        and r: "(r, n) \<in> set (filter (\<lambda>(q, _). q \<noteq> [] \<and> butlast q = p) t)"
        and eq: "(last \<circ> fst) (q, m) = (last \<circ> fst) (r, n)"
      from q r eq have "q = r" by simp (metis append_butlast_last_id)
      moreover from this q r d have "m = n" by (auto dest: eq_key_imp_eq_value)
      ultimately show "q = r \<and> m = n" by simp
    qed
    moreover have "map fst ?es = map (last \<circ> fst) (filter (\<lambda>(q, _). q \<noteq> [] \<and> butlast q = p) t)"
      by (simp add: case_prod_beta)
    moreover have "distinct (filter (\<lambda>(q, _). q \<noteq> [] \<and> butlast q = p) t)"
      using d by (simp add: distinct_map)
    ultimately show ?thesis by (simp only: distinct_map simp_thms)
  qed
  ultimately show ?thesis by blast
qed

text \<open>Adding a name keeps every node; removing or rewriting a file keeps the nodes elsewhere.\<close>

lemma metadata_fs_add:
  assumes "fs_add t p n = Inr u" "symlink_metadata t q = Inr m"
  shows "symlink_metadata u q = Inr m"
  using assms by (auto simp: fs_add_ok symlink_metadata_ok fs_parents_ok)

lemma metadata_fs_add_new: "fs_add t p n = Inr u \<Longrightarrow> symlink_metadata u p = Inr n"
  by (auto simp: fs_add_ok symlink_metadata_ok fs_parents_ok)

lemma metadata_remove_file:
  assumes "symlink_metadata t q = Inr m" "q \<noteq> p" "p \<notin> set (fs_ancestors q)"
  shows "symlink_metadata (remove_file t p) q = Inr m"
  using assms by (auto simp: symlink_metadata_ok fs_parents_ok map_of_remove_file)

lemma metadata_fs_write:
  assumes "symlink_metadata t q = Inr m" "q \<noteq> p" "p \<notin> set (fs_ancestors q)"
  shows "symlink_metadata (fs_write t p bs) q = Inr m"
  using assms by (auto simp: symlink_metadata_ok fs_parents_ok map_of_fs_write)

lemma metadata_fs_write_same:
  assumes "symlink_metadata t p = Inr m"
  shows "symlink_metadata (fs_write t p bs) p = Inr (File bs)"
proof -
  have "p \<notin> set (fs_ancestors p)" using fs_ancestors_length [of p p] by auto
  then have "map_of (fs_write t p bs) q = map_of t q" if "q \<in> set (fs_ancestors p)" for q
    using that by (auto simp: map_of_fs_write)
  with assms show ?thesis by (auto simp: symlink_metadata_ok fs_parents_ok map_of_fs_write)
qed

lemma map_of_moved:
  assumes "\<And>k. under src k \<Longrightarrow> key k \<noteq> q" "\<not> under src q" "q \<noteq> dst"
  shows "map_of (map (\<lambda>(k, n). (if under src k then key k else k, n)) (remove_file t dst)) q = map_of t q"
  using assms by (induction t) (auto simp: remove_file_def, metis)

lemma metadata_fs_rename:
  assumes "fs_rename t src dst = Inr u" "symlink_metadata t q = Inr m"
    and "\<not> under src q" "length q \<le> length src" "dst \<noteq> []" "hd q \<noteq> hd dst" "q \<noteq> []"
  shows "symlink_metadata u q = Inr m"
proof -
  have eq: "map_of u r = map_of t r" if "\<not> under src r" "r \<noteq> []" "hd r = hd q" for r
  proof -
    have "u = map (\<lambda>(k, n). (if under src k then dst @ drop (length src) k else k, n)) (remove_file t dst)"
      using assms(1) by (auto simp: fs_rename_def result_simps)
    then show ?thesis using that assms(5,6) by (auto intro!: map_of_moved)
  qed
  have "\<not> under src r \<and> r \<noteq> [] \<and> hd r = hd q" if "r \<in> set (fs_ancestors q)" for r
    using that assms(4) hd_take [of _ q] by (auto simp: fs_ancestors_def under_def)
  with eq assms show ?thesis by (auto simp: symlink_metadata_ok fs_parents_ok)
qed

end
