(* ===== verification/Object_Store.thy ===== *)
theory Object_Store
  imports Canonical_Parser File_Tree
begin

text \<open>
  The content-addressed object store, \<^verbatim>\<open>src/crates/synapse-cas/src/store.rs\<close>.

  \<^item> \<open>FileObjectStore\<close> is the record \<^verbatim>\<open>file_store\<close>: the directory tree below the store root,
    the limits, the counter of temporary names and the read-only flag. SHA-256 and NFC
    normalization are the arguments \<open>sha256\<close> and \<open>nfc\<close>.
  \<^item> Every method is an action on that state; it returns its \<open>Result\<close> and the new tree, on every
    path, errors included. The \<open>Drop\<close> of a \<open>StagedFile\<close> is \<open>drop_staged\<close>.
  \<^item> An \<open>impl Read\<close> is the list of what its \<open>read\<close> calls return, \<^const>\<open>None\<close> for a read error.
  \<^item> \<open>StoreError\<close> keeps its constructors and drops the diagnostic text.

  The specification side is \<open>intact\<close>: the regular file at the path of an OID holds bytes that
  verify under it. Reads return exactly the intact objects, writes make one more object intact,
  and no operation ever takes one away.
\<close>

section \<open>Data\<close>

record store_limits =
  structured_limits :: resource_limits
  max_blob_bytes :: nat
  io_buffer_bytes :: nat

definition default_store_limits :: store_limits where
  "default_store_limits = \<lparr> structured_limits = default_limits, max_blob_bytes = 536870912,
     io_buffer_bytes = 65536 \<rparr>"

datatype store_error =
    ReadOnlyStore
  | Core core_error
  | Io
  | CorruptObject str
  | InvalidStoreLayout

primrec store_error_code :: "store_error \<Rightarrow> error_code option" where
  "store_error_code ReadOnlyStore = None"
| "store_error_code (Core e) = Some e"
| "store_error_code (CorruptObject oid) = Some OidMismatch"
| "store_error_code InvalidStoreLayout = Some SchemaInvalid"
| "store_error_code Io = None"

primrec corrupt_oid :: "store_error \<Rightarrow> str option" where
  "corrupt_oid (CorruptObject oid) = Some oid"
| "corrupt_oid ReadOnlyStore = None"
| "corrupt_oid (Core e) = None"
| "corrupt_oid Io = None"
| "corrupt_oid InvalidStoreLayout = None"

datatype put_disposition = Created | AlreadyPresent

record object_info =
  info_oid :: str
  info_kind :: object_kind
  info_byte_len :: nat

record put_result = object_info +
  disposition :: put_disposition

record verified_object =
  info :: object_info
  structured :: "json option"

abbreviation obj_oid :: "verified_object \<Rightarrow> str" where "obj_oid ob \<equiv> info_oid (info ob)"
abbreviation obj_kind :: "verified_object \<Rightarrow> object_kind" where "obj_kind ob \<equiv> info_kind (info ob)"
abbreviation obj_byte_len :: "verified_object \<Rightarrow> nat" where "obj_byte_len ob \<equiv> info_byte_len (info ob)"

datatype repair = AlreadyIntact | Restored "path option"

datatype object_state = ObjPresent object_info | ObjMissing | ObjCorrupt object_kind

record file_store =
  files :: tree
  st_limits :: store_limits
  next_temp :: nat
  read_only :: bool
  process_id :: nat

type_synonym 'a store_result = "store_error fault + 'a"
type_synonym 'a store_action = "(file_store, store_error fault, 'a) action"

abbreviation core_err :: "core_error fault + 'a \<Rightarrow> 'a store_result" where
  "core_err \<equiv> map_err (map_fault Core)"

definition resource_limit :: "'a store_result" where
  "resource_limit = fails (Core ResourceLimit)"

text \<open>A \<open>ResourceLimit\<close> of the verifier is the caller's limit, everything else is damage.\<close>

fun stored_object_error :: "str \<Rightarrow> core_error fault \<Rightarrow> store_error fault" where
  "stored_object_error oid (Fail e) = Fail (if e = ResourceLimit then Core e else CorruptObject oid)"
| "stored_object_error oid Panic = Panic"

section \<open>Paths\<close>

definition OBJECTS_DIRECTORY :: str where "OBJECTS_DIRECTORY = ''objects''"
definition TEMP_DIRECTORY :: str where "TEMP_DIRECTORY = ''tmp''"
definition QUARANTINE_DIRECTORY :: str where "QUARANTINE_DIRECTORY = ''quarantine''"

definition oid_digest :: "str \<Rightarrow> str" where
  "oid_digest oid = last (split_on (CHR '':'') oid)"

definition object_path_for_valid_oid :: "str \<Rightarrow> object_kind \<Rightarrow> path" where
  "object_path_for_valid_oid oid kind =
     [OBJECTS_DIRECTORY, kind_prefix kind, take 2 (oid_digest oid), drop 2 (oid_digest oid)]"

definition validated_object_path :: "str \<Rightarrow> (object_kind \<times> path) store_result" where
  "validated_object_path oid =
     bindE (core_err (lift_err (parse_oid oid))) (\<lambda>kind.
     Inr (kind, object_path_for_valid_oid oid kind))"

definition ensure_real_directory :: "tree \<Rightarrow> path \<Rightarrow> tree store_result" where
  "ensure_real_directory t p =
     (case symlink_metadata t p of
        Inr n \<Rightarrow> if n \<noteq> Dir then fails InvalidStoreLayout else Inr t
      | Inl NotFound \<Rightarrow> map_err (\<lambda>_. Fail Io) (fs_add t p Dir)
      | Inl _ \<Rightarrow> fails Io)"

definition require_existing_real_directory :: "tree \<Rightarrow> path \<Rightarrow> unit store_result" where
  "require_existing_real_directory t p =
     (case symlink_metadata t p of
        Inr n \<Rightarrow> if n = Dir then Inr () else fails InvalidStoreLayout
      | Inl NotFound \<Rightarrow> fails InvalidStoreLayout
      | Inl _ \<Rightarrow> fails Io)"

definition regular_file_metadata_if_present :: "tree \<Rightarrow> path \<Rightarrow> str \<Rightarrow> nat option store_result" where
  "regular_file_metadata_if_present t p oid =
     (case symlink_metadata t p of
        Inr (File bs) \<Rightarrow> Inr (Some (length bs))
      | Inr _ \<Rightarrow> fails (CorruptObject oid)
      | Inl NotFound \<Rightarrow> Inr None
      | Inl _ \<Rightarrow> fails Io)"

section \<open>Reading and verifying\<close>

definition open_object :: "tree \<Rightarrow> path \<Rightarrow> bytes store_result" where
  "open_object t p = ok_or (Fail Io) (open_file t p)"

definition read_file_limited :: "tree \<Rightarrow> path \<Rightarrow> nat \<Rightarrow> nat \<Rightarrow> bytes store_result" where
  "read_file_limited t p metadata_len limit =
     (if metadata_len > limit then resource_limit
      else if metadata_len > usize_max then resource_limit
      else bindE (open_object t p) (\<lambda>content.
        let read_bound = (case checked_add limit 1 of None \<Rightarrow> limit | Some n \<Rightarrow> n);
            bs = take read_bound content
        in if length bs > limit then resource_limit else Inr bs))"

definition read_blob_file_exact_limited :: "tree \<Rightarrow> path \<Rightarrow> str \<Rightarrow> nat \<Rightarrow> nat \<Rightarrow> bytes store_result" where
  "read_blob_file_exact_limited t p oid metadata_len limit =
     (if metadata_len > limit then resource_limit
      else if metadata_len > usize_max then resource_limit
      else bindE (open_object t p) (\<lambda>content.
        if length content < metadata_len then fails (CorruptObject oid)
        else if drop metadata_len content \<noteq> [] then fails (CorruptObject oid)
        else Inr (take metadata_len content)))"

text \<open>
  Filling a buffer of \<open>n\<close> bytes again and again from a file; an empty read ends the loop, so a
  zero-length buffer reads nothing.
\<close>

fun chunks :: "nat \<Rightarrow> bytes \<Rightarrow> bytes list" where
  "chunks n bs = (if n = 0 \<or> bs = [] then [] else take n bs # chunks n (drop n bs))"

declare chunks.simps [simp del]

text \<open>The hashing loop: the bytes seen so far and their length as a \<open>u64\<close>.\<close>

fun stream_blob :: "nat \<Rightarrow> bytes \<Rightarrow> nat \<Rightarrow> bytes option list \<Rightarrow> (bytes \<times> nat) store_result" where
  "stream_blob limit acc seen [] = Inr (acc, seen)"
| "stream_blob limit acc seen (None # rest) = fails Io"
| "stream_blob limit acc seen (Some bs # rest) =
     (if bs = [] then Inr (acc, seen)
      else case checked_add seen (length bs) of
        None \<Rightarrow> resource_limit
      | Some seen' \<Rightarrow>
          if seen' > limit then resource_limit
          else stream_blob limit (acc @ bs) seen' rest)"

definition verify_blob_file :: "(bytes \<Rightarrow> bytes) \<Rightarrow> tree \<Rightarrow> path \<Rightarrow> str \<Rightarrow> nat \<Rightarrow> nat \<Rightarrow> unit store_result" where
  "verify_blob_file sha256 t p oid max_blob buffer =
     bindE (open_object t p) (\<lambda>content.
     bindE (stream_blob max_blob [] 0 (map Some (chunks buffer content))) (\<lambda>(digested, _).
     if ''blob:sg-oid-v1:sha256:'' @ lower_hex (sha256 digested) \<noteq> oid then fails (CorruptObject oid)
     else Inr ()))"

text \<open>
  \<open>copy_verified_blob\<close> writes each chunk as it is hashed: the bytes handed to the writer come
  back also when the limit or the digest check fails at the end.
\<close>

fun copy_stream :: "nat \<Rightarrow> bytes \<Rightarrow> nat \<Rightarrow> bytes list \<Rightarrow> bytes \<times> unit store_result" where
  "copy_stream limit written seen [] = (written, Inr ())"
| "copy_stream limit written seen (bs # rest) =
     (if bs = [] then (written, Inr ())
      else case checked_add seen (length bs) of
        None \<Rightarrow> (written, resource_limit)
      | Some seen' \<Rightarrow>
          if seen' > limit then (written, resource_limit)
          else copy_stream limit (written @ bs) seen' rest)"

definition copy_verified_blob ::
    "(bytes \<Rightarrow> bytes) \<Rightarrow> tree \<Rightarrow> path \<Rightarrow> str \<Rightarrow> nat \<Rightarrow> nat \<Rightarrow> bytes \<times> unit store_result" where
  "copy_verified_blob sha256 t p oid max_blob buffer =
     (case open_object t p of
        Inl e \<Rightarrow> ([], Inl e)
      | Inr content \<Rightarrow>
          (case copy_stream max_blob [] 0 (chunks buffer content) of
             (written, Inl e) \<Rightarrow> (written, Inl e)
           | (written, Inr _) \<Rightarrow>
               (written, if ''blob:sg-oid-v1:sha256:'' @ lower_hex (sha256 written) \<noteq> oid
                         then fails (CorruptObject oid) else Inr ())))"

definition verify_raw_bytes ::
    "(bytes \<Rightarrow> bytes) \<Rightarrow> (str \<Rightarrow> str) \<Rightarrow> store_limits \<Rightarrow> str \<Rightarrow> object_kind \<Rightarrow> bytes
      \<Rightarrow> core_error fault + json option" where
  "verify_raw_bytes sha256 nfc lim oid kind bs =
     (if kind = Blob then bindE (lift_err (verify_blob_oid sha256 oid bs)) (\<lambda>_. Inr None)
      else
        bindE (parse_strict_with_limits nfc (structured_limits lim) bs) (\<lambda>value.
        bindE (canonical_json_with_limits nfc (structured_limits lim) value) (\<lambda>canonical.
        if canonical \<noteq> bs then fails OidMismatch
        else
          bindE (verify_claimed_oid_unchecked_with_limits sha256 nfc (structured_limits lim) oid value) (\<lambda>_.
          Inr (Some value)))))"

definition verified_body ::
    "(bytes \<Rightarrow> bytes) \<Rightarrow> (str \<Rightarrow> str) \<Rightarrow> file_store \<Rightarrow> str \<Rightarrow> object_kind \<Rightarrow> path \<Rightarrow> nat
      \<Rightarrow> json option store_result" where
  "verified_body sha256 nfc st oid kind p byte_len =
     (if kind = Blob then
        bindE (verify_blob_file sha256 (files st) p oid (max_blob_bytes (st_limits st))
          (io_buffer_bytes (st_limits st))) (\<lambda>_. Inr None)
      else
        bindE (read_file_limited (files st) p byte_len
          (max_input_bytes (structured_limits (st_limits st)))) (\<lambda>bs.
        map_err (stored_object_error oid) (verify_raw_bytes sha256 nfc (st_limits st) oid kind bs)))"

definition get_verified ::
    "(bytes \<Rightarrow> bytes) \<Rightarrow> (str \<Rightarrow> str) \<Rightarrow> file_store \<Rightarrow> str \<Rightarrow> verified_object option store_result" where
  "get_verified sha256 nfc st oid =
     bindE (validated_object_path oid) (\<lambda>(kind, p).
     bindE (regular_file_metadata_if_present (files st) p oid) (\<lambda>metadata.
     case metadata of
       None \<Rightarrow> Inr None
     | Some byte_len \<Rightarrow>
         bindE (verified_body sha256 nfc st oid kind p byte_len) (\<lambda>body.
         Inr (Some \<lparr> info = \<lparr> info_oid = oid, info_kind = kind, info_byte_len = byte_len \<rparr>,
                     structured = body \<rparr>))))"

definition read_raw ::
    "(bytes \<Rightarrow> bytes) \<Rightarrow> (str \<Rightarrow> str) \<Rightarrow> file_store \<Rightarrow> str \<Rightarrow> bytes option store_result" where
  "read_raw sha256 nfc st oid =
     bindE (validated_object_path oid) (\<lambda>(kind, p).
     bindE (regular_file_metadata_if_present (files st) p oid) (\<lambda>metadata.
     case metadata of
       None \<Rightarrow> Inr None
     | Some byte_len \<Rightarrow>
         let limit = (if kind = Blob then max_blob_bytes (st_limits st)
                      else max_input_bytes (structured_limits (st_limits st))) in
         bindE (read_file_limited (files st) p byte_len limit) (\<lambda>bs.
         bindE (map_err (stored_object_error oid) (verify_raw_bytes sha256 nfc (st_limits st) oid kind bs)) (\<lambda>_.
         Inr (Some bs)))))"

definition read_verified_blob_limited ::
    "(bytes \<Rightarrow> bytes) \<Rightarrow> file_store \<Rightarrow> str \<Rightarrow> nat \<Rightarrow> bytes option store_result" where
  "read_verified_blob_limited sha256 st oid max_bytes =
     (if max_bytes = 0 then resource_limit
      else
        bindE (validated_object_path oid) (\<lambda>(kind, p).
        if kind \<noteq> Blob then fails (Core ReferenceTypeMismatch)
        else
          bindE (regular_file_metadata_if_present (files st) p oid) (\<lambda>metadata.
          case metadata of
            None \<Rightarrow> Inr None
          | Some byte_len \<Rightarrow>
              bindE (read_blob_file_exact_limited (files st) p oid byte_len
                (min max_bytes (max_blob_bytes (st_limits st)))) (\<lambda>bs.
              bindE (map_err (stored_object_error oid) (lift_err (verify_blob_oid sha256 oid bs))) (\<lambda>_.
              Inr (Some bs))))))"

definition copy_verified_to ::
    "(bytes \<Rightarrow> bytes) \<Rightarrow> (str \<Rightarrow> str) \<Rightarrow> file_store \<Rightarrow> str \<Rightarrow> bytes \<times> object_info option store_result" where
  "copy_verified_to sha256 nfc st oid =
     (case validated_object_path oid of
        Inl e \<Rightarrow> ([], Inl e)
      | Inr (kind, p) \<Rightarrow>
          (case regular_file_metadata_if_present (files st) p oid of
             Inl e \<Rightarrow> ([], Inl e)
           | Inr None \<Rightarrow> ([], Inr None)
           | Inr (Some byte_len) \<Rightarrow>
               (case (if kind = Blob then
                        copy_verified_blob sha256 (files st) p oid (max_blob_bytes (st_limits st))
                          (io_buffer_bytes (st_limits st))
                      else
                        (case bindE (read_file_limited (files st) p byte_len
                               (max_input_bytes (structured_limits (st_limits st)))) (\<lambda>bs.
                             bindE (map_err (stored_object_error oid)
                               (verify_raw_bytes sha256 nfc (st_limits st) oid kind bs)) (\<lambda>_. Inr bs)) of
                           Inl e \<Rightarrow> ([], Inl e)
                         | Inr bs \<Rightarrow> (bs, Inr ()))) of
                  (written, Inl e) \<Rightarrow> (written, Inl e)
                | (written, Inr _) \<Rightarrow>
                    (written, Inr (Some \<lparr> info_oid = oid, info_kind = kind, info_byte_len = byte_len \<rparr>)))))"

definition stored_object_byte_len :: "file_store \<Rightarrow> str \<Rightarrow> nat option store_result" where
  "stored_object_byte_len st oid =
     bindE (validated_object_path oid) (\<lambda>(_, p). regular_file_metadata_if_present (files st) p oid)"

definition still_stored :: "file_store \<Rightarrow> verified_object \<Rightarrow> bool store_result" where
  "still_stored st ob =
     bindE (stored_object_byte_len st (obj_oid ob)) (\<lambda>n. Inr (n = Some (obj_byte_len ob)))"

definition object_state ::
    "(bytes \<Rightarrow> bytes) \<Rightarrow> (str \<Rightarrow> str) \<Rightarrow> file_store \<Rightarrow> str \<Rightarrow> object_state store_result" where
  "object_state sha256 nfc st oid =
     bindE (core_err (lift_err (parse_oid oid))) (\<lambda>kind.
     case get_verified sha256 nfc st oid of
       Inr (Some ob) \<Rightarrow> Inr (ObjPresent (info ob))
     | Inr None \<Rightarrow> Inr ObjMissing
     | Inl (Fail (CorruptObject _)) \<Rightarrow> Inr (ObjCorrupt kind)
     | Inl e \<Rightarrow> Inl e)"

definition verify_structured_copy ::
    "(bytes \<Rightarrow> bytes) \<Rightarrow> (str \<Rightarrow> str) \<Rightarrow> file_store \<Rightarrow> str \<Rightarrow> bytes \<Rightarrow> verified_object store_result" where
  "verify_structured_copy sha256 nfc st oid bs =
     bindE (core_err (lift_err (parse_oid oid))) (\<lambda>kind.
     bindE (core_err (verify_raw_bytes sha256 nfc (st_limits st) oid kind bs)) (\<lambda>value.
     bindE (ok_or (Fail (Core SchemaInvalid)) value) (\<lambda>body.
     Inr \<lparr> info = \<lparr> info_oid = oid, info_kind = kind, info_byte_len = length bs \<rparr>,
           structured = Some body \<rparr>)))"

definition open_object_file :: "file_store \<Rightarrow> str \<Rightarrow> bytes option store_result" where
  "open_object_file st oid =
     bindE (validated_object_path oid) (\<lambda>(_, p).
     bindE (regular_file_metadata_if_present (files st) p oid) (\<lambda>metadata.
     if metadata = None then Inr None
     else bindE (open_object (files st) p) (\<lambda>content. Inr (Some content))))"

section \<open>Writing\<close>

definition ensure_writable_store :: "file_store \<Rightarrow> unit store_result" where
  "ensure_writable_store st = (if read_only st then fails ReadOnlyStore else Inr ())"

definition drop_staged :: "path \<Rightarrow> file_store \<Rightarrow> file_store" where
  "drop_staged p st = st\<lparr> files := remove_file (files st) p \<rparr>"

text \<open>The staged file is dropped when the scope that owns it ends, or only when it fails.\<close>

definition with_staged :: "path \<Rightarrow> 'a store_action \<Rightarrow> 'a store_action" where
  "with_staged p m = (\<lambda>st. case m st of (r, st') \<Rightarrow> (r, drop_staged p st'))"

definition staged_on_error :: "path \<Rightarrow> 'a store_action \<Rightarrow> 'a store_action" where
  "staged_on_error p m = (\<lambda>st. case m st of (Inl e, st') \<Rightarrow> (Inl e, drop_staged p st') | r \<Rightarrow> r)"

definition temp_path :: "nat \<Rightarrow> nat \<Rightarrow> path" where
  "temp_path pid counter = [TEMP_DIRECTORY, nat_to_str pid @ ''-'' @ nat_to_str counter @ ''.tmp'']"

fun staged_attempts :: "nat \<Rightarrow> path store_action" where
  "staged_attempts 0 st = (fails Io, st)"
| "staged_attempts (Suc n) st =
     (let counter = next_temp st;
          p = temp_path (process_id st) counter;
          st' = st\<lparr> next_temp := (counter + 1) mod (u64_max + 1) \<rparr>
      in case fs_add (files st') p (File []) of
           Inr t \<Rightarrow> (Inr p, st'\<lparr> files := t \<rparr>)
         | Inl AlreadyExists \<Rightarrow> staged_attempts n st'
         | Inl _ \<Rightarrow> (fails Io, st'))"

definition create_staged_file :: "path store_action" where
  "create_staged_file = bindA (readA ensure_writable_store) (\<lambda>_. staged_attempts 1024)"

definition write_staged :: "path \<Rightarrow> bytes \<Rightarrow> unit store_action" where
  "write_staged p bs = (\<lambda>st. (Inr (), st\<lparr> files := fs_write (files st) p bs \<rparr>))"

definition check_claimed :: "str option \<Rightarrow> str \<Rightarrow> unit store_result" where
  "check_claimed claimed oid =
     (case claimed of Some c \<Rightarrow> if c \<noteq> oid then fails (Core OidMismatch) else Inr () | None \<Rightarrow> Inr ())"

definition stage_blob ::
    "(bytes \<Rightarrow> bytes) \<Rightarrow> str option \<Rightarrow> bytes option list \<Rightarrow> (path \<times> str \<times> nat) store_action" where
  "stage_blob sha256 claimed reader =
     bindA (readA ensure_writable_store) (\<lambda>_.
     bindA create_staged_file (\<lambda>staged.
     staged_on_error staged (
       bindA (readA (\<lambda>st. stream_blob (max_blob_bytes (st_limits st)) [] 0 reader)) (\<lambda>(content, byte_len).
       bindA (write_staged staged content) (\<lambda>_.
       let oid = ''blob:sg-oid-v1:sha256:'' @ lower_hex (sha256 content) in
       bindA (resultA (check_claimed claimed oid)) (\<lambda>_.
       resultA (Inr (staged, oid, byte_len))))))))"

definition stage_structured ::
    "(bytes \<Rightarrow> bytes) \<Rightarrow> (str \<Rightarrow> str) \<Rightarrow> str option \<Rightarrow> bytes \<Rightarrow> bool \<Rightarrow> (path \<times> str \<times> nat) store_action" where
  "stage_structured sha256 nfc claimed input require_canonical_input =
     bindA (readA ensure_writable_store) (\<lambda>_.
     bindA (readA (\<lambda>st. core_err (parse_strict_with_limits nfc (structured_limits (st_limits st)) input))) (\<lambda>value.
     bindA (readA (\<lambda>st. core_err (canonical_json_with_limits nfc (structured_limits (st_limits st)) value))) (\<lambda>canonical.
     bindA (resultA (if require_canonical_input \<and> input \<noteq> canonical then fails (Core SchemaInvalid) else Inr ())) (\<lambda>_.
     bindA (readA (\<lambda>st. core_err
       (structured_oid_unchecked_with_limits sha256 nfc (structured_limits (st_limits st)) value))) (\<lambda>oid.
     bindA (resultA (check_claimed claimed oid)) (\<lambda>_.
     bindA create_staged_file (\<lambda>staged.
     bindA (write_staged staged canonical) (\<lambda>_.
     resultA (Inr (staged, oid, length canonical))))))))))"

fun compare_streams :: "str \<Rightarrow> bytes list \<Rightarrow> bytes list \<Rightarrow> unit store_result" where
  "compare_streams oid [] [] = Inr ()"
| "compare_streams oid (l # ls) [] = (if l \<noteq> [] then fails (CorruptObject oid) else Inr ())"
| "compare_streams oid [] (r # rs) = (if r \<noteq> [] then fails (CorruptObject oid) else Inr ())"
| "compare_streams oid (l # ls) (r # rs) =
     (if l \<noteq> r then fails (CorruptObject oid) else if l = [] then Inr () else compare_streams oid ls rs)"

definition compare_regular_files :: "tree \<Rightarrow> path \<Rightarrow> path \<Rightarrow> nat \<Rightarrow> str \<Rightarrow> unit store_result" where
  "compare_regular_files t staged existing buffer oid =
     (case symlink_metadata t existing of
        Inl _ \<Rightarrow> fails Io
      | Inr (File right) \<Rightarrow>
          bindE (open_object t staged) (\<lambda>left.
          if length left \<noteq> length right then fails (CorruptObject oid)
          else compare_streams oid (chunks buffer left) (chunks buffer right))
      | Inr _ \<Rightarrow> fails (CorruptObject oid))"

definition ensure_directory :: "path \<Rightarrow> unit store_action" where
  "ensure_directory p = (\<lambda>st. case ensure_real_directory (files st) p of
       Inl e \<Rightarrow> (Inl e, st) | Inr t \<Rightarrow> (Inr (), st\<lparr> files := t \<rparr>))"

text \<open>\<open>hard_link\<close> gives the staged content a second name, unless the name is taken.\<close>

definition link_object :: "path \<Rightarrow> path \<Rightarrow> str \<Rightarrow> put_disposition store_action" where
  "link_object staged target oid = (\<lambda>st.
     case open_file (files st) staged of
       None \<Rightarrow> (fails Io, st)
     | Some content \<Rightarrow>
         (case fs_add (files st) target (File content) of
            Inr t \<Rightarrow> (Inr Created, st\<lparr> files := t \<rparr>)
          | Inl AlreadyExists \<Rightarrow>
              (bindE (compare_regular_files (files st) staged target (io_buffer_bytes (st_limits st)) oid)
                 (\<lambda>_. Inr AlreadyPresent), st)
          | Inl _ \<Rightarrow> (fails Io, st)))"

definition publish_staged :: "path \<Rightarrow> str \<Rightarrow> object_kind \<Rightarrow> nat \<Rightarrow> put_result store_action" where
  "publish_staged staged oid kind byte_len =
     with_staged staged (
       bindA (readA ensure_writable_store) (\<lambda>_.
       let target = object_path_for_valid_oid oid kind in
       bindA (ensure_directory (butlast target)) (\<lambda>_.
       bindA (link_object staged target oid) (\<lambda>d.
       resultA (Inr \<lparr> info_oid = oid, info_kind = kind, info_byte_len = byte_len, disposition = d \<rparr>)))))"

definition put_blob_inner ::
    "(bytes \<Rightarrow> bytes) \<Rightarrow> str option \<Rightarrow> bytes option list \<Rightarrow> put_result store_action" where
  "put_blob_inner sha256 claimed reader =
     bindA (stage_blob sha256 claimed reader) (\<lambda>(staged, oid, byte_len).
     publish_staged staged oid Blob byte_len)"

definition put_blob :: "(bytes \<Rightarrow> bytes) \<Rightarrow> bytes option list \<Rightarrow> put_result store_action" where
  "put_blob sha256 reader =
     bindA (readA ensure_writable_store) (\<lambda>_. put_blob_inner sha256 None reader)"

definition put_blob_claimed :: "(bytes \<Rightarrow> bytes) \<Rightarrow> str \<Rightarrow> bytes option list \<Rightarrow> put_result store_action" where
  "put_blob_claimed sha256 claimed reader =
     bindA (readA ensure_writable_store) (\<lambda>_.
     bindA (resultA (core_err (lift_err (parse_oid claimed)))) (\<lambda>kind.
     if kind \<noteq> Blob then resultA (fails (Core OidMismatch))
     else put_blob_inner sha256 (Some claimed) reader))"

definition put_structured_inner ::
    "(bytes \<Rightarrow> bytes) \<Rightarrow> (str \<Rightarrow> str) \<Rightarrow> str option \<Rightarrow> bytes \<Rightarrow> bool \<Rightarrow> put_result store_action" where
  "put_structured_inner sha256 nfc claimed input require_canonical_input =
     bindA (stage_structured sha256 nfc claimed input require_canonical_input) (\<lambda>(staged, oid, byte_len).
     bindA (staged_on_error staged (resultA (core_err (lift_err (parse_oid oid))))) (\<lambda>kind.
     publish_staged staged oid kind byte_len))"

definition put_structured_unchecked ::
    "(bytes \<Rightarrow> bytes) \<Rightarrow> (str \<Rightarrow> str) \<Rightarrow> bytes \<Rightarrow> put_result store_action" where
  "put_structured_unchecked sha256 nfc input =
     bindA (readA ensure_writable_store) (\<lambda>_. put_structured_inner sha256 nfc None input False)"

definition put_structured_claimed_unchecked ::
    "(bytes \<Rightarrow> bytes) \<Rightarrow> (str \<Rightarrow> str) \<Rightarrow> str \<Rightarrow> bytes \<Rightarrow> put_result store_action" where
  "put_structured_claimed_unchecked sha256 nfc claimed input =
     bindA (readA ensure_writable_store) (\<lambda>_.
     bindA (resultA (core_err (lift_err (parse_oid claimed)))) (\<lambda>_.
     put_structured_inner sha256 nfc (Some claimed) input False))"

text \<open>A byte slice as a reader fills the staging buffer.\<close>

definition put_verified_raw ::
    "(bytes \<Rightarrow> bytes) \<Rightarrow> (str \<Rightarrow> str) \<Rightarrow> str \<Rightarrow> bytes \<Rightarrow> put_result store_action" where
  "put_verified_raw sha256 nfc claimed bs =
     bindA (readA ensure_writable_store) (\<lambda>_.
     bindA (resultA (core_err (lift_err (parse_oid claimed)))) (\<lambda>kind.
     if kind = Blob then
       bindA (readA (\<lambda>st. Inr (map Some (chunks (io_buffer_bytes (st_limits st)) bs)))) (\<lambda>reader.
       put_blob_claimed sha256 claimed reader)
     else put_structured_inner sha256 nfc (Some claimed) bs True))"

section \<open>Repair and quarantine\<close>

definition quarantine_name :: "str \<Rightarrow> object_kind \<Rightarrow> nat \<Rightarrow> path" where
  "quarantine_name oid kind attempt =
     [QUARANTINE_DIRECTORY, kind_prefix kind @ ''-'' @ oid_digest oid @ ''-'' @ nat_to_str attempt]"

fun quarantine_attempts :: "str \<Rightarrow> object_kind \<Rightarrow> nat \<Rightarrow> nat \<Rightarrow> path store_action" where
  "quarantine_attempts oid kind attempt 0 st = (fails Io, st)"
| "quarantine_attempts oid kind attempt (Suc n) st =
     (let target = quarantine_name oid kind attempt in
      case symlink_metadata (files st) target of
        Inr _ \<Rightarrow> quarantine_attempts oid kind (attempt + 1) n st
      | Inl NotFound \<Rightarrow>
          (case fs_rename (files st) (object_path_for_valid_oid oid kind) target of
             Inl _ \<Rightarrow> (fails Io, st)
           | Inr t \<Rightarrow> (Inr target, st\<lparr> files := t \<rparr>))
      | Inl _ \<Rightarrow> (fails Io, st))"

definition quarantine_object :: "str \<Rightarrow> object_kind \<Rightarrow> path store_action" where
  "quarantine_object oid kind =
     bindA (ensure_directory [QUARANTINE_DIRECTORY]) (\<lambda>_.
     quarantine_attempts oid kind 0 1024)"

definition quarantine_if_corrupt ::
    "(bytes \<Rightarrow> bytes) \<Rightarrow> (str \<Rightarrow> str) \<Rightarrow> str \<Rightarrow> path option store_action" where
  "quarantine_if_corrupt sha256 nfc oid =
     bindA (readA ensure_writable_store) (\<lambda>_.
     bindA (resultA (core_err (lift_err (parse_oid oid)))) (\<lambda>kind.
     bindA (readA (\<lambda>st. object_state sha256 nfc st oid)) (\<lambda>state.
     case state of
       ObjCorrupt _ \<Rightarrow> bindA (quarantine_object oid kind) (\<lambda>p. resultA (Inr (Some p)))
     | ObjPresent _ \<Rightarrow> resultA (Inr None)
     | ObjMissing \<Rightarrow> resultA (Inr None))))"

text \<open>\<open>reader.take(bound).read_to_end\<close>.\<close>

fun read_to_end_limited :: "nat \<Rightarrow> bytes \<Rightarrow> bytes option list \<Rightarrow> bytes store_result" where
  "read_to_end_limited bound acc [] = Inr acc"
| "read_to_end_limited bound acc (None # rest) = (if bound \<le> length acc then Inr acc else fails Io)"
| "read_to_end_limited bound acc (Some bs # rest) =
     (if bound \<le> length acc \<or> bs = [] then Inr acc
      else read_to_end_limited bound (acc @ take (bound - length acc) bs) rest)"

text \<open>\<open>limit + 1\<close> is unchecked in the source: it panics on the largest \<open>u64\<close>.\<close>

definition read_repair_input :: "nat \<Rightarrow> bytes option list \<Rightarrow> bytes store_result" where
  "read_repair_input limit reader =
     (case checked_add limit 1 of
        None \<Rightarrow> panics
      | Some bound \<Rightarrow>
          bindE (read_to_end_limited bound [] reader) (\<lambda>input.
          if length input > limit then resource_limit else Inr input))"

definition stage_repair ::
    "(bytes \<Rightarrow> bytes) \<Rightarrow> (str \<Rightarrow> str) \<Rightarrow> str \<Rightarrow> object_kind \<Rightarrow> bytes option list \<Rightarrow> (path \<times> str \<times> nat) store_action" where
  "stage_repair sha256 nfc oid kind reader =
     (if kind = Blob then stage_blob sha256 (Some oid) reader
      else
        bindA (readA (\<lambda>st. read_repair_input (max_input_bytes (structured_limits (st_limits st))) reader)) (\<lambda>input.
        stage_structured sha256 nfc (Some oid) input True))"

definition finish_repair ::
    "(bytes \<Rightarrow> bytes) \<Rightarrow> (str \<Rightarrow> str) \<Rightarrow> object_kind \<Rightarrow> path \<Rightarrow> str \<Rightarrow> nat \<Rightarrow> repair store_action" where
  "finish_repair sha256 nfc kind staged oid byte_len =
     bindA (staged_on_error staged (readA (\<lambda>st. object_state sha256 nfc st oid))) (\<lambda>state.
     case state of
       ObjPresent _ \<Rightarrow> with_staged staged (resultA (Inr AlreadyIntact))
     | ObjMissing \<Rightarrow>
         bindA (publish_staged staged oid kind byte_len) (\<lambda>_. resultA (Inr (Restored None)))
     | ObjCorrupt _ \<Rightarrow>
         bindA (staged_on_error staged (quarantine_object oid kind)) (\<lambda>quarantined.
         bindA (publish_staged staged oid kind byte_len) (\<lambda>_.
         resultA (Inr (Restored (Some quarantined))))))"

definition repair_object ::
    "(bytes \<Rightarrow> bytes) \<Rightarrow> (str \<Rightarrow> str) \<Rightarrow> str \<Rightarrow> bytes option list \<Rightarrow> repair store_action" where
  "repair_object sha256 nfc oid reader =
     bindA (readA ensure_writable_store) (\<lambda>_.
     bindA (resultA (core_err (lift_err (parse_oid oid)))) (\<lambda>kind.
     bindA (stage_repair sha256 nfc oid kind reader) (\<lambda>(staged, oid, byte_len).
     finish_repair sha256 nfc kind staged oid byte_len)))"

section \<open>Inventory\<close>

definition ascii_lower :: "byte \<Rightarrow> byte" where
  "ascii_lower c = (if 65 \<le> byte_val c \<and> byte_val c \<le> 90 then char_of (byte_val c + 32) else c)"

definition eq_ignore_ascii_case :: "str \<Rightarrow> str \<Rightarrow> bool" where
  "eq_ignore_ascii_case a b \<longleftrightarrow> map ascii_lower a = map ascii_lower b"

definition is_os_metadata_file_name :: "str \<Rightarrow> bool" where
  "is_os_metadata_file_name name \<longleftrightarrow> valid_utf8 name \<and>
     (name = ''.DS_Store'' \<or> starts_with name ''._'' \<or> eq_ignore_ascii_case name ''Thumbs.db''
      \<or> eq_ignore_ascii_case name ''desktop.ini'')"

fun is_regular :: "fs_node \<Rightarrow> bool" where
  "is_regular (File bs) = True"
| "is_regular _ = False"

definition is_ignored_os_metadata :: "str \<times> fs_node \<Rightarrow> bool" where
  "is_ignored_os_metadata e \<longleftrightarrow> is_os_metadata_file_name (fst e) \<and> is_regular (snd e)"

record store_inventory =
  oids :: "str list"
  invalid_paths :: "path list"

type_synonym scan = "str list \<times> path list"

definition scan_dir :: "tree \<Rightarrow> path \<Rightarrow> (str \<times> fs_node) list store_result" where
  "scan_dir t p = map_err (\<lambda>_. Fail Io) (read_dir t p)"

definition prefix_entry_ok :: "str \<times> fs_node \<Rightarrow> bool" where
  "prefix_entry_ok e \<longleftrightarrow> valid_utf8 (fst e) \<and> length (fst e) = 2 \<and> list_all is_lower_hex (fst e) \<and> snd e = Dir"

definition object_entry_ok :: "str \<times> fs_node \<Rightarrow> bool" where
  "object_entry_ok e \<longleftrightarrow>
     valid_utf8 (fst e) \<and> length (fst e) = 62 \<and> list_all is_lower_hex (fst e) \<and> is_regular (snd e)"

definition scanned_oid :: "object_kind \<Rightarrow> str \<Rightarrow> str \<Rightarrow> str" where
  "scanned_oid kind prefix suffix = kind_prefix kind @ '':sg-oid-v1:sha256:'' @ prefix @ suffix"

definition scan_object :: "path \<Rightarrow> str \<Rightarrow> object_kind \<Rightarrow> scan \<Rightarrow> str \<times> fs_node \<Rightarrow> scan" where
  "scan_object p prefix kind acc e =
     (if is_ignored_os_metadata e then acc
      else if \<not> object_entry_ok e then (fst acc, snd acc @ [p @ [fst e]])
      else if \<not> is_ok (parse_oid (scanned_oid kind prefix (fst e))) then (fst acc, snd acc @ [p @ [fst e]])
      else (fst acc @ [scanned_oid kind prefix (fst e)], snd acc))"

definition scan_prefix :: "tree \<Rightarrow> path \<Rightarrow> str \<Rightarrow> object_kind \<Rightarrow> scan \<Rightarrow> scan store_result" where
  "scan_prefix t p prefix kind acc =
     bindE (scan_dir t p) (\<lambda>entries. Inr (foldl (scan_object p prefix kind) acc entries))"

definition scan_family :: "tree \<Rightarrow> path \<Rightarrow> object_kind \<Rightarrow> scan \<Rightarrow> scan store_result" where
  "scan_family t p kind acc =
     bindE (scan_dir t p) (\<lambda>entries.
     foldE (\<lambda>acc e.
       if is_ignored_os_metadata e then Inr acc
       else if \<not> prefix_entry_ok e then Inr (fst acc, snd acc @ [p @ [fst e]])
       else scan_prefix t (p @ [fst e]) (fst e) kind acc) acc entries)"

definition scan_inventory :: "tree \<Rightarrow> store_inventory store_result" where
  "scan_inventory t =
     bindE (scan_dir t [OBJECTS_DIRECTORY]) (\<lambda>entries.
     bindE (foldE (\<lambda>acc e.
       if is_ignored_os_metadata e then Inr acc
       else if \<not> valid_utf8 (fst e) then Inr (fst acc, snd acc @ [[OBJECTS_DIRECTORY, fst e]])
       else case kind_of_prefix (fst e) of
         None \<Rightarrow> Inr (fst acc, snd acc @ [[OBJECTS_DIRECTORY, fst e]])
       | Some kind \<Rightarrow>
           if snd e \<noteq> Dir then Inr (fst acc, snd acc @ [[OBJECTS_DIRECTORY, fst e]])
           else scan_family t [OBJECTS_DIRECTORY, fst e] kind acc) ([], []) entries) (\<lambda>acc.
     Inr \<lparr> oids = remdups_adj (sort (fst acc)), invalid_paths = sort (snd acc) \<rparr>))"

definition list_oids :: "file_store \<Rightarrow> str list store_result" where
  "list_oids st =
     bindE (scan_inventory (files st)) (\<lambda>inventory.
     if invalid_paths inventory \<noteq> [] then fails InvalidStoreLayout else Inr (oids inventory))"

definition list_oids_at_valid_paths :: "file_store \<Rightarrow> str list store_result" where
  "list_oids_at_valid_paths st = bindE (scan_inventory (files st)) (\<lambda>inventory. Inr (oids inventory))"

definition MAX_IGNORED_ENTRIES_BEYOND_LIMIT :: nat where
  "MAX_IGNORED_ENTRIES_BEYOND_LIMIT = 16"

fun take_entries ::
    "nat \<Rightarrow> store_error \<Rightarrow> nat \<Rightarrow> (str \<times> fs_node) list \<Rightarrow> (str \<times> fs_node) list
      \<Rightarrow> (str \<times> fs_node) list store_result" where
  "take_entries max_entries exceeded ignored acc [] = Inr acc"
| "take_entries max_entries exceeded ignored acc (e # es) =
     (if is_ignored_os_metadata e then
        (if ignored + 1 > saturating_add max_entries MAX_IGNORED_ENTRIES_BEYOND_LIMIT then fails exceeded
         else take_entries max_entries exceeded (ignored + 1) acc es)
      else if length acc = max_entries then fails exceeded
      else take_entries max_entries exceeded ignored (acc @ [e]) es)"

definition read_directory_at_most ::
    "tree \<Rightarrow> path \<Rightarrow> nat \<Rightarrow> store_error \<Rightarrow> (str \<times> fs_node) list store_result" where
  "read_directory_at_most t p max_entries exceeded =
     bindE (scan_dir t p) (take_entries max_entries exceeded 0 [])"

text \<open>
  One prefix directory of a bounded scan: at most the remaining number of leaves is read;
  \<open>max_objects - examined_objects\<close> is an unchecked subtraction in the source.
\<close>

definition scan_prefix_at_most ::
    "tree \<Rightarrow> path \<Rightarrow> object_kind \<Rightarrow> nat \<Rightarrow> nat \<times> str list \<Rightarrow> str \<times> fs_node \<Rightarrow> (nat \<times> str list) store_result" where
  "scan_prefix_at_most t family kind max_objects acc e =
     (if \<not> prefix_entry_ok e then fails InvalidStoreLayout
      else if max_objects < fst acc then panics
      else
        bindE (read_directory_at_most t (family @ [fst e]) (max_objects - fst acc) (Core ResourceLimit)) (\<lambda>objects.
        bindE (ok_or (Fail (Core ResourceLimit)) (checked_add (fst acc) (length objects))) (\<lambda>examined.
        bindE (mapE (\<lambda>ob.
          if \<not> object_entry_ok ob then fails InvalidStoreLayout
          else bindE (core_err (lift_err (parse_oid (scanned_oid kind (fst e) (fst ob))))) (\<lambda>_.
               Inr (scanned_oid kind (fst e) (fst ob)))) (sort_key fst objects)) (\<lambda>found.
        Inr (examined, snd acc @ found)))))"

definition scan_kind_inventory_at_most :: "tree \<Rightarrow> object_kind \<Rightarrow> nat \<Rightarrow> str list store_result" where
  "scan_kind_inventory_at_most t kind max_objects =
     (let family = [OBJECTS_DIRECTORY, kind_prefix kind] in
      bindE (map_err (\<lambda>_. Fail Io) (symlink_metadata t family)) (\<lambda>n.
      if n \<noteq> Dir then fails InvalidStoreLayout
      else
        bindE (read_directory_at_most t family 256 InvalidStoreLayout) (\<lambda>prefixes.
        bindE (foldE (scan_prefix_at_most t family kind max_objects) (0, []) (sort_key fst prefixes)) (\<lambda>acc.
        Inr (remdups_adj (sort (snd acc)))))))"

definition scan_kind_inventory_limited :: "tree \<Rightarrow> object_kind \<Rightarrow> nat \<Rightarrow> str list store_result" where
  "scan_kind_inventory_limited t kind max_objects =
     (if max_objects = 0 then resource_limit else scan_kind_inventory_at_most t kind max_objects)"

definition list_oids_by_kind_limited :: "file_store \<Rightarrow> object_kind \<Rightarrow> nat \<Rightarrow> str list store_result" where
  "list_oids_by_kind_limited st kind max_objects = scan_kind_inventory_limited (files st) kind max_objects"

definition scan_inventory_limited :: "tree \<Rightarrow> nat \<Rightarrow> str list store_result" where
  "scan_inventory_limited t max_objects =
     (if max_objects = 0 then resource_limit
      else
        bindE (read_directory_at_most t [OBJECTS_DIRECTORY] 4 InvalidStoreLayout) (\<lambda>families.
        if \<not> list_all (\<lambda>e. valid_utf8 (fst e)) families then fails InvalidStoreLayout
        else if sort (map fst families) \<noteq> [''blob'', ''commit'', ''record'', ''tree''] then fails InvalidStoreLayout
        else
          bindE (foldE (\<lambda>acc kind.
            if max_objects < length acc then panics
            else
              bindE (scan_kind_inventory_at_most t kind (max_objects - length acc)) (\<lambda>found.
              Inr (acc @ found))) [] [Blob, Record, Tree, Commit]) (\<lambda>found.
          Inr (sort found))))"

definition list_oids_limited :: "file_store \<Rightarrow> nat \<Rightarrow> str list store_result" where
  "list_oids_limited st max_objects = scan_inventory_limited (files st) max_objects"

section \<open>Opening\<close>

definition validate_store_limits :: "(str \<Rightarrow> str) \<Rightarrow> store_limits \<Rightarrow> unit store_result" where
  "validate_store_limits nfc lim =
     (if max_blob_bytes lim = 0 then resource_limit
      else if io_buffer_bytes lim = 0 then resource_limit
      else bindE (core_err (parse_strict_with_limits nfc (structured_limits lim) ''null'')) (\<lambda>_. Inr ()))"

definition layout :: "path list" where
  "layout = [OBJECTS_DIRECTORY] # [TEMP_DIRECTORY]
     # map (\<lambda>kind. [OBJECTS_DIRECTORY, kind_prefix kind]) [Blob, Record, Tree, Commit]"

fun create_layout :: "path list \<Rightarrow> (tree, store_error fault, unit) action" where
  "create_layout [] t = (Inr (), t)"
| "create_layout (p # ps) t =
     (case ensure_real_directory t p of Inl e \<Rightarrow> (Inl e, t) | Inr t' \<Rightarrow> create_layout ps t')"

definition open_with_limits ::
    "(str \<Rightarrow> str) \<Rightarrow> nat \<Rightarrow> store_limits \<Rightarrow> (tree, store_error fault, file_store) action" where
  "open_with_limits nfc pid lim =
     bindA (resultA (validate_store_limits nfc lim)) (\<lambda>_.
     bindA (create_layout layout) (\<lambda>_.
     readA (\<lambda>t. Inr \<lparr> files = t, st_limits = lim, next_temp = 0, read_only = False, process_id = pid \<rparr>)))"

definition open_existing_with_mode ::
    "(str \<Rightarrow> str) \<Rightarrow> nat \<Rightarrow> tree \<Rightarrow> bool \<Rightarrow> file_store store_result" where
  "open_existing_with_mode nfc pid t mode =
     bindE (validate_store_limits nfc default_store_limits) (\<lambda>_.
     bindE (eachE (require_existing_real_directory t) layout) (\<lambda>_.
     Inr \<lparr> files = t, st_limits = default_store_limits, next_temp = 0, read_only = mode, process_id = pid \<rparr>))"

section \<open>The memo of one integrity check\<close>

definition MAX_MEMOIZED_STRUCTURED_BYTES :: nat where
  "MAX_MEMOIZED_STRUCTURED_BYTES = 33554432"

record memo =
  memo_verified :: "(str \<times> verified_object) list"
  structured_bytes :: nat

definition empty_memo :: memo where
  "empty_memo = \<lparr> memo_verified = [], structured_bytes = 0 \<rparr>"

definition remember :: "memo \<Rightarrow> verified_object \<Rightarrow> memo" where
  "remember me ob =
     (if obj_kind ob \<noteq> Blob then
        (let seen = saturating_add (structured_bytes me) (obj_byte_len ob) in
         if seen > MAX_MEMOIZED_STRUCTURED_BYTES then me
         else me\<lparr> structured_bytes := seen, memo_verified := (obj_oid ob, ob) # memo_verified me \<rparr>)
      else me\<lparr> memo_verified := (obj_oid ob, ob) # memo_verified me \<rparr>)"

definition memo_forget :: "memo \<Rightarrow> str \<Rightarrow> memo" where
  "memo_forget me oid = me\<lparr> memo_verified := filter (\<lambda>(o', _). o' \<noteq> oid) (memo_verified me) \<rparr>"

definition memo_get_verified ::
    "(bytes \<Rightarrow> bytes) \<Rightarrow> (str \<Rightarrow> str) \<Rightarrow> file_store \<Rightarrow> str \<Rightarrow> (memo, store_error fault, verified_object option) action" where
  "memo_get_verified sha256 nfc st oid = (\<lambda>me.
     let read = (\<lambda>me. case get_verified sha256 nfc st oid of
                   Inl e \<Rightarrow> (Inl e, me)
                 | Inr None \<Rightarrow> (Inr None, me)
                 | Inr (Some ob) \<Rightarrow> (Inr (Some ob), remember me ob))
     in case map_of (memo_verified me) oid of
          Some ob \<Rightarrow>
            if still_stored st ob = Inr True then (Inr (Some ob), me) else read (memo_forget me oid)
        | None \<Rightarrow> read me)"

end
