(* ===== verification/Object_Store_Laws.thy ===== *)
theory Object_Store_Laws
  imports Object_Store
begin

text \<open>
  What the object store promises, proved of the model in \<^verbatim>\<open>Object_Store\<close>: which objects a read
  returns, that writes and repairs make the object readable, that no operation takes an intact
  object away, that a write succeeds when there is room, that all read paths agree, that the
  memo of an integrity check answers like the store, and that the inventories are complete.
\<close>

section \<open>Hashing loops\<close>

lemma concat_chunks: "n > 0 \<Longrightarrow> concat (chunks n bs) = bs"
  by (induction n bs rule: chunks.induct) (subst chunks.simps, auto)

lemma chunks_nonempty: "[] \<notin> set (chunks n bs)"
  by (induction n bs rule: chunks.induct) (subst chunks.simps, auto)

text \<open>What a reader delivers: everything up to an empty read, or nothing when a read fails.\<close>

fun reader_bytes :: "bytes option list \<Rightarrow> bytes option" where
  "reader_bytes [] = Some []"
| "reader_bytes (None # rest) = None"
| "reader_bytes (Some bs # rest) = (if bs = [] then Some [] else map_option ((@) bs) (reader_bytes rest))"

lemma reader_bytes_chunks: "[] \<notin> set cs \<Longrightarrow> reader_bytes (map Some cs) = Some (concat cs)"
  by (induction cs) auto

lemma stream_blob_ok:
  assumes "seen \<le> limit" "limit \<le> usize_max"
  shows "stream_blob limit acc seen r = Inr x \<longleftrightarrow>
    (\<exists>bs. reader_bytes r = Some bs \<and> seen + length bs \<le> limit \<and> x = (acc @ bs, seen + length bs))"
  using assms
  by (induction limit acc seen r rule: stream_blob.induct)
    (auto simp: result_simps resource_limit_def split: option.splits)

lemma stream_blob_safe: "stream_blob limit acc seen r \<noteq> panics"
  by (induction limit acc seen r rule: stream_blob.induct) (auto simp: resource_limit_def split: option.splits)

lemma compare_streams_ok:
  "[] \<notin> set ls \<Longrightarrow> [] \<notin> set rs \<Longrightarrow> compare_streams oid ls rs = Inr () \<longleftrightarrow> ls = rs"
  by (induction oid ls rs rule: compare_streams.induct) auto

lemma compare_chunks:
  "n > 0 \<Longrightarrow> compare_streams oid (chunks n a) (chunks n b) = Inr () \<longleftrightarrow> a = b"
  by (metis chunks_nonempty compare_streams_ok concat_chunks)

text \<open>The limits of an open store: those that \<open>validate_limits\<close> accepts, within their widths.\<close>

definition store_limits_ok :: "store_limits \<Rightarrow> bool" where
  "store_limits_ok lim \<longleftrightarrow> 0 < max_blob_bytes lim \<and> max_blob_bytes lim \<le> u64_max
     \<and> 0 < io_buffer_bytes lim \<and> io_buffer_bytes lim \<le> usize_max \<and> limits_usize (structured_limits lim)
     \<and> max_nesting_depth (structured_limits lim) \<le> HARD_MAX_NESTING_DEPTH"

lemma verify_blob_file_ok:
  assumes "0 < buffer" "limit \<le> usize_max"
  shows "verify_blob_file sha256 t p oid limit buffer = Inr u \<longleftrightarrow>
    (\<exists>content. open_file t p = Some content \<and> length content \<le> limit \<and> oid = blob_oid sha256 content)"
  using assms
  by (auto simp: verify_blob_file_def open_object_def result_simps stream_blob_ok reader_bytes_chunks
      chunks_nonempty concat_chunks blob_oid_def sha256_hex_def split: if_splits)

section \<open>What reads return\<close>

text \<open>
  The bytes of an object: for a Blob those that hash to the OID, otherwise the canonical text of
  a value whose structured OID it is.
\<close>

definition object_bytes ::
    "(bytes \<Rightarrow> bytes) \<Rightarrow> (str \<Rightarrow> str) \<Rightarrow> store_limits \<Rightarrow> str \<Rightarrow> object_kind \<Rightarrow> bytes \<Rightarrow> json option \<Rightarrow> bool" where
  "object_bytes sha256 nfc lim oid kind bs body \<longleftrightarrow>
     (if kind = Blob then oid = blob_oid sha256 bs \<and> length bs \<le> max_blob_bytes lim \<and> body = None
      else \<exists>v. body = Some v \<and> parse_strict_with_limits nfc (structured_limits lim) bs = Inr v
        \<and> canonical_json_with_limits nfc (structured_limits lim) v = Inr bs
        \<and> structured_oid_unchecked_with_limits sha256 nfc (structured_limits lim) v = Inr oid)"

definition stored_bytes :: "file_store \<Rightarrow> str \<Rightarrow> object_kind \<Rightarrow> bytes \<Rightarrow> bool" where
  "stored_bytes st oid kind bs \<longleftrightarrow>
     symlink_metadata (files st) (object_path_for_valid_oid oid kind) = Inr (File bs)"

lemma verify_raw_bytes_ok:
  assumes "parse_oid oid = Inr kind" "kind = Blob \<Longrightarrow> length bs \<le> max_blob_bytes lim"
  shows "verify_raw_bytes sha256 nfc lim oid kind bs = Inr body \<longleftrightarrow> object_bytes sha256 nfc lim oid kind bs body"
  using assms
  by (auto simp: verify_raw_bytes_def object_bytes_def verify_blob_oid_def
      verify_claimed_oid_unchecked_with_limits_def result_simps split: if_splits)

lemma structured_length:
  assumes "parse_strict_with_limits nfc lim bs = Inr v" shows "length bs \<le> max_input_bytes lim"
  using assms by (auto simp: parse_strict_with_limits_def result_simps split: if_splits)

lemma read_file_limited_ok:
  assumes "open_file t p = Some content" "limit \<le> usize_max"
  shows "read_file_limited t p (length content) limit = Inr bs \<longleftrightarrow> length content \<le> limit \<and> bs = content"
  using assms
  by (auto simp: read_file_limited_def open_object_def resource_limit_def Let_def result_simps split: option.splits)

lemma core_err_ok [simp]: "core_err (lift_err m) = Inr x \<longleftrightarrow> m = Inr x"
  by (simp add: result_simps)

lemma metadata_present:
  "regular_file_metadata_if_present t p oid = Inr (Some n) \<longleftrightarrow>
     (\<exists>bs. symlink_metadata t p = Inr (File bs) \<and> n = length bs)"
  "regular_file_metadata_if_present t p oid = Inr None \<longleftrightarrow> symlink_metadata t p = Inl NotFound"
  by (auto simp: regular_file_metadata_if_present_def split: sum.splits fs_node.splits io_error.splits)

lemma verified_body_ok:
  assumes lim: "store_limits_ok (st_limits st)" and kind: "parse_oid oid = Inr kind"
    and meta: "symlink_metadata (files st) p = Inr (File bs)"
  shows "verified_body sha256 nfc st oid kind p (length bs) = Inr body \<longleftrightarrow>
    object_bytes sha256 nfc (st_limits st) oid kind bs body"
proof -
  let ?lim = "st_limits st"
  have o': "open_file (files st) p = Some bs" using meta by (simp add: open_file_ok)
  have w: "max_blob_bytes ?lim \<le> usize_max" "0 < io_buffer_bytes ?lim"
      "max_input_bytes (structured_limits ?lim) \<le> usize_max"
    using lim by (auto simp: store_limits_ok_def limits_usize_def usize_max_def u64_max_def)
  show ?thesis
  proof (cases "kind = Blob")
    case True
    then show ?thesis using o' w
      by (auto simp: verified_body_def verify_blob_file_ok result_simps object_bytes_def)
  next
    case False
    then have "verify_raw_bytes sha256 nfc ?lim oid kind bs = Inr body \<longleftrightarrow> object_bytes sha256 nfc ?lim oid kind bs body"
      using kind by (intro verify_raw_bytes_ok) simp_all
    moreover have "object_bytes sha256 nfc ?lim oid kind bs body \<Longrightarrow> length bs \<le> max_input_bytes (structured_limits ?lim)"
      using False by (auto simp: object_bytes_def structured_length)
    ultimately show ?thesis using False o' w
      by (auto simp: verified_body_def read_file_limited_ok result_simps)
  qed
qed

lemma get_verified_present:
  assumes "parse_oid oid = Inr kind" "stored_bytes st oid kind bs"
  shows "get_verified sha256 nfc st oid =
    bindE (verified_body sha256 nfc st oid kind (object_path_for_valid_oid oid kind) (length bs)) (\<lambda>body.
      Inr (Some \<lparr> info = \<lparr> info_oid = oid, info_kind = kind, info_byte_len = length bs \<rparr>, structured = body \<rparr>))"
proof -
  have "regular_file_metadata_if_present (files st) (object_path_for_valid_oid oid kind) oid = Inr (Some (length bs))"
    using assms(2) by (simp add: metadata_present stored_bytes_def)
  then show ?thesis using assms(1) by (simp add: get_verified_def validated_object_path_def)
qed

lemma get_verified_cases:
  assumes "get_verified sha256 nfc st oid = Inr (Some ob)"
  obtains kind bs where "parse_oid oid = Inr kind" "stored_bytes st oid kind bs"
proof -
  from assms obtain kind metadata where k: "parse_oid oid = Inr kind"
    and m: "regular_file_metadata_if_present (files st) (object_path_for_valid_oid oid kind) oid = Inr metadata"
    and n: "metadata \<noteq> None"
    by (force simp: get_verified_def validated_object_path_def result_simps split: option.splits)
  from m n obtain bs where "stored_bytes st oid kind bs" by (auto simp: metadata_present stored_bytes_def)
  with k show thesis by (rule that)
qed

lemma get_verified_iff:
  assumes lim: "store_limits_ok (st_limits st)"
  shows "get_verified sha256 nfc st oid = Inr (Some ob) \<longleftrightarrow>
    (\<exists>kind bs. parse_oid oid = Inr kind \<and> stored_bytes st oid kind bs
       \<and> object_bytes sha256 nfc (st_limits st) oid kind bs (structured ob)
       \<and> info ob = \<lparr> info_oid = oid, info_kind = kind, info_byte_len = length bs \<rparr>)"
    (is "?L \<longleftrightarrow> (\<exists>kind bs. ?R kind bs)")
proof -
  have "?L \<longleftrightarrow> ?R kind bs" if "parse_oid oid = Inr kind" "stored_bytes st oid kind bs" for kind bs
    unfolding get_verified_present [OF that] using that verified_body_ok [OF lim that(1)]
    by (cases ob) (auto simp: result_simps stored_bytes_def)
  then show ?thesis by (meson get_verified_cases)
qed

lemma get_verified_missing:
  "get_verified sha256 nfc st oid = Inr None \<longleftrightarrow>
     (\<exists>kind. parse_oid oid = Inr kind
       \<and> symlink_metadata (files st) (object_path_for_valid_oid oid kind) = Inl NotFound)"
proof -
  have "bindE m (\<lambda>x. case x of None \<Rightarrow> Inr None | Some n \<Rightarrow> bindE (g n) (\<lambda>body. Inr (Some (f n body)))) = Inr None
      \<longleftrightarrow> m = Inr None" for m :: "nat option store_result" and g :: "nat \<Rightarrow> json option store_result"
      and f :: "nat \<Rightarrow> json option \<Rightarrow> verified_object"
    by (cases m) (auto simp: result_simps split: option.splits)
  then show ?thesis
    by (auto simp: get_verified_def validated_object_path_def bindE_eq_Inr metadata_present)
qed

section \<open>No operation takes an object away\<close>

text \<open>
  Two relations between the store before and after an operation: \<open>grows\<close> keeps every file at an
  object path, intact or not; \<open>keeps_objects\<close>, which also allows damaged files to be moved
  aside, keeps the intact ones.
\<close>

definition same_handle :: "file_store \<Rightarrow> file_store \<Rightarrow> bool" where
  "same_handle st st' \<longleftrightarrow> st_limits st' = st_limits st \<and> read_only st' = read_only st
     \<and> process_id st' = process_id st"

definition grows :: "file_store \<Rightarrow> file_store \<Rightarrow> bool" where
  "grows st st' \<longleftrightarrow> same_handle st st' \<and>
     (\<forall>oid kind n. symlink_metadata (files st) (object_path_for_valid_oid oid kind) = Inr n \<longrightarrow>
        symlink_metadata (files st') (object_path_for_valid_oid oid kind) = Inr n)"

definition keeps_objects :: "(bytes \<Rightarrow> bytes) \<Rightarrow> (str \<Rightarrow> str) \<Rightarrow> file_store \<Rightarrow> file_store \<Rightarrow> bool" where
  "keeps_objects sha256 nfc st st' \<longleftrightarrow> same_handle st st' \<and>
     (\<forall>oid kind bs body. parse_oid oid = Inr kind \<and> stored_bytes st oid kind bs
        \<and> object_bytes sha256 nfc (st_limits st) oid kind bs body \<longrightarrow> stored_bytes st' oid kind bs)"

lemma grows_refl [simp]: "grows st st"
  by (simp add: grows_def same_handle_def)

lemma grows_order: "reflp grows" "transp grows"
  by (auto simp: reflp_def transp_def grows_def same_handle_def)

lemma grows_trans: "grows a b \<Longrightarrow> grows b c \<Longrightarrow> grows a c"
  using grows_order(2) by (auto elim: transpE)

lemma keeps_order: "reflp (keeps_objects sha256 nfc)" "transp (keeps_objects sha256 nfc)"
  by (auto simp: reflp_def transp_def keeps_objects_def same_handle_def)

lemma grows_keeps: "grows st st' \<Longrightarrow> keeps_objects sha256 nfc st st'"
  by (auto simp: grows_def keeps_objects_def stored_bytes_def)

lemma moves_grows_keeps: "moves grows m \<Longrightarrow> moves (keeps_objects sha256 nfc) m"
  by (simp add: moves_def grows_keeps)

text \<open>Temporary and quarantine names never collide with an object path or a directory on it.\<close>

definition temp_shaped :: "path \<Rightarrow> bool" where
  "temp_shaped p \<longleftrightarrow> length p = 2 \<and> hd p = TEMP_DIRECTORY"

lemma ancestors_object_path:
  "set (fs_ancestors (object_path_for_valid_oid oid kind)) =
     {[OBJECTS_DIRECTORY], [OBJECTS_DIRECTORY, kind_prefix kind],
      [OBJECTS_DIRECTORY, kind_prefix kind, take 2 (oid_digest oid)]}"
  by (auto simp: fs_ancestors_def object_path_for_valid_oid_def upt_rec take_Cons')

lemma temp_not_object:
  assumes "temp_shaped p"
  shows "object_path_for_valid_oid oid kind \<noteq> p" "p \<notin> set (fs_ancestors (object_path_for_valid_oid oid kind))"
  using assms
  by (auto simp: temp_shaped_def ancestors_object_path)
    (auto simp: object_path_for_valid_oid_def OBJECTS_DIRECTORY_def TEMP_DIRECTORY_def)

lemma grows_fs_add: "fs_add (files st) p n = Inr t \<Longrightarrow> grows st (st\<lparr> files := t \<rparr>)"
  by (auto simp: grows_def same_handle_def intro: metadata_fs_add)

lemma grows_counter [simp]:
  "grows (st\<lparr> next_temp := c \<rparr>) st' \<longleftrightarrow> grows st st'" "grows st (st'\<lparr> next_temp := c \<rparr>) \<longleftrightarrow> grows st st'"
  by (simp_all add: grows_def same_handle_def)

lemma grows_drop_staged: "temp_shaped p \<Longrightarrow> grows st (drop_staged p st)"
  by (auto simp: grows_def same_handle_def drop_staged_def metadata_remove_file temp_not_object)

lemma moves_write_staged: "temp_shaped p \<Longrightarrow> moves grows (write_staged p bs)"
  by (auto simp: moves_def write_staged_def grows_def same_handle_def metadata_fs_write temp_not_object)

lemma moves_with_staged: "temp_shaped p \<Longrightarrow> moves grows m \<Longrightarrow> moves grows (with_staged p m)"
  unfolding moves_def with_staged_def
  by (auto split: prod.splits) (metis grows_drop_staged grows_trans snd_conv)

lemma moves_staged_on_error: "temp_shaped p \<Longrightarrow> moves grows m \<Longrightarrow> moves grows (staged_on_error p m)"
  unfolding moves_def staged_on_error_def
  by (auto split: prod.splits sum.splits) (metis grows_drop_staged grows_trans snd_conv)+

lemma staged_attempts_moves: "moves grows (staged_attempts n)"
proof -
  have "grows st (snd (staged_attempts n st))" for st
  proof (induction n arbitrary: st)
    case (Suc n)
    let ?st = "st\<lparr> next_temp := (next_temp st + 1) mod (u64_max + 1) \<rparr>"
    show ?case
    proof (cases "fs_add (files st) (temp_path (process_id st) (next_temp st)) (File [])")
      case (Inl e)
      then show ?thesis using Suc.IH [of ?st] by (cases e) (simp_all add: Let_def)
    next
      case (Inr t)
      then have "grows ?st (?st\<lparr> files := t \<rparr>)" by (intro grows_fs_add) simp
      then show ?thesis using Inr by (simp add: Let_def)
    qed
  qed simp
  then show ?thesis by (simp add: moves_def)
qed

lemma staged_attempts_temp: "staged_attempts n st = (Inr p, st') \<Longrightarrow> temp_shaped p"
  by (induction n arbitrary: st)
    (auto simp: Let_def temp_shaped_def temp_path_def split: sum.splits io_error.splits)

lemma moves_bindA_result:
  assumes "transp R" "moves R m" "\<And>x s t. m s = (Inr x, t) \<Longrightarrow> moves R (f x)"
  shows "moves R (bindA m f)"
  using assms unfolding moves_def bindA_def
  by (auto split: prod.splits sum.splits) (metis snd_conv transpE)+

lemma moves_ensure_directory: "moves grows (ensure_directory p)"
  unfolding moves_def ensure_directory_def ensure_real_directory_def
  by (auto simp: result_simps grows_fs_add split: sum.splits io_error.splits if_splits)

lemma moves_link_object: "moves grows (link_object staged target oid)"
  unfolding moves_def link_object_def
  by (auto simp: grows_fs_add split: option.splits sum.splits io_error.splits)

lemmas grows_moves = moves_readA [OF grows_order(1)] moves_resultA [OF grows_order(1)]
  moves_ensure_directory moves_link_object moves_write_staged moves_with_staged moves_staged_on_error

lemma create_staged_file_moves: "moves grows create_staged_file"
  unfolding create_staged_file_def
  by (intro moves_bindA grows_order grows_moves staged_attempts_moves)

lemma create_staged_file_temp: "create_staged_file st = (Inr p, st') \<Longrightarrow> temp_shaped p"
  by (auto simp: create_staged_file_def bindA_readA split: sum.splits dest: staged_attempts_temp)

lemma bindA_Inr_cases:
  assumes "bindA m f s = (Inr y, u)"
  obtains x t where "m s = (Inr x, t)" "f x t = (Inr y, u)"
  using assms by (auto simp: bindA_def split: prod.splits sum.splits)

lemma staged_on_error_Inr [simp]: "staged_on_error p m st = (Inr x, st') \<longleftrightarrow> m st = (Inr x, st')"
  by (auto simp: staged_on_error_def split: prod.splits sum.splits)

text \<open>A staged file, once it exists, holds exactly the bytes that were hashed.\<close>

lemma fs_add_open_file: "fs_add t p (File bs) = Inr u \<Longrightarrow> open_file u p = Some bs"
  by (simp add: open_file_ok metadata_fs_add_new)

lemma staged_attempts_open: "staged_attempts n st = (Inr p, st') \<Longrightarrow> open_file (files st') p = Some []"
  by (induction n arbitrary: st)
    (auto simp: Let_def fs_add_open_file split: sum.splits io_error.splits)

lemma create_staged_file_ok:
  assumes "create_staged_file st = (Inr p, st')"
  shows "temp_shaped p" "open_file (files st') p = Some []" "\<not> read_only st" "same_handle st st'"
proof -
  show "temp_shaped p" by (rule create_staged_file_temp [OF assms])
  have "\<not> read_only st \<and> staged_attempts 1024 st = (Inr p, st')"
    using assms by (auto simp: create_staged_file_def bindA_readA ensure_writable_store_def split: if_splits)
  then show "\<not> read_only st" "open_file (files st') p = Some []" using staged_attempts_open by blast+
  show "same_handle st st'" using movesD [OF create_staged_file_moves assms] by (simp add: grows_def)
qed

lemma write_staged_ok:
  assumes "write_staged p bs st = (Inr u, st')" "open_file (files st) p = Some old"
  shows "open_file (files st') p = Some bs" "same_handle st st'"
  using assms by (auto simp: write_staged_def open_file_ok same_handle_def intro: metadata_fs_write_same)

lemma stage_blob_moves: "moves grows (stage_blob sha256 claimed reader)"
  unfolding stage_blob_def Let_def
  by (intro moves_bindA_result grows_order grows_moves create_staged_file_moves)
    (auto split: prod.splits intro!: moves_staged_on_error moves_bindA grows_order grows_moves dest: create_staged_file_temp)

lemma stage_structured_moves: "moves grows (stage_structured sha256 nfc claimed input req)"
  unfolding stage_structured_def
  by (intro moves_bindA_result grows_order grows_moves create_staged_file_moves)
    (auto dest: create_staged_file_temp)

lemma stage_blob_ok:
  assumes "stage_blob sha256 claimed reader st = (Inr (staged, oid, n), st')" "store_limits_ok (st_limits st)"
  obtains content where "reader_bytes reader = Some content" "oid = blob_oid sha256 content"
    "n = length content" "length content \<le> max_blob_bytes (st_limits st)" "claimed = None \<or> claimed = Some oid"
    "temp_shaped staged" "open_file (files st') staged = Some content"
proof -
  from assms(1) obtain st1 content m where c: "create_staged_file st = (Inr staged, st1)"
    and s: "stream_blob (max_blob_bytes (st_limits st1)) [] 0 reader = Inr (content, m)"
    and w: "write_staged staged content st1 = (Inr (), st')"
    and r: "check_claimed claimed oid = Inr ()" "oid = blob_oid sha256 content" "n = m"
    unfolding stage_blob_def Let_def
    by (auto elim!: bindA_Inr_cases simp: blob_oid_def sha256_hex_def split: prod.splits)
  note ok = create_staged_file_ok [OF c]
  have lim: "max_blob_bytes (st_limits st1) = max_blob_bytes (st_limits st)"
      "max_blob_bytes (st_limits st) \<le> usize_max"
    using ok(4) assms(2) by (auto simp: same_handle_def store_limits_ok_def u64_max_def usize_max_def)
  from s lim have "reader_bytes reader = Some content" "m = length content" "length content \<le> max_blob_bytes (st_limits st)"
    by (auto simp: stream_blob_ok)
  moreover have "claimed = None \<or> claimed = Some oid"
    using r(1) by (auto simp: check_claimed_def split: option.splits if_splits)
  ultimately show thesis using that ok r write_staged_ok [OF w ok(2)] by metis
qed

lemma stage_structured_ok:
  assumes "stage_structured sha256 nfc claimed input req st = (Inr (staged, oid, n), st')"
  obtains v canonical where "parse_strict_with_limits nfc (structured_limits (st_limits st)) input = Inr v"
    "canonical_json_with_limits nfc (structured_limits (st_limits st)) v = Inr canonical"
    "structured_oid_unchecked_with_limits sha256 nfc (structured_limits (st_limits st)) v = Inr oid"
    "n = length canonical" "req \<longrightarrow> input = canonical" "claimed = None \<or> claimed = Some oid"
    "temp_shaped staged" "open_file (files st') staged = Some canonical"
proof -
  from assms obtain v canonical st1 where
    v: "parse_strict_with_limits nfc (structured_limits (st_limits st)) input = Inr v"
      "canonical_json_with_limits nfc (structured_limits (st_limits st)) v = Inr canonical"
      "structured_oid_unchecked_with_limits sha256 nfc (structured_limits (st_limits st)) v = Inr oid"
      "\<not> (req \<and> input \<noteq> canonical)" "n = length canonical"
    and r: "check_claimed claimed oid = Inr ()"
    and c: "create_staged_file st = (Inr staged, st1)" and w: "write_staged staged canonical st1 = (Inr (), st')"
    unfolding stage_structured_def
    by (auto elim!: bindA_Inr_cases simp: result_simps split: if_splits)
  have "claimed = None \<or> claimed = Some oid"
    using r by (auto simp: check_claimed_def split: option.splits if_splits)
  with v create_staged_file_ok [OF c] write_staged_ok [OF w] show thesis using that by blast
qed

lemma publish_staged_moves: "temp_shaped staged \<Longrightarrow> moves grows (publish_staged staged oid kind n)"
  unfolding publish_staged_def Let_def
  by (intro moves_with_staged moves_bindA grows_order grows_moves)

lemma link_object_ok:
  assumes "link_object staged target oid st = (Inr d, st')" "open_file (files st) staged = Some content"
    and "0 < io_buffer_bytes (st_limits st)"
  shows "symlink_metadata (files st') target = Inr (File content)"
proof (cases "fs_add (files st) target (File content)")
  case (Inr t)
  with assms show ?thesis using metadata_fs_add_new [OF Inr] by (auto simp: link_object_def)
next
  case (Inl e)
  with assms show ?thesis
    by (cases e) (auto simp: link_object_def compare_regular_files_def open_object_def result_simps compare_chunks
      split: sum.splits fs_node.splits if_splits)
qed

lemma publish_staged_ok:
  assumes "publish_staged staged oid kind n st = (Inr r, st')" "open_file (files st) staged = Some content"
    and "0 < io_buffer_bytes (st_limits st)" "temp_shaped staged"
  shows "stored_bytes st' oid kind content"
    and "info_oid r = oid" "info_kind r = kind" "info_byte_len r = n" "\<not> read_only st"
proof -
  from assms(1) obtain st1 st2 d where w: "\<not> read_only st"
    and e: "ensure_directory (butlast (object_path_for_valid_oid oid kind)) st = (Inr (), st1)"
    and l: "link_object staged (object_path_for_valid_oid oid kind) oid st1 = (Inr d, st2)"
    and r: "r = \<lparr> info_oid = oid, info_kind = kind, info_byte_len = n, disposition = d \<rparr>" "st' = drop_staged staged st2"
    unfolding publish_staged_def with_staged_def Let_def
    by (auto elim!: bindA_Inr_cases simp: ensure_writable_store_def split: prod.splits if_splits)
  have "open_file (files st1) staged = Some content"
    using e assms(2)
    by (auto simp: ensure_directory_def ensure_real_directory_def open_file_ok result_simps
        split: sum.splits io_error.splits if_splits intro: metadata_fs_add)
  moreover have "0 < io_buffer_bytes (st_limits st1)"
    using movesD [OF moves_ensure_directory e] assms(3) by (simp add: grows_def same_handle_def)
  ultimately have "symlink_metadata (files st2) (object_path_for_valid_oid oid kind) = Inr (File content)"
    by (rule link_object_ok [OF l])
  then show "stored_bytes st' oid kind content"
    using grows_drop_staged [OF assms(4), of st2] r(2) by (simp add: grows_def stored_bytes_def)
  show "info_oid r = oid" "info_kind r = kind" "info_byte_len r = n" "\<not> read_only st" using r w by simp_all
qed

lemma put_blob_inner_moves: "moves grows (put_blob_inner sha256 claimed reader)"
  unfolding put_blob_inner_def
proof (rule moves_bindA_result [OF grows_order(2) stage_blob_moves], clarify)
  fix staged oid n st st'
  assume s: "stage_blob sha256 claimed reader st = (Inr (staged, oid, n), st')"
  then have "\<exists>st1. create_staged_file st = (Inr staged, st1)"
    unfolding stage_blob_def Let_def by (auto elim!: bindA_Inr_cases split: prod.splits)
  then have "temp_shaped staged" by (auto dest: create_staged_file_temp)
  then show "moves grows (publish_staged staged oid Blob n)" by (rule publish_staged_moves)
qed

lemma put_structured_inner_moves: "moves grows (put_structured_inner sha256 nfc claimed input req)"
  unfolding put_structured_inner_def
proof (rule moves_bindA_result [OF grows_order(2) stage_structured_moves], clarify)
  fix staged oid n st st'
  assume "stage_structured sha256 nfc claimed input req st = (Inr (staged, oid, n), st')"
  then have "temp_shaped staged" by (rule stage_structured_ok)
  then show "moves grows (bindA (staged_on_error staged (resultA (core_err (lift_err (parse_oid oid)))))
      (\<lambda>kind. publish_staged staged oid kind n))"
    by (intro moves_bindA grows_order moves_staged_on_error grows_moves publish_staged_moves)
qed

lemma put_moves:
  "moves grows (put_blob sha256 reader)"
  "moves grows (put_blob_claimed sha256 claimed reader)"
  "moves grows (put_structured_unchecked sha256 nfc input)"
  "moves grows (put_structured_claimed_unchecked sha256 nfc claimed input)"
  "moves grows (put_verified_raw sha256 nfc claimed input)"
proof -
  show blob: "moves grows (put_blob_claimed sha256 claimed reader)" for reader
    unfolding put_blob_claimed_def
    by (intro moves_bindA grows_order grows_moves) (auto intro: put_blob_inner_moves grows_moves)
  show "moves grows (put_verified_raw sha256 nfc claimed input)"
    unfolding put_verified_raw_def
    by (intro moves_bindA grows_order grows_moves)
      (auto intro!: put_structured_inner_moves moves_bindA grows_order grows_moves blob)
  show "moves grows (put_blob sha256 reader)"
    unfolding put_blob_def by (intro moves_bindA grows_order grows_moves put_blob_inner_moves)
  show "moves grows (put_structured_unchecked sha256 nfc input)"
    unfolding put_structured_unchecked_def
    by (intro moves_bindA grows_order grows_moves put_structured_inner_moves)
  show "moves grows (put_structured_claimed_unchecked sha256 nfc claimed input)"
    unfolding put_structured_claimed_unchecked_def
    by (intro moves_bindA grows_order grows_moves put_structured_inner_moves)
qed

lemma oid_digest_format: "is_digest d \<Longrightarrow> oid_digest (format_oid kind d) = d"
  by (simp add: oid_digest_def split_format_oid)

lemma object_path_inject:
  assumes "parse_oid oid = Inr kind" "parse_oid oid' = Inr kind'"
    and "object_path_for_valid_oid oid kind = object_path_for_valid_oid oid' kind'"
  shows "oid = oid' \<and> kind = kind'"
proof -
  from assms(1,2) obtain d d' where d: "is_digest d" "oid = format_oid kind d" "is_digest d'" "oid' = format_oid kind' d'"
    by (metis parse_oid_cases)
  with assms(3) have "kind_prefix kind = kind_prefix kind'" "take 2 d = take 2 d'" "drop 2 d = drop 2 d'"
    by (simp_all add: object_path_for_valid_oid_def oid_digest_format)
  then have "kind = kind'" "d = d'"
    by (metis kind_names.decode_encode option.inject, metis append_take_drop_id)
  with d show ?thesis by simp
qed

definition damaged ::
    "(bytes \<Rightarrow> bytes) \<Rightarrow> (str \<Rightarrow> str) \<Rightarrow> file_store \<Rightarrow> str \<Rightarrow> object_kind \<Rightarrow> bool" where
  "damaged sha256 nfc st oid kind \<longleftrightarrow>
     (\<exists>n. symlink_metadata (files st) (object_path_for_valid_oid oid kind) = Inr n
        \<and> (\<forall>bs body. n = File bs \<longrightarrow> \<not> object_bytes sha256 nfc (st_limits st) oid kind bs body))"

lemma damaged_grows: "grows st st' \<Longrightarrow> damaged sha256 nfc st oid kind \<Longrightarrow> damaged sha256 nfc st' oid kind"
  by (auto simp: grows_def same_handle_def damaged_def)

lemma corrupt_damaged:
  assumes "store_limits_ok (st_limits st)" "parse_oid oid = Inr kind"
    and "get_verified sha256 nfc st oid = fails (CorruptObject c)"
  shows "damaged sha256 nfc st oid kind"
proof (cases "symlink_metadata (files st) (object_path_for_valid_oid oid kind)")
  case (Inl e)
  with assms(2,3) show ?thesis
    by (cases e) (auto simp: get_verified_def validated_object_path_def regular_file_metadata_if_present_def)
next
  case (Inr n)
  have "\<not> object_bytes sha256 nfc (st_limits st) oid kind bs body" if "n = File bs" for bs body
  proof
    assume ob: "object_bytes sha256 nfc (st_limits st) oid kind bs body"
    have "get_verified sha256 nfc st oid =
        Inr (Some \<lparr> info = \<lparr> info_oid = oid, info_kind = kind, info_byte_len = length bs \<rparr>, structured = body \<rparr>)"
      using ob that Inr assms(2) by (subst get_verified_iff [OF assms(1)]) (auto simp: stored_bytes_def)
    with assms(3) show False by simp
  qed
  with Inr show ?thesis by (auto simp: damaged_def)
qed

lemma quarantine_attempts_keeps:
  assumes "parse_oid oid = Inr kind" "damaged sha256 nfc st oid kind"
  shows "keeps_objects sha256 nfc st (snd (quarantine_attempts oid kind a n st))"
proof (induction n arbitrary: a)
  case 0
  then show ?case using keeps_order(1) [of sha256 nfc] by (simp add: reflp_def)
next
  case (Suc n)
  let ?src = "object_path_for_valid_oid oid kind" and ?dst = "quarantine_name oid kind a"
  have refl: "keeps_objects sha256 nfc st st" using keeps_order(1) by (rule reflpD)
  have "keeps_objects sha256 nfc st (st\<lparr> files := t \<rparr>)" if "fs_rename (files st) ?src ?dst = Inr t" for t
    unfolding keeps_objects_def same_handle_def
  proof (intro conjI allI impI, simp_all, elim conjE)
    fix oid' kind' bs body
    assume p: "parse_oid oid' = Inr kind'" and s: "stored_bytes st oid' kind' bs"
      and b: "object_bytes sha256 nfc (st_limits st) oid' kind' bs body"
    let ?q = "object_path_for_valid_oid oid' kind'"
    have "?src \<noteq> ?q"
    proof
      assume "?src = ?q"
      then have "oid = oid'" "kind = kind'" using object_path_inject [OF assms(1) p] by blast+
      with s b assms(2) show False by (auto simp: damaged_def stored_bytes_def)
    qed
    then have "\<not> under ?src ?q" by (auto simp: under_def object_path_for_valid_oid_def)
    then show "stored_bytes (st\<lparr> files := t \<rparr>) oid' kind' bs"
      using metadata_fs_rename [OF that, of ?q "File bs"] s
      by (simp add: stored_bytes_def object_path_for_valid_oid_def quarantine_name_def
          OBJECTS_DIRECTORY_def QUARANTINE_DIRECTORY_def)
  qed
  with Suc.IH refl show ?case by (auto simp: Let_def split: sum.splits io_error.splits)
qed

lemma quarantine_object_keeps:
  assumes "parse_oid oid = Inr kind" "damaged sha256 nfc st oid kind"
  shows "keeps_objects sha256 nfc st (snd (quarantine_object oid kind st))"
proof (cases "ensure_directory [QUARANTINE_DIRECTORY] st")
  case (Pair r st1)
  have g: "grows st st1" by (rule movesD [OF moves_ensure_directory Pair])
  show ?thesis
  proof (cases r)
    case (Inr u)
    have "keeps_objects sha256 nfc st1 (snd (quarantine_attempts oid kind 0 1024 st1))"
      by (intro quarantine_attempts_keeps assms(1) damaged_grows [OF g assms(2)])
    then show ?thesis
      using Pair Inr transpD [OF keeps_order(2) grows_keeps [OF g]]
      by (simp add: quarantine_object_def bindA_def)
  qed (use Pair g in \<open>simp add: quarantine_object_def bindA_def grows_keeps\<close>)
qed

lemma object_state_corrupt:
  assumes "object_state sha256 nfc st oid = Inr (ObjCorrupt k)" "store_limits_ok (st_limits st)"
    "parse_oid oid = Inr kind"
  shows "damaged sha256 nfc st oid kind"
proof -
  from assms obtain c where "get_verified sha256 nfc st oid = fails (CorruptObject c)"
    by (auto simp: object_state_def split: sum.splits fault.splits store_error.splits option.splits)
  then show ?thesis using corrupt_damaged assms by blast
qed

lemma quarantine_if_corrupt_keeps:
  assumes "store_limits_ok (st_limits st)"
  shows "keeps_objects sha256 nfc st (snd (quarantine_if_corrupt sha256 nfc oid st))"
proof -
  have refl: "keeps_objects sha256 nfc st st" using keeps_order(1) by (rule reflpD)
  have "keeps_objects sha256 nfc st (snd (bindA (quarantine_object oid kind) (\<lambda>p. resultA (Inr (Some p))) st))"
    if "parse_oid oid = Inr kind" "object_state sha256 nfc st oid = Inr (ObjCorrupt k)" for kind k
    using quarantine_object_keeps [OF that(1) object_state_corrupt [OF that(2) assms that(1)]]
    by (auto simp: bindA_def split: prod.splits sum.splits)
  with refl show ?thesis
    unfolding quarantine_if_corrupt_def bindA_readA
    by (auto simp: bindA_readA bindA_def [of "resultA _"] result_simps split: sum.splits object_state.splits)
qed

lemma stage_repair_moves: "moves grows (stage_repair sha256 nfc oid kind reader)"
  unfolding stage_repair_def
  by (auto intro!: stage_blob_moves moves_bindA grows_order grows_moves stage_structured_moves)

lemma stage_repair_ok:
  assumes "stage_repair sha256 nfc oid kind reader st = (Inr (staged, oid', n), st')"
    and "store_limits_ok (st_limits st)"
  obtains content body where "oid' = oid" "temp_shaped staged" "open_file (files st') staged = Some content"
    "object_bytes sha256 nfc (st_limits st) oid kind content body"
proof (cases "kind = Blob")
  case True
  with assms(1) have "stage_blob sha256 (Some oid) reader st = (Inr (staged, oid', n), st')"
    by (simp add: stage_repair_def)
  from stage_blob_ok [OF this assms(2)] True show thesis using that by (auto simp: object_bytes_def)
next
  case False
  with assms(1) obtain input where "stage_structured sha256 nfc (Some oid) input True st = (Inr (staged, oid', n), st')"
    by (auto simp: stage_repair_def bindA_readA split: sum.splits)
  then obtain v canonical where v: "parse_strict_with_limits nfc (structured_limits (st_limits st)) input = Inr v"
      "canonical_json_with_limits nfc (structured_limits (st_limits st)) v = Inr canonical"
      "structured_oid_unchecked_with_limits sha256 nfc (structured_limits (st_limits st)) v = Inr oid'"
    and eq: "True \<longrightarrow> input = canonical" "Some oid = None \<or> Some oid = Some oid'"
    and f: "temp_shaped staged" "open_file (files st') staged = Some canonical"
    by (rule stage_structured_ok)
  have oid: "oid' = oid" using eq(2) by simp
  have "canonical = input" using eq(1) by simp
  with v f oid have v: "parse_strict_with_limits nfc (structured_limits (st_limits st)) input = Inr v"
      "canonical_json_with_limits nfc (structured_limits (st_limits st)) v = Inr input"
      "structured_oid_unchecked_with_limits sha256 nfc (structured_limits (st_limits st)) v = Inr oid"
      "oid' = oid" "temp_shaped staged" "open_file (files st') staged = Some input"
    by simp_all
  then have "object_bytes sha256 nfc (st_limits st) oid kind input (Some v)"
    using False by (simp add: object_bytes_def)
  then show thesis using v(4-6) by (rule that [rotated 3])
qed

lemma staged_on_error_keeps:
  assumes "temp_shaped p" "keeps_objects sha256 nfc st (snd (m st))"
  shows "keeps_objects sha256 nfc st (snd (staged_on_error p m st))"
  using assms transpD [OF keeps_order(2) assms(2) grows_keeps [OF grows_drop_staged [OF assms(1)]]]
  by (auto simp: staged_on_error_def split: prod.splits sum.splits)

lemma bindA_keeps:
  assumes "keeps_objects sha256 nfc st (snd (m st))" "\<And>x. moves grows (f x)"
  shows "keeps_objects sha256 nfc st (snd (bindA m f st))"
proof (cases "m st")
  case (Pair r st1)
  show ?thesis
  proof (cases r)
    case (Inr x)
    have "keeps_objects sha256 nfc st1 (snd (f x st1))" using assms(2) by (auto simp: moves_def grows_keeps)
    then show ?thesis using transpD [OF keeps_order(2) assms(1)] Pair Inr by (simp add: bindA_def)
  qed (use Pair assms(1) in \<open>simp add: bindA_def\<close>)
qed

lemma finish_repair_keeps:
  assumes lim: "store_limits_ok (st_limits st)" and kind: "parse_oid oid = Inr kind" and t: "temp_shaped staged"
  shows "keeps_objects sha256 nfc st (snd (finish_repair sha256 nfc kind staged oid n st))"
proof (cases "object_state sha256 nfc st oid")
  case (Inl e)
  then show ?thesis
    using grows_keeps [OF grows_drop_staged [OF t]]
    by (simp add: finish_repair_def bindA_def staged_on_error_def)
next
  case (Inr s)
  have unfold: "finish_repair sha256 nfc kind staged oid n st = (case s of
       ObjPresent _ \<Rightarrow> with_staged staged (resultA (Inr AlreadyIntact))
     | ObjMissing \<Rightarrow> bindA (publish_staged staged oid kind n) (\<lambda>_. resultA (Inr (Restored None)))
     | ObjCorrupt _ \<Rightarrow> bindA (staged_on_error staged (quarantine_object oid kind)) (\<lambda>quarantined.
         bindA (publish_staged staged oid kind n) (\<lambda>_. resultA (Inr (Restored (Some quarantined)))))) st"
    using Inr by (simp add: finish_repair_def bindA_def staged_on_error_def)
  have pub: "moves grows (bindA (publish_staged staged oid kind n) (\<lambda>_. resultA (Inr r)))" for r :: repair
    by (intro moves_bindA grows_order grows_moves publish_staged_moves t)
  show ?thesis
  proof (cases s)
    case (ObjPresent i)
    then show ?thesis unfolding unfold
      using grows_keeps [OF grows_drop_staged [OF t]] by (simp add: with_staged_def)
  next
    case ObjMissing
    then show ?thesis unfolding unfold
      using moves_grows_keeps [OF pub] by (simp add: moves_def)
  next
    case (ObjCorrupt k)
    with Inr have "damaged sha256 nfc st oid kind" using object_state_corrupt lim kind by blast
    then show ?thesis unfolding unfold
      using ObjCorrupt by (simp add: bindA_keeps staged_on_error_keeps t quarantine_object_keeps kind pub)
  qed
qed

lemma repair_object_keeps:
  assumes "store_limits_ok (st_limits st)"
  shows "keeps_objects sha256 nfc st (snd (repair_object sha256 nfc oid reader st))"
proof (cases "read_only st \<or> (\<nexists>kind. parse_oid oid = Inr kind)")
  case True
  then have "snd (repair_object sha256 nfc oid reader st) = st"
    by (cases "parse_oid oid") (auto simp: repair_object_def bindA_readA ensure_writable_store_def)
  then show ?thesis using reflpD [OF keeps_order(1)] by metis
next
  case False
  then obtain kind where kind: "parse_oid oid = Inr kind" and w: "\<not> read_only st" by blast
  have u: "repair_object sha256 nfc oid reader st =
      bindA (stage_repair sha256 nfc oid kind reader) (\<lambda>(staged, oid, n). finish_repair sha256 nfc kind staged oid n) st"
    using kind w by (simp add: repair_object_def bindA_readA ensure_writable_store_def)
  show ?thesis
  proof (cases "stage_repair sha256 nfc oid kind reader st")
    case (Pair r st1)
    have g: "grows st st1" by (rule movesD [OF stage_repair_moves Pair])
    show ?thesis
    proof (cases r)
      case (Inl e)
      then show ?thesis using Pair u g by (simp add: bindA_def grows_keeps)
    next
      case (Inr x)
      obtain staged oid' n where x: "x = (staged, oid', n)" by (cases x)
      have "oid' = oid" "temp_shaped staged"
        using stage_repair_ok [OF Pair [unfolded Inr x] assms] by metis+
      moreover have "store_limits_ok (st_limits st1)" using g assms by (simp add: grows_def same_handle_def)
      ultimately have "keeps_objects sha256 nfc st1 (snd (finish_repair sha256 nfc kind staged oid n st1))"
        using finish_repair_keeps kind by blast
      then show ?thesis
        using transpD [OF keeps_order(2) grows_keeps [OF g]] Pair Inr x u \<open>oid' = oid\<close> by (simp add: bindA_def)
    qed
  qed
qed

section \<open>Histories of operations\<close>

datatype store_op =
    PutBlob "bytes option list"
  | PutBlobClaimed str "bytes option list"
  | PutStructured bytes
  | PutStructuredClaimed str bytes
  | PutVerifiedRaw str bytes
  | RepairObject str "bytes option list"
  | QuarantineIfCorrupt str

primrec apply_op :: "(bytes \<Rightarrow> bytes) \<Rightarrow> (str \<Rightarrow> str) \<Rightarrow> file_store \<Rightarrow> store_op \<Rightarrow> file_store" where
  "apply_op sha256 nfc st (PutBlob r) = snd (put_blob sha256 r st)"
| "apply_op sha256 nfc st (PutBlobClaimed c r) = snd (put_blob_claimed sha256 c r st)"
| "apply_op sha256 nfc st (PutStructured bs) = snd (put_structured_unchecked sha256 nfc bs st)"
| "apply_op sha256 nfc st (PutStructuredClaimed c bs) = snd (put_structured_claimed_unchecked sha256 nfc c bs st)"
| "apply_op sha256 nfc st (PutVerifiedRaw c bs) = snd (put_verified_raw sha256 nfc c bs st)"
| "apply_op sha256 nfc st (RepairObject oid r) = snd (repair_object sha256 nfc oid r st)"
| "apply_op sha256 nfc st (QuarantineIfCorrupt oid) = snd (quarantine_if_corrupt sha256 nfc oid st)"

lemma apply_op_keeps:
  assumes "store_limits_ok (st_limits st)"
  shows "keeps_objects sha256 nfc st (apply_op sha256 nfc st ev)"
  by (cases ev)
    (use put_moves [THEN moves_grows_keeps] in
      \<open>auto simp: moves_def repair_object_keeps quarantine_if_corrupt_keeps assms\<close>)

interpretation object_history: event_system "\<lambda>st. st = st0 \<and> store_limits_ok (st_limits st0)"
    "\<lambda>st ev. Inr (apply_op sha256 nfc st ev) :: store_error + file_store"
    "\<lambda>st. store_limits_ok (st_limits st) \<and> keeps_objects sha256 nfc st0 st"
  for st0 sha256 nfc
proof
  fix st
  assume "st = st0 \<and> store_limits_ok (st_limits st0)"
  then show "store_limits_ok (st_limits st) \<and> keeps_objects sha256 nfc st0 st"
    using reflpD [OF keeps_order(1)] by metis
next
  fix st ev st'
  assume inv: "store_limits_ok (st_limits st) \<and> keeps_objects sha256 nfc st0 st"
    and "Inr (apply_op sha256 nfc st ev) = (Inr st' :: store_error + file_store)"
  then have "keeps_objects sha256 nfc st st'" using apply_op_keeps by blast
  with inv show "store_limits_ok (st_limits st') \<and> keeps_objects sha256 nfc st0 st'"
    using transpD [OF keeps_order(2)] by (metis keeps_objects_def same_handle_def)
qed

section \<open>What was put is what is read\<close>

lemma find_entry_map_of: "find_entry es k = map_of es k"
  by (induction es k rule: find_entry.induct) auto

lemma map_of_sort_entries: "distinct (map fst es) \<Longrightarrow> map_of (sort_entries es) = map_of es"
  by (rule map_of_inject_set [THEN iffD2]) (simp_all add: distinct_sort_entries)

lemma map_of_map_snd: "map_of (map (\<lambda>e. (fst e, f (snd e))) es) k = map_option f (map_of es k)"
  by (induction es) auto

lemma json_get_key_ordered:
  assumes "json_fits nfc lim d v"
  shows "json_get (key_ordered v) k = map_option key_ordered (json_get v k)"
  using assms
  by (cases v) (simp_all add: find_entry_map_of map_of_sort_entries comp_def map_of_map_snd)

lemma as_str_key_ordered: "as_str (key_ordered v) = as_str v"
  by (cases v) simp_all

text \<open>The canonical text of a value that was read reads back, under the same identifier.\<close>

definition limits_readable :: "store_limits \<Rightarrow> bool" where
  "limits_readable lim \<longleftrightarrow> store_limits_ok lim
     \<and> max_canonical_bytes (structured_limits lim) \<le> max_input_bytes (structured_limits lim)"

lemma object_bytes_canonical:
  assumes lim: "limits_readable lim" and kind: "kind \<noteq> Blob"
    and v: "parse_strict_with_limits nfc (structured_limits lim) input = Inr v"
    and c: "canonical_json_with_limits nfc (structured_limits lim) v = Inr canonical"
    and oid: "structured_oid_unchecked_with_limits sha256 nfc (structured_limits lim) v = Inr oid"
  shows "object_bytes sha256 nfc lim oid kind canonical (Some (key_ordered v))"
proof -
  let ?lim = "structured_limits lim"
  have u: "limits_usize ?lim" "max_canonical_bytes ?lim \<le> max_input_bytes ?lim"
    using lim by (auto simp: limits_readable_def store_limits_ok_def)
  have f: "json_fits nfc ?lim 0 v" "json_utf8 v" "json_nodes v \<le> max_nodes ?lim"
      "max_nesting_depth ?lim \<le> HARD_MAX_NESTING_DEPTH"
    using safely_value [OF parse_strict_safe v] by auto
  have out: "canonical = render v" "length (render v) \<le> max_canonical_bytes ?lim"
    using c by (simp_all add: canonical_json_iff [OF u(1)])
  have "parse_strict_with_limits nfc ?lim canonical = Inr (key_ordered v)"
    using f out u by (simp add: parse_render)
  moreover have c': "canonical_json_with_limits nfc ?lim (key_ordered v) = Inr canonical"
    using f out by (simp add: canonical_json_iff [OF u(1)])
  moreover have "Option.bind (json_get (key_ordered v) k) as_str = Option.bind (json_get v k) as_str" for k
    by (simp add: json_get_key_ordered [OF f(1)] Option.bind_map_option as_str_key_ordered comp_def)
  then have "structured_oid_unchecked_with_limits sha256 nfc ?lim (key_ordered v) = Inr oid"
    using oid c c' by (simp add: structured_oid_unchecked_with_limits_def)
  ultimately show ?thesis using kind by (simp add: object_bytes_def)
qed

text \<open>The object that a store holds under an OID.\<close>

definition object_at ::
    "(bytes \<Rightarrow> bytes) \<Rightarrow> (str \<Rightarrow> str) \<Rightarrow> file_store \<Rightarrow> str \<Rightarrow> object_kind \<Rightarrow> bytes \<Rightarrow> json option \<Rightarrow> bool" where
  "object_at sha256 nfc st oid kind bs body \<longleftrightarrow> parse_oid oid = Inr kind \<and> stored_bytes st oid kind bs
     \<and> object_bytes sha256 nfc (st_limits st) oid kind bs body"

lemma object_at_unique:
  "object_at sha256 nfc st oid kind bs body \<Longrightarrow> object_at sha256 nfc st oid kind' bs' body'
    \<Longrightarrow> kind = kind' \<and> bs = bs' \<and> body = body'"
  by (auto simp: object_at_def stored_bytes_def object_bytes_def split: if_splits)

lemma structured_oid_parse:
  assumes "\<And>b. length (sha256 b) = 32" "structured_oid_unchecked_with_limits sha256 nfc lim v = Inr oid"
  obtains k where "parse_oid oid = Inr k" "k \<noteq> Blob"
proof -
  from assms(2) obtain k body where k: "k \<noteq> Blob"
    "oid = format_oid k (lower_hex (sha256 (oid_domain (kind_prefix k) (length body) @ body)))"
    by (rule structured_oid_cases)
  moreover have "is_digest (lower_hex (sha256 b))" for b
    using sha256_hex_digest [of sha256 b] assms(1) by (simp add: sha256_hex_def)
  ultimately show thesis using that by (simp add: parse_format_oid)
qed

lemma limits_preserved: "moves grows m \<Longrightarrow> m st = (r, st') \<Longrightarrow> st_limits st' = st_limits st"
  by (auto dest: movesD simp: grows_def same_handle_def)

lemma put_blob_inner_ok:
  assumes "\<And>b. length (sha256 b) = 32" "store_limits_ok (st_limits st)"
    and put: "put_blob_inner sha256 claimed reader st = (Inr r, st')"
  obtains content where "reader_bytes reader = Some content" "info_oid r = blob_oid sha256 content"
    "info_kind r = Blob" "info_byte_len r = length content" "claimed = None \<or> claimed = Some (info_oid r)"
    "object_at sha256 nfc st' (info_oid r) Blob content None"
proof -
  from put obtain staged oid n st1 where s: "stage_blob sha256 claimed reader st = (Inr (staged, oid, n), st1)"
    and p: "publish_staged staged oid Blob n st1 = (Inr r, st')"
    unfolding put_blob_inner_def by (auto elim!: bindA_Inr_cases)
  obtain content where c: "reader_bytes reader = Some content" "oid = blob_oid sha256 content" "n = length content"
      "length content \<le> max_blob_bytes (st_limits st)" "claimed = None \<or> claimed = Some oid"
      "temp_shaped staged" "open_file (files st1) staged = Some content"
    using s assms(2) by (rule stage_blob_ok)
  have l: "st_limits st1 = st_limits st" "st_limits st' = st_limits st1"
    using limits_preserved [OF stage_blob_moves s] limits_preserved [OF publish_staged_moves [OF c(6)] p] by auto
  have b: "0 < io_buffer_bytes (st_limits st1)" using assms(2) l by (simp add: store_limits_ok_def)
  note pub = publish_staged_ok [OF p c(7) b c(6)]
  have "object_at sha256 nfc st' oid Blob content None"
    using pub(1) c l assms(1) by (simp add: object_at_def object_bytes_def parse_blob_oid)
  then show thesis using that c pub by simp
qed

lemma put_structured_inner_ok:
  assumes "\<And>b. length (sha256 b) = 32" "limits_readable (st_limits st)"
    and put: "put_structured_inner sha256 nfc claimed input req st = (Inr r, st')"
  obtains v canonical where "parse_strict_with_limits nfc (structured_limits (st_limits st)) input = Inr v"
    "canonical_json_with_limits nfc (structured_limits (st_limits st)) v = Inr canonical"
    "structured_oid_unchecked_with_limits sha256 nfc (structured_limits (st_limits st)) v = Inr (info_oid r)"
    "req \<longrightarrow> input = canonical" "info_byte_len r = length canonical" "claimed = None \<or> claimed = Some (info_oid r)"
    "object_at sha256 nfc st' (info_oid r) (info_kind r) canonical (Some (key_ordered v))"
proof -
  from put obtain staged oid n st1 kind where
    s: "stage_structured sha256 nfc claimed input req st = (Inr (staged, oid, n), st1)"
    and k: "parse_oid oid = Inr kind" and p: "publish_staged staged oid kind n st1 = (Inr r, st')"
    unfolding put_structured_inner_def by (auto elim!: bindA_Inr_cases)
  obtain v canonical where c: "parse_strict_with_limits nfc (structured_limits (st_limits st)) input = Inr v"
      "canonical_json_with_limits nfc (structured_limits (st_limits st)) v = Inr canonical"
      "structured_oid_unchecked_with_limits sha256 nfc (structured_limits (st_limits st)) v = Inr oid"
      "n = length canonical" "req \<longrightarrow> input = canonical" "claimed = None \<or> claimed = Some oid"
      "temp_shaped staged" "open_file (files st1) staged = Some canonical"
    using s by (rule stage_structured_ok)
  have l: "st_limits st1 = st_limits st" "st_limits st' = st_limits st1"
    using limits_preserved [OF stage_structured_moves s] limits_preserved [OF publish_staged_moves [OF c(7)] p] by auto
  have b: "0 < io_buffer_bytes (st_limits st1)"
    using assms(2) l by (simp add: limits_readable_def store_limits_ok_def)
  note pub = publish_staged_ok [OF p c(8) b c(7)]
  have "kind \<noteq> Blob" using structured_oid_parse [OF assms(1) c(3)] k by auto
  then have "object_at sha256 nfc st' oid kind canonical (Some (key_ordered v))"
    using pub(1) k l object_bytes_canonical [OF assms(2) _ c(1-3)] by (simp add: object_at_def)
  then show thesis using that c pub by simp
qed

section \<open>Writes succeed\<close>

text \<open>
  The room a write needs: the family directory exists, the prefix directory is there or absent,
  and no foreign file sits at the path of the object.
\<close>

definition room_for :: "tree \<Rightarrow> str \<Rightarrow> object_kind \<Rightarrow> bytes \<Rightarrow> bool" where
  "room_for t oid kind content \<longleftrightarrow>
     map_of t [OBJECTS_DIRECTORY] = Some Dir \<and> map_of t [OBJECTS_DIRECTORY, kind_prefix kind] = Some Dir
     \<and> map_of t [OBJECTS_DIRECTORY, kind_prefix kind, take 2 (oid_digest oid)] \<in> {None, Some Dir}
     \<and> map_of t (object_path_for_valid_oid oid kind) \<in> {None, Some (File content)}"

lemma ancestors_prefix:
  "fs_ancestors [a, b, c] = [[a], [a, b]]" "fs_ancestors [a, b, c, d] = [[a], [a, b], [a, b, c]]" "fs_ancestors [a, b] = [[a]]"
  by (simp_all add: fs_ancestors_def upt_rec)

lemma ensure_prefix_directory:
  assumes "map_of t [a] = Some Dir" "map_of t [a, b] = Some Dir" "map_of t [a, b, c] \<in> {None, Some Dir}"
  shows "ensure_real_directory t [a, b, c] = Inr (if map_of t [a, b, c] = None then ([a, b, c], Dir) # t else t)"
  using assms
  by (auto simp: ensure_real_directory_def symlink_metadata_def fs_add_def fs_parents_def ancestors_prefix)

lemma compare_same:
  assumes "open_file t staged = Some content" "symlink_metadata t target = Inr (File content)" "0 < buffer"
  shows "compare_regular_files t staged target buffer oid = Inr ()"
  using assms compare_chunks [of buffer oid content content] by (simp add: compare_regular_files_def open_object_def)

lemma publish_staged_succeeds:
  assumes t: "temp_shaped staged" "open_file (files st) staged = Some content"
    and w: "\<not> read_only st" "0 < io_buffer_bytes (st_limits st)"
    and room: "room_for (files st) oid kind content"
  shows "\<exists>r st'. publish_staged staged oid kind n st = (Inr r, st')
    \<and> (disposition r = Created \<longleftrightarrow> map_of (files st) (object_path_for_valid_oid oid kind) = None)"
proof -
  define target where "target = object_path_for_valid_oid oid kind"
  define parent where "parent = [OBJECTS_DIRECTORY, kind_prefix kind, take 2 (oid_digest oid)]"
  define tr where "tr = (if map_of (files st) parent = None then (parent, Dir) # files st else files st)"
  have target: "butlast target = parent" "set (fs_ancestors target) =
      {[OBJECTS_DIRECTORY], [OBJECTS_DIRECTORY, kind_prefix kind], parent}" "target \<noteq> parent"
    by (auto simp: target_def parent_def object_path_for_valid_oid_def ancestors_prefix)
  have "ensure_real_directory (files st) parent = Inr tr"
    using room unfolding tr_def parent_def by (intro ensure_prefix_directory) (auto simp: room_for_def)
  then have e: "ensure_directory parent st = (Inr (), st\<lparr> files := tr \<rparr>)" by (simp add: ensure_directory_def)
  have parents: "fs_parents tr target = Inr ()"
    using room by (auto simp: fs_parents_ok target(2) tr_def room_for_def parent_def)
  have same: "map_of tr target = map_of (files st) target" using target(3) by (simp add: tr_def)
  have open': "open_file tr staged = Some content"
    using t(2) by (auto simp: tr_def open_file_ok symlink_metadata_ok fs_parents_ok)
  have "\<exists>d st'. link_object staged target oid (st\<lparr> files := tr \<rparr>) = (Inr d, st')
      \<and> (d = Created \<longleftrightarrow> map_of (files st) target = None)"
  proof (cases "map_of (files st) target")
    case None
    then have "fs_add tr target (File content) = Inr ((target, File content) # tr)"
      using parents same by (simp add: fs_add_def)
    then show ?thesis using open' None by (simp add: link_object_def)
  next
    case (Some node)
    then have "symlink_metadata tr target = Inr (File content)" "fs_add tr target (File content) = Inl AlreadyExists"
      using room parents same by (auto simp: symlink_metadata_ok fs_add_def room_for_def target_def)
    then show ?thesis using open' Some w(2) by (simp add: link_object_def compare_same)
  qed
  then show ?thesis using w(1) e
    by (auto simp: publish_staged_def with_staged_def bindA_def ensure_writable_store_def
        target(1) simp flip: target_def)
qed

text \<open>The name the \<open>k\<close>-th attempt of the retry loop tries; the counter is an unsigned 64 bit one.\<close>

definition attempted_path :: "file_store \<Rightarrow> nat \<Rightarrow> path" where
  "attempted_path st k = temp_path (process_id st) ((next_temp st + k) mod (u64_max + 1))"

definition temp_available :: "file_store \<Rightarrow> bool" where
  "temp_available st \<longleftrightarrow> (\<exists>k<1024. map_of (files st) (attempted_path st k) = None)"

lemma attempted_path_next:
  "attempted_path (st\<lparr> next_temp := (next_temp st + 1) mod (u64_max + 1) \<rparr>) k = attempted_path st (Suc k)"
  by (simp add: attempted_path_def mod_add_left_eq)

lemma attempted_path_first: "next_temp st \<le> u64_max \<Longrightarrow> temp_path (process_id st) (next_temp st) = attempted_path st 0"
  by (simp add: attempted_path_def)

lemma attempt_result:
  assumes "map_of (files st) [TEMP_DIRECTORY] = Some Dir"
  shows "fs_add (files st) (temp_path pid c) (File []) =
    (if map_of (files st) (temp_path pid c) = None then Inr ((temp_path pid c, File []) # files st) else Inl AlreadyExists)"
  using assms by (auto simp: fs_add_def fs_parents_def temp_path_def ancestors_prefix)

lemma staged_attempts_free:
  assumes "map_of (files st) [TEMP_DIRECTORY] = Some Dir" "next_temp st \<le> u64_max"
    and "k < n" "map_of (files st) (attempted_path st k) = None"
    and "\<And>j. j < k \<Longrightarrow> map_of (files st) (attempted_path st j) \<noteq> None"
  shows "\<exists>c. staged_attempts n st =
    (Inr (attempted_path st k), st\<lparr> files := (attempted_path st k, File []) # files st, next_temp := c \<rparr>)"
  using assms
proof (induction n arbitrary: st k)
  case 0
  then show ?case by simp
next
  case (Suc n)
  let ?st = "st\<lparr> next_temp := (next_temp st + 1) mod (u64_max + 1) \<rparr>"
  note first = attempted_path_first [OF Suc.prems(2)] attempt_result [OF Suc.prems(1)]
  show ?case
  proof (cases k)
    case 0
    then have "staged_attempts (Suc n) st = (Inr (attempted_path st k), st\<lparr> files := (attempted_path st k, File []) # files st,
        next_temp := (next_temp st + 1) mod (u64_max + 1) \<rparr>)"
      using Suc.prems(4) first by (simp add: Let_def)
    then show ?thesis by blast
  next
    case (Suc i)
    have "next_temp ?st \<le> u64_max" by (simp add: less_Suc_eq_le [symmetric])
    then obtain c where "staged_attempts n ?st =
        (Inr (attempted_path st k), ?st\<lparr> files := (attempted_path st k, File []) # files st, next_temp := c \<rparr>)"
      using Suc.IH [of ?st i] Suc.prems unfolding attempted_path_next Suc by fastforce
    moreover have "map_of (files st) (attempted_path st 0) \<noteq> None" using Suc.prems(5) Suc by blast
    ultimately show ?thesis using first by (auto simp: Let_def)
  qed
qed

lemma staged_attempts_full:
  assumes "map_of (files st) [TEMP_DIRECTORY] = Some Dir" "next_temp st \<le> u64_max"
    and "\<And>k. k < n \<Longrightarrow> map_of (files st) (attempted_path st k) \<noteq> None"
  shows "\<exists>c. staged_attempts n st = (fails Io, st\<lparr> next_temp := c \<rparr>)"
  using assms
proof (induction n arbitrary: st)
  case 0
  have "staged_attempts 0 st = (fails Io, st\<lparr> next_temp := next_temp st \<rparr>)" by simp
  then show ?case by blast
next
  case (Suc n)
  let ?st = "st\<lparr> next_temp := (next_temp st + 1) mod (u64_max + 1) \<rparr>"
  have "next_temp ?st \<le> u64_max" by (simp add: less_Suc_eq_le [symmetric])
  then obtain c where "staged_attempts n ?st = (fails Io, ?st\<lparr> next_temp := c \<rparr>)"
    using Suc.IH [of ?st] Suc.prems unfolding attempted_path_next by fastforce
  moreover have "map_of (files st) (attempted_path st 0) \<noteq> None" using Suc.prems(3) by blast
  ultimately show ?case
    using attempted_path_first [OF Suc.prems(2)] attempt_result [OF Suc.prems(1)] by (auto simp: Let_def)
qed

lemma create_staged_exact:
  assumes "\<not> read_only st" "map_of (files st) [TEMP_DIRECTORY] = Some Dir" "next_temp st \<le> u64_max"
  shows "if temp_available st
    then \<exists>k c. map_of (files st) (attempted_path st k) = None \<and> create_staged_file st =
      (Inr (attempted_path st k), st\<lparr> files := (attempted_path st k, File []) # files st, next_temp := c \<rparr>)
    else \<exists>c. create_staged_file st = (fails Io, st\<lparr> next_temp := c \<rparr>)"
proof (cases "temp_available st")
  case True
  define k where "k = (LEAST k. map_of (files st) (attempted_path st k) = None)"
  from True obtain k' where k': "k' < 1024" "map_of (files st) (attempted_path st k') = None"
    unfolding temp_available_def by blast
  then have "k < 1024" "map_of (files st) (attempted_path st k) = None"
    "\<And>j. j < k \<Longrightarrow> map_of (files st) (attempted_path st j) \<noteq> None"
    unfolding k_def using LeastI [of "\<lambda>k. map_of (files st) (attempted_path st k) = None" k']
      Least_le [of "\<lambda>k. map_of (files st) (attempted_path st k) = None" k'] not_less_Least by auto
  then show ?thesis using True staged_attempts_free [OF assms(2,3), of k 1024] assms(1)
    by (auto simp: create_staged_file_def bindA_readA ensure_writable_store_def)
next
  case False
  then show ?thesis using staged_attempts_full [OF assms(2,3), of 1024] assms(1)
    unfolding temp_available_def by (auto simp: create_staged_file_def bindA_readA ensure_writable_store_def)
qed

lemma room_for_other:
  "temp_shaped p \<Longrightarrow> room_for t oid kind content \<Longrightarrow> room_for (fs_write ((p, n) # t) p bs) oid kind content"
  using temp_not_object [of p oid kind]
  by (auto simp: room_for_def map_of_fs_write ancestors_object_path)

lemma put_blob_inner_succeeds:
  assumes lim: "store_limits_ok (st_limits st)" and w: "\<not> read_only st"
    and tmp: "map_of (files st) [TEMP_DIRECTORY] = Some Dir" "next_temp st \<le> u64_max" "temp_available st"
    and rd: "reader_bytes reader = Some content" "length content \<le> max_blob_bytes (st_limits st)"
    and room: "room_for (files st) (blob_oid sha256 content) Blob content"
    and cl: "claimed = None \<or> claimed = Some (blob_oid sha256 content)"
  shows "\<exists>r st'. put_blob_inner sha256 claimed reader st = (Inr r, st')
    \<and> (disposition r = Created \<longleftrightarrow> map_of (files st) (object_path_for_valid_oid (blob_oid sha256 content) Blob) = None)"
proof -
  let ?oid = "blob_oid sha256 content"
  obtain k c where free: "map_of (files st) (attempted_path st k) = None"
    and c: "create_staged_file st =
      (Inr (attempted_path st k), st\<lparr> files := (attempted_path st k, File []) # files st, next_temp := c \<rparr>)"
    using create_staged_exact [OF w tmp(1,2)] tmp(3) by auto
  let ?p = "attempted_path st k"
  define st1 where "st1 = st\<lparr> files := fs_write ((?p, File []) # files st) ?p content, next_temp := c \<rparr>"
  have shape: "temp_shaped ?p" by (simp add: temp_shaped_def attempted_path_def temp_path_def)
  have str: "stream_blob (max_blob_bytes (st_limits st)) [] 0 reader = Inr (content, length content)"
    using rd lim by (subst stream_blob_ok) (auto simp: store_limits_ok_def u64_max_def usize_max_def)
  have "check_claimed claimed ?oid = Inr ()" using cl by (auto simp: check_claimed_def)
  then have s: "stage_blob sha256 claimed reader st = (Inr (?p, ?oid, length content), st1)"
    using w c str unfolding stage_blob_def
    by (simp add: bindA_def ensure_writable_store_def staged_on_error_def write_staged_def st1_def Let_def
        blob_oid_def sha256_hex_def)
  have "symlink_metadata ((?p, File []) # files st) ?p = Inr (File [])"
    using tmp(1) by (auto simp: symlink_metadata_ok fs_parents_ok attempted_path_def temp_path_def ancestors_prefix)
  then have "open_file (files st1) ?p = Some content"
    by (simp add: st1_def open_file_ok metadata_fs_write_same)
  moreover have "room_for (files st1) ?oid Blob content" using room_for_other [OF shape room] by (simp add: st1_def)
  moreover have "map_of (files st1) (object_path_for_valid_oid ?oid Blob) = map_of (files st) (object_path_for_valid_oid ?oid Blob)"
    using temp_not_object [OF shape, of ?oid Blob] by (simp add: st1_def map_of_fs_write)
  ultimately show ?thesis
    using publish_staged_succeeds [OF shape, of st1 content ?oid Blob "length content"] w lim s
    by (simp add: put_blob_inner_def bindA_def st1_def store_limits_ok_def)
qed

section \<open>All read paths agree\<close>

lemma limits_widths:
  assumes "store_limits_ok lim"
  shows "max_blob_bytes lim \<le> usize_max" "0 < io_buffer_bytes lim" "max_input_bytes (structured_limits lim) \<le> usize_max"
  using assms by (auto simp: store_limits_ok_def limits_usize_def usize_max_def u64_max_def)

lemma stored_open: "stored_bytes st oid kind bs \<longleftrightarrow> open_file (files st) (object_path_for_valid_oid oid kind) = Some bs"
  by (simp add: stored_bytes_def open_file_ok)

lemma read_raw_iff:
  assumes lim: "store_limits_ok (st_limits st)"
  shows "read_raw sha256 nfc st oid = Inr (Some bs) \<longleftrightarrow> (\<exists>kind body. object_at sha256 nfc st oid kind bs body)"
proof (cases "\<exists>kind c. parse_oid oid = Inr kind \<and> stored_bytes st oid kind c")
  case True
  then obtain kind c where k: "parse_oid oid = Inr kind" and c: "stored_bytes st oid kind c" by blast
  let ?p = "object_path_for_valid_oid oid kind"
  let ?limit = "if kind = Blob then max_blob_bytes (st_limits st) else max_input_bytes (structured_limits (st_limits st))"
  have m: "regular_file_metadata_if_present (files st) ?p oid = Inr (Some (length c))"
    using c by (simp add: metadata_present stored_bytes_def)
  have w: "?limit \<le> usize_max" using limits_widths [OF lim] by simp
  have "read_raw sha256 nfc st oid = Inr (Some bs) \<longleftrightarrow>
      length c \<le> ?limit \<and> (\<exists>body. verify_raw_bytes sha256 nfc (st_limits st) oid kind c = Inr body) \<and> bs = c"
    using k m read_file_limited_ok [OF iffD1 [OF stored_open c] w]
    by (auto simp: read_raw_def validated_object_path_def Let_def result_simps)
  also have "\<dots> \<longleftrightarrow> (\<exists>body. object_bytes sha256 nfc (st_limits st) oid kind c body) \<and> bs = c"
  proof -
    have "(\<exists>body. verify_raw_bytes sha256 nfc (st_limits st) oid kind c = Inr body) \<longleftrightarrow>
        (\<exists>body. object_bytes sha256 nfc (st_limits st) oid kind c body)" if "length c \<le> ?limit"
    proof -
      have "verify_raw_bytes sha256 nfc (st_limits st) oid kind c = Inr body \<longleftrightarrow>
          object_bytes sha256 nfc (st_limits st) oid kind c body" for body
        by (intro verify_raw_bytes_ok k) (use that in simp)
      then show ?thesis by simp
    qed
    moreover have "object_bytes sha256 nfc (st_limits st) oid kind c body \<Longrightarrow> length c \<le> ?limit" for body
      by (auto simp: object_bytes_def structured_length)
    ultimately show ?thesis by blast
  qed
  also have "\<dots> \<longleftrightarrow> (\<exists>kind body. object_at sha256 nfc st oid kind bs body)"
    using k c by (auto simp: object_at_def stored_bytes_def)
  finally show ?thesis .
next
  case False
  have "read_raw sha256 nfc st oid \<noteq> Inr (Some bs)"
  proof
    assume "read_raw sha256 nfc st oid = Inr (Some bs)"
    then obtain kind metadata where "parse_oid oid = Inr kind"
      and "regular_file_metadata_if_present (files st) (object_path_for_valid_oid oid kind) oid = Inr metadata"
      and "metadata \<noteq> None"
      by (force simp: read_raw_def validated_object_path_def result_simps split: option.splits)
    with False show False by (auto simp: metadata_present stored_bytes_def)
  qed
  with False show ?thesis by (auto simp: object_at_def)
qed

lemma copy_stream_ok:
  assumes "seen \<le> limit" "limit \<le> usize_max" "[] \<notin> set cs"
  shows "copy_stream limit acc seen cs = (w, Inr ()) \<longleftrightarrow> seen + length (concat cs) \<le> limit \<and> w = acc @ concat cs"
  using assms
  by (induction limit acc seen cs rule: copy_stream.induct)
    (auto simp: result_simps resource_limit_def split: option.splits)

lemma copy_verified_blob_ok:
  assumes "open_file t p = Some content" "limit \<le> usize_max" "0 < buffer"
  shows "copy_verified_blob sha256 t p oid limit buffer = (w, Inr ()) \<longleftrightarrow>
    length content \<le> limit \<and> w = content \<and> oid = blob_oid sha256 content"
proof -
  obtain written r where cs: "copy_stream limit [] 0 (chunks buffer content) = (written, r)" by fastforce
  have ok: "r = Inr () \<and> w = written \<longleftrightarrow> length content \<le> limit \<and> w = content" for w
    using copy_stream_ok [of 0 limit "chunks buffer content" "[]" w] cs assms
    by (auto simp: chunks_nonempty concat_chunks)
  have unfold: "copy_verified_blob sha256 t p oid limit buffer =
      (written, case r of Inl e \<Rightarrow> Inl e | Inr _ \<Rightarrow> if blob_oid sha256 written \<noteq> oid then fails (CorruptObject oid) else Inr ())"
    using assms(1) cs
    by (simp add: copy_verified_blob_def open_object_def blob_oid_def sha256_hex_def split: sum.splits)
  show ?thesis unfolding unfold using ok [of written] ok [of content] by (cases r) auto
qed

lemma copy_verified_to_iff:
  assumes lim: "store_limits_ok (st_limits st)"
  shows "(\<exists>i. copy_verified_to sha256 nfc st oid = (bs, Inr (Some i))) \<longleftrightarrow>
    (\<exists>kind body. object_at sha256 nfc st oid kind bs body)"
proof (cases "\<exists>kind c. parse_oid oid = Inr kind \<and> stored_bytes st oid kind c")
  case True
  then obtain kind c where k: "parse_oid oid = Inr kind" and c: "stored_bytes st oid kind c" by blast
  let ?p = "object_path_for_valid_oid oid kind" and ?lim = "st_limits st"
  have m: "regular_file_metadata_if_present (files st) ?p oid = Inr (Some (length c))"
    using c by (simp add: metadata_present stored_bytes_def)
  note w = limits_widths [OF lim] and o' = iffD1 [OF stored_open c]
  have "(\<exists>i. copy_verified_to sha256 nfc st oid = (bs, Inr (Some i))) \<longleftrightarrow>
      (\<exists>body. object_bytes sha256 nfc ?lim oid kind c body) \<and> bs = c"
  proof (cases "kind = Blob")
    case True
    then show ?thesis
      using k m copy_verified_blob_ok [OF o' w(1,2), of sha256 oid bs] True
      by (auto simp: copy_verified_to_def validated_object_path_def object_bytes_def split: prod.splits sum.splits)
  next
    case False
    have "verify_raw_bytes sha256 nfc ?lim oid kind c = Inr body \<longleftrightarrow> object_bytes sha256 nfc ?lim oid kind c body" for body
      using k False by (intro verify_raw_bytes_ok) simp_all
    moreover have "object_bytes sha256 nfc ?lim oid kind c body \<Longrightarrow> length c \<le> max_input_bytes (structured_limits ?lim)" for body
      using False by (auto simp: object_bytes_def structured_length)
    moreover have "bindE (read_file_limited (files st) ?p (length c) (max_input_bytes (structured_limits ?lim))) (\<lambda>bs.
        bindE (map_err (stored_object_error oid) (verify_raw_bytes sha256 nfc ?lim oid kind bs)) (\<lambda>_. Inr bs)) = Inr bs
      \<longleftrightarrow> length c \<le> max_input_bytes (structured_limits ?lim) \<and> (\<exists>body. verify_raw_bytes sha256 nfc ?lim oid kind c = Inr body) \<and> bs = c"
      using read_file_limited_ok [OF o' w(3)] by (auto simp: result_simps)
    ultimately show ?thesis using k m False
      by (auto simp: copy_verified_to_def validated_object_path_def split: prod.splits sum.splits)
  qed
  then show ?thesis using k c by (auto simp: object_at_def stored_bytes_def)
next
  case False
  then have "regular_file_metadata_if_present (files st) (object_path_for_valid_oid oid kind) oid \<noteq> Inr (Some n)"
    if "parse_oid oid = Inr kind" for kind n
    using that by (auto simp: metadata_present stored_bytes_def)
  with False show ?thesis
    by (auto simp: copy_verified_to_def validated_object_path_def object_at_def result_simps
        split: prod.splits sum.splits option.splits)
qed

lemma read_verified_blob_limited_iff:
  assumes lim: "store_limits_ok (st_limits st)"
  shows "read_verified_blob_limited sha256 st oid m = Inr (Some bs) \<longleftrightarrow>
    object_at sha256 nfc st oid Blob bs None \<and> length bs \<le> m \<and> 0 < m"
proof -
  let ?p = "object_path_for_valid_oid oid Blob" and ?limit = "min m (max_blob_bytes (st_limits st))"
  have exact: "read_blob_file_exact_limited (files st) ?p oid (length c) ?limit = Inr b \<longleftrightarrow> length c \<le> ?limit \<and> b = c"
    if "stored_bytes st oid Blob c" for c b
    using that limits_widths(1) [OF lim]
    by (auto simp: read_blob_file_exact_limited_def open_object_def stored_open resource_limit_def)
  show ?thesis
  proof (cases "0 < m \<and> parse_oid oid = Inr Blob \<and> (\<exists>c. stored_bytes st oid Blob c)")
    case True
    then obtain c where c: "stored_bytes st oid Blob c" by blast
    have "regular_file_metadata_if_present (files st) ?p oid = Inr (Some (length c))"
      using c by (simp add: metadata_present stored_bytes_def)
    then have "read_verified_blob_limited sha256 st oid m = Inr (Some bs) \<longleftrightarrow>
        length c \<le> ?limit \<and> verify_blob_oid sha256 oid c = Inr () \<and> bs = c"
      using True exact [OF c]
      by (auto simp: read_verified_blob_limited_def validated_object_path_def result_simps)
    then show ?thesis using True c
      by (auto simp: object_at_def object_bytes_def verify_blob_oid_def stored_bytes_def split: if_splits)
  next
    case False
    then have "read_verified_blob_limited sha256 st oid m \<noteq> Inr (Some bs)"
      using metadata_present(1) [of "files st" ?p oid]
      by (force simp: read_verified_blob_limited_def validated_object_path_def result_simps resource_limit_def
          stored_bytes_def split: if_splits option.splits)
    with False show ?thesis by (auto simp: object_at_def)
  qed
qed

section \<open>The memo over a changing store\<close>

lemma verified_oid:
  assumes "get_verified sha256 nfc st oid = Inr (Some ob)"
  shows "obj_oid ob = oid"
proof -
  from assms obtain kind bs where "parse_oid oid = Inr kind" "stored_bytes st oid kind bs"
    by (rule get_verified_cases)
  with assms show ?thesis by (auto simp: get_verified_present result_simps)
qed

text \<open>A regular file of that length lies at the path of the OID.\<close>

definition stored_length :: "file_store \<Rightarrow> str \<Rightarrow> nat \<Rightarrow> bool" where
  "stored_length st oid n \<longleftrightarrow> (\<exists>kind bs. parse_oid oid = Inr kind \<and> stored_bytes st oid kind bs \<and> length bs = n)"

lemma still_stored_iff: "still_stored st ob = Inr True \<longleftrightarrow> stored_length st (obj_oid ob) (obj_byte_len ob)"
  by (cases "parse_oid (obj_oid ob)")
    (auto simp: still_stored_def stored_object_byte_len_def validated_object_path_def stored_length_def stored_bytes_def
      metadata_present result_simps)

text \<open>
  A run of lookups through one memo: lookup \<open>i\<close> asks for an OID while the store is in some state.
  Nothing relates the states, so other processes may add, damage or remove files in between.
\<close>

type_synonym lookups = "nat \<Rightarrow> file_store \<times> str"

primrec memo_at :: "(bytes \<Rightarrow> bytes) \<Rightarrow> (str \<Rightarrow> str) \<Rightarrow> lookups \<Rightarrow> nat \<Rightarrow> memo" where
  "memo_at sha256 nfc lookups 0 = empty_memo"
| "memo_at sha256 nfc lookups (Suc i) =
     snd (memo_get_verified sha256 nfc (fst (lookups i)) (snd (lookups i)) (memo_at sha256 nfc lookups i))"

definition memo_answer :: "(bytes \<Rightarrow> bytes) \<Rightarrow> (str \<Rightarrow> str) \<Rightarrow> lookups \<Rightarrow> nat \<Rightarrow> verified_object option store_result" where
  "memo_answer sha256 nfc lookups i =
     fst (memo_get_verified sha256 nfc (fst (lookups i)) (snd (lookups i)) (memo_at sha256 nfc lookups i))"

definition store_answer :: "(bytes \<Rightarrow> bytes) \<Rightarrow> (str \<Rightarrow> str) \<Rightarrow> lookups \<Rightarrow> nat \<Rightarrow> verified_object option store_result" where
  "store_answer sha256 nfc lookups i = get_verified sha256 nfc (fst (lookups i)) (snd (lookups i))"

text \<open>Everything remembered was verified by an earlier lookup, within the byte budget.\<close>

definition verified_before :: "(bytes \<Rightarrow> bytes) \<Rightarrow> (str \<Rightarrow> str) \<Rightarrow> lookups \<Rightarrow> nat \<Rightarrow> str \<times> verified_object \<Rightarrow> bool" where
  "verified_before sha256 nfc lookups i entry \<longleftrightarrow>
     (\<exists>j<i. snd (lookups j) = fst entry \<and> store_answer sha256 nfc lookups j = Inr (Some (snd entry)))"

definition memo_ok :: "(bytes \<Rightarrow> bytes) \<Rightarrow> (str \<Rightarrow> str) \<Rightarrow> lookups \<Rightarrow> nat \<Rightarrow> memo \<Rightarrow> bool" where
  "memo_ok sha256 nfc lookups i me \<longleftrightarrow>
     (\<forall>entry\<in>set (memo_verified me). verified_before sha256 nfc lookups i entry)
     \<and> sum_list (map (\<lambda>(_, ob). if obj_kind ob = Blob then 0 else obj_byte_len ob) (memo_verified me))
         \<le> structured_bytes me
     \<and> structured_bytes me \<le> MAX_MEMOIZED_STRUCTURED_BYTES"

lemma sum_list_filter_le: "sum_list (map f (filter P xs)) \<le> sum_list (map f xs)" for f :: "'a \<Rightarrow> nat"
  by (induction xs) auto

lemma verified_before_later: "verified_before sha256 nfc lookups i e \<Longrightarrow> verified_before sha256 nfc lookups (Suc i) e"
  unfolding verified_before_def using less_SucI by blast

lemma memo_ok_forget: "memo_ok sha256 nfc lookups i me \<Longrightarrow> memo_ok sha256 nfc lookups i (memo_forget me oid)"
  unfolding memo_ok_def memo_forget_def by (auto intro: order_trans [OF sum_list_filter_le])

lemma memo_ok_later: "memo_ok sha256 nfc lookups i me \<Longrightarrow> memo_ok sha256 nfc lookups (Suc i) me"
  unfolding memo_ok_def using verified_before_later by blast

lemma memo_ok_remember:
  assumes "memo_ok sha256 nfc lookups i me" "store_answer sha256 nfc lookups i = Inr (Some ob)"
  shows "memo_ok sha256 nfc lookups (Suc i) (remember me ob)"
proof -
  have "obj_oid ob = snd (lookups i)" using assms(2) verified_oid by (simp add: store_answer_def)
  then have "verified_before sha256 nfc lookups (Suc i) (obj_oid ob, ob)"
    using assms(2) by (auto simp: verified_before_def)
  then show ?thesis using memo_ok_later [OF assms(1)]
    by (auto simp: memo_ok_def remember_def Let_def saturating_add_def MAX_MEMOIZED_STRUCTURED_BYTES_def usize_max_def)
qed

lemma memo_ok_at: "memo_ok sha256 nfc lookups i (memo_at sha256 nfc lookups i)"
proof (induction i)
  case 0
  then show ?case by (simp add: memo_ok_def empty_memo_def)
next
  case (Suc i)
  then show ?case
    using memo_ok_remember [OF Suc] memo_ok_remember [OF memo_ok_forget [OF Suc]] memo_ok_forget memo_ok_later
    by (auto simp: memo_get_verified_def Let_def store_answer_def split: sum.splits option.splits)
qed

lemma memo_answer_cases:
  obtains "memo_answer sha256 nfc lookups i = store_answer sha256 nfc lookups i"
  | ob where "map_of (memo_verified (memo_at sha256 nfc lookups i)) (snd (lookups i)) = Some ob"
    "memo_answer sha256 nfc lookups i = Inr (Some ob)" "still_stored (fst (lookups i)) ob = Inr True"
proof (cases "\<exists>ob. map_of (memo_verified (memo_at sha256 nfc lookups i)) (snd (lookups i)) = Some ob
    \<and> still_stored (fst (lookups i)) ob = Inr True")
  case True
  then show ?thesis using that(2) by (auto simp: memo_answer_def memo_get_verified_def)
next
  case False
  then have "memo_answer sha256 nfc lookups i = store_answer sha256 nfc lookups i"
    by (auto simp: memo_answer_def store_answer_def memo_get_verified_def Let_def split: sum.split option.split)
  then show ?thesis by (rule that(1))
qed

text \<open>An entry stays as long as every lookup of its OID finds the object still stored.\<close>

lemma memo_entry_stays:
  assumes "map_of (memo_verified (memo_at sha256 nfc lookups i)) oid = Some ob"
    and "snd (lookups i) = oid \<Longrightarrow> still_stored (fst (lookups i)) ob = Inr True"
  shows "map_of (memo_verified (memo_at sha256 nfc lookups (Suc i))) oid = Some ob"
proof (cases "snd (lookups i) = oid")
  case True
  then show ?thesis using assms by (simp add: memo_get_verified_def)
next
  case False
  have "map_of (filter (\<lambda>(o', _). o' \<noteq> snd (lookups i)) xs) oid = map_of xs oid" for xs :: "(str \<times> verified_object) list"
    using False by (induction xs) auto
  then show ?thesis using assms(1) False verified_oid [of sha256 nfc "fst (lookups i)" "snd (lookups i)"]
    by (auto simp: memo_get_verified_def remember_def memo_forget_def Let_def split: sum.splits option.splits)
qed

lemma memo_blob_kept:
  assumes "memo_answer sha256 nfc lookups j = Inr (Some ob)" "obj_kind ob = Blob"
  shows "map_of (memo_verified (memo_at sha256 nfc lookups (Suc j))) (snd (lookups j)) = Some ob"
  using assms verified_oid [of sha256 nfc "fst (lookups j)" "snd (lookups j)"]
  by (auto simp: memo_answer_def memo_get_verified_def remember_def Let_def split: sum.splits option.splits if_splits)

lemma memo_entry_oid:
  assumes "map_of (memo_verified (memo_at sha256 nfc lookups i)) oid = Some ob"
  obtains j where "j < i" "snd (lookups j) = oid" "store_answer sha256 nfc lookups j = Inr (Some ob)" "obj_oid ob = oid"
  using assms memo_ok_at [of sha256 nfc lookups i] verified_oid
  by (fastforce simp: memo_ok_def verified_before_def store_answer_def dest!: map_of_SomeD)

lemma memo_answer_again:
  assumes "memo_answer sha256 nfc lookups j = Inr (Some ob)" "obj_kind ob = Blob" "j < i" "snd (lookups i) = snd (lookups j)"
    and still: "\<And>k. j < k \<Longrightarrow> k \<le> i \<Longrightarrow> snd (lookups k) = snd (lookups j) \<Longrightarrow>
      stored_length (fst (lookups k)) (snd (lookups j)) (obj_byte_len ob)"
  shows "memo_answer sha256 nfc lookups i = Inr (Some ob)"
proof -
  have kept: "map_of (memo_verified (memo_at sha256 nfc lookups (Suc j))) (snd (lookups j)) = Some ob"
    by (rule memo_blob_kept [OF assms(1,2)])
  then have oid: "obj_oid ob = snd (lookups j)" by (rule memo_entry_oid)
  have "k \<le> i \<Longrightarrow> map_of (memo_verified (memo_at sha256 nfc lookups k)) (snd (lookups j)) = Some ob" if "Suc j \<le> k" for k
    using that
  proof (induction rule: dec_induct)
    case base
    show ?case by (rule kept)
  next
    case (step n)
    then show ?case using still [of n] oid by (intro memo_entry_stays) (auto simp: still_stored_iff)
  qed
  from this [of i] show ?thesis
    using assms(3,4) still [of i] oid by (simp add: memo_answer_def memo_get_verified_def still_stored_iff)
qed

section \<open>The inventory is complete\<close>

lemma hex_not_metadata:
  assumes "list_all is_lower_hex name" "name \<noteq> []"
  shows "\<not> is_os_metadata_file_name name"
proof -
  have "is_lower_hex (hd name)" using assms by (cases name) auto
  moreover have "name \<noteq> ''.DS_Store'' \<and> \<not> starts_with name ''._''"
    using \<open>is_lower_hex (hd name)\<close> by (auto simp: starts_with_iff text_defs)
  moreover have "\<not> eq_ignore_ascii_case name ''Thumbs.db''"
    using \<open>is_lower_hex (hd name)\<close> assms(2)
    by (cases name) (auto simp: eq_ignore_ascii_case_def ascii_lower_def text_defs split: if_splits)
  moreover have "\<not> eq_ignore_ascii_case name ''desktop.ini''"
  proof
    assume "eq_ignore_ascii_case name ''desktop.ini''"
    then have "map ascii_lower name = ''desktop.ini''" by (simp add: eq_ignore_ascii_case_def ascii_lower_def)
    then have "ascii_lower (name ! 2) = CHR ''s''" "2 < length name"
      by (auto simp: map_eq_Cons_conv)
    moreover from this(2) have "is_lower_hex (name ! 2)" using assms(1) by (auto simp: list_all_length)
    ultimately show False by (auto simp: ascii_lower_def text_defs split: if_splits)
  qed
  ultimately show ?thesis by (simp add: is_os_metadata_file_name_def)
qed

text \<open>\<open>sort_unstable\<close> then \<open>dedup\<close>.\<close>

lemma sorted_dedup: "sorted_wrt (<) (remdups_adj (sort (xs :: 'a::linorder list)))"
proof -
  have "sorted ys \<Longrightarrow> sorted_wrt (<) (remdups_adj ys)" for ys :: "'a list"
    by (induction ys rule: remdups_adj.induct) (auto simp: less_le)
  then show ?thesis by simp
qed

text \<open>The OIDs of one family, of one prefix directory, of the whole store.\<close>

definition prefix_oids :: "tree \<Rightarrow> object_kind \<Rightarrow> str \<Rightarrow> str set" where
  "prefix_oids t kind pre = {scanned_oid kind pre suf |suf bs.
     length suf = 62 \<and> list_all is_lower_hex suf
     \<and> map_of t [OBJECTS_DIRECTORY, kind_prefix kind, pre, suf] = Some (File bs)}"

definition kind_oids :: "tree \<Rightarrow> object_kind \<Rightarrow> str set" where
  "kind_oids t kind = {oid. parse_oid oid = Inr kind \<and>
     (\<exists>bs. map_of t (object_path_for_valid_oid oid kind) = Some (File bs))}"

definition stored_oids :: "tree \<Rightarrow> str set" where
  "stored_oids t = (\<Union>kind. kind_oids t kind)"

lemma hex_utf8: "list_all is_lower_hex s \<Longrightarrow> valid_utf8 s"
  by (rule valid_utf8_ascii) (auto simp: list_all_iff text_defs)

lemma scanned_oid_digest:
  assumes "length pre = 2" "list_all is_lower_hex pre" "length suf = 62" "list_all is_lower_hex suf"
  shows "parse_oid (scanned_oid kind pre suf) = Inr kind"
    and "object_path_for_valid_oid (scanned_oid kind pre suf) kind = [OBJECTS_DIRECTORY, kind_prefix kind, pre, suf]"
proof -
  have d: "is_digest (pre @ suf)" using assms by (simp add: is_digest_def)
  have eq: "scanned_oid kind pre suf = format_oid kind (pre @ suf)"
    by (simp add: scanned_oid_def format_oid_def oid_infix_def)
  show "parse_oid (scanned_oid kind pre suf) = Inr kind" using d by (simp add: eq parse_format_oid)
  show "object_path_for_valid_oid (scanned_oid kind pre suf) kind = [OBJECTS_DIRECTORY, kind_prefix kind, pre, suf]"
    using d assms(1) by (simp add: eq object_path_for_valid_oid_def oid_digest_format)
qed

lemma kind_oids_prefixes:
  assumes "tree_ok t"
  shows "kind_oids t kind = (\<Union>pre\<in>{pre. length pre = 2 \<and> list_all is_lower_hex pre
     \<and> map_of t [OBJECTS_DIRECTORY, kind_prefix kind, pre] = Some Dir}. prefix_oids t kind pre)" (is "_ = ?U")
proof
  show "?U \<subseteq> kind_oids t kind"
    by (auto simp: kind_oids_def prefix_oids_def scanned_oid_digest)
  show "kind_oids t kind \<subseteq> ?U"
  proof
    fix oid
    assume "oid \<in> kind_oids t kind"
    then obtain bs where p: "parse_oid oid = Inr kind" and m: "map_of t (object_path_for_valid_oid oid kind) = Some (File bs)"
      by (auto simp: kind_oids_def)
    obtain d where d: "oid = format_oid kind d" "is_digest d" using p by (rule parse_oid_cases)
    have path: "object_path_for_valid_oid oid kind = [OBJECTS_DIRECTORY, kind_prefix kind, take 2 d, drop 2 d]"
      using d by (simp add: object_path_for_valid_oid_def oid_digest_format)
    have "fs_parents t (object_path_for_valid_oid oid kind) = Inr ()"
      using assms m by (auto simp: tree_ok_def dest!: map_of_SomeD)
    then have "map_of t [OBJECTS_DIRECTORY, kind_prefix kind, take 2 d] = Some Dir"
      by (simp add: fs_parents_ok path ancestors_prefix)
    moreover have "length (take 2 d) = 2" "length (drop 2 d) = 62" "list_all is_lower_hex (take 2 d)" "list_all is_lower_hex (drop 2 d)"
      using d(2) by (auto simp: is_digest_def list_all_iff dest: in_set_takeD in_set_dropD)
    moreover have "oid = scanned_oid kind (take 2 d) (drop 2 d)"
      using d(1) by (simp add: scanned_oid_def format_oid_def oid_infix_def)
    ultimately show "oid \<in> ?U" using m path
      by (intro UN_I [of "take 2 d"]) (auto simp: prefix_oids_def simp del: length_take length_drop)
  qed
qed

lemma foldE_union:
  assumes "\<And>acc e. e \<in> set es \<Longrightarrow> \<exists>acc'. f acc e = Inr acc' \<and> set (fst acc') = set (fst acc) \<union> S e"
  shows "\<exists>acc'. foldE f acc es = Inr acc' \<and> set (fst acc') = set (fst acc) \<union> (\<Union>e\<in>set es. S e)"
  using assms
proof (induction es arbitrary: acc)
  case (Cons e es)
  obtain a where a: "f acc e = Inr a" "set (fst a) = set (fst acc) \<union> S e" using Cons.prems [of e acc] by auto
  have "\<exists>acc'. foldE f a es = Inr acc' \<and> set (fst acc') = set (fst a) \<union> (\<Union>e\<in>set es. S e)"
    using Cons.prems by (intro Cons.IH) simp
  with a show ?case by (auto simp: Un_assoc)
qed simp

lemma scan_object_step:
  assumes "length pre = 2" "list_all is_lower_hex pre"
  shows "set (fst (scan_object p pre kind acc e)) =
    set (fst acc) \<union> (if object_entry_ok e then {scanned_oid kind pre (fst e)} else {})"
proof (cases "object_entry_ok e")
  case True
  then have "\<not> is_ignored_os_metadata e"
    using hex_not_metadata [of "fst e"] by (cases "fst e") (auto simp: object_entry_ok_def is_ignored_os_metadata_def)
  moreover have "is_ok (parse_oid (scanned_oid kind pre (fst e)))"
    using True assms by (simp add: object_entry_ok_def scanned_oid_digest)
  ultimately show ?thesis using True by (auto simp: scan_object_def)
qed (simp add: scan_object_def)

lemma scan_object_fold:
  assumes "length pre = 2" "list_all is_lower_hex pre"
  shows "set (fst (foldl (scan_object p pre kind) acc es)) =
    set (fst acc) \<union> {scanned_oid kind pre (fst e) |e. e \<in> set es \<and> object_entry_ok e}"
  by (induction es arbitrary: acc) (auto simp: scan_object_step [OF assms])

lemma scan_prefix_ok:
  assumes t: "tree_ok t" "map_of t [OBJECTS_DIRECTORY, kind_prefix kind, pre] = Some Dir"
    and pre: "length pre = 2" "list_all is_lower_hex pre"
  shows "\<exists>acc'. scan_prefix t [OBJECTS_DIRECTORY, kind_prefix kind, pre] pre kind acc = Inr acc'
    \<and> set (fst acc') = set (fst acc) \<union> prefix_oids t kind pre"
proof -
  obtain es where es: "read_dir t [OBJECTS_DIRECTORY, kind_prefix kind, pre] = Inr es"
      "\<And>x n. (x, n) \<in> set es \<longleftrightarrow> map_of t ([OBJECTS_DIRECTORY, kind_prefix kind, pre] @ [x]) = Some n"
    using read_dir_ok [OF t] by blast
  have "{scanned_oid kind pre (fst e) |e. e \<in> set es \<and> object_entry_ok e} = prefix_oids t kind pre"
    (is "?L = _")
  proof
    show "?L \<subseteq> prefix_oids t kind pre"
    proof
      fix oid assume "oid \<in> ?L"
      then obtain x n where "oid = scanned_oid kind pre x" "(x, n) \<in> set es" "object_entry_ok (x, n)" by auto
      moreover from this(3) obtain bs where "n = File bs" by (cases n) (auto simp: object_entry_ok_def)
      ultimately show "oid \<in> prefix_oids t kind pre" by (auto simp: es(2) prefix_oids_def object_entry_ok_def)
    qed
    show "prefix_oids t kind pre \<subseteq> ?L"
      by (force simp: prefix_oids_def object_entry_ok_def es(2) hex_utf8)
  qed
  then show ?thesis
    using es(1) scan_object_fold [OF pre] by (simp add: scan_prefix_def scan_dir_def)
qed

lemma prefix_entry_not_ignored: "prefix_entry_ok e \<Longrightarrow> \<not> is_ignored_os_metadata e"
  by (cases e) (auto simp: prefix_entry_ok_def is_ignored_os_metadata_def)

lemma scan_family_ok:
  assumes t: "tree_ok t" "map_of t [OBJECTS_DIRECTORY, kind_prefix kind] = Some Dir"
  shows "\<exists>acc'. scan_family t [OBJECTS_DIRECTORY, kind_prefix kind] kind acc = Inr acc'
    \<and> set (fst acc') = set (fst acc) \<union> kind_oids t kind"
proof -
  let ?p = "[OBJECTS_DIRECTORY, kind_prefix kind]"
  obtain es where es: "read_dir t ?p = Inr es" "\<And>x n. (x, n) \<in> set es \<longleftrightarrow> map_of t (?p @ [x]) = Some n"
    using read_dir_ok [OF t] by blast
  let ?S = "\<lambda>e. if prefix_entry_ok e then prefix_oids t kind (fst e) else {}"
  have step: "\<exists>acc'. (if is_ignored_os_metadata e then Inr acc
       else if \<not> prefix_entry_ok e then Inr (fst acc, snd acc @ [?p @ [fst e]])
       else scan_prefix t (?p @ [fst e]) (fst e) kind acc) = Inr acc' \<and> set (fst acc') = set (fst acc) \<union> ?S e"
    if e: "e \<in> set es" for acc e
  proof (cases "prefix_entry_ok e")
    case True
    then have "map_of t [OBJECTS_DIRECTORY, kind_prefix kind, fst e] = Some Dir" "length (fst e) = 2" "list_all is_lower_hex (fst e)"
      using e es(2) [of "fst e" "snd e"] by (cases e; auto simp: prefix_entry_ok_def)+
    from scan_prefix_ok [OF t(1) this, of acc] True show ?thesis by (simp add: prefix_entry_not_ignored)
  qed (cases acc; auto)
  have "(\<Union>e\<in>set es. ?S e) = kind_oids t kind"
    (is "?L = _")
  proof -
    have "?L = (\<Union>pre\<in>{pre. (pre, Dir) \<in> set es \<and> prefix_entry_ok (pre, Dir)}. prefix_oids t kind pre)"
      by (auto simp: prefix_entry_ok_def split: if_splits)
    also have "{pre. (pre, Dir) \<in> set es \<and> prefix_entry_ok (pre, Dir)} = {pre. length pre = 2 \<and> list_all is_lower_hex pre
        \<and> map_of t [OBJECTS_DIRECTORY, kind_prefix kind, pre] = Some Dir}"
      by (auto simp: prefix_entry_ok_def es(2) hex_utf8)
    finally show ?thesis by (simp only: kind_oids_prefixes [OF t(1)])
  qed
  with foldE_union [of es _ ?S, OF step] es(1) show ?thesis
    by (simp add: scan_family_def scan_dir_def)
qed

lemma scan_inventory_ok:
  assumes t: "tree_ok t" "map_of t [OBJECTS_DIRECTORY] = Some Dir"
  shows "\<exists>inv. scan_inventory t = Inr inv \<and> set (oids inv) = stored_oids t
    \<and> sorted_wrt (<) (oids inv) \<and> sorted (invalid_paths inv)"
proof -
  let ?p = "[OBJECTS_DIRECTORY]"
  obtain es where es: "read_dir t ?p = Inr es" "\<And>x n. (x, n) \<in> set es \<longleftrightarrow> map_of t (?p @ [x]) = Some n"
    using read_dir_ok [OF t] by blast
  let ?S = "\<lambda>e. case kind_of_prefix (fst e) of None \<Rightarrow> {} | Some kind \<Rightarrow> if snd e = Dir then kind_oids t kind else {}"
  let ?f = "\<lambda>acc e.
       if is_ignored_os_metadata e then Inr acc
       else if \<not> valid_utf8 (fst e) then Inr (fst acc, snd acc @ [[OBJECTS_DIRECTORY, fst e]])
       else case kind_of_prefix (fst e) of
         None \<Rightarrow> Inr (fst acc, snd acc @ [[OBJECTS_DIRECTORY, fst e]])
       | Some kind \<Rightarrow>
           if snd e \<noteq> Dir then Inr (fst acc, snd acc @ [[OBJECTS_DIRECTORY, fst e]])
           else scan_family t [OBJECTS_DIRECTORY, fst e] kind acc"
  have step: "\<exists>acc'. ?f acc e = Inr acc' \<and> set (fst acc') = set (fst acc) \<union> ?S e" if e: "e \<in> set es" for acc e
  proof (cases "kind_of_prefix (fst e)")
    case None
    then show ?thesis by (cases "is_ignored_os_metadata e") auto
  next
    case (Some kind)
    then have k: "fst e = kind_prefix kind" using kind_names.decode_iff by blast
    have utf: "valid_utf8 (kind_prefix kind)" by (rule valid_utf8_ascii) (cases kind; simp add: text_defs)
    show ?thesis
    proof (cases "snd e = Dir")
      case True
      then have "map_of t [OBJECTS_DIRECTORY, kind_prefix kind] = Some Dir" using e es(2) [of "fst e" "snd e"] k by (cases e) simp
      from scan_family_ok [OF t(1) this, of acc] Some True k utf show ?thesis
        by (auto simp: is_ignored_os_metadata_def)
    next
      case False
      then show ?thesis using Some by (cases acc) simp
    qed
  qed
  obtain acc where acc: "foldE ?f ([], []) es = Inr acc" "set (fst acc) = (\<Union>e\<in>set es. ?S e)"
    using foldE_union [of es ?f ?S "([], [])", OF step] by auto
  have "(\<Union>e\<in>set es. ?S e) = stored_oids t"
  proof
    show "(\<Union>e\<in>set es. ?S e) \<subseteq> stored_oids t" by (auto simp: stored_oids_def split: option.splits if_splits)
    have "kind_oids t kind \<subseteq> (\<Union>e\<in>set es. ?S e)" for kind
    proof
      fix oid assume "oid \<in> kind_oids t kind"
      then obtain bs where "map_of t (object_path_for_valid_oid oid kind) = Some (File bs)"
        by (auto simp: kind_oids_def)
      then have "fs_parents t (object_path_for_valid_oid oid kind) = Inr ()"
        using t(1) by (auto simp: tree_ok_def dest!: map_of_SomeD)
      then have "(kind_prefix kind, Dir) \<in> set es"
        by (simp add: es(2) fs_parents_ok object_path_for_valid_oid_def ancestors_prefix)
      then show "oid \<in> (\<Union>e\<in>set es. ?S e)" using \<open>oid \<in> kind_oids t kind\<close>
        by (intro UN_I [of "(kind_prefix kind, Dir)"]) (simp_all add: kind_names.decode_encode)
    qed
    then show "stored_oids t \<subseteq> (\<Union>e\<in>set es. ?S e)" by (auto simp: stored_oids_def)
  qed
  then show ?thesis using acc es(1) by (simp add: scan_inventory_def scan_dir_def sorted_dedup)
qed

section \<open>Bounded scans\<close>

lemma take_entries_ok:
  "take_entries m e ign acc es = Inr r \<Longrightarrow> length acc \<le> m \<Longrightarrow>
    r = acc @ filter (\<lambda>e. \<not> is_ignored_os_metadata e) es \<and> length r \<le> m"
  by (induction m e ign acc es rule: take_entries.induct) (auto split: if_splits)

lemma take_entries_no_panic: "take_entries m e ign acc es \<noteq> panics"
  by (induction m e ign acc es rule: take_entries.induct) auto

lemma read_directory_ok:
  assumes t: "tree_ok t" "map_of t p = Some Dir" and r: "read_directory_at_most t p m e = Inr r"
  shows "length r \<le> m" "distinct (map fst r)"
    and "(x, n) \<in> set r \<longleftrightarrow> map_of t (p @ [x]) = Some n \<and> \<not> is_ignored_os_metadata (x, n)"
proof -
  obtain es where es: "read_dir t p = Inr es" "\<And>x n. (x, n) \<in> set es \<longleftrightarrow> map_of t (p @ [x]) = Some n"
      "distinct (map fst es)"
    using read_dir_ok [OF t] by blast
  have "take_entries m e 0 [] es = Inr r" using r es(1) by (simp add: read_directory_at_most_def scan_dir_def)
  from take_entries_ok [OF this] have "r = filter (\<lambda>e. \<not> is_ignored_os_metadata e) es" "length r \<le> m" by auto
  then show "length r \<le> m" "distinct (map fst r)"
    and "(x, n) \<in> set r \<longleftrightarrow> map_of t (p @ [x]) = Some n \<and> \<not> is_ignored_os_metadata (x, n)"
    using es by (auto simp: distinct_map_filter)
qed

lemma scan_prefix_at_most_ok:
  assumes t: "tree_ok t" "map_of t [OBJECTS_DIRECTORY, kind_prefix kind, fst e] = Some Dir"
    and s: "scan_prefix_at_most t [OBJECTS_DIRECTORY, kind_prefix kind] kind m acc e = Inr acc'"
    and acc: "length (snd acc) = fst acc" "fst acc \<le> m"
  shows "length (snd acc') = fst acc'" "fst acc' \<le> m" "set (snd acc') = set (snd acc) \<union> prefix_oids t kind (fst e)"
    and "prefix_entry_ok e"
proof -
  let ?p = "[OBJECTS_DIRECTORY, kind_prefix kind, fst e]"
  from s obtain objects found where pre: "prefix_entry_ok e"
    and o': "read_directory_at_most t ?p (m - fst acc) (Core ResourceLimit) = Inr objects"
    and f: "mapE (\<lambda>ob. if \<not> object_entry_ok ob then fails InvalidStoreLayout
          else bindE (core_err (lift_err (parse_oid (scanned_oid kind (fst e) (fst ob))))) (\<lambda>_.
               Inr (scanned_oid kind (fst e) (fst ob)))) (sort_key fst objects) = Inr found"
    and acc': "acc' = (fst acc + length objects, snd acc @ found)"
    by (auto simp: scan_prefix_at_most_def result_simps simp del: mapE_eq_Inr split: if_splits)
  note rd = read_directory_ok [OF t o']
  from f have l: "list_all2 (\<lambda>ob y. object_entry_ok ob \<and> y = scanned_oid kind (fst e) (fst ob)) (sort_key fst objects) found"
    unfolding mapE_eq_Inr by (rule list_all2_mono) (auto simp: result_simps split: if_splits)
  have "length found = length objects" using list_all2_lengthD [OF l] by simp
  then show "length (snd acc') = fst acc'" "fst acc' \<le> m" using acc' acc rd(1) by auto
  show "prefix_entry_ok e" by (rule pre)
  have "list_all object_entry_ok (sort_key fst objects)" using l by (simp add: list_all_length list_all2_conv_all_nth)
  then have ok: "object_entry_ok ob" if "ob \<in> set objects" for ob using that by (simp add: list_all_iff)
  have "found = map (\<lambda>ob. scanned_oid kind (fst e) (fst ob)) (sort_key fst objects)"
    using l by (auto simp: list_all2_conv_all_nth intro!: nth_equalityI)
  then have "set found = (\<lambda>ob. scanned_oid kind (fst e) (fst ob)) ` set objects" by simp
  also have "\<dots> = prefix_oids t kind (fst e)"
  proof
    show "(\<lambda>ob. scanned_oid kind (fst e) (fst ob)) ` set objects \<subseteq> prefix_oids t kind (fst e)"
    proof clarify
      fix x n assume x: "(x, n) \<in> set objects"
      then obtain bs where "n = File bs" using ok [OF x] by (cases n) (auto simp: object_entry_ok_def)
      then show "scanned_oid kind (fst e) (fst (x, n)) \<in> prefix_oids t kind (fst e)"
        using x ok [OF x] rd(3) by (auto simp: prefix_oids_def object_entry_ok_def)
    qed
    show "prefix_oids t kind (fst e) \<subseteq> (\<lambda>ob. scanned_oid kind (fst e) (fst ob)) ` set objects"
    proof
      fix oid assume "oid \<in> prefix_oids t kind (fst e)"
      then obtain suf bs where "oid = scanned_oid kind (fst e) suf" "length suf = 62" "list_all is_lower_hex suf"
        "map_of t (?p @ [suf]) = Some (File bs)"
        by (auto simp: prefix_oids_def)
      moreover from this have "\<not> is_ignored_os_metadata (suf, File bs)"
        using hex_not_metadata [of suf] by (cases suf) (auto simp: is_ignored_os_metadata_def)
      ultimately show "oid \<in> (\<lambda>ob. scanned_oid kind (fst e) (fst ob)) ` set objects"
        using rd(3) [of suf "File bs"] by (auto intro!: image_eqI [of _ _ "(suf, File bs)"])
    qed
  qed
  finally show "set (snd acc') = set (snd acc) \<union> prefix_oids t kind (fst e)" using acc' by simp
qed

lemma scan_prefixes_ok:
  assumes t: "tree_ok t" and es: "\<And>e. e \<in> set es \<Longrightarrow> map_of t [OBJECTS_DIRECTORY, kind_prefix kind, fst e] = Some (snd e)"
    and s: "foldE (scan_prefix_at_most t [OBJECTS_DIRECTORY, kind_prefix kind] kind m) acc es = Inr acc'"
    and acc: "length (snd acc) = fst acc" "fst acc \<le> m"
  shows "length (snd acc') = fst acc' \<and> fst acc' \<le> m \<and> (\<forall>e\<in>set es. prefix_entry_ok e)
    \<and> set (snd acc') = set (snd acc) \<union> (\<Union>e\<in>set es. prefix_oids t kind (fst e))"
  using es s acc
proof (induction es arbitrary: acc)
  case (Cons e es)
  from Cons.prems(2) obtain a where a: "scan_prefix_at_most t [OBJECTS_DIRECTORY, kind_prefix kind] kind m acc e = Inr a"
    and r: "foldE (scan_prefix_at_most t [OBJECTS_DIRECTORY, kind_prefix kind] kind m) a es = Inr acc'"
    by (auto simp: result_simps)
  have "snd e = Dir" using a by (auto simp: scan_prefix_at_most_def prefix_entry_ok_def split: if_splits)
  then have d: "map_of t [OBJECTS_DIRECTORY, kind_prefix kind, fst e] = Some Dir" using Cons.prems(1) [of e] by simp
  note step = scan_prefix_at_most_ok [OF t d a Cons.prems(3,4)]
  have "length (snd acc') = fst acc' \<and> fst acc' \<le> m \<and> (\<forall>e\<in>set es. prefix_entry_ok e)
      \<and> set (snd acc') = set (snd a) \<union> (\<Union>e\<in>set es. prefix_oids t kind (fst e))"
    using Cons.prems(1) by (intro Cons.IH [OF _ r step(1,2)]) simp
  then show ?case using step(3,4) by auto
qed simp

lemma scan_kind_ok:
  assumes t: "tree_ok t" and s: "scan_kind_inventory_at_most t kind m = Inr found"
  shows "set found = kind_oids t kind" "sorted_wrt (<) found" "length found \<le> m"
    "map_of t [OBJECTS_DIRECTORY, kind_prefix kind] = Some Dir"
proof -
  let ?p = "[OBJECTS_DIRECTORY, kind_prefix kind]"
  from s obtain n prefixes acc where n: "symlink_metadata t ?p = Inr Dir"
    and p: "read_directory_at_most t ?p 256 InvalidStoreLayout = Inr prefixes"
    and f: "foldE (scan_prefix_at_most t ?p kind m) (0, []) (sort_key fst prefixes) = Inr acc"
    and found: "found = remdups_adj (sort (snd acc))"
    by (auto simp: scan_kind_inventory_at_most_def Let_def result_simps split: if_splits)
  show d: "map_of t ?p = Some Dir" using n by (simp add: symlink_metadata_ok)
  note rd = read_directory_ok [OF t d p]
  have es: "map_of t [OBJECTS_DIRECTORY, kind_prefix kind, fst e] = Some (snd e)" if "e \<in> set (sort_key fst prefixes)" for e
    using that rd(3) [of "fst e" "snd e"] by simp
  note sp = scan_prefixes_ok [OF t es f]
  have "(\<Union>e\<in>set prefixes. prefix_oids t kind (fst e)) = kind_oids t kind"
  proof -
    have "fst ` set prefixes = {pre. length pre = 2 \<and> list_all is_lower_hex pre
        \<and> map_of t [OBJECTS_DIRECTORY, kind_prefix kind, pre] = Some Dir}" (is "_ = ?R")
    proof
      show "fst ` set prefixes \<subseteq> ?R" using sp es by (fastforce simp: prefix_entry_ok_def)
      show "?R \<subseteq> fst ` set prefixes"
        using rd(3) hex_utf8
        by (auto intro!: image_eqI [of _ _ "(_, Dir)"] simp: is_ignored_os_metadata_def)
    qed
    then show ?thesis by (simp add: kind_oids_prefixes [OF t] UN_simps(10) [symmetric] image_image)
  qed
  with sp found show "set found = kind_oids t kind" by simp
  show "sorted_wrt (<) found" using found by (simp add: sorted_dedup)
  have "length found \<le> length (snd acc)" using found remdups_adj_length [of "sort (snd acc)"] by simp
  with sp show "length found \<le> m" by simp
qed

lemma scan_kinds_ok:
  assumes t: "tree_ok t"
    and s: "foldE (\<lambda>acc kind. if m < length acc then panics
      else bindE (scan_kind_inventory_at_most t kind (m - length acc)) (\<lambda>found. Inr (acc @ found))) acc kinds = Inr r"
    and "length acc \<le> m"
  shows "length r \<le> m \<and> set r = set acc \<union> (\<Union>kind\<in>set kinds. kind_oids t kind)
    \<and> (\<exists>parts. r = acc @ concat parts \<and> list_all2 (\<lambda>part kind. distinct part \<and> set part = kind_oids t kind) parts kinds)"
  using s assms(3)
proof (induction kinds arbitrary: acc)
  case (Cons kind kinds)
  from Cons.prems obtain found where f: "scan_kind_inventory_at_most t kind (m - length acc) = Inr found"
    and r: "foldE (\<lambda>acc kind. if m < length acc then panics
      else bindE (scan_kind_inventory_at_most t kind (m - length acc)) (\<lambda>found. Inr (acc @ found))) (acc @ found) kinds = Inr r"
    by (auto simp: result_simps split: if_splits)
  note ok = scan_kind_ok [OF t f]
  have d: "distinct found" using ok(2) by (simp add: strict_sorted_iff)
  from ok(3) Cons.prems(2) have "length (acc @ found) \<le> m" by simp
  from Cons.IH [OF r this] obtain parts where parts: "length r \<le> m"
      "set r = set (acc @ found) \<union> (\<Union>kind\<in>set kinds. kind_oids t kind)" "r = (acc @ found) @ concat parts"
      "list_all2 (\<lambda>part kind. distinct part \<and> set part = kind_oids t kind) parts kinds" by blast
  then have "r = acc @ concat (found # parts)"
      "list_all2 (\<lambda>part kind. distinct part \<and> set part = kind_oids t kind) (found # parts) (kind # kinds)"
    using ok(1) d by simp_all
  moreover have "set r = set acc \<union> (\<Union>kind\<in>set (kind # kinds). kind_oids t kind)" using parts(2) ok(1) by auto
  ultimately show ?case using parts(1) by blast
qed simp

lemma kind_oids_disjoint: "kind \<noteq> kind' \<Longrightarrow> kind_oids t kind \<inter> kind_oids t kind' = {}"
  by (auto simp: kind_oids_def)

lemma scan_inventory_limited_ok:
  assumes t: "tree_ok t" and s: "scan_inventory_limited t m = Inr found"
  shows "set found = stored_oids t" "sorted_wrt (<) found" "length found \<le> m"
proof -
  let ?kinds = "[Blob, Record, Tree, Commit]"
  from s obtain r where r: "foldE (\<lambda>acc kind. if m < length acc then panics
      else bindE (scan_kind_inventory_at_most t kind (m - length acc)) (\<lambda>found. Inr (acc @ found))) [] ?kinds = Inr r"
    and found: "found = sort r"
    by (auto simp: scan_inventory_limited_def resource_limit_def bindE_eq_Inr simp del: foldE.simps split: if_splits)
  from scan_kinds_ok [OF t r] obtain parts where p: "length r \<le> m" "set r = (\<Union>kind\<in>set ?kinds. kind_oids t kind)"
      "r = concat parts" "list_all2 (\<lambda>part kind. distinct part \<and> set part = kind_oids t kind) parts ?kinds" by auto
  have all: "UNIV = set ?kinds" by (auto intro: object_kind.exhaust)
  show "set found = stored_oids t" using p(2) found by (simp add: stored_oids_def all)
  have "distinct r" using p(3,4) kind_oids_disjoint
    by (auto simp: list_all2_Cons2) blast+
  then show "sorted_wrt (<) found" using found by (simp add: strict_sorted_iff)
  show "length found \<le> m" using p(1) found by simp
qed

section \<open>Repair restores\<close>

lemma open_file_rename:
  assumes "fs_rename t (object_path_for_valid_oid oid kind) (quarantine_name oid kind a) = Inr u"
    and "temp_shaped p" "open_file t p = Some c"
  shows "open_file u p = Some c"
proof -
  have "\<not> under (object_path_for_valid_oid oid kind) p" "p \<noteq> []" "length p \<le> length (object_path_for_valid_oid oid kind)"
    "hd p \<noteq> hd (quarantine_name oid kind a)"
    using assms(2)
    by (auto simp: temp_shaped_def under_def object_path_for_valid_oid_def quarantine_name_def TEMP_DIRECTORY_def
        QUARANTINE_DIRECTORY_def)
  then show ?thesis
    using metadata_fs_rename [OF assms(1), of p "File c"] assms(3) by (simp add: open_file_ok quarantine_name_def)
qed

lemma quarantine_attempts_open:
  assumes "quarantine_attempts oid kind a n st = (Inr q, st')" "temp_shaped p" "open_file (files st) p = Some c"
  shows "open_file (files st') p = Some c \<and> same_handle st st'"
  using assms
  by (induction n arbitrary: a)
    (auto simp: Let_def same_handle_def open_file_rename split: sum.splits io_error.splits)

lemma ensure_directory_open:
  assumes "ensure_directory d st = (Inr (), st')" "open_file (files st) p = Some c"
  shows "open_file (files st') p = Some c"
  using assms
  by (auto simp: ensure_directory_def ensure_real_directory_def open_file_ok result_simps
      split: sum.splits io_error.splits if_splits intro: metadata_fs_add)

lemma quarantine_object_open:
  assumes "quarantine_object oid kind st = (Inr q, st')" "temp_shaped p" "open_file (files st) p = Some c"
  shows "open_file (files st') p = Some c" "same_handle st st'"
proof -
  from assms(1) obtain st1 where e: "ensure_directory [QUARANTINE_DIRECTORY] st = (Inr (), st1)"
    and a: "quarantine_attempts oid kind 0 1024 st1 = (Inr q, st')"
    unfolding quarantine_object_def by (auto elim!: bindA_Inr_cases)
  have "open_file (files st1) p = Some c" using ensure_directory_open [OF e assms(3)] .
  moreover have "same_handle st st1" using movesD [OF moves_ensure_directory e] by (simp add: grows_def)
  ultimately show "open_file (files st') p = Some c" "same_handle st st'"
    using quarantine_attempts_open [OF a assms(2)] by (auto simp: same_handle_def)
qed

lemma finish_repair_ok:
  assumes f: "finish_repair sha256 nfc kind staged oid n st = (Inr r, st')"
    and lim: "store_limits_ok (st_limits st)" and k: "parse_oid oid = Inr kind" and t: "temp_shaped staged"
    and c: "open_file (files st) staged = Some content" "object_bytes sha256 nfc (st_limits st) oid kind content body"
  shows "\<exists>bs body. object_at sha256 nfc st' oid kind bs body"
proof -
  have buf: "0 < io_buffer_bytes (st_limits st)" using lim by (simp add: store_limits_ok_def)
  have pub: "object_at sha256 nfc st' oid kind content body"
    if "publish_staged staged oid kind n s = (Inr pr, st')" "open_file (files s) staged = Some content"
      "st_limits s = st_limits st" for s pr
  proof -
    have "0 < io_buffer_bytes (st_limits s)" using buf that(3) by simp
    from publish_staged_ok(1) [OF that(1,2) this t] have "stored_bytes st' oid kind content" .
    moreover have "st_limits st' = st_limits st"
      using limits_preserved [OF publish_staged_moves [OF t] that(1)] that(3) by simp
    ultimately show ?thesis using c(2) k by (simp add: object_at_def)
  qed
  from f obtain s where s: "object_state sha256 nfc st oid = Inr s" and fin: "(case s of
       ObjPresent _ \<Rightarrow> with_staged staged (resultA (Inr AlreadyIntact))
     | ObjMissing \<Rightarrow> bindA (publish_staged staged oid kind n) (\<lambda>_. resultA (Inr (Restored None)))
     | ObjCorrupt _ \<Rightarrow> bindA (staged_on_error staged (quarantine_object oid kind)) (\<lambda>quarantined.
         bindA (publish_staged staged oid kind n) (\<lambda>_. resultA (Inr (Restored (Some quarantined)))))) st = (Inr r, st')"
    unfolding finish_repair_def by (auto elim!: bindA_Inr_cases)
  show ?thesis
  proof (cases s)
    case (ObjPresent i)
    with s k obtain ob where "get_verified sha256 nfc st oid = Inr (Some ob)"
      by (auto simp: object_state_def split: sum.splits option.splits fault.splits store_error.splits)
    then obtain bs where b: "stored_bytes st oid kind bs" "object_bytes sha256 nfc (st_limits st) oid kind bs (structured ob)"
      using k by (auto simp: get_verified_iff [OF lim])
    have "st' = drop_staged staged st" using fin ObjPresent by (simp add: with_staged_def)
    then have "grows st st'" using grows_drop_staged [OF t] by simp
    then have "object_at sha256 nfc st' oid kind bs (structured ob)"
      using b k by (simp add: object_at_def grows_def same_handle_def stored_bytes_def)
    then show ?thesis by blast
  next
    case ObjMissing
    with fin obtain pr where "publish_staged staged oid kind n st = (Inr pr, st')" by (auto elim!: bindA_Inr_cases)
    then show ?thesis using pub c(1) by blast
  next
    case (ObjCorrupt x)
    with fin obtain q st1 pr where q: "quarantine_object oid kind st = (Inr q, st1)"
      and p: "publish_staged staged oid kind n st1 = (Inr pr, st')" by (auto elim!: bindA_Inr_cases)
    from quarantine_object_open [OF q t c(1)] show ?thesis using pub [OF p] by (auto simp: same_handle_def)
  qed
qed

section \<open>A sample store\<close>

definition sample_hash :: "bytes \<Rightarrow> bytes" where
  "sample_hash bs = take 32 (bs @ replicate 32 (CHR 0x00))"

lemma sample_hash_length: "length (sample_hash bs) = 32"
  by (simp add: sample_hash_def)

definition sample_files :: file_store where
  "sample_files = \<lparr> files = map (\<lambda>p. (p, Dir)) layout, st_limits = default_store_limits,
     next_temp = 0, read_only = False, process_id = 7 \<rparr>"

definition sample_put :: file_store where
  "sample_put = snd (put_blob sample_hash [Some ''hi''] sample_files)"

lemma sample_limits: "limits_readable default_store_limits" "store_limits_ok default_store_limits"
  by code_simp+

lemma sample_open: "open_with_limits (\<lambda>s. s) 7 default_store_limits [] =
    (Inr (sample_files\<lparr> files := rev (files sample_files) \<rparr>), rev (files sample_files))"
  by code_simp

section \<open>Properties\<close>

text \<open>
  C10: objects are immutable. Whatever sequence of puts, repairs and quarantines is performed, with
  whatever results, an object that verified before still verifies, with the same bytes and body.
\<close>

theorem objects_survive:
  assumes "store_limits_ok (st_limits st)" "get_verified sha256 nfc st oid = Inr (Some ob)"
  shows "get_verified sha256 nfc
    (run_events (\<lambda>st op. Inr (apply_op sha256 nfc st op) :: store_error + file_store) st ops) oid = Inr (Some ob)"
proof -
  let ?st = "run_events (\<lambda>st op. Inr (apply_op sha256 nfc st op) :: store_error + file_store) st ops"
  have inv: "store_limits_ok (st_limits ?st)" "keeps_objects sha256 nfc st ?st"
    using object_history.reachable_inv [of st st sha256 nfc ops] assms(1) by auto
  from assms(2) show ?thesis
    unfolding get_verified_iff [OF assms(1)] get_verified_iff [OF inv(1)]
    using inv(2) unfolding keeps_objects_def same_handle_def by metis
qed

theorem objects_survive_witness:
  "get_verified sample_hash (\<lambda>s. s)
     (run_events (\<lambda>st op. Inr (apply_op sample_hash (\<lambda>s. s) st op) :: store_error + file_store) sample_put
       [PutBlob [Some ''other''], QuarantineIfCorrupt (blob_oid sample_hash ''hi'')]) (blob_oid sample_hash ''hi'')
   = Inr (Some \<lparr> info = \<lparr> info_oid = blob_oid sample_hash ''hi'', info_kind = Blob, info_byte_len = 2 \<rparr>,
                 structured = None \<rparr>)"
  by (rule objects_survive) code_simp+

text \<open>
  C26: what was put is what is read. A successful \<open>put_blob\<close> returns the OID of the bytes the reader
  delivered and stores exactly them; a successful \<open>put_structured_unchecked\<close> stores the canonical
  text of the value it read, under the OID of that value, whatever spelling came in. The limits let
  the store read back what it may write, as the default limits do.
\<close>

theorem put_then_read:
  assumes "\<And>b. length (sha256 b) = 32" "limits_readable (st_limits st)"
  shows "(put_blob sha256 reader st = (Inr r, st') \<longrightarrow>
      (\<exists>content. reader_bytes reader = Some content \<and> info_oid r = blob_oid sha256 content
        \<and> read_raw sha256 nfc st' (info_oid r) = Inr (Some content)))
    \<and> (put_structured_unchecked sha256 nfc input st = (Inr r, st') \<longrightarrow>
      (\<exists>v canonical. parse_strict_with_limits nfc (structured_limits (st_limits st)) input = Inr v
        \<and> canonical_json_with_limits nfc (structured_limits (st_limits st)) v = Inr canonical
        \<and> structured_oid_unchecked_with_limits sha256 nfc (structured_limits (st_limits st)) v = Inr (info_oid r)
        \<and> read_raw sha256 nfc st' (info_oid r) = Inr (Some canonical)))"
proof (intro conjI impI)
  have lim: "store_limits_ok (st_limits st)" using assms(2) by (simp add: limits_readable_def)
  have after: "store_limits_ok (st_limits st')" if "m st = (r', st')" "moves grows m" for m :: "put_result store_action" and r'
    using limits_preserved [OF that(2,1)] lim by simp
  {
    assume put: "put_blob sha256 reader st = (Inr r, st')"
    then have "put_blob_inner sha256 None reader st = (Inr r, st')"
      unfolding put_blob_def by (auto elim!: bindA_Inr_cases)
    from put_blob_inner_ok [OF assms(1) lim this]
    show "\<exists>content. reader_bytes reader = Some content \<and> info_oid r = blob_oid sha256 content
        \<and> read_raw sha256 nfc st' (info_oid r) = Inr (Some content)"
      using read_raw_iff [OF after [OF put put_moves(1)]] by metis
  next
    assume put: "put_structured_unchecked sha256 nfc input st = (Inr r, st')"
    then have "put_structured_inner sha256 nfc None input False st = (Inr r, st')"
      unfolding put_structured_unchecked_def by (auto elim!: bindA_Inr_cases)
    from put_structured_inner_ok [OF assms this]
    show "\<exists>v canonical. parse_strict_with_limits nfc (structured_limits (st_limits st)) input = Inr v
        \<and> canonical_json_with_limits nfc (structured_limits (st_limits st)) v = Inr canonical
        \<and> structured_oid_unchecked_with_limits sha256 nfc (structured_limits (st_limits st)) v = Inr (info_oid r)
        \<and> read_raw sha256 nfc st' (info_oid r) = Inr (Some canonical)"
      using read_raw_iff [OF after [OF put put_moves(3)]] by metis
  }
qed

theorem put_then_read_witness:
  "read_raw sample_hash (\<lambda>s. s) sample_put (blob_oid sample_hash ''hi'') = Inr (Some ''hi'')"
proof -
  let ?r = "\<lparr> info_oid = blob_oid sample_hash ''hi'', info_kind = Blob, info_byte_len = 2, disposition = Created \<rparr>"
  have "put_blob sample_hash [Some ''hi''] sample_files = (Inr ?r, sample_put)" "limits_readable (st_limits sample_files)"
    "reader_bytes [Some ''hi''] = Some ''hi''"
    by code_simp+
  then show ?thesis
    using put_then_read [of sample_hash sample_files "[Some ''hi'']" ?r sample_put "\<lambda>s. s" "[]"] sample_hash_length
    by auto
qed

text \<open>
  C28: reads return exactly the intact objects, and all read paths agree. \<open>get_verified\<close> finds an
  object exactly when the file at its path holds bytes that verify under the OID; \<open>read_raw\<close>,
  \<open>copy_verified_to\<close> and \<open>read_verified_blob_limited\<close> then deliver those bytes and nothing else.
\<close>

theorem reads_agree:
  assumes "store_limits_ok (st_limits st)"
  shows "(get_verified sha256 nfc st oid = Inr (Some ob) \<longleftrightarrow>
      (\<exists>kind bs. object_at sha256 nfc st oid kind bs (structured ob)
        \<and> info ob = \<lparr> info_oid = oid, info_kind = kind, info_byte_len = length bs \<rparr>))
    \<and> (read_raw sha256 nfc st oid = Inr (Some bs) \<longleftrightarrow> (\<exists>kind body. object_at sha256 nfc st oid kind bs body))
    \<and> ((\<exists>i. copy_verified_to sha256 nfc st oid = (bs, Inr (Some i))) \<longleftrightarrow>
        (\<exists>kind body. object_at sha256 nfc st oid kind bs body))
    \<and> (read_verified_blob_limited sha256 st oid m = Inr (Some bs) \<longleftrightarrow>
        object_at sha256 nfc st oid Blob bs None \<and> length bs \<le> m \<and> 0 < m)"
  using get_verified_iff [OF assms] read_raw_iff [OF assms] copy_verified_to_iff [OF assms]
    read_verified_blob_limited_iff [OF assms]
  by (simp add: object_at_def)

theorem reads_agree_witness:
  "(\<exists>i. copy_verified_to sample_hash (\<lambda>s. s) sample_put (blob_oid sample_hash ''hi'') = (''hi'', Inr (Some i)))
   \<and> read_verified_blob_limited sample_hash sample_put (blob_oid sample_hash ''hi'') 2 = Inr (Some ''hi'')
   \<and> read_verified_blob_limited sample_hash sample_put (blob_oid sample_hash ''hi'') 1 \<noteq> Inr (Some ''hi'')"
proof -
  have lim: "store_limits_ok (st_limits sample_put)" by code_simp
  have "parse_oid (blob_oid sample_hash ''hi'') = Inr Blob" "stored_bytes sample_put (blob_oid sample_hash ''hi'') Blob ''hi''"
    "length ''hi'' \<le> max_blob_bytes (st_limits sample_put)" by code_simp+
  then have "object_at sample_hash (\<lambda>s. s) sample_put (blob_oid sample_hash ''hi'') Blob ''hi'' None"
    by (simp add: object_at_def object_bytes_def)
  then show ?thesis
    using reads_agree [OF lim, of sample_hash "\<lambda>s. s" "blob_oid sample_hash ''hi''" _ "''hi''" 2]
      reads_agree [OF lim, of sample_hash "\<lambda>s. s" "blob_oid sample_hash ''hi''" _ "''hi''" 1] by auto
qed

text \<open>
  C27: a write goes through. On a writable store whose layout exists and whose counter of temporary
  names is an unsigned 64 bit number, with a reader that does not fail and stays within the limit and
  no foreign node at the Blob's path, \<open>put_blob\<close> stores the Blob exactly when one of the 1024
  temporary names it tries is free, however many of them are occupied by leftovers of other processes:
  it returns the OID and length of the content, says \<open>Created\<close> exactly when the path was free, and
  afterwards the OID reads back as that content and verifies. When all 1024 names are taken it reports
  an I/O error and leaves every file as it was.
\<close>

theorem put_blob_succeeds:
  assumes "\<And>b. length (sha256 b) = 32" "store_limits_ok (st_limits st)" "\<not> read_only st"
    and "map_of (files st) [TEMP_DIRECTORY] = Some Dir" "next_temp st \<le> u64_max"
    and "reader_bytes reader = Some content" "length content \<le> max_blob_bytes (st_limits st)"
    and "room_for (files st) (blob_oid sha256 content) Blob content"
  shows "if temp_available st
    then \<exists>r st'. put_blob sha256 reader st = (Inr r, st')
      \<and> info_oid r = blob_oid sha256 content \<and> info_kind r = Blob \<and> info_byte_len r = length content
      \<and> (disposition r = Created \<longleftrightarrow>
          map_of (files st) (object_path_for_valid_oid (blob_oid sha256 content) Blob) = None)
      \<and> read_raw sha256 nfc st' (blob_oid sha256 content) = Inr (Some content)
      \<and> (\<exists>ob. get_verified sha256 nfc st' (blob_oid sha256 content) = Inr (Some ob))
    else \<exists>st'. put_blob sha256 reader st = (fails Io, st') \<and> files st' = files st"
proof (cases "temp_available st")
  case True
  have inner: "put_blob sha256 reader st = put_blob_inner sha256 None reader st"
    using assms(3) by (simp add: put_blob_def bindA_readA ensure_writable_store_def)
  then obtain r st' where r: "put_blob_inner sha256 None reader st = (Inr r, st')"
      "disposition r = Created \<longleftrightarrow> map_of (files st) (object_path_for_valid_oid (blob_oid sha256 content) Blob) = None"
    using put_blob_inner_succeeds [OF assms(2-5) True assms(6-8), of None] by auto
  have "store_limits_ok (st_limits st')"
    using limits_preserved [OF put_moves(1) trans [OF inner r(1)]] assms(2) by simp
  moreover have at: "info_oid r = blob_oid sha256 content \<and> info_kind r = Blob \<and> info_byte_len r = length content
      \<and> object_at sha256 nfc st' (blob_oid sha256 content) Blob content None"
    using put_blob_inner_ok [OF assms(1,2) r(1), of nfc] assms(6) by (metis option.inject)
  ultimately have "get_verified sha256 nfc st' (blob_oid sha256 content) = Inr (Some
      \<lparr> info = \<lparr> info_oid = blob_oid sha256 content, info_kind = Blob, info_byte_len = length content \<rparr>, structured = None \<rparr>)"
    and "read_raw sha256 nfc st' (blob_oid sha256 content) = Inr (Some content)"
    by (auto simp: read_raw_iff get_verified_iff object_at_def)
  then show ?thesis using at r inner True by simp
next
  case False
  then obtain c where "create_staged_file st = (fails Io, st\<lparr> next_temp := c \<rparr>)"
    using create_staged_exact [OF assms(3-5)] by auto
  then show ?thesis using False assms(3)
    by (simp add: put_blob_def put_blob_inner_def stage_blob_def bindA_def ensure_writable_store_def)
qed

text \<open>A store on which a crashed process with the same identifier left the next temporary name behind.\<close>

definition sample_leftover :: file_store where
  "sample_leftover = sample_files\<lparr> files := (temp_path 7 0, File ''left'') # files sample_files \<rparr>"

theorem put_blob_succeeds_witness:
  "map_of (files sample_leftover) (attempted_path sample_leftover 0) \<noteq> None
   \<and> (\<exists>r st'. put_blob sample_hash [Some ''h'', Some ''i''] sample_leftover = (Inr r, st') \<and> disposition r = Created
     \<and> read_raw sample_hash (\<lambda>s. s) st' (blob_oid sample_hash ''hi'') = Inr (Some ''hi''))"
proof
  show "map_of (files sample_leftover) (attempted_path sample_leftover 0) \<noteq> None" by code_simp
  have "map_of (files sample_leftover) (attempted_path sample_leftover 1) = None" by code_simp
  then have free: "temp_available sample_leftover"
    unfolding temp_available_def by (intro exI [of _ 1]) simp
  have here: "store_limits_ok (st_limits sample_leftover)" "\<not> read_only sample_leftover"
    "map_of (files sample_leftover) [TEMP_DIRECTORY] = Some Dir" "next_temp sample_leftover \<le> u64_max"
    "reader_bytes [Some ''h'', Some ''i''] = Some ''hi''" "length ''hi'' \<le> max_blob_bytes (st_limits sample_leftover)"
    "room_for (files sample_leftover) (blob_oid sample_hash ''hi'') Blob ''hi''"
    "map_of (files sample_leftover) (object_path_for_valid_oid (blob_oid sample_hash ''hi'') Blob) = None"
    by code_simp+
  show "\<exists>r st'. put_blob sample_hash [Some ''h'', Some ''i''] sample_leftover = (Inr r, st') \<and> disposition r = Created
     \<and> read_raw sample_hash (\<lambda>s. s) st' (blob_oid sample_hash ''hi'') = Inr (Some ''hi'')"
    using put_blob_succeeds [OF sample_hash_length here(1-7), of "\<lambda>s. s"] free here(8) by auto
qed

text \<open>
  C29: repair restores. When \<open>repair_object\<close> returns, whatever it found at the path, the object
  verifies under its OID; every object that was intact before still is.
\<close>

theorem repair_restores:
  assumes "store_limits_ok (st_limits st)" "repair_object sha256 nfc oid reader st = (Inr r, st')"
  shows "(\<exists>ob. get_verified sha256 nfc st' oid = Inr (Some ob)) \<and>
    (\<forall>other ob. get_verified sha256 nfc st other = Inr (Some ob) \<longrightarrow> get_verified sha256 nfc st' other = Inr (Some ob))"
proof -
  have keeps: "keeps_objects sha256 nfc st st'"
    using repair_object_keeps [OF assms(1), of sha256 nfc oid reader] assms(2) by simp
  then have lim: "store_limits_ok (st_limits st')" using assms(1) by (simp add: keeps_objects_def same_handle_def)
  from assms(2) obtain kind staged oid' n st1 where k: "parse_oid oid = Inr kind"
    and s: "stage_repair sha256 nfc oid kind reader st = (Inr (staged, oid', n), st1)"
    and f: "finish_repair sha256 nfc kind staged oid' n st1 = (Inr r, st')"
    unfolding repair_object_def by (auto elim!: bindA_Inr_cases)
  obtain content body where c: "oid' = oid" "temp_shaped staged" "open_file (files st1) staged = Some content"
      "object_bytes sha256 nfc (st_limits st) oid kind content body"
    using s assms(1) by (rule stage_repair_ok)
  have l: "st_limits st1 = st_limits st" using limits_preserved [OF stage_repair_moves s] .
  have "\<exists>bs body. object_at sha256 nfc st' oid kind bs body"
    using finish_repair_ok [OF f [unfolded c(1)] _ k c(2,3)] assms(1) c(4) l by simp
  then obtain bs body' where "object_at sha256 nfc st' oid kind bs body'" by blast
  then have "get_verified sha256 nfc st' oid =
      Inr (Some \<lparr> info = \<lparr> info_oid = oid, info_kind = kind, info_byte_len = length bs \<rparr>, structured = body' \<rparr>)"
    by (subst get_verified_iff [OF lim]) (auto simp: object_at_def)
  moreover have "get_verified sha256 nfc st' other = Inr (Some ob)" if "get_verified sha256 nfc st other = Inr (Some ob)" for other ob
    using that keeps unfolding get_verified_iff [OF assms(1)] get_verified_iff [OF lim] keeps_objects_def same_handle_def
    by metis
  ultimately show ?thesis by blast
qed

text \<open>A store in which the bytes of one object were overwritten.\<close>

definition sample_damaged :: file_store where
  "sample_damaged = sample_put\<lparr> files := fs_write (files sample_put)
     (object_path_for_valid_oid (blob_oid sample_hash ''hi'') Blob) ''xx'' \<rparr>"

theorem repair_restores_witness:
  "get_verified sample_hash (\<lambda>s. s) sample_damaged (blob_oid sample_hash ''hi'')
     = fails (CorruptObject (blob_oid sample_hash ''hi''))
   \<and> (\<exists>ob. get_verified sample_hash (\<lambda>s. s)
        (snd (repair_object sample_hash (\<lambda>s. s) (blob_oid sample_hash ''hi'') [Some ''hi''] sample_damaged))
        (blob_oid sample_hash ''hi'') = Inr (Some ob))"
proof
  show "get_verified sample_hash (\<lambda>s. s) sample_damaged (blob_oid sample_hash ''hi'')
     = fails (CorruptObject (blob_oid sample_hash ''hi''))" by code_simp
  let ?r = "Restored (Some (quarantine_name (blob_oid sample_hash ''hi'') Blob 0))"
  have "fst (repair_object sample_hash (\<lambda>s. s) (blob_oid sample_hash ''hi'') [Some ''hi''] sample_damaged) = Inr ?r"
    "store_limits_ok (st_limits sample_damaged)" by code_simp+
  then show "\<exists>ob. get_verified sample_hash (\<lambda>s. s)
        (snd (repair_object sample_hash (\<lambda>s. s) (blob_oid sample_hash ''hi'') [Some ''hi''] sample_damaged))
        (blob_oid sample_hash ''hi'') = Inr (Some ob)"
    using repair_restores [of sample_damaged sample_hash "\<lambda>s. s" "blob_oid sample_hash ''hi''" "[Some ''hi'']" ?r]
    by (metis prod.collapse)
qed

text \<open>
  C30: the inventories are complete. On a well-formed tree \<open>list_oids\<close> never misses or invents an
  object, in strictly ascending order; a bounded listing that succeeds is that same list and
  never longer than its bound.
\<close>

theorem inventory_exact:
  assumes "tree_ok (files st)" "map_of (files st) [OBJECTS_DIRECTORY] = Some Dir"
  shows "\<exists>inv. scan_inventory (files st) = Inr inv \<and> set (oids inv) = stored_oids (files st)
    \<and> sorted_wrt (<) (oids inv)
    \<and> (\<forall>found. list_oids st = Inr found \<longrightarrow> found = oids inv)
    \<and> (\<forall>m found. list_oids_limited st m = Inr found \<longrightarrow> found = oids inv \<and> length found \<le> m)
    \<and> (\<forall>kind m found. list_oids_by_kind_limited st kind m = Inr found \<longrightarrow>
         found = filter (\<lambda>oid. parse_oid oid = Inr kind) (oids inv) \<and> length found \<le> m)"
proof -
  obtain inv where inv: "scan_inventory (files st) = Inr inv" "set (oids inv) = stored_oids (files st)"
      "sorted_wrt (<) (oids inv)"
    using scan_inventory_ok [OF assms] by blast
  have "found = oids inv" if "list_oids st = Inr found" for found
    using that inv(1) by (auto simp: list_oids_def split: if_splits)
  moreover have "found = oids inv \<and> length found \<le> m" if "list_oids_limited st m = Inr found" for m found
    using scan_inventory_limited_ok [OF assms(1), of m found] that inv strict_sorted_equal
    unfolding list_oids_limited_def by metis
  moreover have "found = filter (\<lambda>oid. parse_oid oid = Inr kind) (oids inv) \<and> length found \<le> m"
    if "list_oids_by_kind_limited st kind m = Inr found" for kind m found
  proof -
    have s: "scan_kind_inventory_at_most (files st) kind m = Inr found"
      using that by (auto simp: list_oids_by_kind_limited_def scan_kind_inventory_limited_def resource_limit_def split: if_splits)
    note ok = scan_kind_ok [OF assms(1) s]
    have "set (filter (\<lambda>oid. parse_oid oid = Inr kind) (oids inv)) = kind_oids (files st) kind"
      using inv(2) by (auto simp: stored_oids_def kind_oids_def)
    then show ?thesis using ok inv(3) strict_sorted_equal sorted_wrt_filter by metis
  qed
  ultimately show ?thesis using inv by blast
qed

theorem inventory_exact_witness:
  "list_oids_limited sample_put 1 = Inr [blob_oid sample_hash ''hi'']
   \<and> set [blob_oid sample_hash ''hi''] = stored_oids (files sample_put)"
proof -
  have l: "list_oids_limited sample_put 1 = Inr [blob_oid sample_hash ''hi'']" "tree_ok (files sample_put)"
    "map_of (files sample_put) [OBJECTS_DIRECTORY] = Some Dir" by code_simp+
  with inventory_exact [of sample_put] show ?thesis by metis
qed

text \<open>
  C31: what the memo of an integrity check may answer while the store changes under it. For any
  sequence of lookups, each with the store in an arbitrary state: the answer is the store's own answer
  at that moment, or an object that an earlier lookup of the same OID verified, and then only while a
  regular file of that length still lies at its path, so missing objects, errors and objects that
  disappeared or changed length are always reported from the store; if the store keeps giving one
  answer for an OID, the memo gives it too; a Blob verified once is answered again without being read
  as long as its file keeps its length; and the parsed bodies kept never exceed the byte budget.
\<close>

theorem memo_faithful:
  "(memo_answer sha256 nfc lookups i = store_answer sha256 nfc lookups i
     \<or> (\<exists>j<i. \<exists>ob. snd (lookups j) = snd (lookups i) \<and> store_answer sha256 nfc lookups j = Inr (Some ob)
         \<and> stored_length (fst (lookups i)) (snd (lookups i)) (obj_byte_len ob)
         \<and> memo_answer sha256 nfc lookups i = Inr (Some ob)))
   \<and> ((\<forall>j<i. snd (lookups j) = snd (lookups i) \<longrightarrow> store_answer sha256 nfc lookups j = store_answer sha256 nfc lookups i)
       \<longrightarrow> memo_answer sha256 nfc lookups i = store_answer sha256 nfc lookups i)
   \<and> (\<forall>j<i. \<forall>ob. memo_answer sha256 nfc lookups j = Inr (Some ob) \<and> obj_kind ob = Blob \<and> snd (lookups i) = snd (lookups j)
       \<and> (\<forall>k. j < k \<and> k \<le> i \<and> snd (lookups k) = snd (lookups j) \<longrightarrow>
            stored_length (fst (lookups k)) (snd (lookups j)) (obj_byte_len ob))
       \<longrightarrow> memo_answer sha256 nfc lookups i = Inr (Some ob))
   \<and> sum_list (map (\<lambda>(_, ob). if obj_kind ob = Blob then 0 else obj_byte_len ob)
       (memo_verified (memo_at sha256 nfc lookups i))) \<le> MAX_MEMOIZED_STRUCTURED_BYTES"
    (is "?either \<and> ?same \<and> ?again \<and> ?budget")
proof (intro conjI)
  show e: ?either
  proof (cases rule: memo_answer_cases [of sha256 nfc lookups i])
    case (2 ob)
    then show ?thesis using memo_entry_oid [OF 2(1)] by (metis still_stored_iff)
  qed simp
  then show ?same by metis
  show ?again using memo_answer_again by blast
  show ?budget using memo_ok_at [of sha256 nfc lookups i] by (auto simp: memo_ok_def)
qed

text \<open>
  The Blob is verified, then overwritten at the same length, then removed: the memo reports the
  first verification, again, and then the loss.
\<close>

definition sample_lookups :: lookups where
  "sample_lookups i = ((if i = 0 then sample_put else if i = 1 then sample_damaged else sample_files), blob_oid sample_hash ''hi'')"

theorem memo_faithful_witness:
  "memo_answer sample_hash (\<lambda>s. s) sample_lookups 1 = store_answer sample_hash (\<lambda>s. s) sample_lookups 0
   \<and> store_answer sample_hash (\<lambda>s. s) sample_lookups 1 = fails (CorruptObject (blob_oid sample_hash ''hi''))
   \<and> memo_answer sample_hash (\<lambda>s. s) sample_lookups 2 = Inr None"
proof -
  let ?oid = "blob_oid sample_hash ''hi''"
  let ?ob = "\<lparr> info = \<lparr> info_oid = ?oid, info_kind = Blob, info_byte_len = 2 \<rparr>, structured = None \<rparr>"
  have stored: "store_answer sample_hash (\<lambda>s. s) sample_lookups 0 = Inr (Some ?ob)"
      "store_answer sample_hash (\<lambda>s. s) sample_lookups 1 = fails (CorruptObject ?oid)"
      "store_answer sample_hash (\<lambda>s. s) sample_lookups 2 = Inr None"
      "parse_oid ?oid = Inr Blob" "stored_bytes sample_damaged ?oid Blob ''xx''"
      "symlink_metadata (files sample_files) (object_path_for_valid_oid ?oid Blob) = Inl NotFound" by code_simp+
  have "memo_answer sample_hash (\<lambda>s. s) sample_lookups 0 = Inr (Some ?ob)"
    using memo_faithful [of sample_hash "\<lambda>s. s" sample_lookups 0] stored(1) by simp
  moreover have "stored_length sample_damaged ?oid 2"
    using stored(4,5) by (auto simp: stored_length_def intro!: exI [of _ "''xx''"])
  ultimately have "memo_answer sample_hash (\<lambda>s. s) sample_lookups 1 = Inr (Some ?ob)"
    using memo_faithful [of sample_hash "\<lambda>s. s" sample_lookups 1] by (auto simp: sample_lookups_def)
  moreover have "\<not> stored_length sample_files ?oid n" for n
    using stored(4,6) by (simp add: stored_length_def stored_bytes_def)
  then have "memo_answer sample_hash (\<lambda>s. s) sample_lookups 2 = Inr None"
    using memo_faithful [of sample_hash "\<lambda>s. s" sample_lookups 2] stored(3) by (auto simp: sample_lookups_def)
  ultimately show ?thesis using stored(1,2) by simp
qed

end
