(* ===== verification/Closure_Graph.thy ===== *)
theory Closure_Graph
  imports Object_Store_Laws "HOL-Library.AList"
begin

text \<open>
  Closure verification and fsck, \<^verbatim>\<open>src/crates/synapse-cas/src/graph.rs\<close>.

  \<^item> The object store is the argument \<open>get\<close>, its \<open>get_verified\<close>; the locale \<^verbatim>\<open>verified_source\<close>
    states what the walk relies on and is interpreted by the file store.
  \<^item> \<open>ReferenceCollector\<close> is \<^verbatim>\<open>collector\<close>; \<open>&mut collector, &mut issues\<close> are threaded as a pair.
  \<^item> The loop of \<open>verify_closure_with_tombstones\<close> is \<open>walk\<close>, one iteration is \<open>walk_step\<close> on the
    record of the loop's variables. A \<open>HashSet\<close> is the list of its members, a \<open>BTreeMap\<close> an
    association list. The \<open>expect\<close>s of the loop are panics.
  \<^item> Diagnostic text of issues is dropped, except the record facts of a semantic mismatch.
\<close>

section \<open>Data\<close>

record tombstone_scan_limits =
  max_record_objects :: nat
  max_record_bytes :: nat

definition default_tombstone_scan_limits :: tombstone_scan_limits where
  "default_tombstone_scan_limits = \<lparr> max_record_objects = 100000, max_record_bytes = 1073741824 \<rparr>"

record graph_limits =
  max_objects :: nat
  max_edges :: nat
  max_depth :: nat

definition default_graph_limits :: graph_limits where
  "default_graph_limits = \<lparr> max_objects = 100000, max_edges = 1000000, max_depth = 512 \<rparr>"

definition MAX_GRAPH_REFERENCE_BYTES :: nat where
  "MAX_GRAPH_REFERENCE_BYTES = 67108864"

datatype reference_role =
    CommitParent nat
  | CommitSnapshot
  | CommitTransition nat
  | CommitBoundDeclaration nat
  | TreeEntry str
  | RecordReference str
  | RecordSupersedes

record graph_edge =
  edge_source :: str
  edge_target :: str
  edge_expected_kind :: object_kind
  edge_role :: reference_role

datatype closure_node_state =
    Present object_kind nat
  | Tombstoned object_kind str
  | MissingNode object_kind
  | CorruptNode object_kind
  | ReadFailureNode object_kind

record closure_node =
  node_oid :: str
  node_depth :: nat
  node_state :: closure_node_state

datatype closure_issue_kind =
    MissingIssue
  | CorruptIssue
  | ReadFailureIssue
  | TypeMismatchIssue object_kind object_kind
  | SemanticMismatchIssue str str
  | InvalidObjectIssue
  | InvalidReferenceIssue str
  | CycleIssue "str list"
  | ResourceLimitIssue str nat

record closure_issue =
  issue_oid :: str
  issue_referenced_by :: "str option"
  issue_role :: "reference_role option"
  issue_kind :: closure_issue_kind

record closure_report =
  root :: str
  nodes :: "(str \<times> closure_node) list"
  edges :: "graph_edge list"
  issues :: "closure_issue list"
  truncated :: bool

definition is_complete :: "closure_report \<Rightarrow> bool" where
  "is_complete rp \<longleftrightarrow> \<not> truncated rp \<and> issues rp = []"

datatype record_constraint = RecordType str | AiActivity | Supersedes str str

record record_semantics =
  sem_record_type :: "str option"
  sem_entity_id :: "str option"
  sem_activity_kind :: "str option"

record pending_reference =
  ref_target :: str
  ref_expected_kind :: object_kind
  ref_role :: reference_role
  ref_constraint :: "record_constraint option"

datatype extraction_limit = EdgesLimit | ReferenceBytesLimit

record collector =
  references :: "pending_reference list"
  col_max_edges :: nat
  col_max_reference_bytes :: nat
  col_max_pointer_bytes :: nat
  charged_bytes :: nat
  exceeded :: "extraction_limit option"

record pending_visit =
  visit_oid :: str
  visit_kind :: object_kind
  visit_depth :: nat
  visit_referenced_by :: "str option"
  visit_role :: "reference_role option"
  visit_constraint :: "record_constraint option"

datatype walk_item = Enter pending_visit | Exit str

section \<open>Collecting references\<close>

definition new_collector :: "nat \<Rightarrow> nat \<Rightarrow> nat \<Rightarrow> collector" where
  "new_collector e b p = \<lparr> references = [], col_max_edges = e, col_max_reference_bytes = b,
     col_max_pointer_bytes = p, charged_bytes = 0, exceeded = None \<rparr>"

definition is_exceeded :: "collector \<Rightarrow> bool" where
  "is_exceeded c \<longleftrightarrow> exceeded c \<noteq> None"

definition exceed_reference_bytes :: "collector \<Rightarrow> collector" where
  "exceed_reference_bytes c = c\<lparr> exceeded := Some ReferenceBytesLimit \<rparr>"

definition reference_charge :: "nat \<Rightarrow> nat \<Rightarrow> nat \<Rightarrow> nat option" where
  "reference_charge target_bytes role_bytes constraint_bytes =
     Option.bind (Option.bind (checked_mul target_bytes 8) (\<lambda>b.
       Option.bind (checked_mul role_bytes 3) (\<lambda>r. checked_add b r))) (\<lambda>b. checked_add b constraint_bytes)"

definition try_push :: "nat \<Rightarrow> nat \<Rightarrow> nat \<Rightarrow> pending_reference \<Rightarrow> collector \<Rightarrow> collector" where
  "try_push target_bytes role_bytes constraint_bytes r c =
     (if is_exceeded c then c
      else if length (references c) \<ge> col_max_edges c then c\<lparr> exceeded := Some EdgesLimit \<rparr>
      else case reference_charge target_bytes role_bytes constraint_bytes of
        None \<Rightarrow> exceed_reference_bytes c
      | Some charge \<Rightarrow>
          (case checked_add (charged_bytes c) charge of
             None \<Rightarrow> exceed_reference_bytes c
           | Some next \<Rightarrow>
               if next > col_max_reference_bytes c then exceed_reference_bytes c
               else c\<lparr> references := references c @ [r], charged_bytes := next \<rparr>))"

definition invalid_object :: "str \<Rightarrow> closure_issue" where
  "invalid_object oid = \<lparr> issue_oid = oid, issue_referenced_by = None, issue_role = None,
     issue_kind = InvalidObjectIssue \<rparr>"

type_synonym extraction = "collector \<times> closure_issue list"

definition report_invalid :: "str \<Rightarrow> extraction \<Rightarrow> extraction" where
  "report_invalid oid x = (fst x, snd x @ [invalid_object oid])"

definition push :: "nat \<Rightarrow> nat \<Rightarrow> nat \<Rightarrow> pending_reference \<Rightarrow> extraction \<Rightarrow> extraction" where
  "push t r b p x = (try_push t r b p (fst x), snd x)"

definition dynamic_target_bytes :: "str \<Rightarrow> nat" where
  "dynamic_target_bytes target =
     (case split_once target '':sg-oid-v1:sha256:'' of
        None \<Rightarrow> length target
      | Some (family, digest) \<Rightarrow>
          if family \<in> {''blob'', ''record'', ''tree'', ''commit''} \<and> length digest = 64
             \<and> list_all (\<lambda>b. is_ascii_digit b \<or> 97 \<le> byte_val b \<and> byte_val b \<le> 102) digest
          then 0 else length target)"

definition append_pointer_index :: "str \<Rightarrow> nat \<Rightarrow> nat \<Rightarrow> str option" where
  "append_pointer_index pointer index limit =
     (case Option.bind (checked_add (length pointer) 1) (\<lambda>n. checked_add n (length (nat_to_str index))) of
        None \<Rightarrow> None
      | Some next \<Rightarrow> if next > limit then None else Some (pointer @ ''/'' @ nat_to_str index))"

definition pointer_escape :: "nat \<Rightarrow> str" where
  "pointer_escape c = (if c = 0x7E then ''~0'' else if c = 0x2F then ''~1'' else utf8_encode c)"

fun append_pointer_chars :: "nat \<Rightarrow> str \<Rightarrow> nat list \<Rightarrow> str option" where
  "append_pointer_chars limit pointer [] = Some pointer"
| "append_pointer_chars limit pointer (c # cs) =
     (case checked_add (length pointer) (length (pointer_escape c)) of
        None \<Rightarrow> None
      | Some n \<Rightarrow> if n > limit then None else append_pointer_chars limit (pointer @ pointer_escape c) cs)"

definition append_pointer_key :: "str \<Rightarrow> str \<Rightarrow> nat \<Rightarrow> str option" where
  "append_pointer_key pointer key limit =
     (case checked_add (length pointer) 1 of
        None \<Rightarrow> None
      | Some n \<Rightarrow> if n > limit then None else append_pointer_chars limit (pointer @ ''/'') (chars key))"

definition str_field :: "json \<Rightarrow> str \<Rightarrow> str option" where
  "str_field v key = Option.bind (json_get v key) as_str"

definition record_constraint_for :: "str \<Rightarrow> str \<Rightarrow> record_constraint option" where
  "record_constraint_for record_type pointer =
     (if record_type = ''observation'' \<and> pointer = ''/payload/capture_profile_ref'' then Some (RecordType ''capture_profile'')
      else if record_type = ''activity'' \<and> pointer = ''/payload/ai_run/context_pack_ref'' then Some (RecordType ''context_pack'')
      else if record_type = ''activity'' \<and> pointer = ''/payload/ai_run/delegation_grant_ref'' then Some (RecordType ''delegation_grant'')
      else if record_type = ''context_pack'' \<and> pointer = ''/payload/policy_snapshot_ref'' then Some (RecordType ''policy'')
      else if record_type = ''context_pack'' \<and> pointer = ''/payload/delegation_grant_ref'' then Some (RecordType ''delegation_grant'')
      else if record_type = ''claim_reaction'' \<and> pointer = ''/payload/claim_ref'' then Some (RecordType ''claim'')
      else if record_type = ''claim'' \<and> pointer = ''/payload/ai_run_ref'' then Some AiActivity
      else None)"

fun constraint_len :: "record_constraint option \<Rightarrow> nat" where
  "constraint_len (Some (Supersedes record_type entity_id)) = saturating_add (length record_type) (length entity_id)"
| "constraint_len _ = 0"

text \<open>One OID string of a Record, at a JSON pointer.\<close>

definition collect_oid_string :: "str \<Rightarrow> str \<Rightarrow> str \<Rightarrow> str \<Rightarrow> str \<Rightarrow> extraction \<Rightarrow> extraction" where
  "collect_oid_string pointer source record_type entity_id target x =
     (case parse_oid target of
        Inl _ \<Rightarrow> x
      | Inr actual \<Rightarrow>
          let x = (if record_type = ''tombstone'' \<and> pointer = ''/payload/target_ref'' \<and> target = source
                   then report_invalid source x else x);
              supersedes = (pointer = ''/supersedes'');
              constraint = (if supersedes then Some (Supersedes record_type entity_id)
                            else record_constraint_for record_type pointer);
              expected = (if constraint \<noteq> None then Record else actual)
          in push 0 (if supersedes then 0 else length pointer) (constraint_len constraint)
               \<lparr> ref_target = target, ref_expected_kind = expected,
                 ref_role = (if supersedes then RecordSupersedes else RecordReference pointer),
                 ref_constraint = constraint \<rparr> x)"

function (sequential) collect_record_oid_strings :: "str \<Rightarrow> str \<Rightarrow> str \<Rightarrow> json \<Rightarrow> str \<Rightarrow> extraction \<Rightarrow> extraction"
  and collect_elements :: "str \<Rightarrow> str \<Rightarrow> str \<Rightarrow> json list \<Rightarrow> nat \<Rightarrow> str \<Rightarrow> extraction \<Rightarrow> extraction"
  and collect_entries :: "str \<Rightarrow> str \<Rightarrow> str \<Rightarrow> (str \<times> json) list \<Rightarrow> str \<Rightarrow> extraction \<Rightarrow> extraction"
where
  "collect_record_oid_strings src rt eid v pointer x =
     (if is_exceeded (fst x) then x
      else case v of
        String target \<Rightarrow> collect_oid_string pointer src rt eid target x
      | Array values \<Rightarrow> collect_elements src rt eid values 0 pointer x
      | Object entries \<Rightarrow> collect_entries src rt eid entries pointer x
      | _ \<Rightarrow> x)"
| "collect_elements src rt eid [] i pointer x = x"
| "collect_elements src rt eid (v # vs) i pointer x =
     (case append_pointer_index pointer i (col_max_pointer_bytes (fst x)) of
        None \<Rightarrow> (exceed_reference_bytes (fst x), snd x)
      | Some p \<Rightarrow>
          let x' = collect_record_oid_strings src rt eid v p x in
          if is_exceeded (fst x') then x' else collect_elements src rt eid vs (i + 1) pointer x')"
| "collect_entries src rt eid [] pointer x = x"
| "collect_entries src rt eid (e # es) pointer x =
     (case append_pointer_key pointer (fst e) (col_max_pointer_bytes (fst x)) of
        None \<Rightarrow> (exceed_reference_bytes (fst x), snd x)
      | Some p \<Rightarrow>
          let x' = collect_record_oid_strings src rt eid (snd e) p x in
          if is_exceeded (fst x') then x' else collect_entries src rt eid es pointer x')"
  by pat_completeness auto

termination
  by (relation "measure (case_sum (\<lambda>(_, _, _, v, _, _). 2 * size v)
      (case_sum (\<lambda>(_, _, _, vs, _, _, _). 2 * size_list size vs + 1)
        (\<lambda>(_, _, _, es, _, _). 2 * size_list (\<lambda>e. Suc (size (snd e))) es + 1)))")
    (auto simp: size_prod_simp)

declare collect_record_oid_strings.simps [simp del]

definition extract_record_references :: "verified_object \<Rightarrow> extraction \<Rightarrow> extraction" where
  "extract_record_references ob x =
     (case structured ob of
        None \<Rightarrow> report_invalid (obj_oid ob) x
      | Some v \<Rightarrow>
          collect_record_oid_strings (obj_oid ob)
            (case str_field v ''record_type'' of None \<Rightarrow> [] | Some s \<Rightarrow> s)
            (case str_field v ''entity_id'' of None \<Rightarrow> [] | Some s \<Rightarrow> s) v [] x)"

text \<open>The array loop stops as soon as the collector is exceeded.\<close>

fun append_array_elements ::
    "str \<Rightarrow> object_kind \<Rightarrow> (nat \<Rightarrow> reference_role) \<Rightarrow> nat \<Rightarrow> json list \<Rightarrow> extraction \<Rightarrow> extraction" where
  "append_array_elements src kind role i [] x = x"
| "append_array_elements src kind role i (v # vs) x =
     (if is_exceeded (fst x) then x
      else append_array_elements src kind role (i + 1) vs
        (case as_str v of
           None \<Rightarrow> report_invalid src x
         | Some target \<Rightarrow> push (dynamic_target_bytes target) 0 0
             \<lparr> ref_target = target, ref_expected_kind = kind, ref_role = role i, ref_constraint = None \<rparr> x))"

definition append_array_references ::
    "str \<Rightarrow> (str \<times> json) list \<Rightarrow> str \<Rightarrow> object_kind \<Rightarrow> (nat \<Rightarrow> reference_role) \<Rightarrow> extraction \<Rightarrow> extraction" where
  "append_array_references src entry_fields name kind role x =
     (case Option.bind (find_entry entry_fields name) as_array of
        None \<Rightarrow> report_invalid src x
      | Some values \<Rightarrow> append_array_elements src kind role 0 values x)"

definition extract_commit_references :: "verified_object \<Rightarrow> extraction \<Rightarrow> extraction" where
  "extract_commit_references ob x =
     (case Option.bind (structured ob) as_object of
        None \<Rightarrow> report_invalid (obj_oid ob) x
      | Some entry_fields \<Rightarrow>
          let x = append_array_references (obj_oid ob) entry_fields ''parents'' Commit CommitParent x;
              x = (case Option.bind (find_entry entry_fields ''snapshot'') as_str of
                     Some snapshot \<Rightarrow> push (dynamic_target_bytes snapshot) 0 0
                       \<lparr> ref_target = snapshot, ref_expected_kind = Tree, ref_role = CommitSnapshot, ref_constraint = None \<rparr> x
                   | None \<Rightarrow> report_invalid (obj_oid ob) x);
              x = append_array_references (obj_oid ob) entry_fields ''transition_refs'' Record CommitTransition x
          in append_array_references (obj_oid ob) entry_fields ''bound_declaration_refs'' Record CommitBoundDeclaration x)"

definition tree_entry_kind :: "(str \<times> json) list \<Rightarrow> object_kind option" where
  "tree_entry_kind entry_fields = Option.bind (Option.bind (find_entry entry_fields ''entry_kind'') as_str) kind_of_prefix"

fun extract_tree_entries :: "str \<Rightarrow> (str \<times> json) list \<Rightarrow> extraction \<Rightarrow> extraction" where
  "extract_tree_entries src [] x = x"
| "extract_tree_entries src ((segment, entry) # rest) x =
     (if is_exceeded (fst x) then x
      else extract_tree_entries src rest
        (if \<not> is_portable_segment segment then report_invalid src x
         else case as_object entry of
           None \<Rightarrow> report_invalid src x
         | Some entry_fields \<Rightarrow>
             (case tree_entry_kind entry_fields of
                None \<Rightarrow> report_invalid src x
              | Some kind \<Rightarrow>
                  (case Option.bind (find_entry entry_fields ''oid'') as_str of
                     None \<Rightarrow> report_invalid src x
                   | Some target \<Rightarrow> push (dynamic_target_bytes target) (length segment) 0
                       \<lparr> ref_target = target, ref_expected_kind = kind, ref_role = TreeEntry segment,
                         ref_constraint = None \<rparr> x))))"

definition extract_tree_references :: "verified_object \<Rightarrow> extraction \<Rightarrow> extraction" where
  "extract_tree_references ob x =
     (case Option.bind (Option.bind (structured ob) (\<lambda>v. json_get v ''entries'')) as_object of
        None \<Rightarrow> report_invalid (obj_oid ob) x
      | Some entries \<Rightarrow> extract_tree_entries (obj_oid ob) entries x)"

definition extract_references :: "verified_object \<Rightarrow> closure_issue list \<Rightarrow> nat \<Rightarrow> nat \<Rightarrow> nat \<Rightarrow> extraction" where
  "extract_references ob iss edge_limit byte_limit pointer_limit =
     (let x = (new_collector edge_limit byte_limit pointer_limit, iss) in
      case obj_kind ob of
        Blob \<Rightarrow> x
      | Record \<Rightarrow> extract_record_references ob x
      | Commit \<Rightarrow> extract_commit_references ob x
      | Tree \<Rightarrow> extract_tree_references ob x)"

section \<open>Tombstones\<close>

record tombstone_catalog =
  cat_limits :: "tombstone_scan_limits option"
  records :: nat
  record_bytes :: nat
  targets :: "(str \<times> str) list"

definition empty_catalog :: tombstone_catalog where
  "empty_catalog = \<lparr> cat_limits = None, records = 0, record_bytes = 0, targets = [] \<rparr>"

definition validate_tombstone_scan_limits :: "tombstone_scan_limits \<Rightarrow> unit store_result" where
  "validate_tombstone_scan_limits lim =
     (if max_record_objects lim = 0 then resource_limit
      else if max_record_bytes lim = 0 then resource_limit
      else Inr ())"

definition bounded_catalog :: "tombstone_scan_limits \<Rightarrow> tombstone_catalog store_result" where
  "bounded_catalog lim =
     bindE (validate_tombstone_scan_limits lim) (\<lambda>_. Inr (empty_catalog\<lparr> cat_limits := Some lim \<rparr>))"

text \<open>The OID that a Tombstone Record resolves: a well-formed OID other than its own.\<close>

definition tombstone_target :: "verified_object \<Rightarrow> str option" where
  "tombstone_target ob =
     (case structured ob of
        None \<Rightarrow> None
      | Some v \<Rightarrow>
          if str_field v ''record_type'' \<noteq> Some ''tombstone'' then None
          else case Option.bind (json_get v ''payload'') (\<lambda>p. str_field p ''target_ref'') of
            None \<Rightarrow> None
          | Some target \<Rightarrow> if target = obj_oid ob \<or> \<not> is_ok (parse_oid target) then None else Some target)"

text \<open>\<open>records += 1\<close> is unchecked; the Record and byte counters are charged only under limits.\<close>

definition charge_record :: "tombstone_catalog \<Rightarrow> verified_object \<Rightarrow> tombstone_catalog store_result" where
  "charge_record cat ob =
     (case cat_limits cat of
        None \<Rightarrow> Inr cat
      | Some lim \<Rightarrow>
          if records cat = usize_max then panics
          else if records cat + 1 > max_record_objects lim then resource_limit
          else case checked_add (record_bytes cat) (obj_byte_len ob) of
            None \<Rightarrow> resource_limit
          | Some bytes \<Rightarrow>
              if bytes > max_record_bytes lim then resource_limit
              else Inr (cat\<lparr> records := records cat + 1, record_bytes := bytes \<rparr>))"

definition observe :: "tombstone_catalog \<Rightarrow> verified_object \<Rightarrow> tombstone_catalog store_result" where
  "observe cat ob =
     (if obj_kind ob \<noteq> Record then Inr cat
      else
        bindE (charge_record cat ob) (\<lambda>cat.
        case tombstone_target ob of
          None \<Rightarrow> Inr cat
        | Some target \<Rightarrow>
            Inr (cat\<lparr> targets := AList.update target
              (case map_of (targets cat) target of
                 None \<Rightarrow> obj_oid ob
               | Some existing \<Rightarrow> if obj_oid ob < existing then obj_oid ob else existing) (targets cat) \<rparr>)))"

definition tombstone_for :: "tombstone_catalog \<Rightarrow> str \<Rightarrow> str option" where
  "tombstone_for cat target = map_of (targets cat) target"

type_synonym source = "str \<Rightarrow> verified_object option store_result"

definition collect_tombstones_from_oids ::
    "source \<Rightarrow> str list \<Rightarrow> tombstone_catalog \<Rightarrow> tombstone_catalog store_result" where
  "collect_tombstones_from_oids get names cat =
     foldE (\<lambda>cat oid.
       if parse_oid oid = Inr Record then
         bindE (get oid) (\<lambda>ob. case ob of None \<Rightarrow> Inr cat | Some ob \<Rightarrow> observe cat ob)
       else Inr cat) cat (remdups_adj (sort names))"

definition collect_tombstones :: "source \<Rightarrow> str list store_result \<Rightarrow> tombstone_catalog store_result" where
  "collect_tombstones get listed =
     bindE listed (\<lambda>names. collect_tombstones_from_oids get names empty_catalog)"

definition collect_tombstones_bounded ::
    "source \<Rightarrow> (object_kind \<Rightarrow> nat \<Rightarrow> str list store_result) \<Rightarrow> tombstone_scan_limits
      \<Rightarrow> tombstone_catalog store_result" where
  "collect_tombstones_bounded get list_kind lim =
     bindE (list_kind Record (max_record_objects lim)) (\<lambda>names.
     if length names > max_record_objects lim then resource_limit
     else
       bindE (bounded_catalog lim) (\<lambda>cat.
       collect_tombstones_from_oids get names cat))"

section \<open>The walk\<close>

definition issue_for_visit :: "pending_visit \<Rightarrow> closure_issue_kind \<Rightarrow> closure_issue" where
  "issue_for_visit visit kind = \<lparr> issue_oid = visit_oid visit, issue_referenced_by = visit_referenced_by visit,
     issue_role = visit_role visit, issue_kind = kind \<rparr>"

definition record_semantics_for :: "verified_object \<Rightarrow> record_semantics option" where
  "record_semantics_for ob =
     map_option (\<lambda>v. \<lparr> sem_record_type = str_field v ''record_type'', sem_entity_id = str_field v ''entity_id'',
       sem_activity_kind = Option.bind (json_get v ''payload'') (\<lambda>p. str_field p ''activity_kind'') \<rparr>) (structured ob)"

definition or_missing :: "str option \<Rightarrow> str" where
  "or_missing s = (case s of None \<Rightarrow> ''<missing>'' | Some t \<Rightarrow> t)"

fun record_constraint_mismatch :: "record_semantics \<Rightarrow> record_constraint \<Rightarrow> (str \<times> str) option" where
  "record_constraint_mismatch sem (RecordType expected) =
     (if or_missing (sem_record_type sem) \<noteq> expected
      then Some (''record_type='' @ expected, ''record_type='' @ or_missing (sem_record_type sem)) else None)"
| "record_constraint_mismatch sem AiActivity =
     (if or_missing (sem_record_type sem) \<noteq> ''activity'' \<or> or_missing (sem_activity_kind sem) \<noteq> ''ai_run''
      then Some (''record_type=activity, activity_kind=ai_run'',
        ''record_type='' @ or_missing (sem_record_type sem) @ '', activity_kind='' @ or_missing (sem_activity_kind sem))
      else None)"
| "record_constraint_mismatch sem (Supersedes record_type entity_id) =
     (if or_missing (sem_record_type sem) \<noteq> record_type \<or> or_missing (sem_entity_id sem) \<noteq> entity_id
      then Some (''record_type='' @ record_type @ '', entity_id='' @ entity_id,
        ''record_type='' @ or_missing (sem_record_type sem) @ '', entity_id='' @ or_missing (sem_entity_id sem))
      else None)"

definition record_constraint_issue ::
    "pending_visit \<Rightarrow> (str \<times> record_semantics) list \<Rightarrow> closure_issue list \<Rightarrow> closure_issue list" where
  "record_constraint_issue visit sems iss =
     (case visit_constraint visit of
        None \<Rightarrow> iss
      | Some constraint \<Rightarrow>
          (case map_of sems (visit_oid visit) of
             None \<Rightarrow> iss
           | Some sem \<Rightarrow>
               (case record_constraint_mismatch sem constraint of
                  None \<Rightarrow> iss
                | Some (expected, actual) \<Rightarrow> iss @ [issue_for_visit visit (SemanticMismatchIssue expected actual)])))"

record walk_state =
  stack :: "walk_item list"
  finished :: "str list"
  active :: "str list"
  active_path :: "str list"
  walk_semantics :: "(str \<times> record_semantics) list"
  reference_bytes :: nat
  report :: closure_report

text \<open>
  One iteration goes on, leaves the loop (\<open>break 'walk\<close>) or fails. The stack is a list with its top
  first: children are pushed in reverse, so they lie in order above the \<open>Exit\<close> of their parent.
\<close>

datatype walk_outcome = Continue walk_state | Break walk_state

definition add_issue :: "closure_issue \<Rightarrow> walk_state \<Rightarrow> walk_state" where
  "add_issue i w = w\<lparr> report := report w\<lparr> issues := issues (report w) @ [i] \<rparr> \<rparr>"

definition set_issues :: "closure_issue list \<Rightarrow> walk_state \<Rightarrow> walk_state" where
  "set_issues iss w = w\<lparr> report := report w\<lparr> issues := iss \<rparr> \<rparr>"

definition truncate_walk :: "walk_state \<Rightarrow> walk_state" where
  "truncate_walk w = w\<lparr> report := report w\<lparr> truncated := True \<rparr> \<rparr>"

definition put_node :: "pending_visit \<Rightarrow> closure_node_state \<Rightarrow> walk_state \<Rightarrow> walk_state" where
  "put_node visit s w = w\<lparr> report := report w\<lparr> nodes := AList.update (visit_oid visit)
     \<lparr> node_oid = visit_oid visit, node_depth = visit_depth visit, node_state = s \<rparr> (nodes (report w)) \<rparr> \<rparr>"

fun is_record_reference :: "reference_role option \<Rightarrow> bool" where
  "is_record_reference (Some (RecordReference p)) = True"
| "is_record_reference _ = False"

definition exit_object :: "str \<Rightarrow> walk_state \<Rightarrow> walk_state" where
  "exit_object oid w = w\<lparr> active := removeAll oid (active w),
     active_path := (if active_path w \<noteq> [] \<and> last (active_path w) = oid then butlast (active_path w) else active_path w),
     finished := oid # finished w \<rparr>"

definition visit_active :: "pending_visit \<Rightarrow> walk_state \<Rightarrow> walk_state" where
  "visit_active visit w =
     (if is_record_reference (visit_role visit) then
        set_issues (record_constraint_issue visit (walk_semantics w) (issues (report w))) w
      else
        add_issue (issue_for_visit visit (CycleIssue
          ((let from = dropWhile (\<lambda>c. c \<noteq> visit_oid visit) (active_path w)
            in if from = [] then active_path w else from) @ [visit_oid visit]))) w)"

text \<open>The edges of one object and, for the well-typed ones, the visits of its children.\<close>

definition follow_reference ::
    "pending_visit \<Rightarrow> walk_state \<times> pending_visit list \<Rightarrow> pending_reference \<Rightarrow> walk_state \<times> pending_visit list" where
  "follow_reference visit acc r =
     (let w = (fst acc)\<lparr> report := report (fst acc)\<lparr> edges := edges (report (fst acc)) @
            [\<lparr> edge_source = visit_oid visit, edge_target = ref_target r, edge_expected_kind = ref_expected_kind r,
               edge_role = ref_role r \<rparr>] \<rparr> \<rparr>
      in case parse_oid (ref_target r) of
           Inl _ \<Rightarrow> (add_issue \<lparr> issue_oid = visit_oid visit, issue_referenced_by = None,
             issue_role = Some (ref_role r), issue_kind = InvalidReferenceIssue (ref_target r) \<rparr> w, snd acc)
         | Inr actual \<Rightarrow>
             if actual \<noteq> ref_expected_kind r then
               (add_issue \<lparr> issue_oid = ref_target r, issue_referenced_by = Some (visit_oid visit),
                 issue_role = Some (ref_role r), issue_kind = TypeMismatchIssue (ref_expected_kind r) actual \<rparr> w, snd acc)
             else
               (w, snd acc @ [\<lparr> visit_oid = ref_target r, visit_kind = actual, visit_depth = visit_depth visit + 1,
                 visit_referenced_by = Some (visit_oid visit), visit_role = Some (ref_role r),
                 visit_constraint = ref_constraint r \<rparr>]))"

definition expand_object ::
    "graph_limits \<Rightarrow> pending_visit \<Rightarrow> verified_object \<Rightarrow> walk_state \<Rightarrow> walk_outcome store_result" where
  "expand_object lim visit ob w =
     (if max_edges lim < length (edges (report w)) then panics
      else if MAX_GRAPH_REFERENCE_BYTES < reference_bytes w then panics
      else
        let x = extract_references ob (issues (report w)) (max_edges lim - length (edges (report w)))
                  (MAX_GRAPH_REFERENCE_BYTES - reference_bytes w) MAX_GRAPH_REFERENCE_BYTES;
            c = fst x; w = set_issues (snd x) w
        in case checked_add (reference_bytes w) (charged_bytes c) of
             None \<Rightarrow> panics
           | Some total_bytes \<Rightarrow>
               let followed = foldl (follow_reference visit) (w\<lparr> reference_bytes := total_bytes \<rparr>, []) (references c);
                   w = fst followed
               in case exceeded c of
                    Some l \<Rightarrow>
                      Inr (Break (add_issue \<lparr> issue_oid = visit_oid visit, issue_referenced_by = None, issue_role = None,
                        issue_kind = (case l of EdgesLimit \<Rightarrow> ResourceLimitIssue ''edges'' (max_edges lim)
                          | ReferenceBytesLimit \<Rightarrow> ResourceLimitIssue ''reference_bytes'' MAX_GRAPH_REFERENCE_BYTES) \<rparr>
                        (truncate_walk w)))
                  | None \<Rightarrow> Inr (Continue (w\<lparr> stack := map Enter (snd followed) @ stack w \<rparr>)))"

definition note_semantics :: "pending_visit \<Rightarrow> verified_object \<Rightarrow> walk_state \<Rightarrow> walk_state" where
  "note_semantics visit ob w =
     (if obj_kind ob = Record then
        (case record_semantics_for ob of
           None \<Rightarrow> w
         | Some sem \<Rightarrow>
             let sems = AList.update (visit_oid visit) sem (walk_semantics w) in
             set_issues (record_constraint_issue visit sems (issues (report w))) (w\<lparr> walk_semantics := sems \<rparr>))
      else w)"

definition visit_present ::
    "graph_limits \<Rightarrow> pending_visit \<Rightarrow> verified_object \<Rightarrow> walk_state \<Rightarrow> walk_outcome store_result" where
  "visit_present lim visit ob w =
     (if obj_kind ob \<noteq> visit_kind visit then
        Inr (Continue (add_issue (issue_for_visit visit (TypeMismatchIssue (visit_kind visit) (obj_kind ob)))
          (put_node visit (Present (obj_kind ob) (obj_byte_len ob)) w)))
      else expand_object lim visit ob
        (put_node visit (Present (obj_kind ob) (obj_byte_len ob)) (note_semantics visit ob w)))"

definition visit_new ::
    "source \<Rightarrow> graph_limits \<Rightarrow> tombstone_catalog \<Rightarrow> pending_visit \<Rightarrow> walk_state \<Rightarrow> walk_outcome store_result" where
  "visit_new get lim cat visit w0 =
     (let w = w0\<lparr> active := visit_oid visit # active w0, active_path := active_path w0 @ [visit_oid visit],
            stack := Exit (visit_oid visit) # stack w0 \<rparr>
      in case get (visit_oid visit) of
           Inr (Some ob) \<Rightarrow> visit_present lim visit ob w
         | Inr None \<Rightarrow>
             (case tombstone_for cat (visit_oid visit) of
                Some t \<Rightarrow>
                  let w = put_node visit (Tombstoned (visit_kind visit) t) w in
                  Inr (Continue (if visit_depth visit = 0 \<and> visit_kind visit = Commit
                    then add_issue (issue_for_visit visit MissingIssue) w else w))
              | None \<Rightarrow>
                  Inr (Continue (add_issue (issue_for_visit visit MissingIssue)
                    (put_node visit (MissingNode (visit_kind visit)) w))))
         | Inl (Fail (CorruptObject _)) \<Rightarrow>
             Inr (Continue (add_issue (issue_for_visit visit CorruptIssue)
               (put_node visit (CorruptNode (visit_kind visit)) w)))
         | Inl e \<Rightarrow> Inl e)"

definition enter_object ::
    "source \<Rightarrow> graph_limits \<Rightarrow> tombstone_catalog \<Rightarrow> pending_visit \<Rightarrow> walk_state \<Rightarrow> walk_outcome store_result" where
  "enter_object get lim cat visit w =
     (if visit_depth visit > max_depth lim then
        Inr (Continue (add_issue (issue_for_visit visit (ResourceLimitIssue ''depth'' (max_depth lim))) (truncate_walk w)))
      else if visit_oid visit \<in> set (active w) then Inr (Continue (visit_active visit w))
      else if visit_oid visit \<in> set (finished w) then
        Inr (Continue (set_issues (record_constraint_issue visit (walk_semantics w) (issues (report w))) w))
      else if length (nodes (report w)) \<ge> max_objects lim then
        Inr (Break (add_issue (issue_for_visit visit (ResourceLimitIssue ''objects'' (max_objects lim))) (truncate_walk w)))
      else visit_new get lim cat visit w)"

fun walk_step ::
    "source \<Rightarrow> graph_limits \<Rightarrow> tombstone_catalog \<Rightarrow> walk_item \<Rightarrow> walk_state \<Rightarrow> walk_outcome store_result" where
  "walk_step get lim cat (Exit oid) w = Inr (Continue (exit_object oid w))"
| "walk_step get lim cat (Enter visit) w = enter_object get lim cat visit w"

text \<open>
  The collector never goes over its limits, whichever way references are found. The three ways
  in which extraction touches its state are a contract of their own: what they keep, the whole
  extraction keeps.
\<close>

locale extraction_invariant =
  fixes I :: "extraction \<Rightarrow> bool"
  assumes keep_push: "I x \<Longrightarrow> I (push t r b p x)"
    and keep_invalid: "I x \<Longrightarrow> I (report_invalid src x)"
    and keep_exceed: "I x \<Longrightarrow> I (exceed_reference_bytes (fst x), snd x)"
begin

lemma keep_oid_string: "I x \<Longrightarrow> I (collect_oid_string pointer src rt eid target x)"
  by (auto simp: collect_oid_string_def Let_def keep_push keep_invalid split: sum.splits)

lemma keep_collect:
  "I x \<Longrightarrow> I (collect_record_oid_strings src rt eid v pointer x)"
  "I x \<Longrightarrow> I (collect_elements src rt eid vs i pointer x)"
  "I x \<Longrightarrow> I (collect_entries src rt eid es pointer x)"
proof (induction src rt eid v pointer x and src rt eid vs i pointer x and src rt eid es pointer x
    rule: collect_record_oid_strings_collect_elements_collect_entries.induct)
  case (1 src rt eid v pointer x)
  then show ?case
    by (subst collect_record_oid_strings.simps) (auto simp: keep_oid_string split: json.splits)
next
  case (3 src rt eid v vs i pointer x)
  then show ?case by (auto simp: Let_def keep_exceed split: option.splits)
next
  case (5 src rt eid e es pointer x)
  then show ?case by (auto simp: Let_def keep_exceed split: option.splits)
qed auto

lemma keep_array_elements: "I x \<Longrightarrow> I (append_array_elements src kind role i vs x)"
  by (induction src kind role i vs x rule: append_array_elements.induct)
    (auto simp: keep_push keep_invalid split: option.splits)

lemma keep_array: "I x \<Longrightarrow> I (append_array_references src fs name kind role x)"
  by (auto simp: append_array_references_def keep_invalid keep_array_elements split: option.splits)

lemma keep_tree_entries: "I x \<Longrightarrow> I (extract_tree_entries src es x)"
  by (induction src es x rule: extract_tree_entries.induct)
    (auto simp: keep_push keep_invalid split: option.splits)

lemma keep_extract:
  assumes "I (new_collector e b p, iss)"
  shows "I (extract_references ob iss e b p)"
  using assms
  by (auto simp: extract_references_def Let_def extract_record_references_def extract_commit_references_def
      extract_tree_references_def keep_collect keep_array keep_tree_entries keep_push keep_invalid
      split: object_kind.splits option.splits)

end

definition within_limits :: "nat \<Rightarrow> nat \<Rightarrow> nat \<Rightarrow> extraction \<Rightarrow> bool" where
  "within_limits e b p x \<longleftrightarrow> col_max_edges (fst x) = e \<and> col_max_reference_bytes (fst x) = b
     \<and> col_max_pointer_bytes (fst x) = p \<and> length (references (fst x)) \<le> e \<and> charged_bytes (fst x) \<le> b"

interpretation budget: extraction_invariant "within_limits e b p" for e b p
  by standard
    (auto simp: within_limits_def push_def try_push_def report_invalid_def exceed_reference_bytes_def is_exceeded_def
      result_simps split: option.splits)

interpretation issue_log: extraction_invariant "\<lambda>x. \<exists>found. snd x = iss @ found" for iss
  by standard (auto simp: push_def report_invalid_def)

lemma extract_within_limits: "within_limits e b p (extract_references ob iss e b p)"
  by (rule budget.keep_extract) (simp add: within_limits_def new_collector_def)

lemma extract_issues: "\<exists>found. snd (extract_references ob iss e b p) = iss @ found"
  by (rule issue_log.keep_extract) simp

text \<open>
  Why the loop ends: an entered object leaves one exit item and at most as many children as it
  adds edges, and the edges are bounded.
\<close>

fun item_weight :: "walk_item \<Rightarrow> nat" where
  "item_weight (Enter v) = 2"
| "item_weight (Exit oid) = 1"

definition walk_weight :: "graph_limits \<Rightarrow> walk_state \<Rightarrow> nat" where
  "walk_weight lim w = 2 * (max_edges lim - length (edges (report w))) + sum_list (map item_weight (stack w))"

lemma follow_one:
  "length (snd (follow_reference visit acc r)) \<le> length (snd acc) + 1"
  "edges (report (fst (follow_reference visit acc r))) = edges (report (fst acc)) @
     [\<lparr> edge_source = visit_oid visit, edge_target = ref_target r, edge_expected_kind = ref_expected_kind r,
        edge_role = ref_role r \<rparr>]"
  "stack (fst (follow_reference visit acc r)) = stack (fst acc)"
  by (auto simp: follow_reference_def Let_def add_issue_def split: sum.splits)

lemma follow_references:
  "length (snd (foldl (follow_reference visit) acc rs)) \<le> length (snd acc) + length rs"
  "length (edges (report (fst (foldl (follow_reference visit) acc rs)))) = length (edges (report (fst acc))) + length rs"
  "stack (fst (foldl (follow_reference visit) acc rs)) = stack (fst acc)"
proof -
  show "length (snd (foldl (follow_reference visit) acc rs)) \<le> length (snd acc) + length rs"
  proof (induction rs arbitrary: acc)
    case (Cons r rs)
    show ?case
      using Cons.IH [of "follow_reference visit acc r"] follow_one(1) [of visit acc r] by simp
  qed simp
qed (induction rs arbitrary: acc; simp add: follow_one)+

lemma expand_object_weight:
  assumes "expand_object lim visit ob w = Inr (Continue w')"
  shows "walk_weight lim w' \<le> walk_weight lim w"
proof -
  let ?e = "max_edges lim - length (edges (report w))"
  define x where "x = extract_references ob (issues (report w)) ?e
      (MAX_GRAPH_REFERENCE_BYTES - reference_bytes w) MAX_GRAPH_REFERENCE_BYTES"
  from assms obtain n where le: "length (edges (report w)) \<le> max_edges lim" and w': "w' =
      (let followed = foldl (follow_reference visit) ((set_issues (snd x) w)\<lparr> reference_bytes := n \<rparr>, []) (references (fst x))
       in (fst followed)\<lparr> stack := map Enter (snd followed) @ stack (fst followed) \<rparr>)"
    by (auto simp: expand_object_def Let_def simp flip: x_def split: if_splits option.splits)
  have "length (references (fst x)) \<le> ?e"
    using extract_within_limits [of ?e] unfolding x_def within_limits_def by blast
  moreover have "sum_list (map item_weight (map Enter vs)) = 2 * length vs" for vs by (induction vs) auto
  ultimately show ?thesis
    using follow_references [of visit "((set_issues (snd x) w)\<lparr> reference_bytes := n \<rparr>, [])" "references (fst x)"] le
    unfolding w' walk_weight_def Let_def by (simp add: set_issues_def)
qed

lemmas walk_updates = add_issue_def set_issues_def truncate_walk_def put_node_def

lemma visit_present_weight:
  "visit_present lim visit ob w = Inr (Continue w') \<Longrightarrow> walk_weight lim w' \<le> walk_weight lim w"
  by (auto simp: visit_present_def note_semantics_def Let_def walk_updates walk_weight_def
      dest!: expand_object_weight split: if_splits option.splits)

lemma walk_step_weight:
  assumes "walk_step get lim cat item (w\<lparr> stack := rest \<rparr>) = Inr (Continue w')"
  shows "walk_weight lim w' < walk_weight lim (w\<lparr> stack := item # rest \<rparr>)"
proof (cases item)
  case (Exit oid)
  then show ?thesis using assms by (auto simp: exit_object_def walk_weight_def)
next
  case (Enter v)
  let ?w = "w\<lparr> stack := rest \<rparr>"
  from assms Enter consider
      (new) "visit_new get lim cat v ?w = Inr (Continue w')"
    | (other) "stack w' = rest" "edges (report w') = edges (report w)"
    by (auto simp: enter_object_def visit_active_def walk_updates split: if_splits)
  then show ?thesis
  proof cases
    case new
    then have "walk_weight lim w' \<le> walk_weight lim (w\<lparr> stack := Exit (visit_oid v) # rest \<rparr>)"
      by (auto simp: visit_new_def Let_def walk_updates walk_weight_def
          dest!: visit_present_weight split: sum.splits option.splits fault.splits store_error.splits if_splits)
    then show ?thesis using Enter by (simp add: walk_weight_def)
  next
    case other
    then show ?thesis using Enter by (simp add: walk_weight_def)
  qed
qed

function walk :: "source \<Rightarrow> graph_limits \<Rightarrow> tombstone_catalog \<Rightarrow> walk_state \<Rightarrow> closure_report store_result" where
  "walk get lim cat w =
     (case stack w of
        [] \<Rightarrow> Inr (report w)
      | item # rest \<Rightarrow>
          bindE (walk_step get lim cat item (w\<lparr> stack := rest \<rparr>)) (\<lambda>out.
          case out of
            Break w' \<Rightarrow> Inr (report w')
          | Continue w' \<Rightarrow> walk get lim cat w'))"
  by pat_completeness auto

termination
proof (relation "measure (\<lambda>(get, lim, cat, w). walk_weight lim w)")
  fix get lim cat w item rest out w'
  assume "stack w = item # rest" "walk_step get lim cat item (w\<lparr> stack := rest \<rparr>) = Inr out" "out = Continue w'"
  then have "walk_weight lim w' < walk_weight lim (w\<lparr> stack := item # rest \<rparr>)" using walk_step_weight by blast
  moreover have "w\<lparr> stack := item # rest \<rparr> = w" using \<open>stack w = item # rest\<close> by (cases w) simp
  ultimately show "((get, lim, cat, w'), get, lim, cat, w) \<in> measure (\<lambda>(get, lim, cat, w). walk_weight lim w)" by simp
qed simp

declare walk.simps [simp del]

definition start_walk :: "str \<Rightarrow> walk_state" where
  "start_walk r = \<lparr> stack = [Enter \<lparr> visit_oid = r, visit_kind = Commit, visit_depth = 0, visit_referenced_by = None,
       visit_role = None, visit_constraint = None \<rparr>], finished = [], active = [], active_path = [],
     walk_semantics = [], reference_bytes = 0,
     report = \<lparr> root = r, nodes = [], edges = [], issues = [], truncated = False \<rparr> \<rparr>"

definition verify_closure_with_tombstones ::
    "source \<Rightarrow> str \<Rightarrow> graph_limits \<Rightarrow> tombstone_catalog \<Rightarrow> closure_report store_result" where
  "verify_closure_with_tombstones get r lim cat =
     bindE (core_err (lift_err (parse_oid r))) (\<lambda>root_kind.
     if root_kind \<noteq> Commit then
       Inr \<lparr> root = r, nodes = [], edges = [], issues = [\<lparr> issue_oid = r, issue_referenced_by = None, issue_role = None,
         issue_kind = TypeMismatchIssue Commit root_kind \<rparr>], truncated = False \<rparr>
     else walk get lim cat (start_walk r))"

definition verify_closure ::
    "source \<Rightarrow> str list store_result \<Rightarrow> str \<Rightarrow> graph_limits \<Rightarrow> closure_report store_result" where
  "verify_closure get listed r lim =
     bindE (core_err (lift_err (parse_oid r))) (\<lambda>kind.
     if kind \<noteq> Commit then verify_closure_with_tombstones get r lim empty_catalog
     else bindE (collect_tombstones get listed) (\<lambda>cat. verify_closure_with_tombstones get r lim cat))"

section \<open>The prepared verifier\<close>

record prepared_verifier =
  pv_limits :: graph_limits
  pv_tombstones :: tombstone_catalog
  report_cache :: "(str \<times> closure_report) list"

definition from_catalog :: "graph_limits \<Rightarrow> tombstone_catalog \<Rightarrow> prepared_verifier" where
  "from_catalog lim cat = \<lparr> pv_limits = lim, pv_tombstones = cat, report_cache = [] \<rparr>"

definition new_verifier ::
    "source \<Rightarrow> (object_kind \<Rightarrow> nat \<Rightarrow> str list store_result) \<Rightarrow> graph_limits \<Rightarrow> tombstone_scan_limits
      \<Rightarrow> prepared_verifier store_result" where
  "new_verifier get list_kind lim scan =
     bindE (validate_tombstone_scan_limits scan) (\<lambda>_.
     bindE (collect_tombstones_bounded get list_kind scan) (\<lambda>cat.
     Inr (from_catalog lim cat)))"

definition verify_uncached :: "source \<Rightarrow> prepared_verifier \<Rightarrow> str \<Rightarrow> closure_report store_result" where
  "verify_uncached get pv r = verify_closure_with_tombstones get r (pv_limits pv) (pv_tombstones pv)"

definition verify :: "source \<Rightarrow> str \<Rightarrow> (prepared_verifier, store_error fault, closure_report) action" where
  "verify get r = (\<lambda>pv.
     case map_of (report_cache pv) r of
       Some rp \<Rightarrow> (Inr rp, pv)
     | None \<Rightarrow>
         (case verify_uncached get pv r of
            Inl e \<Rightarrow> (Inl e, pv)
          | Inr rp \<Rightarrow> (Inr rp, pv\<lparr> report_cache := AList.update r rp (report_cache pv) \<rparr>)))"

definition verify_uncached_with_work_limits ::
    "source \<Rightarrow> prepared_verifier \<Rightarrow> str \<Rightarrow> nat \<Rightarrow> nat \<Rightarrow> closure_report store_result" where
  "verify_uncached_with_work_limits get pv r objects_limit edges_limit =
     verify_closure_with_tombstones get r
       \<lparr> max_objects = min (max_objects (pv_limits pv)) objects_limit,
         max_edges = min (max_edges (pv_limits pv)) edges_limit,
         max_depth = max_depth (pv_limits pv) \<rparr> (pv_tombstones pv)"

section \<open>fsck\<close>

datatype fsck_issue =
    InvalidStorePath path
  | MissingScannedObject str
  | CorruptScannedObject str
  | ReadFailureScanned str
  | ClosureFinding closure_issue

record fsck_report =
  objects_seen :: nat
  objects_verified :: nat
  closures :: "closure_report list"
  fsck_issues :: "fsck_issue list"

definition is_clean :: "fsck_report \<Rightarrow> bool" where
  "is_clean fr \<longleftrightarrow> fsck_issues fr = [] \<and> list_all is_complete (closures fr)"

record fsck_scan =
  scan_verified :: nat
  stored_commits :: "str list"
  scan_tombstones :: tombstone_catalog
  scan_issues :: "fsck_issue list"

definition scan_stored :: "source \<Rightarrow> fsck_scan \<Rightarrow> str \<Rightarrow> fsck_scan store_result" where
  "scan_stored get sc oid =
     (let sc = (if parse_oid oid = Inr Commit then sc\<lparr> stored_commits := stored_commits sc @ [oid] \<rparr> else sc) in
      case get oid of
        Inr (Some ob) \<Rightarrow>
          bindE (observe (scan_tombstones sc) ob) (\<lambda>cat.
          Inr (sc\<lparr> scan_verified := scan_verified sc + 1, scan_tombstones := cat \<rparr>))
      | Inr None \<Rightarrow> Inr (sc\<lparr> scan_issues := scan_issues sc @ [MissingScannedObject oid] \<rparr>)
      | Inl (Fail (CorruptObject _)) \<Rightarrow> Inr (sc\<lparr> scan_issues := scan_issues sc @ [CorruptScannedObject oid] \<rparr>)
      | Inl (Fail _) \<Rightarrow> Inr (sc\<lparr> scan_issues := scan_issues sc @ [ReadFailureScanned oid] \<rparr>)
      | Inl Panic \<Rightarrow> panics)"

fun verify_roots :: "source \<Rightarrow> str list \<Rightarrow> (prepared_verifier, store_error fault, closure_report list) action" where
  "verify_roots get [] pv = (Inr [], pv)"
| "verify_roots get (r # rs) pv =
     (case verify get r pv of
        (Inl e, pv') \<Rightarrow> (Inl e, pv')
      | (Inr rp, pv') \<Rightarrow>
          (case verify_roots get rs pv' of
             (Inl e, pv'') \<Rightarrow> (Inl e, pv'')
           | (Inr rps, pv'') \<Rightarrow> (Inr (rp # rps), pv'')))"

text \<open>
  The source reads through a memo of verified objects; over a store that does not change during
  the check the memo answers like the store, so \<open>get\<close> is the store's own \<open>get_verified\<close>.
\<close>

definition fsck_with_tombstones ::
    "source \<Rightarrow> store_inventory store_result \<Rightarrow> str list \<Rightarrow> graph_limits
      \<Rightarrow> (fsck_report \<times> tombstone_catalog) store_result" where
  "fsck_with_tombstones get inventory roots lim =
     bindE inventory (\<lambda>inv.
     bindE (foldE (scan_stored get) \<lparr> scan_verified = 0, stored_commits = [], scan_tombstones = empty_catalog,
       scan_issues = map InvalidStorePath (invalid_paths inv) \<rparr> (oids inv)) (\<lambda>sc.
     bindE (fst (verify_roots get (if roots = [] then stored_commits sc else roots)
       (from_catalog lim (scan_tombstones sc)))) (\<lambda>rps.
     Inr (\<lparr> objects_seen = length (oids inv), objects_verified = scan_verified sc, closures = rps,
            fsck_issues = scan_issues sc @ map ClosureFinding (concat (map issues rps)) \<rparr>, scan_tombstones sc))))"

definition fsck ::
    "(bytes \<Rightarrow> bytes) \<Rightarrow> (str \<Rightarrow> str) \<Rightarrow> file_store \<Rightarrow> str list \<Rightarrow> graph_limits \<Rightarrow> fsck_report store_result" where
  "fsck sha256 nfc st roots lim =
     bindE (fsck_with_tombstones (get_verified sha256 nfc st) (scan_inventory (files st)) roots lim) (\<lambda>r. Inr (fst r))"

definition fsck_all ::
    "(bytes \<Rightarrow> bytes) \<Rightarrow> (str \<Rightarrow> str) \<Rightarrow> file_store \<Rightarrow> graph_limits \<Rightarrow> fsck_report store_result" where
  "fsck_all sha256 nfc st lim = fsck sha256 nfc st [] lim"

end
