(* ===== verification/Closure_Laws.thy ===== *)
theory Closure_Laws
  imports Closure_Graph
begin

text \<open>
  What closure verification and fsck promise, proved of the model in \<^verbatim>\<open>Closure_Graph\<close>: the walk
  ends within its limits and without a panic of its own; a complete report accounts for every
  object reachable from the root; Tombstones are resolved to the lowest OID; the cache and the
  per-call budgets do not change answers; a clean fsck means every stored object verifies.
\<close>

section \<open>Charging malformed targets\<close>

lemma dynamic_target_bytes_eq:
  "dynamic_target_bytes t = (if is_ok (parse_oid t) then 0 else length t)"
proof (cases "is_ok (parse_oid t)")
  case True
  then obtain k where "parse_oid t = Inr k" by (auto simp: is_ok_iff)
  then obtain d where d: "t = format_oid k d" "is_digest d" by (rule parse_oid_cases)
  have "split_once t '':sg-oid-v1:sha256:'' = Some (kind_prefix k, d)"
    by (cases k) (simp_all add: d(1) format_oid_def oid_infix_def starts_with_def)
  moreover have "kind_prefix k \<in> {''blob'', ''record'', ''tree'', ''commit''}" by (cases k) simp_all
  moreover have "length d = 64" "list_all (\<lambda>b. is_ascii_digit b \<or> 97 \<le> byte_val b \<and> byte_val b \<le> 102) d"
    using d(2) by (auto simp: is_digest_def is_lower_hex_def list_all_iff)
  ultimately show ?thesis using True by (simp add: dynamic_target_bytes_def)
next
  case False
  have "\<not> (family \<in> {''blob'', ''record'', ''tree'', ''commit''} \<and> length digest = 64
      \<and> list_all (\<lambda>b. is_ascii_digit b \<or> 97 \<le> byte_val b \<and> byte_val b \<le> 102) digest)"
    if "split_once t '':sg-oid-v1:sha256:'' = Some (family, digest)" for family digest
  proof
    assume h: "family \<in> {''blob'', ''record'', ''tree'', ''commit''} \<and> length digest = 64
      \<and> list_all (\<lambda>b. is_ascii_digit b \<or> 97 \<le> byte_val b \<and> byte_val b \<le> 102) digest"
    then obtain k where k: "family = kind_prefix k"
      by (metis kind_prefix.simps empty_iff insert_iff)
    have "is_digest digest" using h by (auto simp: is_digest_def is_lower_hex_def list_all_iff)
    moreover have "t = format_oid k digest"
      using split_once_Some [OF that] by (simp add: k format_oid_def oid_infix_def)
    ultimately show False using False parse_format_oid [of digest k] by simp
  qed
  then show ?thesis using False by (auto simp: dynamic_target_bytes_def split: option.splits)
qed

section \<open>Extraction within a sufficient budget\<close>

text \<open>
  The references of an object: what extraction finds when only the hard ceilings of the platform
  bound it. A run under smaller budgets that is not cut short finds the same.
\<close>

definition references_of :: "verified_object \<Rightarrow> pending_reference list" where
  "references_of ob =
     references (fst (extract_references ob [] usize_max usize_max MAX_GRAPH_REFERENCE_BYTES))"

text \<open>Small budgets on the left, large ones on the right; nothing is claimed once the left is cut.\<close>

definition lockstep :: "extraction \<Rightarrow> extraction \<Rightarrow> bool" where
  "lockstep x y \<longleftrightarrow> is_exceeded (fst x) \<or>
     (\<not> is_exceeded (fst y) \<and> references (fst y) = references (fst x) \<and> charged_bytes (fst y) = charged_bytes (fst x)
      \<and> col_max_edges (fst x) \<le> col_max_edges (fst y)
      \<and> col_max_reference_bytes (fst x) \<le> col_max_reference_bytes (fst y)
      \<and> col_max_pointer_bytes (fst x) = col_max_pointer_bytes (fst y))"

interpretation cut: extraction_invariant "\<lambda>x. is_exceeded (fst x)"
  by standard (auto simp: push_def report_invalid_def try_push_def exceed_reference_bytes_def is_exceeded_def)

lemma lockstep_push: "lockstep x y \<Longrightarrow> lockstep (push t r b p x) (push t r b p y)"
  by (auto simp: lockstep_def push_def try_push_def exceed_reference_bytes_def is_exceeded_def split: option.splits)

lemma lockstep_invalid: "lockstep x y \<Longrightarrow> lockstep (report_invalid s x) (report_invalid s y)"
  by (simp add: lockstep_def report_invalid_def)

lemma lockstep_exceed: "lockstep (exceed_reference_bytes (fst x), u) y"
  by (simp add: lockstep_def exceed_reference_bytes_def is_exceeded_def)

lemma lockstep_oid_string:
  "lockstep x y \<Longrightarrow> lockstep (collect_oid_string p s rt eid t x) (collect_oid_string p s rt eid t y)"
  by (auto simp: collect_oid_string_def Let_def lockstep_push lockstep_invalid split: sum.splits)

lemma lockstep_cut: "is_exceeded (fst x) \<Longrightarrow> lockstep x y"
  by (simp add: lockstep_def)

lemma lockstep_live:
  "lockstep x y \<Longrightarrow> \<not> is_exceeded (fst x) \<Longrightarrow>
    \<not> is_exceeded (fst y) \<and> col_max_pointer_bytes (fst y) = col_max_pointer_bytes (fst x)"
  by (simp add: lockstep_def)

lemma lockstep_collect:
  "lockstep x y \<Longrightarrow> lockstep (collect_record_oid_strings s rt eid v p x) (collect_record_oid_strings s rt eid v p y)"
  "lockstep x y \<Longrightarrow> lockstep (collect_elements s rt eid vs i p x) (collect_elements s rt eid vs i p y)"
  "lockstep x y \<Longrightarrow> lockstep (collect_entries s rt eid es p x) (collect_entries s rt eid es p y)"
proof (induction s rt eid v p x and s rt eid vs i p x and s rt eid es p x arbitrary: y and y and y
    rule: collect_record_oid_strings_collect_elements_collect_entries.induct)
  case (1 s rt eid v p x)
  show ?case
  proof (cases "is_exceeded (fst x)")
    case True
    then show ?thesis by (intro lockstep_cut cut.keep_collect)
  next
    case False
    with 1 lockstep_live show ?thesis
      by (subst (1 2) collect_record_oid_strings.simps) (auto simp: lockstep_oid_string split: json.splits)
  qed
next
  case (3 s rt eid v vs i p x)
  show ?case
  proof (cases "is_exceeded (fst x)")
    case True
    then show ?thesis by (intro lockstep_cut cut.keep_collect)
  next
    case False
    note live = lockstep_live [OF 3(3) False]
    show ?thesis
    proof (cases "append_pointer_index p i (col_max_pointer_bytes (fst x))")
      case None
      then show ?thesis using live by (simp add: lockstep_exceed)
    next
      case (Some q)
      let ?x = "collect_record_oid_strings s rt eid v q x" and ?y = "collect_record_oid_strings s rt eid v q y"
      have l: "lockstep ?x ?y" using 3(1) [OF Some 3(3)] .
      show ?thesis
      proof (cases "is_exceeded (fst ?x)")
        case True
        then show ?thesis using Some by (simp add: Let_def lockstep_cut)
      next
        case False
        then show ?thesis using Some live lockstep_live [OF l False] 3(2) [OF Some refl False l] by (simp add: Let_def)
      qed
    qed
  qed
next
  case (5 s rt eid e es p x)
  show ?case
  proof (cases "is_exceeded (fst x)")
    case True
    then show ?thesis by (intro lockstep_cut cut.keep_collect)
  next
    case False
    note live = lockstep_live [OF 5(3) False]
    show ?thesis
    proof (cases "append_pointer_key p (fst e) (col_max_pointer_bytes (fst x))")
      case None
      then show ?thesis using live by (simp add: lockstep_exceed)
    next
      case (Some q)
      let ?x = "collect_record_oid_strings s rt eid (snd e) q x" and ?y = "collect_record_oid_strings s rt eid (snd e) q y"
      have l: "lockstep ?x ?y" using 5(1) [OF Some 5(3)] .
      show ?thesis
      proof (cases "is_exceeded (fst ?x)")
        case True
        then show ?thesis using Some by (simp add: Let_def lockstep_cut)
      next
        case False
        then show ?thesis using Some live lockstep_live [OF l False] 5(2) [OF Some refl False l] by (simp add: Let_def)
      qed
    qed
  qed
qed auto

lemma lockstep_array_elements:
  "lockstep x y \<Longrightarrow> lockstep (append_array_elements s k role i vs x) (append_array_elements s k role i vs y)"
proof (induction s k role i vs x arbitrary: y rule: append_array_elements.induct)
  case (2 s k role i v vs x)
  then show ?case
    by (cases "is_exceeded (fst x)")
      (auto simp: lockstep_cut lockstep_push lockstep_invalid dest: lockstep_live split: option.splits)
qed simp

lemma lockstep_array:
  "lockstep x y \<Longrightarrow> lockstep (append_array_references s fs n k role x) (append_array_references s fs n k role y)"
  by (auto simp: append_array_references_def lockstep_invalid lockstep_array_elements split: option.splits)

lemma lockstep_tree:
  "lockstep x y \<Longrightarrow> lockstep (extract_tree_entries s es x) (extract_tree_entries s es y)"
proof (induction s es x arbitrary: y rule: extract_tree_entries.induct)
  case (2 s seg entry rest x)
  then show ?case
    by (cases "is_exceeded (fst x)")
      (auto simp: lockstep_cut lockstep_push lockstep_invalid dest: lockstep_live split: option.splits)
qed simp

lemma extract_lockstep:
  assumes "e \<le> e'" "b \<le> b'"
  shows "lockstep (extract_references ob iss e b p) (extract_references ob iss' e' b' p)"
proof -
  have "lockstep (new_collector e b p, iss) (new_collector e' b' p, iss')"
    using assms by (simp add: lockstep_def new_collector_def is_exceeded_def)
  then show ?thesis
    by (auto simp: extract_references_def Let_def extract_record_references_def extract_commit_references_def
        extract_tree_references_def lockstep_collect lockstep_array lockstep_tree lockstep_push lockstep_invalid
        split: object_kind.splits option.splits)
qed

lemma extract_complete:
  assumes "e \<le> usize_max" "b \<le> usize_max"
    and "exceeded (fst (extract_references ob iss e b MAX_GRAPH_REFERENCE_BYTES)) = None"
  shows "references (fst (extract_references ob iss e b MAX_GRAPH_REFERENCE_BYTES)) = references_of ob"
  using extract_lockstep [OF assms(1,2), of ob iss MAX_GRAPH_REFERENCE_BYTES "[]"] assms(3)
  by (simp add: lockstep_def is_exceeded_def references_of_def)

section \<open>What a complete walk has seen\<close>

text \<open>The objects reachable from a root through the references of the objects that can be read.\<close>

inductive reaches :: "source \<Rightarrow> str \<Rightarrow> str \<Rightarrow> bool" for get r where
  reaches_root: "reaches get r r"
| reaches_reference:
    "reaches get r oid \<Longrightarrow> get oid = Inr (Some ob) \<Longrightarrow> rf \<in> set (references_of ob) \<Longrightarrow> reaches get r (ref_target rf)"

definition semantics_ok :: "source \<Rightarrow> str \<Rightarrow> record_constraint option \<Rightarrow> bool" where
  "semantics_ok get oid c \<longleftrightarrow>
     (\<forall>con ob sem. c = Some con \<longrightarrow> get oid = Inr (Some ob) \<longrightarrow> obj_kind ob = Record \<longrightarrow>
        record_semantics_for ob = Some sem \<longrightarrow> record_constraint_mismatch sem con = None)"

definition node_ok :: "source \<Rightarrow> tombstone_catalog \<Rightarrow> str \<Rightarrow> str \<Rightarrow> closure_node_state \<Rightarrow> bool" where
  "node_ok get cat r oid s \<longleftrightarrow>
     (\<exists>ob. get oid = Inr (Some ob) \<and> parse_oid oid = Inr (obj_kind ob) \<and> s = Present (obj_kind ob) (obj_byte_len ob))
     \<or> (\<exists>k t. oid \<noteq> r \<and> get oid = Inr None \<and> parse_oid oid = Inr k \<and> tombstone_for cat oid = Some t \<and> s = Tombstoned k t)"

definition edge_of :: "str \<Rightarrow> pending_reference \<Rightarrow> graph_edge" where
  "edge_of src rf = \<lparr> edge_source = src, edge_target = ref_target rf, edge_expected_kind = ref_expected_kind rf,
     edge_role = ref_role rf \<rparr>"

definition child_of :: "pending_visit \<Rightarrow> pending_reference \<Rightarrow> pending_visit" where
  "child_of visit rf = \<lparr> visit_oid = ref_target rf, visit_kind = ref_expected_kind rf, visit_depth = visit_depth visit + 1,
     visit_referenced_by = Some (visit_oid visit), visit_role = Some (ref_role rf), visit_constraint = ref_constraint rf \<rparr>"

definition node_oids :: "closure_report \<Rightarrow> str set" where
  "node_oids rp = fst ` set (nodes rp)"

definition ref_handled :: "source \<Rightarrow> walk_state \<Rightarrow> pending_reference \<Rightarrow> bool" where
  "ref_handled get w rf \<longleftrightarrow>
     (ref_target rf \<in> node_oids (report w) \<and> semantics_ok get (ref_target rf) (ref_constraint rf))
     \<or> (\<exists>v. Enter v \<in> set (stack w) \<and> visit_oid v = ref_target rf \<and> visit_constraint v = ref_constraint rf)"

definition object_handled :: "source \<Rightarrow> walk_state \<Rightarrow> str \<Rightarrow> bool" where
  "object_handled get w oid \<longleftrightarrow>
     (\<forall>ob. get oid = Inr (Some ob) \<longrightarrow>
        (\<forall>rf\<in>set (references_of ob). parse_oid (ref_target rf) = Inr (ref_expected_kind rf)
           \<and> edge_of oid rf \<in> set (edges (report w)) \<and> ref_handled get w rf)
        \<and> (obj_kind ob = Record \<longrightarrow> (\<forall>sem. record_semantics_for ob = Some sem \<longrightarrow> map_of (walk_semantics w) oid = Some sem)))"

text \<open>Bookkeeping of the loop, whatever it found.\<close>

definition walk_bounds :: "graph_limits \<Rightarrow> walk_state \<Rightarrow> bool" where
  "walk_bounds lim w \<longleftrightarrow> node_oids (report w) = set (active w) \<union> set (finished w)
     \<and> (\<forall>oid. Exit oid \<in> set (stack w) \<longrightarrow> oid \<in> node_oids (report w))
     \<and> distinct (map fst (nodes (report w)))
     \<and> length (nodes (report w)) \<le> max_objects lim \<and> length (edges (report w)) \<le> max_edges lim
     \<and> reference_bytes w \<le> MAX_GRAPH_REFERENCE_BYTES"

text \<open>What holds as long as nothing was reported.\<close>

definition walk_good :: "source \<Rightarrow> tombstone_catalog \<Rightarrow> str \<Rightarrow> walk_state \<Rightarrow> bool" where
  "walk_good get cat r w \<longleftrightarrow>
     (\<forall>(oid, n)\<in>set (nodes (report w)). node_ok get cat r oid (node_state n) \<and> reaches get r oid \<and> object_handled get w oid)
     \<and> (\<forall>v. Enter v \<in> set (stack w) \<longrightarrow> parse_oid (visit_oid v) = Inr (visit_kind v) \<and> reaches get r (visit_oid v))
     \<and> (\<forall>e\<in>set (edges (report w)). \<exists>ob rf. edge_source e \<in> node_oids (report w) \<and> get (edge_source e) = Inr (Some ob)
          \<and> rf \<in> set (references_of ob) \<and> e = edge_of (edge_source e) rf)
     \<and> (r \<in> node_oids (report w) \<or> stack w = stack (start_walk r))"

definition walk_inv :: "source \<Rightarrow> graph_limits \<Rightarrow> tombstone_catalog \<Rightarrow> str \<Rightarrow> walk_state \<Rightarrow> bool" where
  "walk_inv get lim cat r w \<longleftrightarrow> walk_bounds lim w \<and> (is_complete (report w) \<longrightarrow> walk_good get cat r w)"

lemma record_constraint_issue_nil:
  "record_constraint_issue v sems iss = [] \<longleftrightarrow> iss = [] \<and>
    (\<forall>con sem. visit_constraint v = Some con \<longrightarrow> map_of sems (visit_oid v) = Some sem \<longrightarrow>
       record_constraint_mismatch sem con = None)"
  by (auto simp: record_constraint_issue_def split: option.splits)

lemma follow_fold:
  defines "res \<equiv> \<lambda>visit w cs rs. foldl (follow_reference visit) (w, cs) rs"
  shows "nodes (report (fst (res visit w cs rs))) = nodes (report w)
    \<and> truncated (report (fst (res visit w cs rs))) = truncated (report w)
    \<and> walk_semantics (fst (res visit w cs rs)) = walk_semantics w
    \<and> active (fst (res visit w cs rs)) = active w \<and> finished (fst (res visit w cs rs)) = finished w
    \<and> stack (fst (res visit w cs rs)) = stack w \<and> reference_bytes (fst (res visit w cs rs)) = reference_bytes w
    \<and> edges (report (fst (res visit w cs rs))) = edges (report w) @ map (edge_of (visit_oid visit)) rs
    \<and> (\<exists>found. issues (report (fst (res visit w cs rs))) = issues (report w) @ found
        \<and> (found = [] \<longrightarrow> (\<forall>rf\<in>set rs. parse_oid (ref_target rf) = Inr (ref_expected_kind rf))
             \<and> snd (res visit w cs rs) = cs @ map (child_of visit) rs))"
  unfolding res_def
proof (induction rs arbitrary: w cs)
  case (Cons rf rs)
  obtain w1 cs1 where f: "follow_reference visit (w, cs) rf = (w1, cs1)" by fastforce
  have w1: "nodes (report w1) = nodes (report w)" "truncated (report w1) = truncated (report w)"
      "walk_semantics w1 = walk_semantics w" "active w1 = active w" "finished w1 = finished w" "stack w1 = stack w"
      "reference_bytes w1 = reference_bytes w" "edges (report w1) = edges (report w) @ [edge_of (visit_oid visit) rf]"
    using f by (auto simp: follow_reference_def Let_def add_issue_def edge_of_def split: sum.splits if_splits)
  have w2: "\<exists>found. issues (report w1) = issues (report w) @ found
      \<and> (found = [] \<longrightarrow> parse_oid (ref_target rf) = Inr (ref_expected_kind rf) \<and> cs1 = cs @ [child_of visit rf])"
    using f by (auto simp: follow_reference_def Let_def add_issue_def child_of_def split: sum.splits if_splits)
  show ?case using Cons.IH [of w1 cs1] w1 w2 by (auto simp: f)
qed simp

lemma node_oids_frame [simp]:
  "node_oids (rp\<lparr> issues := iss \<rparr>) = node_oids rp" "node_oids (rp\<lparr> edges := es \<rparr>) = node_oids rp"
  "node_oids (rp\<lparr> truncated := t \<rparr>) = node_oids rp"
  by (simp_all add: node_oids_def)

lemma node_oids_cong: "nodes a = nodes b \<Longrightarrow> node_oids a = node_oids b"
  by (simp add: node_oids_def)

lemma update_fresh: "k \<notin> fst ` set xs \<Longrightarrow> AList.update k v xs = xs @ [(k, v)]"
  by (induction xs) auto

lemma update_keys: "fst ` set (AList.update k v xs) = insert k (fst ` set xs)"
  by (induction xs) auto

lemma node_oids_update:
  "nodes a = AList.update k n (nodes b) \<Longrightarrow> node_oids a = insert k (node_oids b)"
  by (simp add: node_oids_def update_keys)

text \<open>A visit whose object was seen before is settled by its record constraint alone.\<close>

lemma walk_good_settle:
  assumes good: "walk_good get cat r w" and st: "stack w = Enter v # rest" "stack w' = rest"
    and same: "nodes (report w') = nodes (report w)" "edges (report w') = edges (report w)"
      "walk_semantics w' = walk_semantics w"
    and seen: "visit_oid v \<in> node_oids (report w)" and sem: "semantics_ok get (visit_oid v) (visit_constraint v)"
  shows "walk_good get cat r w'"
proof -
  note oids = node_oids_cong [OF same(1)]
  have ref: "ref_handled get w' rf" if "ref_handled get w rf" for rf
  proof (cases "ref_target rf = visit_oid v \<and> ref_constraint rf = visit_constraint v")
    case True
    then show ?thesis using seen sem unfolding ref_handled_def by (simp add: oids)
  next
    case False
    then show ?thesis using that st by (auto simp: ref_handled_def oids)
  qed
  then have "object_handled get w' oid" if "object_handled get w oid" for oid
    using that same by (auto simp: object_handled_def)
  moreover have "r \<in> node_oids (report w)" using good st seen by (auto simp: walk_good_def start_walk_def)
  ultimately show ?thesis using good st same by (fastforce simp: walk_good_def oids)
qed

text \<open>A first visit adds one node, the edges of its references and one visit per reference.\<close>

lemma walk_good_visit:
  assumes good: "walk_good get cat r w" and st: "stack w = Enter v # rest"
    and fresh: "visit_oid v \<notin> node_oids (report w)"
    and nodes': "nodes (report w') = AList.update (visit_oid v) n (nodes (report w))"
    and edges': "edges (report w') = edges (report w) @ map (edge_of (visit_oid v)) refs"
    and stack': "stack w' = map Enter (map (child_of v) refs) @ Exit (visit_oid v) # rest"
    and sems': "\<And>a. a \<noteq> visit_oid v \<Longrightarrow> map_of (walk_semantics w') a = map_of (walk_semantics w) a"
    and ok: "node_ok get cat r (visit_oid v) (node_state n)"
    and sem: "semantics_ok get (visit_oid v) (visit_constraint v)"
    and present: "\<And>ob. get (visit_oid v) = Inr (Some ob) \<Longrightarrow> refs = references_of ob
        \<and> (\<forall>rf\<in>set refs. parse_oid (ref_target rf) = Inr (ref_expected_kind rf))
        \<and> (obj_kind ob = Record \<longrightarrow> (\<forall>sem. record_semantics_for ob = Some sem \<longrightarrow>
             map_of (walk_semantics w') (visit_oid v) = Some sem))"
    and absent: "(\<nexists>ob. get (visit_oid v) = Inr (Some ob)) \<Longrightarrow> refs = []"
  shows "walk_good get cat r w'"
proof -
  let ?oid = "visit_oid v"
  have oids: "node_oids (report w') = insert ?oid (node_oids (report w))" by (rule node_oids_update [OF nodes'])
  have set_nodes: "set (nodes (report w')) = insert (?oid, n) (set (nodes (report w)))"
    using fresh unfolding nodes' node_oids_def by (simp add: update_fresh)
  have reach: "reaches get r ?oid" using good st by (auto simp: walk_good_def)
  have ref: "ref_handled get w' rf" if "ref_handled get w rf" for rf
  proof (cases "ref_target rf = ?oid \<and> ref_constraint rf = visit_constraint v")
    case True
    then show ?thesis using sem by (simp add: ref_handled_def oids)
  next
    case False
    then show ?thesis using that st by (auto simp: ref_handled_def oids stack')
  qed
  have old: "object_handled get w' oid" if "object_handled get w oid" "oid \<noteq> ?oid" for oid
    using that ref sems' by (auto simp: object_handled_def edges')
  have new: "object_handled get w' ?oid"
    unfolding object_handled_def
  proof (intro allI impI)
    fix ob assume ob: "get ?oid = Inr (Some ob)"
    have "ref_handled get w' rf" if "rf \<in> set refs" for rf
      using that unfolding ref_handled_def stack' by (force simp: child_of_def)
    then show "(\<forall>rf\<in>set (references_of ob). parse_oid (ref_target rf) = Inr (ref_expected_kind rf)
           \<and> edge_of ?oid rf \<in> set (edges (report w')) \<and> ref_handled get w' rf)
        \<and> (obj_kind ob = Record \<longrightarrow> (\<forall>sem. record_semantics_for ob = Some sem \<longrightarrow>
             map_of (walk_semantics w') ?oid = Some sem))"
      using present [OF ob] by (auto simp: edges')
  qed
  have "node_ok get cat r oid (node_state m) \<and> reaches get r oid \<and> object_handled get w' oid"
    if "(oid, m) \<in> set (nodes (report w'))" for oid m
  proof (cases "(oid, m) = (?oid, n)")
    case True
    then show ?thesis using ok reach new by simp
  next
    case False
    then have mem: "(oid, m) \<in> set (nodes (report w))" using that by (auto simp: set_nodes)
    then have "oid \<noteq> ?oid" using fresh by (force simp: node_oids_def)
    then show ?thesis using good mem old by (fastforce simp: walk_good_def)
  qed
  moreover have "parse_oid (visit_oid u) = Inr (visit_kind u) \<and> reaches get r (visit_oid u)"
    if entered: "Enter u \<in> set (stack w')" for u
  proof (cases "Enter u \<in> set rest")
    case True
    then show ?thesis using good st by (auto simp: walk_good_def)
  next
    case False
    then obtain rf where rf: "rf \<in> set refs" "u = child_of v rf" using entered by (auto simp: stack')
    moreover from rf absent obtain ob where "get ?oid = Inr (Some ob)" by force
    ultimately show ?thesis using present reaches_reference [OF reach] by (auto simp: child_of_def)
  qed
  moreover have "\<exists>ob rf. edge_source e \<in> node_oids (report w') \<and> get (edge_source e) = Inr (Some ob)
      \<and> rf \<in> set (references_of ob) \<and> e = edge_of (edge_source e) rf" if listed: "e \<in> set (edges (report w'))" for e
  proof (cases "e \<in> set (edges (report w))")
    case True
    then show ?thesis using good by (auto simp: walk_good_def oids)
  next
    case False
    then obtain rf where rf: "rf \<in> set refs" "e = edge_of ?oid rf" using listed by (auto simp: edges')
    moreover from rf absent obtain ob where "get ?oid = Inr (Some ob)" by force
    ultimately show ?thesis using present by (auto simp: edge_of_def oids)
  qed
  moreover have "r \<in> node_oids (report w')" using good st by (auto simp: walk_good_def oids start_walk_def)
  ultimately show ?thesis by (auto simp: walk_good_def)
qed

section \<open>One step of the walk\<close>

lemma expand_object_cases:
  assumes edges: "length (edges (report w)) \<le> max_edges lim" and bytes: "reference_bytes w \<le> MAX_GRAPH_REFERENCE_BYTES"
    and wide: "max_edges lim \<le> usize_max"
  obtains (stopped) w' where "expand_object lim visit ob w = Inr (Break w')" "truncated (report w')"
      "nodes (report w') = nodes (report w)" "length (edges (report w')) \<le> max_edges lim"
  | (expanded) w' refs cs found where "expand_object lim visit ob w = Inr (Continue w')"
      "nodes (report w') = nodes (report w)" "truncated (report w') = truncated (report w)"
      "walk_semantics w' = walk_semantics w" "active w' = active w" "finished w' = finished w"
      "stack w' = map Enter cs @ stack w" "edges (report w') = edges (report w) @ map (edge_of (visit_oid visit)) refs"
      "length (edges (report w')) \<le> max_edges lim" "reference_bytes w' \<le> MAX_GRAPH_REFERENCE_BYTES"
      "issues (report w') = issues (report w) @ found"
      "found = [] \<Longrightarrow> refs = references_of ob \<and> cs = map (child_of visit) refs
         \<and> (\<forall>rf\<in>set refs. parse_oid (ref_target rf) = Inr (ref_expected_kind rf))"
proof -
  let ?e = "max_edges lim - length (edges (report w))" and ?b = "MAX_GRAPH_REFERENCE_BYTES - reference_bytes w"
  define x where "x = extract_references ob (issues (report w)) ?e ?b MAX_GRAPH_REFERENCE_BYTES"
  define n where "n = reference_bytes w + charged_bytes (fst x)"
  define f where "f = foldl (follow_reference visit) ((set_issues (snd x) w)\<lparr> reference_bytes := n \<rparr>, []) (references (fst x))"
  have lims: "length (references (fst x)) \<le> ?e" "charged_bytes (fst x) \<le> ?b"
    using extract_within_limits [of ?e ?b MAX_GRAPH_REFERENCE_BYTES ob "issues (report w)"]
    unfolding within_limits_def x_def by auto
  have n: "n \<le> MAX_GRAPH_REFERENCE_BYTES" using lims bytes by (simp add: n_def)
  moreover have "MAX_GRAPH_REFERENCE_BYTES \<le> usize_max" by (simp add: MAX_GRAPH_REFERENCE_BYTES_def usize_max_def)
  ultimately have add: "checked_add (reference_bytes w) (charged_bytes (fst x)) = Some n"
    by (simp add: checked_add_def n_def)
  obtain found0 where found0: "snd x = issues (report w) @ found0" using extract_issues unfolding x_def by blast
  from follow_fold [of visit "(set_issues (snd x) w)\<lparr> reference_bytes := n \<rparr>" "[]" "references (fst x)"]
  obtain found1 where f1: "nodes (report (fst f)) = nodes (report w)" "truncated (report (fst f)) = truncated (report w)"
      "walk_semantics (fst f) = walk_semantics w" "active (fst f) = active w" "finished (fst f) = finished w"
      "stack (fst f) = stack w" "reference_bytes (fst f) = n"
      "edges (report (fst f)) = edges (report w) @ map (edge_of (visit_oid visit)) (references (fst x))"
    and found1: "issues (report (fst f)) = snd x @ found1"
      "found1 = [] \<Longrightarrow> (\<forall>rf\<in>set (references (fst x)). parse_oid (ref_target rf) = Inr (ref_expected_kind rf))
         \<and> snd f = map (child_of visit) (references (fst x))"
    unfolding f_def [symmetric] by (auto simp: set_issues_def)
  have len: "length (edges (report (fst f))) \<le> max_edges lim" using f1(8) lims edges by simp
  have eq: "expand_object lim visit ob w =
      (case exceeded (fst x) of
         Some l \<Rightarrow> Inr (Break (add_issue \<lparr> issue_oid = visit_oid visit, issue_referenced_by = None, issue_role = None,
           issue_kind = (case l of EdgesLimit \<Rightarrow> ResourceLimitIssue ''edges'' (max_edges lim)
             | ReferenceBytesLimit \<Rightarrow> ResourceLimitIssue ''reference_bytes'' MAX_GRAPH_REFERENCE_BYTES) \<rparr>
           (truncate_walk (fst f))))
       | None \<Rightarrow> Inr (Continue ((fst f)\<lparr> stack := map Enter (snd f) @ stack (fst f) \<rparr>)))"
    using edges bytes add by (simp add: expand_object_def Let_def f_def set_issues_def flip: x_def split: option.split)
  show thesis
  proof (cases "exceeded (fst x)")
    case (Some l)
    show thesis by (rule stopped [OF eq [unfolded Some option.case]]) (use f1 len in \<open>auto simp: add_issue_def truncate_walk_def\<close>)
  next
    case None
    have "references (fst x) = references_of ob"
      unfolding x_def by (rule extract_complete)
        (use wide None in \<open>auto simp: x_def MAX_GRAPH_REFERENCE_BYTES_def usize_max_def\<close>)
    then show thesis
      by (intro expanded [of "(fst f)\<lparr> stack := map Enter (snd f) @ stack (fst f) \<rparr>" "snd f" "references (fst x)" "found0 @ found1"])
        (use eq None f1 len n found0 found1 in auto)
  qed
qed

definition report_bounded :: "graph_limits \<Rightarrow> closure_report \<Rightarrow> bool" where
  "report_bounded lim rp \<longleftrightarrow> length (nodes rp) \<le> max_objects lim \<and> length (edges rp) \<le> max_edges lim"

text \<open>What one iteration owes: it fails only where the source does, goes on in the invariant, or stops truncated.\<close>

definition step_ok ::
    "source \<Rightarrow> graph_limits \<Rightarrow> tombstone_catalog \<Rightarrow> str \<Rightarrow> walk_outcome store_result \<Rightarrow> bool" where
  "step_ok get lim cat r res \<longleftrightarrow>
     (case res of
        Inl e \<Rightarrow> \<exists>oid. get oid = Inl e
      | Inr (Continue w) \<Rightarrow> walk_inv get lim cat r w
      | Inr (Break w) \<Rightarrow> truncated (report w) \<and> report_bounded lim (report w))"

lemma walk_bounds_visit:
  assumes bounds: "walk_bounds lim w" and st: "stack w = Enter v # rest"
    and fresh: "visit_oid v \<notin> node_oids (report w)" and room: "length (nodes (report w)) < max_objects lim"
    and "nodes (report w') = AList.update (visit_oid v) n (nodes (report w))"
    and "active w' = visit_oid v # active w" "finished w' = finished w"
    and "stack w' = map Enter cs @ Exit (visit_oid v) # rest"
    and "length (edges (report w')) \<le> max_edges lim" "reference_bytes w' \<le> MAX_GRAPH_REFERENCE_BYTES"
  shows "walk_bounds lim w'"
proof -
  have n: "nodes (report w') = nodes (report w) @ [(visit_oid v, n)]"
    using assms(5) fresh by (simp add: update_fresh node_oids_def)
  moreover have "node_oids (report w') = insert (visit_oid v) (node_oids (report w))"
    by (rule node_oids_update [OF assms(5)])
  moreover have "visit_oid v \<notin> set (map fst (nodes (report w)))" using fresh by (simp add: node_oids_def)
  ultimately show ?thesis using bounds st room assms(6-) by (auto simp: walk_bounds_def)
qed

lemma note_semantics_frame:
  "nodes (report (note_semantics v ob w)) = nodes (report w)" "edges (report (note_semantics v ob w)) = edges (report w)"
  "truncated (report (note_semantics v ob w)) = truncated (report w)"
  "active (note_semantics v ob w) = active w" "finished (note_semantics v ob w) = finished w"
  "stack (note_semantics v ob w) = stack w" "reference_bytes (note_semantics v ob w) = reference_bytes w"
  "a \<noteq> visit_oid v \<Longrightarrow> map_of (walk_semantics (note_semantics v ob w)) a = map_of (walk_semantics w) a"
  "obj_kind ob = Record \<Longrightarrow> record_semantics_for ob = Some sem \<Longrightarrow>
     map_of (walk_semantics (note_semantics v ob w)) (visit_oid v) = Some sem"
  by (auto simp: note_semantics_def set_issues_def Let_def update_conv' split: option.split)

lemma note_semantics_issues:
  assumes "issues (report (note_semantics v ob w)) = []" "get (visit_oid v) = Inr (Some ob)"
  shows "issues (report w) = [] \<and> semantics_ok get (visit_oid v) (visit_constraint v)"
  using assms
  by (auto simp: note_semantics_def set_issues_def Let_def update_conv' semantics_ok_def record_constraint_issue_nil
      split: option.splits if_splits)

lemma visit_present_ok:
  assumes inv: "walk_inv get lim cat r w" and st: "stack w = Enter v # rest"
    and fresh: "visit_oid v \<notin> node_oids (report w)" and room: "length (nodes (report w)) < max_objects lim"
    and wide: "max_edges lim \<le> usize_max" and ob: "get (visit_oid v) = Inr (Some ob)"
    and w0: "w0 = w\<lparr> active := visit_oid v # active w, active_path := p, stack := Exit (visit_oid v) # rest \<rparr>"
  shows "step_ok get lim cat r (visit_present lim v ob w0)"
proof (cases "obj_kind ob = visit_kind v")
  case False
  have "walk_bounds lim (add_issue i (put_node v (Present (obj_kind ob) (obj_byte_len ob)) w0))" for i
    by (rule walk_bounds_visit [OF _ st fresh room, where cs = "[]"])
      (use inv in \<open>auto simp: walk_inv_def walk_bounds_def w0 add_issue_def put_node_def\<close>)
  then show ?thesis using False
    by (simp add: visit_present_def step_ok_def walk_inv_def is_complete_def add_issue_def)
next
  case True
  let ?s = "Present (obj_kind ob) (obj_byte_len ob)"
  define w1 where "w1 = put_node v ?s (note_semantics v ob w0)"
  have w1: "nodes (report w1) = AList.update (visit_oid v) \<lparr> node_oid = visit_oid v, node_depth = visit_depth v,
        node_state = ?s \<rparr> (nodes (report w))" "edges (report w1) = edges (report w)"
      "truncated (report w1) = truncated (report w)" "issues (report w1) = issues (report (note_semantics v ob w0))"
      "active w1 = visit_oid v # active w" "finished w1 = finished w" "stack w1 = Exit (visit_oid v) # rest"
      "reference_bytes w1 = reference_bytes w" "walk_semantics w1 = walk_semantics (note_semantics v ob w0)"
    by (simp_all add: w1_def put_node_def note_semantics_frame w0)
  have eq: "visit_present lim v ob w0 = expand_object lim v ob w1" using True by (simp add: visit_present_def w1_def)
  have bounds: "walk_bounds lim w" using inv by (simp add: walk_inv_def)
  have "length (edges (report w1)) \<le> max_edges lim" "reference_bytes w1 \<le> MAX_GRAPH_REFERENCE_BYTES"
    using bounds by (simp_all add: w1 walk_bounds_def)
  then show ?thesis using wide
  proof (cases rule: expand_object_cases [of w1 lim v ob, case_names stopped expanded])
    case (stopped w')
    have "length (nodes (report w')) \<le> max_objects lim"
      using room fresh by (simp add: stopped(3) w1(1) node_oids_def update_fresh)
    then show ?thesis using stopped by (simp add: eq step_ok_def report_bounded_def)
  next
    case (expanded w' refs cs found)
    have "walk_bounds lim w'"
      by (rule walk_bounds_visit [OF bounds st fresh room]) (use expanded w1 in auto)
    moreover have "walk_good get cat r w'" if complete: "is_complete (report w')"
    proof -
      have nil: "found = []" "issues (report (note_semantics v ob w0)) = []"
        using complete expanded w1 by (auto simp: is_complete_def)
      note none = note_semantics_issues [where w = w0 and get = get, OF nil(2) ob]
      then have good: "walk_good get cat r w"
        using inv complete expanded(3) w1(3) by (simp add: walk_inv_def is_complete_def w0)
      have kind: "parse_oid (visit_oid v) = Inr (visit_kind v)" using good st by (auto simp: walk_good_def)
      show ?thesis
        by (rule walk_good_visit [OF good st fresh, where refs = refs and n = "\<lparr> node_oid = visit_oid v,
              node_depth = visit_depth v, node_state = ?s \<rparr>"])
          (use expanded w1 nil none kind True ob in \<open>auto simp: note_semantics_frame w0 node_ok_def\<close>)
    qed
    ultimately show ?thesis using expanded(1) by (simp add: eq step_ok_def walk_inv_def)
  qed
qed

text \<open>Objects that cannot be read leave a node behind; only a tombstoned one below the root goes unreported.\<close>

lemma visit_absent_ok:
  assumes inv: "walk_inv get lim cat r w" and st: "stack w = Enter v # rest"
    and fresh: "visit_oid v \<notin> node_oids (report w)" and room: "length (nodes (report w)) < max_objects lim"
    and w0: "w0 = w\<lparr> active := visit_oid v # active w, active_path := p, stack := Exit (visit_oid v) # rest \<rparr>"
    and w': "w' = put_node v s w0 \<or> (\<exists>i. w' = add_issue i (put_node v s w0))"
    and ok: "w' = put_node v s w0 \<Longrightarrow> is_complete (report w) \<Longrightarrow>
        node_ok get cat r (visit_oid v) s \<and> get (visit_oid v) = Inr None"
  shows "walk_inv get lim cat r w'"
proof -
  have bounds: "walk_bounds lim w'"
    by (rule walk_bounds_visit [OF _ st fresh room, where cs = "[]"])
      (use inv w' in \<open>auto simp: walk_inv_def walk_bounds_def w0 add_issue_def put_node_def\<close>)
  have "walk_good get cat r w'" if complete: "is_complete (report w')"
  proof -
    have eq: "w' = put_node v s w0" using w' complete by (auto simp: is_complete_def add_issue_def)
    then have before: "is_complete (report w)" using complete by (simp add: is_complete_def put_node_def w0)
    show ?thesis
      by (rule walk_good_visit [OF _ st fresh, where refs = "[]" and n = "\<lparr> node_oid = visit_oid v,
            node_depth = visit_depth v, node_state = s \<rparr>"])
        (use inv before ok [OF eq before] in \<open>auto simp: walk_inv_def eq put_node_def w0 semantics_ok_def\<close>)
  qed
  with bounds show ?thesis by (simp add: walk_inv_def)
qed

lemma add_issue_neq [simp]: "add_issue i w \<noteq> w"
proof
  assume "add_issue i w = w"
  then have "issues (report (add_issue i w)) = issues (report w)" by simp
  then show False by (simp add: add_issue_def)
qed

lemma visit_new_ok:
  assumes inv: "walk_inv get lim cat r w" and st: "stack w = Enter v # rest"
    and fresh: "visit_oid v \<notin> node_oids (report w)" and room: "length (nodes (report w)) < max_objects lim"
    and wide: "max_edges lim \<le> usize_max"
  shows "step_ok get lim cat r (visit_new get lim cat v (w\<lparr> stack := rest \<rparr>))"
proof -
  define w0 where "w0 = w\<lparr> active := visit_oid v # active w, active_path := active_path w @ [visit_oid v],
    stack := Exit (visit_oid v) # rest \<rparr>"
  note absent = visit_absent_ok [OF inv st fresh room w0_def]
  have root: "visit_depth v = 0 \<and> visit_kind v = Commit" if "is_complete (report w)" "visit_oid v = r"
    using inv that fresh st by (auto simp: walk_inv_def walk_good_def start_walk_def)
  have kind: "parse_oid (visit_oid v) = Inr (visit_kind v)" if "is_complete (report w)"
    using inv that st by (auto simp: walk_inv_def walk_good_def)
  have eq: "visit_new get lim cat v (w\<lparr> stack := rest \<rparr>) =
      (case get (visit_oid v) of
         Inr (Some ob) \<Rightarrow> visit_present lim v ob w0
       | Inr None \<Rightarrow>
           (case tombstone_for cat (visit_oid v) of
              Some t \<Rightarrow> Inr (Continue (if visit_depth v = 0 \<and> visit_kind v = Commit
                then add_issue (issue_for_visit v MissingIssue) (put_node v (Tombstoned (visit_kind v) t) w0)
                else put_node v (Tombstoned (visit_kind v) t) w0))
            | None \<Rightarrow> Inr (Continue (add_issue (issue_for_visit v MissingIssue) (put_node v (MissingNode (visit_kind v)) w0))))
       | Inl (Fail (CorruptObject _)) \<Rightarrow>
           Inr (Continue (add_issue (issue_for_visit v CorruptIssue) (put_node v (CorruptNode (visit_kind v)) w0)))
       | Inl e \<Rightarrow> Inl e)"
    by (simp add: visit_new_def Let_def w0_def split: sum.split option.split fault.split store_error.split)
  show ?thesis
  proof (cases "get (visit_oid v)")
    case (Inr res)
    show ?thesis
    proof (cases res)
      case (Some ob)
      then show ?thesis using visit_present_ok [OF inv st fresh room wide _ w0_def] Inr by (simp add: eq)
    next
      case None
      show ?thesis
      proof (cases "tombstone_for cat (visit_oid v)")
        case None
        then show ?thesis using Inr \<open>res = None\<close>
          by (auto simp: eq step_ok_def intro!: absent [where s = "MissingNode (visit_kind v)"])
      next
        case (Some t)
        let ?s = "Tombstoned (visit_kind v) t"
        have "walk_inv get lim cat r (if visit_depth v = 0 \<and> visit_kind v = Commit
            then add_issue (issue_for_visit v MissingIssue) (put_node v ?s w0) else put_node v ?s w0)"
        proof (rule absent [where s = ?s])
          assume same: "(if visit_depth v = 0 \<and> visit_kind v = Commit
              then add_issue (issue_for_visit v MissingIssue) (put_node v ?s w0) else put_node v ?s w0) = put_node v ?s w0"
            and before: "is_complete (report w)"
          from same have "\<not> (visit_depth v = 0 \<and> visit_kind v = Commit)" by (metis add_issue_neq)
          then have "visit_oid v \<noteq> r" using root [OF before] by blast
          then show "node_ok get cat r (visit_oid v) ?s \<and> get (visit_oid v) = Inr None"
            using kind [OF before] Inr \<open>res = None\<close> Some by (auto simp: node_ok_def)
        qed auto
        then show ?thesis using Inr \<open>res = None\<close> Some by (simp add: eq step_ok_def)
      qed
    qed
  next
    case (Inl e)
    show ?thesis
    proof (cases "\<exists>oid. e = Fail (CorruptObject oid)")
      case True
      then show ?thesis using Inl
        by (auto simp: eq step_ok_def intro!: absent [where s = "CorruptNode (visit_kind v)"])
    next
      case False
      then show ?thesis using Inl
        by (auto simp: eq step_ok_def split: fault.split store_error.split)
    qed
  qed
qed

lemma seen_semantics_ok:
  assumes "walk_good get cat r w" "visit_oid v \<in> node_oids (report w)"
    and "record_constraint_issue v (walk_semantics w) (issues (report w)) = []"
  shows "semantics_ok get (visit_oid v) (visit_constraint v)"
proof -
  have "object_handled get w (visit_oid v)" using assms(1,2) by (auto simp: walk_good_def node_oids_def)
  then show ?thesis
    using assms(3) by (auto simp: semantics_ok_def object_handled_def record_constraint_issue_nil)
qed

lemma walk_bounds_pop:
  assumes "walk_bounds lim w" "stack w = Enter v # rest"
    and "stack w' = rest" "nodes (report w') = nodes (report w)" "edges (report w') = edges (report w)"
      "active w' = active w" "finished w' = finished w" "reference_bytes w' = reference_bytes w"
  shows "walk_bounds lim w'"
  using assms node_oids_cong [OF assms(4)] by (auto simp: walk_bounds_def)

lemma walk_inv_settle:
  assumes inv: "walk_inv get lim cat r w" and st: "stack w = Enter v # rest"
    and seen: "visit_oid v \<in> node_oids (report w)"
  shows "walk_inv get lim cat r
    (set_issues (record_constraint_issue v (walk_semantics w) (issues (report w))) (w\<lparr> stack := rest \<rparr>))"
    (is "walk_inv get lim cat r ?w")
proof -
  have "walk_good get cat r ?w" if "is_complete (report ?w)"
  proof -
    have nil: "record_constraint_issue v (walk_semantics w) (issues (report w)) = []"
      using that by (simp add: is_complete_def set_issues_def)
    then have "issues (report w) = []" by (simp add: record_constraint_issue_nil)
    then have good: "walk_good get cat r w" using inv that by (simp add: walk_inv_def is_complete_def set_issues_def)
    show ?thesis by (rule walk_good_settle [OF good st]) (use seen_semantics_ok [OF good seen nil] seen in \<open>auto simp: set_issues_def\<close>)
  qed
  moreover have "walk_bounds lim ?w"
    by (rule walk_bounds_pop [OF _ st]) (use inv in \<open>auto simp: walk_inv_def set_issues_def\<close>)
  ultimately show ?thesis by (simp add: walk_inv_def)
qed

lemma walk_step_ok:
  assumes inv: "walk_inv get lim cat r w" and st: "stack w = item # rest" and wide: "max_edges lim \<le> usize_max"
  shows "step_ok get lim cat r (walk_step get lim cat item (w\<lparr> stack := rest \<rparr>))"
proof (cases item)
  case (Exit oid)
  let ?w = "exit_object oid (w\<lparr> stack := rest \<rparr>)"
  have bounds: "walk_bounds lim w" using inv by (simp add: walk_inv_def)
  then have "walk_bounds lim ?w" using st Exit by (auto simp: walk_bounds_def exit_object_def)
  moreover have "walk_good get cat r ?w" if "is_complete (report ?w)"
  proof -
    have "ref_handled get ?w rf \<longleftrightarrow> ref_handled get w rf" for rf
      using st Exit by (simp add: ref_handled_def exit_object_def)
    then have "object_handled get ?w a \<longleftrightarrow> object_handled get w a" for a
      by (simp add: object_handled_def exit_object_def)
    moreover have "walk_good get cat r w" using inv that by (simp add: walk_inv_def exit_object_def)
    ultimately show ?thesis using st Exit by (auto simp: walk_good_def exit_object_def start_walk_def)
  qed
  ultimately show ?thesis using Exit by (simp add: step_ok_def walk_inv_def)
next
  case (Enter v)
  let ?w = "w\<lparr> stack := rest \<rparr>"
  note st = st [unfolded Enter]
  have bounds: "walk_bounds lim w" using inv by (simp add: walk_inv_def)
  have reported: "walk_inv get lim cat r (add_issue i (truncate_walk ?w))" "walk_inv get lim cat r (add_issue i ?w)" for i
    using walk_bounds_pop [OF bounds st]
    by (simp_all add: walk_inv_def is_complete_def add_issue_def truncate_walk_def)
  have oids: "node_oids (report w) = set (active w) \<union> set (finished w)" using bounds by (simp add: walk_bounds_def)
  consider (deep) "visit_depth v > max_depth lim"
    | (active) "visit_depth v \<le> max_depth lim" "visit_oid v \<in> set (active w)"
    | (finished) "visit_depth v \<le> max_depth lim" "visit_oid v \<notin> set (active w)" "visit_oid v \<in> set (finished w)"
    | (full) "visit_depth v \<le> max_depth lim" "visit_oid v \<notin> node_oids (report w)" "max_objects lim \<le> length (nodes (report w))"
    | (new) "visit_depth v \<le> max_depth lim" "visit_oid v \<notin> node_oids (report w)" "length (nodes (report w)) < max_objects lim"
    using oids by fastforce
  then show ?thesis
  proof cases
    case deep
    then show ?thesis using reported(1) by (simp add: Enter enter_object_def step_ok_def)
  next
    case active
    then show ?thesis using reported(2) walk_inv_settle [OF inv st] oids
      by (simp add: Enter enter_object_def step_ok_def visit_active_def)
  next
    case finished
    then show ?thesis using walk_inv_settle [OF inv st] oids by (simp add: Enter enter_object_def step_ok_def)
  next
    case full
    then show ?thesis using bounds oids
      by (simp add: Enter enter_object_def step_ok_def walk_bounds_def report_bounded_def add_issue_def truncate_walk_def)
  next
    case new
    then show ?thesis using visit_new_ok [OF inv st new(2,3) wide] oids by (simp add: Enter enter_object_def)
  qed
qed

lemma start_walk_inv: "parse_oid r = Inr Commit \<Longrightarrow> walk_inv get lim cat r (start_walk r)"
  by (auto simp: walk_inv_def walk_bounds_def walk_good_def start_walk_def node_oids_def reaches_root)

lemma walk_ok:
  assumes "walk_inv get lim cat r w" "max_edges lim \<le> usize_max"
  shows "case walk get lim cat w of
      Inl e \<Rightarrow> \<exists>oid. get oid = Inl e
    | Inr rp \<Rightarrow> report_bounded lim rp \<and>
        (is_complete rp \<longrightarrow> (\<exists>w'. walk_inv get lim cat r w' \<and> stack w' = [] \<and> report w' = rp))"
  using assms
proof (induction get lim cat w rule: walk.induct)
  case (1 get lim cat w)
  show ?case
  proof (cases "stack w")
    case Nil
    then show ?thesis using 1(2) by (auto simp: walk.simps walk_inv_def walk_bounds_def report_bounded_def)
  next
    case (Cons item rest)
    note ok = walk_step_ok [OF 1(2) Cons 1(3)]
    show ?thesis
    proof (cases "walk_step get lim cat item (w\<lparr> stack := rest \<rparr>)")
      case (Inl e)
      then show ?thesis using ok Cons by (subst walk.simps) (simp add: step_ok_def)
    next
      case (Inr out)
      show ?thesis
      proof (cases out)
        case (Continue w')
        then show ?thesis using 1(1) [OF Cons Inr Continue] 1(3) ok Inr Cons
          by (subst walk.simps) (simp add: step_ok_def)
      next
        case (Break w')
        then show ?thesis using ok Inr Cons by (subst walk.simps) (simp add: step_ok_def is_complete_def)
      qed
    qed
  qed
qed

section \<open>The specification of a complete closure\<close>

text \<open>
  What a complete report promises: the root is a Commit that can be read; the nodes are exactly the
  reachable objects, each intact or, below the root, removed and named by a Tombstone; every
  reference is well-typed and satisfies its record constraint; the edges are exactly the references.
\<close>

definition closed_under :: "source \<Rightarrow> tombstone_catalog \<Rightarrow> str \<Rightarrow> closure_report \<Rightarrow> bool" where
  "closed_under get cat r rp \<longleftrightarrow>
     (\<exists>ob. get r = Inr (Some ob) \<and> parse_oid r = Inr Commit \<and> obj_kind ob = Commit)
     \<and> node_oids rp = {oid. reaches get r oid}
     \<and> (\<forall>(oid, n)\<in>set (nodes rp). node_ok get cat r oid (node_state n))
     \<and> (\<forall>oid ob rf. reaches get r oid \<longrightarrow> get oid = Inr (Some ob) \<longrightarrow> rf \<in> set (references_of ob) \<longrightarrow>
          parse_oid (ref_target rf) = Inr (ref_expected_kind rf) \<and> semantics_ok get (ref_target rf) (ref_constraint rf))
     \<and> set (edges rp) = {edge_of oid rf |oid ob rf. reaches get r oid \<and> get oid = Inr (Some ob) \<and> rf \<in> set (references_of ob)}"

lemma walk_good_closed:
  assumes good: "walk_good get cat r w" and st: "stack w = []" and kind: "parse_oid r = Inr Commit"
  shows "closed_under get cat r (report w)"
proof -
  have node: "node_ok get cat r oid (node_state n) \<and> reaches get r oid \<and> object_handled get w oid"
    if "(oid, n) \<in> set (nodes (report w))" for oid n
    using good that by (auto simp: walk_good_def)
  have handled: "object_handled get w oid" if "oid \<in> node_oids (report w)" for oid
    using that node by (auto simp: node_oids_def)
  have root: "r \<in> node_oids (report w)" using good st by (simp add: walk_good_def start_walk_def)
  have "oid \<in> node_oids (report w)" if "reaches get r oid" for oid
    using that
  proof induction
    case reaches_root
    then show ?case by (rule root)
  next
    case (reaches_reference oid ob rf)
    then show ?case using handled [of oid] st by (auto simp: object_handled_def ref_handled_def)
  qed
  then have oids: "node_oids (report w) = {oid. reaches get r oid}"
    using node by (auto simp: node_oids_def)
  have refs: "parse_oid (ref_target rf) = Inr (ref_expected_kind rf) \<and> edge_of oid rf \<in> set (edges (report w))
      \<and> semantics_ok get (ref_target rf) (ref_constraint rf)"
    if "reaches get r oid" "get oid = Inr (Some ob)" "rf \<in> set (references_of ob)" for oid ob rf
    using that handled [of oid] oids st by (auto simp: object_handled_def ref_handled_def)
  from root obtain n where "(r, n) \<in> set (nodes (report w))" by (auto simp: node_oids_def)
  then have "node_ok get cat r r (node_state n)" using node by blast
  then obtain ob where ob: "get r = Inr (Some ob)" "parse_oid r = Inr (obj_kind ob)" by (auto simp: node_ok_def)
  have "set (edges (report w)) \<subseteq> {edge_of oid rf |oid ob rf. reaches get r oid \<and> get oid = Inr (Some ob) \<and> rf \<in> set (references_of ob)}"
    using good oids unfolding walk_good_def by blast
  then have edges: "set (edges (report w)) =
      {edge_of oid rf |oid ob rf. reaches get r oid \<and> get oid = Inr (Some ob) \<and> rf \<in> set (references_of ob)}"
    using refs by blast
  show ?thesis
    unfolding closed_under_def
  proof (intro conjI allI impI ballI)
    show "\<exists>ob. get r = Inr (Some ob) \<and> parse_oid r = Inr Commit \<and> obj_kind ob = Commit" using ob kind by auto
    show "case x of (oid, n) \<Rightarrow> node_ok get cat r oid (node_state n)" if "x \<in> set (nodes (report w))" for x
      using that node by auto
  qed (use oids refs edges in auto)
qed

lemma closure_ok:
  assumes "max_edges lim \<le> usize_max"
  shows "case verify_closure_with_tombstones get r lim cat of
      Inl e \<Rightarrow> (\<exists>c. parse_oid r = Inl c \<and> e = Fail (Core c)) \<or> (\<exists>oid. get oid = Inl e)
    | Inr rp \<Rightarrow> report_bounded lim rp \<and> (is_complete rp \<longrightarrow> closed_under get cat r rp)"
proof (cases "parse_oid r")
  case (Inl e)
  then show ?thesis by (simp add: verify_closure_with_tombstones_def)
next
  case (Inr kind)
  show ?thesis
  proof (cases "kind = Commit")
    case False
    then show ?thesis using Inr
      by (simp add: verify_closure_with_tombstones_def report_bounded_def is_complete_def)
  next
    case True
    note start = start_walk_inv [OF Inr [unfolded True], of get lim cat]
    show ?thesis using walk_ok [OF start assms] walk_good_closed Inr True
      by (auto simp: verify_closure_with_tombstones_def walk_inv_def split: sum.splits)
  qed
qed

section \<open>Resolving Tombstones\<close>

definition lowest :: "str set \<Rightarrow> str option" where
  "lowest S = (if S = {} then None else Some (Min S))"

lemma lowest_insert:
  "finite S \<Longrightarrow> lowest (insert x S) = Some (case lowest S of None \<Rightarrow> x | Some y \<Rightarrow> if x < y then x else y)"
proof -
  have min: "(if x < y then x else y) = min x y" for y by (auto simp: min_def)
  assume "finite S"
  then show ?thesis unfolding min by (cases "S = {}") (simp_all add: lowest_def)
qed

lemma lowest_mem: "finite S \<Longrightarrow> lowest S = Some x \<Longrightarrow> x \<in> S"
  using Min_in by (auto simp: lowest_def simp del: Min_in split: if_splits)

definition tombstones_in :: "verified_object set \<Rightarrow> str \<Rightarrow> str set" where
  "tombstones_in obs target = obj_oid ` {ob\<in>obs. obj_kind ob = Record \<and> tombstone_target ob = Some target}"

lemma tombstones_in_insert:
  "tombstones_in (insert ob obs) target =
     (if obj_kind ob = Record \<and> tombstone_target ob = Some target
      then insert (obj_oid ob) (tombstones_in obs target) else tombstones_in obs target)"
  by (auto simp: tombstones_in_def)

definition catalog_of :: "verified_object set \<Rightarrow> tombstone_catalog \<Rightarrow> bool" where
  "catalog_of obs cat \<longleftrightarrow> (\<forall>target. tombstone_for cat target = lowest (tombstones_in obs target))"

lemma catalog_of_empty: "targets cat = [] \<Longrightarrow> catalog_of {} cat"
  by (simp add: catalog_of_def tombstones_in_def lowest_def tombstone_for_def)

lemma charge_record_targets: "charge_record cat ob = Inr cat' \<Longrightarrow> targets cat' = targets cat"
  by (auto simp: charge_record_def resource_limit_def Let_def split: option.splits if_splits)

lemma catalog_of_observe:
  assumes "observe cat ob = Inr cat'" "catalog_of obs cat" "finite obs"
  shows "catalog_of (insert ob obs) cat'"
proof -
  have fin: "finite (tombstones_in obs target)" for target using assms(3) by (simp add: tombstones_in_def)
  have old: "map_of (targets cat) = (\<lambda>target. lowest (tombstones_in obs target))"
    using assms(2) by (auto simp: catalog_of_def tombstone_for_def)
  show ?thesis
  proof (cases "obj_kind ob = Record")
    case False
    then show ?thesis using assms(1,2) by (simp add: observe_def catalog_of_def tombstones_in_insert)
  next
    case True
    then obtain c where c: "charge_record cat ob = Inr c"
      using assms(1) by (cases "charge_record cat ob") (simp_all add: observe_def)
    then have cat': "cat' = (case tombstone_target ob of None \<Rightarrow> c | Some target \<Rightarrow>
        c\<lparr> targets := AList.update target (case map_of (targets c) target of None \<Rightarrow> obj_oid ob
          | Some existing \<Rightarrow> if obj_oid ob < existing then obj_oid ob else existing) (targets c) \<rparr>)"
      using assms(1) True by (cases "tombstone_target ob") (simp_all add: observe_def)
    show ?thesis using True fin
      by (auto simp: cat' catalog_of_def tombstone_for_def tombstones_in_insert update_conv'
          charge_record_targets [OF c] old lowest_insert split: option.split)
  qed
qed

text \<open>
  What the graph relies on of an object store: it hands out an object under its own OID, and the
  family of the OID is the kind of the object.
\<close>

locale verified_source =
  fixes get :: source
  assumes get_oid: "get oid = Inr (Some ob) \<Longrightarrow> obj_oid ob = oid"
    and get_kind: "get oid = Inr (Some ob) \<Longrightarrow> parse_oid oid = Inr (obj_kind ob)"
begin

definition tombstones_for :: "str set \<Rightarrow> str \<Rightarrow> str set" where
  "tombstones_for names target =
     {oid\<in>names. \<exists>ob. get oid = Inr (Some ob) \<and> obj_kind ob = Record \<and> tombstone_target ob = Some target}"

lemma tombstones_in_read:
  "tombstones_in {ob. \<exists>oid\<in>names. parse_oid oid = Inr Record \<and> get oid = Inr (Some ob)} target = tombstones_for names target"
  using get_oid get_kind by (force simp: tombstones_in_def tombstones_for_def)

lemma collect_fold:
  assumes "foldE (\<lambda>cat oid.
       if parse_oid oid = Inr Record then
         bindE (get oid) (\<lambda>ob. case ob of None \<Rightarrow> Inr cat | Some ob \<Rightarrow> observe cat ob)
       else Inr cat) cat names = Inr cat'"
    and "catalog_of obs cat" "finite obs"
  shows "catalog_of (obs \<union> {ob. \<exists>oid\<in>set names. parse_oid oid = Inr Record \<and> get oid = Inr (Some ob)}) cat'"
  using assms
proof (induction names arbitrary: cat obs)
  case (Cons oid names)
  let ?rest = "{ob. \<exists>oid\<in>set names. parse_oid oid = Inr Record \<and> get oid = Inr (Some ob)}"
  let ?all = "{ob. \<exists>oid\<in>set (oid # names). parse_oid oid = Inr Record \<and> get oid = Inr (Some ob)}"
  show ?case
  proof (cases "parse_oid oid = Inr Record \<and> (\<exists>ob. get oid = Inr (Some ob))")
    case True
    then obtain ob where ob: "parse_oid oid = Inr Record" "get oid = Inr (Some ob)" by blast
    with Cons.prems(1) obtain c where c: "observe cat ob = Inr c" and rest: "foldE (\<lambda>cat oid.
       if parse_oid oid = Inr Record then
         bindE (get oid) (\<lambda>ob. case ob of None \<Rightarrow> Inr cat | Some ob \<Rightarrow> observe cat ob)
       else Inr cat) c names = Inr cat'" by (auto simp: result_simps)
    have "catalog_of (insert ob obs \<union> ?rest) cat'"
      using Cons.IH [OF rest catalog_of_observe [OF c Cons.prems(2,3)]] Cons.prems(3) by simp
    moreover have "insert ob obs \<union> ?rest = obs \<union> ?all" using ob by auto
    ultimately show ?thesis by simp
  next
    case False
    then have "?all = ?rest" by auto
    moreover have "catalog_of (obs \<union> ?rest) cat'"
      using Cons.prems False by (intro Cons.IH) (auto simp: result_simps split: if_splits option.splits)
    ultimately show ?thesis by simp
  qed
qed simp

lemma collect_tombstones_lowest:
  assumes "collect_tombstones_from_oids get names cat = Inr cat'" "targets cat = []"
  shows "tombstone_for cat' target = lowest (tombstones_for (set names) target)"
  using collect_fold [OF assms(1) [unfolded collect_tombstones_from_oids_def] catalog_of_empty [OF assms(2)]]
  by (simp add: catalog_of_def tombstones_in_read)

lemma tombstone_resolves:
  assumes "collect_tombstones_from_oids get names cat = Inr cat'" "targets cat = []" "tombstone_for cat' target = Some t"
  shows "\<exists>ob. get t = Inr (Some ob) \<and> tombstone_target ob = Some target"
proof -
  have "finite (tombstones_for (set names) target)" by (simp add: tombstones_for_def)
  then have "t \<in> tombstones_for (set names) target"
    using assms(3) collect_tombstones_lowest [OF assms(1,2)] lowest_mem by metis
  then show ?thesis by (auto simp: tombstones_for_def)
qed

end

lemma verified_kind:
  assumes "get_verified sha256 nfc st oid = Inr (Some ob)"
  shows "parse_oid oid = Inr (obj_kind ob)"
proof -
  from assms obtain kind bs where k: "parse_oid oid = Inr kind" "stored_bytes st oid kind bs"
    by (rule get_verified_cases)
  then show ?thesis using assms by (auto simp: get_verified_present [OF k] result_simps)
qed

interpretation file_source: verified_source "get_verified sha256 nfc st" for sha256 nfc st
  by standard (auto dest: verified_oid verified_kind)

text \<open>The same promise without the catalogue: what is absent is named by a Tombstone that can be read.\<close>

definition closure_intact :: "source \<Rightarrow> str \<Rightarrow> bool" where
  "closure_intact get r \<longleftrightarrow>
     (\<exists>ob. get r = Inr (Some ob) \<and> obj_kind ob = Commit)
     \<and> (\<forall>oid. reaches get r oid \<longrightarrow> (\<exists>ob. get oid = Inr (Some ob)) \<or>
          (oid \<noteq> r \<and> get oid = Inr None \<and> (\<exists>t ob. get t = Inr (Some ob) \<and> tombstone_target ob = Some oid)))
     \<and> (\<forall>oid ob rf. reaches get r oid \<longrightarrow> get oid = Inr (Some ob) \<longrightarrow> rf \<in> set (references_of ob) \<longrightarrow>
          parse_oid (ref_target rf) = Inr (ref_expected_kind rf) \<and> semantics_ok get (ref_target rf) (ref_constraint rf))"

lemma closed_intact:
  assumes "closed_under get cat r rp"
    and tomb: "\<And>target t. tombstone_for cat target = Some t \<Longrightarrow> \<exists>ob. get t = Inr (Some ob) \<and> tombstone_target ob = Some target"
  shows "closure_intact get r"
proof -
  have "(\<exists>ob. get oid = Inr (Some ob)) \<or>
      (oid \<noteq> r \<and> get oid = Inr None \<and> (\<exists>t ob. get t = Inr (Some ob) \<and> tombstone_target ob = Some oid))"
    if "reaches get r oid" for oid
  proof -
    have "oid \<in> node_oids rp" using that assms(1) by (simp add: closed_under_def)
    then obtain n where "(oid, n) \<in> set (nodes rp)" by (auto simp: node_oids_def)
    then have "node_ok get cat r oid (node_state n)" using assms(1) by (auto simp: closed_under_def)
    then show ?thesis using tomb unfolding node_ok_def by blast
  qed
  then show ?thesis using assms(1) by (auto simp: closed_under_def closure_intact_def)
qed

section \<open>The report cache\<close>

definition cache_ok :: "source \<Rightarrow> prepared_verifier \<Rightarrow> bool" where
  "cache_ok get pv \<longleftrightarrow> (\<forall>r rp. map_of (report_cache pv) r = Some rp \<longrightarrow> verify_uncached get pv r = Inr rp)"

definition same_settings :: "prepared_verifier \<Rightarrow> prepared_verifier \<Rightarrow> bool" where
  "same_settings a b \<longleftrightarrow> pv_limits a = pv_limits b \<and> pv_tombstones a = pv_tombstones b"

lemma verify_transparent:
  assumes "cache_ok get pv" "verify get r pv = (res, pv')"
  shows "res = verify_uncached get pv r \<and> cache_ok get pv' \<and> same_settings pv' pv"
  using assms
  by (auto simp: verify_def cache_ok_def same_settings_def verify_uncached_def update_conv' split: option.splits sum.splits if_splits)

lemma verify_roots_uncached:
  "cache_ok get pv \<Longrightarrow> fst (verify_roots get rs pv) = mapE (verify_uncached get pv) rs"
proof (induction rs arbitrary: pv)
  case (Cons r rs)
  obtain res pv' where v: "verify get r pv = (res, pv')" by fastforce
  note t = verify_transparent [OF Cons.prems v]
  then have "verify_uncached get pv' = verify_uncached get pv"
    by (simp add: same_settings_def verify_uncached_def fun_eq_iff)
  then show ?case using t v Cons.IH [of pv']
    by (cases "mapE (verify_uncached get pv) rs") (auto split: sum.split prod.split)
qed simp

section \<open>fsck\<close>

lemma scan_stored_fold:
  assumes "foldE (scan_stored get) sc names = Inr sc'"
  shows "stored_commits sc' = stored_commits sc @ filter (\<lambda>oid. parse_oid oid = Inr Commit) names
    \<and> (\<exists>found. scan_issues sc' = scan_issues sc @ found
        \<and> (found = [] \<longrightarrow> (\<forall>oid\<in>set names. \<exists>ob. get oid = Inr (Some ob)) \<and> scan_verified sc' = scan_verified sc + length names))"
  using assms
proof (induction names arbitrary: sc)
  case (Cons oid names)
  from Cons.prems obtain sc1 where s: "scan_stored get sc oid = Inr sc1" and rest: "foldE (scan_stored get) sc1 names = Inr sc'"
    by (auto simp: result_simps)
  have c: "stored_commits sc1 = stored_commits sc @ filter (\<lambda>oid. parse_oid oid = Inr Commit) [oid]"
    and f: "\<exists>found. scan_issues sc1 = scan_issues sc @ found
      \<and> (found = [] \<longrightarrow> (\<exists>ob. get oid = Inr (Some ob)) \<and> scan_verified sc1 = scan_verified sc + 1)"
    using s by (auto simp: scan_stored_def Let_def result_simps split: sum.splits option.splits fault.splits store_error.splits if_splits)
  show ?case using Cons.IH [OF rest] c f by auto
qed simp

lemma scan_stored_catalog:
  assumes "foldE (scan_stored get) sc names = Inr sc'" "catalog_of obs (scan_tombstones sc)" "finite obs"
    and "\<And>ob. ob \<in> obs \<Longrightarrow> \<exists>oid. get oid = Inr (Some ob)"
  shows "\<exists>obs'. catalog_of obs' (scan_tombstones sc') \<and> finite obs' \<and> (\<forall>ob\<in>obs'. \<exists>oid. get oid = Inr (Some ob))"
  using assms
proof (induction names arbitrary: sc obs)
  case (Cons oid names)
  from Cons.prems obtain sc1 where s: "scan_stored get sc oid = Inr sc1" and rest: "foldE (scan_stored get) sc1 names = Inr sc'"
    by (auto simp: result_simps)
  from s consider (read) ob where "get oid = Inr (Some ob)" "observe (scan_tombstones sc) ob = Inr (scan_tombstones sc1)"
    | (same) "scan_tombstones sc1 = scan_tombstones sc"
    by (auto simp: scan_stored_def Let_def result_simps split: sum.splits option.splits fault.splits store_error.splits if_splits)
  then show ?case
  proof cases
    case read
    show ?thesis
      by (rule Cons.IH [OF rest, of "insert ob obs"])
        (use catalog_of_observe [OF read(2)] Cons.prems read(1) in auto)
  next
    case same
    then show ?thesis using Cons.IH [OF rest, of obs] Cons.prems by simp
  qed
qed auto

context verified_source
begin

lemma catalog_resolves:
  assumes "catalog_of obs cat" "finite obs" "\<forall>ob\<in>obs. \<exists>oid. get oid = Inr (Some ob)" "tombstone_for cat target = Some t"
  shows "\<exists>ob. get t = Inr (Some ob) \<and> tombstone_target ob = Some target"
proof -
  have "finite (tombstones_in obs target)" using assms(2) by (simp add: tombstones_in_def)
  then have "t \<in> tombstones_in obs target" using assms(1,4) lowest_mem by (metis catalog_of_def)
  then obtain ob where "ob \<in> obs" "tombstone_target ob = Some target" "obj_oid ob = t" by (auto simp: tombstones_in_def)
  then show ?thesis using assms(3) get_oid by metis
qed

lemma verify_closure_intact:
  assumes "verify_closure get listed r lim = Inr rp" "is_complete rp" "max_edges lim \<le> usize_max"
  shows "closure_intact get r"
proof -
  from assms(1) obtain cat where v: "verify_closure_with_tombstones get r lim cat = Inr rp"
    and cat: "cat = empty_catalog \<or> collect_tombstones get listed = Inr cat"
    by (auto simp: verify_closure_def result_simps split: if_splits)
  have closed: "closed_under get cat r rp" using closure_ok [OF assms(3), where get = get and r = r and cat = cat] v assms(2) by simp
  have "\<exists>ob. get t = Inr (Some ob) \<and> tombstone_target ob = Some target" if "tombstone_for cat target = Some t" for target t
  proof (cases "cat = empty_catalog")
    case True
    then show ?thesis using that by (simp add: empty_catalog_def tombstone_for_def)
  next
    case False
    with cat obtain names where "collect_tombstones_from_oids get names empty_catalog = Inr cat"
      by (auto simp: collect_tombstones_def result_simps)
    then show ?thesis using tombstone_resolves that by (simp add: empty_catalog_def)
  qed
  then show ?thesis by (rule closed_intact [OF closed])
qed

lemma fsck_clean_source:
  assumes run: "fsck_with_tombstones get inventory roots lim = Inr (fr, cat)" and clean: "is_clean fr"
    and wide: "max_edges lim \<le> usize_max"
  shows "\<exists>inv. inventory = Inr inv \<and> invalid_paths inv = [] \<and> objects_seen fr = length (oids inv)
    \<and> objects_verified fr = length (oids inv) \<and> (\<forall>oid\<in>set (oids inv). \<exists>ob. get oid = Inr (Some ob))
    \<and> (\<forall>r\<in>set (if roots = [] then filter (\<lambda>oid. parse_oid oid = Inr Commit) (oids inv) else roots). closure_intact get r)"
proof -
  define sc0 where "sc0 inv = \<lparr> scan_verified = 0, stored_commits = [], scan_tombstones = empty_catalog,
       scan_issues = map InvalidStorePath (invalid_paths inv) \<rparr>" for inv :: store_inventory
  from run obtain inv sc rps where inv: "inventory = Inr inv"
    and scan: "foldE (scan_stored get) (sc0 inv) (oids inv) = Inr sc"
    and rps: "fst (verify_roots get (if roots = [] then stored_commits sc else roots) (from_catalog lim (scan_tombstones sc))) = Inr rps"
    and fr: "fr = \<lparr> objects_seen = length (oids inv), objects_verified = scan_verified sc, closures = rps,
            fsck_issues = scan_issues sc @ map ClosureFinding (concat (map issues rps)) \<rparr>"
    by (auto simp: fsck_with_tombstones_def result_simps simp flip: sc0_def)
  have nil: "scan_issues sc = []" "list_all is_complete rps" using clean by (auto simp: is_clean_def fr)
  from scan_stored_fold [OF scan] nil(1)
  have found: "invalid_paths inv = []" "\<forall>oid\<in>set (oids inv). \<exists>ob. get oid = Inr (Some ob)" "scan_verified sc = length (oids inv)"
      "stored_commits sc = filter (\<lambda>oid. parse_oid oid = Inr Commit) (oids inv)"
    by (auto simp: sc0_def)
  have "catalog_of {} (scan_tombstones (sc0 inv))" by (rule catalog_of_empty) (simp add: sc0_def empty_catalog_def)
  from scan_stored_catalog [OF scan this] obtain obs where obs: "catalog_of obs (scan_tombstones sc)" "finite obs"
    "\<forall>ob\<in>obs. \<exists>oid. get oid = Inr (Some ob)" by auto
  have "list_all2 (\<lambda>r rp. verify_uncached get (from_catalog lim (scan_tombstones sc)) r = Inr rp)
      (if roots = [] then stored_commits sc else roots) rps"
    using rps verify_roots_uncached [of get "from_catalog lim (scan_tombstones sc)"]
    by (simp add: cache_ok_def from_catalog_def mapE_eq_Inr)
  then have "\<exists>rp. verify_closure_with_tombstones get r lim (scan_tombstones sc) = Inr rp \<and> is_complete rp"
    if "r \<in> set (if roots = [] then stored_commits sc else roots)" for r
    using that nil(2) by (fastforce simp: list_all2_conv_all_nth in_set_conv_nth list_all_length verify_uncached_def from_catalog_def)
  then have "closure_intact get r" if "r \<in> set (if roots = [] then stored_commits sc else roots)" for r
    using that closure_ok [OF wide, where get = get and r = r and cat = "scan_tombstones sc"] closed_intact [OF _ catalog_resolves [OF obs]] by fastforce
  then show ?thesis using inv found fr by simp
qed

end

end
