(* ===== verification/Closure_Properties.thy ===== *)
theory Closure_Properties
  imports Closure_Laws
begin

text \<open>
  The properties of closure verification and fsck over a sample archive: a Commit, its Tree, a
  removed Record and the Tombstone that names it, stored in the file store's layout.
\<close>

section \<open>A sample archive\<close>

text \<open>
  A Commit, its snapshot Tree with one Record that was removed, and the Tombstone of that Record. The
  literals are what the store computes under the sample hash; \<open>sample_reads\<close> checks it.
\<close>

definition sample_root :: str where
  "sample_root = ''commit:sg-oid-v1:sha256:73796e617073656769742f636f72652f76302e3100636f6d6d69740031383600''"

definition sample_tree :: str where
  "sample_tree = ''tree:sg-oid-v1:sha256:73796e617073656769742f636f72652f76302e31007472656500313539007b22''"

definition sample_tombstone :: str where
  "sample_tombstone = ''record:sg-oid-v1:sha256:73796e617073656769742f636f72652f76302e31007265636f72640031363600''"

definition sample_removed :: str where
  "sample_removed = ''record:sg-oid-v1:sha256:aaaaaaaaaaaaaaaaaaaaaaaaaaaaaaaaaaaaaaaaaaaaaaaaaaaaaaaaaaaaaaaa''"

definition sample_archive :: file_store where
  "sample_archive = sample_files\<lparr> files := map (\<lambda>(oid, kind, bs). (object_path_for_valid_oid oid kind, File bs))
     [(sample_root, Commit, ''{\"bound_declaration_refs\":[],\"object_type\":\"commit\",\"parents\":[],\"snapshot\":\"''
         @ sample_tree @ ''\",\"transition_refs\":[]}''),
      (sample_tree, Tree, ''{\"entries\":{\"a\":{\"entry_kind\":\"record\",\"oid\":\"'' @ sample_removed
         @ ''\"}},\"object_type\":\"tree\"}''),
      (sample_tombstone, Record, ''{\"object_type\":\"record\",\"payload\":{\"target_ref\":\"'' @ sample_removed
         @ ''\"},\"record_type\":\"tombstone\"}'')] @
     map (\<lambda>kind. ([OBJECTS_DIRECTORY, kind_prefix kind, ''73''], Dir)) [Commit, Tree, Record] @ files sample_files \<rparr>"

definition sample_object :: "str \<Rightarrow> object_kind \<Rightarrow> nat \<Rightarrow> (str \<times> json) list \<Rightarrow> verified_object option store_result" where
  "sample_object oid kind n body =
     Inr (Some \<lparr> info = \<lparr> info_oid = oid, info_kind = kind, info_byte_len = n \<rparr>, structured = Some (Object body) \<rparr>)"

definition sample_source :: source where
  "sample_source oid =
     (if oid = sample_root then sample_object sample_root Commit 186
        [(''bound_declaration_refs'', Array []), (''object_type'', String ''commit''), (''parents'', Array []),
         (''snapshot'', String sample_tree), (''transition_refs'', Array [])]
      else if oid = sample_tree then sample_object sample_tree Tree 159
        [(''entries'', Object [(''a'', Object [(''entry_kind'', String ''record''), (''oid'', String sample_removed)])]),
         (''object_type'', String ''tree'')]
      else if oid = sample_tombstone then sample_object sample_tombstone Record 166
        [(''object_type'', String ''record''), (''payload'', Object [(''target_ref'', String sample_removed)]),
         (''record_type'', String ''tombstone'')]
      else case parse_oid oid of Inl e \<Rightarrow> fails (Core e) | Inr k \<Rightarrow> Inr None)"

lemma sample_read_root: "get_verified sample_hash (\<lambda>s. s) sample_archive sample_root = sample_source sample_root"
  by code_simp

lemma sample_read_tree: "get_verified sample_hash (\<lambda>s. s) sample_archive sample_tree = sample_source sample_tree"
  by code_simp

lemma sample_read_tombstone:
  "get_verified sample_hash (\<lambda>s. s) sample_archive sample_tombstone = sample_source sample_tombstone"
  by code_simp

lemmas sample_reads = sample_read_root sample_read_tree sample_read_tombstone

lemma sample_inventory:
  "scan_inventory (files sample_archive) =
     Inr \<lparr> oids = [sample_root, sample_tombstone, sample_tree], invalid_paths = [] \<rparr>"
  by code_simp

lemma sample_tree_ok: "tree_ok (files sample_archive)" "map_of (files sample_archive) [OBJECTS_DIRECTORY] = Some Dir"
  by code_simp+

lemma sample_layout:
  "list_all (\<lambda>(p, n). n = Dir \<or> length p = 4) (files sample_archive)"
  "filter (\<lambda>p. length p = 4) (map fst (files sample_archive)) =
     [object_path_for_valid_oid sample_root Commit, object_path_for_valid_oid sample_tree Tree,
      object_path_for_valid_oid sample_tombstone Record]"
  by code_simp+

lemma absent_metadata:
  assumes "list_all (\<lambda>(p, n). n = Dir \<or> length p = 4) t" "length p = 4" "map_of t p = None"
  shows "symlink_metadata t p = Inl NotFound"
proof -
  have dirs: "map_of t q = None \<or> map_of t q = Some Dir" if "q \<in> set (fs_ancestors p)" for q
    using that assms(1,2) by (cases "map_of t q") (auto simp: fs_ancestors_def list_all_iff dest!: map_of_SomeD)
  have "fs_parents t p = Inr () \<or> fs_parents t p = Inl NotFound"
  proof (cases "find (\<lambda>q. map_of t q \<noteq> Some Dir) (fs_ancestors p)")
    case (Some q)
    then have "q \<in> set (fs_ancestors p)" "map_of t q \<noteq> Some Dir" by (auto simp: find_Some_iff)
    then show ?thesis using dirs [of q] Some by (simp add: fs_parents_def)
  qed (simp add: fs_parents_def)
  then show ?thesis using assms(3) by (auto simp: symlink_metadata_def)
qed

lemma sample_kinds:
  "parse_oid sample_root = Inr Commit" "parse_oid sample_tree = Inr Tree" "parse_oid sample_tombstone = Inr Record"
  by code_simp+

lemma sample_source_eq: "get_verified sample_hash (\<lambda>s. s) sample_archive = sample_source"
proof
  fix oid
  consider (stored) "oid \<in> {sample_root, sample_tree, sample_tombstone}" | (bad) e where "parse_oid oid = Inl e"
    | (absent) kind where "oid \<notin> {sample_root, sample_tree, sample_tombstone}" "parse_oid oid = Inr kind"
    by (cases "parse_oid oid") auto
  then show "get_verified sample_hash (\<lambda>s. s) sample_archive oid = sample_source oid"
  proof cases
    case stored
    then show ?thesis using sample_reads by auto
  next
    case bad
    then show ?thesis using sample_kinds by (auto simp: get_verified_def validated_object_path_def sample_source_def)
  next
    case absent
    let ?p = "object_path_for_valid_oid oid kind"
    have len: "length ?p = 4" by (simp add: object_path_for_valid_oid_def)
    have "?p \<notin> set (filter (\<lambda>p. length p = 4) (map fst (files sample_archive)))"
      unfolding sample_layout(2) using absent sample_kinds object_path_inject [OF absent(2)] by auto
    then have "map_of (files sample_archive) ?p = None" using len by (auto simp: map_of_eq_None_iff image_iff)
    then have "symlink_metadata (files sample_archive) ?p = Inl NotFound"
      using sample_layout(1) absent_metadata len by blast
    then have "get_verified sample_hash (\<lambda>s. s) sample_archive oid = Inr None"
      using absent(2) by (auto simp: get_verified_missing)
    then show ?thesis using absent by (simp add: sample_source_def)
  qed
qed


definition sample_catalog :: tombstone_catalog where
  "sample_catalog = empty_catalog\<lparr> targets := [(sample_removed, sample_tombstone)] \<rparr>"

lemma sample_collect:
  "collect_tombstones_from_oids sample_source [sample_root, sample_tombstone, sample_tree] empty_catalog = Inr sample_catalog"
  by code_simp

lemma sample_listed: "list_oids sample_archive = Inr [sample_root, sample_tombstone, sample_tree]"
  by (simp add: list_oids_def sample_inventory)

lemma sample_report:
  "\<exists>rp. verify_closure_with_tombstones sample_source sample_root default_graph_limits sample_catalog = Inr rp \<and> is_complete rp"
proof -
  have "case verify_closure_with_tombstones sample_source sample_root default_graph_limits sample_catalog of
      Inl e \<Rightarrow> False | Inr rp \<Rightarrow> is_complete rp" by code_simp
  then show ?thesis by (auto split: sum.splits)
qed

lemma default_graph_wide: "max_edges default_graph_limits \<le> usize_max"
  by (simp add: default_graph_limits_def usize_max_def)

section \<open>Properties\<close>

text \<open>
  C8: a complete closure report accounts for everything below its root: the root is a readable
  Commit, the nodes are exactly the reachable objects, each one intact or (below the root) absent
  and named by a Tombstone, every reference is well-typed and meets its record constraint, and the
  edges are exactly the references.
\<close>

theorem complete_closure:
  assumes "verify_closure_with_tombstones get r lim cat = Inr rp" "is_complete rp" "max_edges lim \<le> usize_max"
  shows "closed_under get cat r rp"
  using closure_ok [OF assms(3), where get = get and r = r and cat = cat] assms(1,2) by simp

theorem complete_closure_witness:
  "\<exists>rp. is_complete rp \<and> closed_under sample_source sample_catalog sample_root rp"
  using sample_report complete_closure [OF _ _ default_graph_wide] by blast

text \<open>
  C32: the walk ends on every object graph, cyclic or not, within its limits: it returns a report of
  at most \<open>max_objects\<close> nodes and \<open>max_edges\<close> edges, and fails only with the error of the root OID or
  with an error of the store; its internal checks never panic.
\<close>

theorem closure_within_limits:
  assumes "max_edges lim \<le> usize_max"
  shows "case verify_closure_with_tombstones get r lim cat of
      Inl e \<Rightarrow> (\<exists>c. parse_oid r = Inl c \<and> e = Fail (Core c)) \<or> (\<exists>oid. get oid = Inl e)
    | Inr rp \<Rightarrow> length (nodes rp) \<le> max_objects lim \<and> length (edges rp) \<le> max_edges lim"
  using closure_ok [OF assms, where get = get and r = r and cat = cat]
  by (auto simp: report_bounded_def split: sum.splits)

theorem closure_within_limits_witness:
  "\<exists>rp. verify_closure_with_tombstones sample_source sample_root (default_graph_limits\<lparr> max_objects := 2 \<rparr>) sample_catalog = Inr rp
     \<and> length (nodes rp) \<le> 2 \<and> truncated rp"
proof -
  let ?lim = "default_graph_limits\<lparr> max_objects := 2 \<rparr>"
  have "case verify_closure_with_tombstones sample_source sample_root ?lim sample_catalog of
      Inl e \<Rightarrow> False | Inr rp \<Rightarrow> truncated rp" by code_simp
  moreover have "max_edges ?lim \<le> usize_max" using default_graph_wide by simp
  ultimately show ?thesis
    using closure_within_limits [of ?lim, where get = sample_source and r = sample_root and cat = sample_catalog] by (auto split: sum.splits)
qed

text \<open>
  C34: when several Tombstone Records name the same object, the catalogue collected from the store
  resolves it to the one with the lowest OID, and it resolves an object only if one exists.
\<close>

theorem tombstone_lowest:
  assumes "collect_tombstones_from_oids (get_verified sha256 nfc st) names empty_catalog = Inr cat"
  shows "tombstone_for cat target = lowest {oid\<in>set names. \<exists>ob. get_verified sha256 nfc st oid = Inr (Some ob)
      \<and> obj_kind ob = Record \<and> tombstone_target ob = Some target}"
  using file_source.collect_tombstones_lowest [OF assms]
  by (simp add: file_source.tombstones_for_def empty_catalog_def)

theorem tombstone_lowest_witness:
  "lowest {oid\<in>set [sample_root, sample_tombstone, sample_tree].
      \<exists>ob. get_verified sample_hash (\<lambda>s. s) sample_archive oid = Inr (Some ob)
        \<and> obj_kind ob = Record \<and> tombstone_target ob = Some sample_removed} = Some sample_tombstone"
proof -
  have "tombstone_for sample_catalog sample_removed = Some sample_tombstone" by code_simp
  moreover note tombstone_lowest [OF sample_collect [folded sample_source_eq], of sample_removed]
  ultimately show ?thesis by simp
qed

text \<open>
  The report cache of a prepared verifier is transparent: verifying any sequence of roots, with
  repetitions, answers each one as an uncached verification would, up to the first failure.
\<close>

theorem cached_reports_agree:
  "fst (verify_roots get rs (from_catalog lim cat)) = mapE (\<lambda>r. verify_closure_with_tombstones get r lim cat) rs"
proof -
  have "cache_ok get (from_catalog lim cat)" by (simp add: cache_ok_def from_catalog_def)
  moreover have "verify_uncached get (from_catalog lim cat) = (\<lambda>r. verify_closure_with_tombstones get r lim cat)"
    by (simp add: verify_uncached_def from_catalog_def fun_eq_iff)
  ultimately show ?thesis using verify_roots_uncached by metis
qed

text \<open>
  A complete \<open>verify_closure\<close> of a file store means that the closure is really there: everything
  reachable from the Commit can be read back verified, or is absent and named by a Tombstone Record
  that can itself be read back.
\<close>

theorem verify_closure_sound:
  assumes "verify_closure (get_verified sha256 nfc st) (list_oids st) r lim = Inr rp" "is_complete rp"
    and "max_edges lim \<le> usize_max"
  shows "closure_intact (get_verified sha256 nfc st) r"
  using assms by (rule file_source.verify_closure_intact)

theorem verify_closure_sound_witness:
  "closure_intact (get_verified sample_hash (\<lambda>s. s) sample_archive) sample_root"
proof -
  let ?get = "get_verified sample_hash (\<lambda>s. s) sample_archive"
  have "verify_closure ?get (list_oids sample_archive) sample_root default_graph_limits
      = verify_closure_with_tombstones ?get sample_root default_graph_limits sample_catalog"
    using sample_collect
    by (simp add: verify_closure_def collect_tombstones_def sample_listed sample_kinds sample_source_eq)
  then show ?thesis
    using sample_report verify_closure_sound [OF _ _ default_graph_wide, of sample_hash "\<lambda>s. s" sample_archive sample_root]
    by (auto simp: sample_source_eq)
qed

text \<open>
  C33: a clean fsck of a file store means that every stored object verifies (none is left out, and
  the counters say so) and that the closure of every requested root, or of every stored Commit when
  none is named, is intact.
\<close>

theorem fsck_clean:
  assumes "fsck sha256 nfc st roots lim = Inr fr" "is_clean fr" "max_edges lim \<le> usize_max"
    and "tree_ok (files st)" "map_of (files st) [OBJECTS_DIRECTORY] = Some Dir"
  shows "(\<forall>oid\<in>stored_oids (files st). \<exists>ob. get_verified sha256 nfc st oid = Inr (Some ob))
    \<and> objects_verified fr = card (stored_oids (files st)) \<and> objects_seen fr = objects_verified fr
    \<and> (\<forall>r. (if roots = [] then r \<in> stored_oids (files st) \<and> parse_oid r = Inr Commit else r \<in> set roots)
         \<longrightarrow> closure_intact (get_verified sha256 nfc st) r)"
proof -
  from assms(1) obtain cat where run:
      "fsck_with_tombstones (get_verified sha256 nfc st) (scan_inventory (files st)) roots lim = Inr (fr, cat)"
    by (auto simp: fsck_def result_simps)
  from scan_inventory_ok [OF assms(4,5)] obtain inv where inv: "scan_inventory (files st) = Inr inv"
      "set (oids inv) = stored_oids (files st)" "sorted_wrt (<) (oids inv)" by blast
  then have "length (oids inv) = card (stored_oids (files st))"
    by (metis distinct_card strict_sorted_iff)
  then show ?thesis using file_source.fsck_clean_source [OF run assms(2,3)] inv by (auto split: if_splits)
qed

theorem fsck_clean_witness:
  "closure_intact (get_verified sample_hash (\<lambda>s. s) sample_archive) sample_root \<and> card (stored_oids (files sample_archive)) = 3"
proof -
  have "case fsck_with_tombstones sample_source
      (Inr \<lparr> oids = [sample_root, sample_tombstone, sample_tree], invalid_paths = [] \<rparr>) [] default_graph_limits of
      Inl e \<Rightarrow> False | Inr r \<Rightarrow> is_clean (fst r) \<and> objects_verified (fst r) = 3" by code_simp
  then obtain fr where "fsck sample_hash (\<lambda>s. s) sample_archive [] default_graph_limits = Inr fr"
      "is_clean fr" "objects_verified fr = 3"
    by (auto simp: fsck_def sample_source_eq sample_inventory split: sum.splits)
  moreover from scan_inventory_ok [OF sample_tree_ok] have "sample_root \<in> stored_oids (files sample_archive)"
    by (auto simp: sample_inventory)
  ultimately show ?thesis
    using fsck_clean [OF _ _ default_graph_wide sample_tree_ok, of sample_hash "\<lambda>s. s" "[]" fr] sample_kinds by auto
qed

end
