(* ===== verification/Scaled_Integer.thy ===== *)
theory Scaled_Integer
  imports Decimal_Text Complex_Main
begin

text \<open>
  Exact decimal numbers, \<^verbatim>\<open>src/crates/synapse-schema/src/scaled_integer.rs\<close> and the comparison
  \<open>compare_scaled\<close> of \<^verbatim>\<open>src/crates/synapse-schema/src/lib.rs\<close>. A number is a decimal mantissa and a
  power of ten; the meaning used in the laws is the rational \<open>scaled_value\<close>.
\<close>

section \<open>Units\<close>

datatype measure_unit =
    Unitless | Ratio | Percent | Count | Byte | Px | Mm | Metre | Ms | Second | Deg | Rad | Kelvin | Celsius | DeltaE

fun unit_as_str :: "measure_unit \<Rightarrow> str" where
  "unit_as_str Unitless = ''unitless''"
| "unit_as_str Ratio = ''ratio''"
| "unit_as_str Percent = ''percent''"
| "unit_as_str Count = ''count''"
| "unit_as_str Byte = ''byte''"
| "unit_as_str Px = ''px''"
| "unit_as_str Mm = ''mm''"
| "unit_as_str Metre = ''m''"
| "unit_as_str Ms = ''ms''"
| "unit_as_str Second = ''s''"
| "unit_as_str Deg = ''deg''"
| "unit_as_str Rad = ''rad''"
| "unit_as_str Kelvin = ''kelvin''"
| "unit_as_str Celsius = ''celsius''"
| "unit_as_str DeltaE = ''delta_e''"

datatype scaled_integer_error_kind =
    InvalidDecimal | NegativeZero | NotNormalized | MantissaTooLong | ScaleOutOfRange | InvalidUnit

definition unit_from_str :: "str \<Rightarrow> scaled_integer_error_kind + measure_unit" where
  "unit_from_str s =
     (if s = ''unitless'' then Inr Unitless
      else if s = ''ratio'' then Inr Ratio
      else if s = ''percent'' then Inr Percent
      else if s = ''count'' then Inr Count
      else if s = ''byte'' then Inr Byte
      else if s = ''px'' then Inr Px
      else if s = ''mm'' then Inr Mm
      else if s = ''m'' then Inr Metre
      else if s = ''ms'' then Inr Ms
      else if s = ''s'' then Inr Second
      else if s = ''deg'' then Inr Deg
      else if s = ''rad'' then Inr Rad
      else if s = ''kelvin'' then Inr Kelvin
      else if s = ''celsius'' then Inr Celsius
      else if s = ''delta_e'' then Inr DeltaE
      else Inl InvalidUnit)"

fun scaled_error_as_str :: "scaled_integer_error_kind \<Rightarrow> str" where
  "scaled_error_as_str InvalidDecimal = ''invalid_decimal''"
| "scaled_error_as_str NegativeZero = ''negative_zero''"
| "scaled_error_as_str NotNormalized = ''not_normalized''"
| "scaled_error_as_str MantissaTooLong = ''mantissa_too_long''"
| "scaled_error_as_str ScaleOutOfRange = ''scale_out_of_range''"
| "scaled_error_as_str InvalidUnit = ''invalid_unit''"

section \<open>Numbers\<close>

record scaled_integer =
  mantissa :: str
  scale :: int
  unit_of :: measure_unit

definition MAX_MANTISSA_BYTES :: nat where "MAX_MANTISSA_BYTES = 257"
definition MAX_DECIMAL_INPUT_BYTES :: nat where "MAX_DECIMAL_INPUT_BYTES = 1024"
definition MIN_SCALE :: int where "MIN_SCALE = -24"
definition MAX_SCALE :: int where "MAX_SCALE = 24"

text \<open>\<open>strip_prefix('-').unwrap_or(..)\<close>.\<close>

definition unsigned_digits :: "str \<Rightarrow> str" where
  "unsigned_digits m = (case strip_prefix m ''-'' of None \<Rightarrow> m | Some d \<Rightarrow> d)"

definition validate_parts :: "str \<Rightarrow> int \<Rightarrow> scaled_integer_error_kind + unit" where
  "validate_parts m s =
     (if length m > MAX_MANTISSA_BYTES then Inl MantissaTooLong
      else if \<not> (MIN_SCALE \<le> s \<and> s \<le> MAX_SCALE) then Inl ScaleOutOfRange
      else if m = ''-0'' then Inl NegativeZero
      else if m = ''0'' then (if s = 0 then Inr () else Inl NotNormalized)
      else
        let digits = unsigned_digits m in
        if digits = [] \<or> starts_with digits ''0'' \<or> ends_with digits ''0'' \<or> \<not> list_all is_ascii_digit digits
        then Inl NotNormalized else Inr ())"

definition try_from_parts :: "str \<Rightarrow> int \<Rightarrow> measure_unit \<Rightarrow> scaled_integer_error_kind + scaled_integer" where
  "try_from_parts m s u = bindE (validate_parts m s) (\<lambda>_. Inr \<lparr> mantissa = m, scale = s, unit_of = u \<rparr>)"

lemma ends_with_zero: "ends_with s ''0'' \<longleftrightarrow> s \<noteq> [] \<and> last s = CHR ''0''"
  by (cases s rule: rev_cases) (auto simp: ends_with_iff)

text \<open>The loop that pops trailing zeros; \<open>scale.checked_add(1)\<close> fails at the end of \<open>i64\<close>.\<close>

function trim_zeros :: "str \<Rightarrow> int \<Rightarrow> scaled_integer_error_kind + str \<times> int" where
  "trim_zeros digits s =
     (if ends_with digits ''0'' then
        (if s + 1 > 9223372036854775807 then Inl ScaleOutOfRange else trim_zeros (butlast digits) (s + 1))
      else Inr (digits, s))"
  by pat_completeness auto

termination
  by (relation "measure (\<lambda>(digits, _). length digits)") (auto simp: ends_with_zero)

declare trim_zeros.simps [simp del]

definition from_decimal_str :: "str \<Rightarrow> measure_unit \<Rightarrow> scaled_integer_error_kind + scaled_integer" where
  "from_decimal_str s u =
     (if s = [] \<or> length s > MAX_DECIMAL_INPUT_BYTES \<or> \<not> list_all is_ascii s then Inl InvalidDecimal
      else
        let (negative, unsigned) = (case strip_prefix s ''-'' of Some d \<Rightarrow> (True, d) | None \<Rightarrow> (False, s));
            (integer, fraction) = (case split_once unsigned ''.'' of Some (i, f) \<Rightarrow> (i, Some f) | None \<Rightarrow> (unsigned, None))
        in if integer = [] \<or> \<not> list_all is_ascii_digit integer
              \<or> (case fraction of None \<Rightarrow> False | Some f \<Rightarrow> f = [] \<or> \<not> list_all is_ascii_digit f)
           then Inl InvalidDecimal
           else
             let fraction_len = (case fraction of None \<Rightarrow> 0 | Some f \<Rightarrow> length f);
                 digits = dropWhile (\<lambda>c. c = CHR ''0'') (integer @ (case fraction of None \<Rightarrow> [] | Some f \<Rightarrow> f))
             in if digits = [] then (if negative then Inl NegativeZero else try_from_parts ''0'' 0 u)
                else
                  bindE (trim_zeros digits (- int fraction_len)) (\<lambda>(digits, s).
                  try_from_parts (if negative then CHR ''-'' # digits else digits) s u))"

section \<open>Comparison\<close>

record scaled_number =
  negative :: bool
  digits :: str
  num_scale :: int
  num_unit :: str

datatype ordering = Less | Equal | Greater

definition cmp :: "'a::linorder \<Rightarrow> 'a \<Rightarrow> ordering" where
  "cmp a b = (if a < b then Less else if a = b then Equal else Greater)"

fun then_with :: "ordering \<Rightarrow> ordering \<Rightarrow> ordering" where
  "then_with Equal o2 = o2"
| "then_with o1 o2 = o1"

fun reverse_ordering :: "ordering \<Rightarrow> ordering" where
  "reverse_ordering Less = Greater"
| "reverse_ordering Equal = Equal"
| "reverse_ordering Greater = Less"

text \<open>A difference of two \<^verbatim>\<open>i64\<close> scales: the subtraction panics when it overflows.\<close>

definition scale_difference :: "int \<Rightarrow> int \<Rightarrow> 'e fault + nat" where
  "scale_difference s common = (if in_i64 (s - common) then Inr (nat (s - common)) else panics)"

text \<open>
  \<^verbatim>\<open>String::with_capacity\<close> panics for more than \<^verbatim>\<open>isize::MAX\<close> bytes; below that, the allocator is taken to succeed.
\<close>

definition isize_max :: nat where
  "isize_max = 9223372036854775807"

definition align_digits :: "str \<Rightarrow> nat \<Rightarrow> 'e fault + str" where
  "align_digits d zeroes = (if isize_max < length d + zeroes then panics else Inr (d @ replicate zeroes (CHR ''0'')))"

definition compare_scaled :: "scaled_number \<Rightarrow> scaled_number \<Rightarrow> 'e fault + ordering" where
  "compare_scaled l r =
     (if digits l = ''0'' then
        Inr (if digits r = ''0'' then Equal else if negative r then Greater else Less)
      else if digits r = ''0'' then Inr (if negative l then Less else Greater)
      else if negative l \<noteq> negative r then Inr (if negative l then Less else Greater)
      else
        let common_scale = min (num_scale l) (num_scale r) in
        bindE (scale_difference (num_scale l) common_scale) (\<lambda>left_zeroes.
        bindE (scale_difference (num_scale r) common_scale) (\<lambda>right_zeroes.
        bindE (align_digits (digits l) left_zeroes) (\<lambda>left_aligned.
        bindE (align_digits (digits r) right_zeroes) (\<lambda>right_aligned.
        let absolute = then_with (cmp (length left_aligned) (length right_aligned)) (cmp left_aligned right_aligned)
        in Inr (if negative l then reverse_ordering absolute else absolute))))))"

section \<open>Meaning\<close>

definition num_value :: "scaled_number \<Rightarrow> rat" where
  "num_value n = (if negative n then - 1 else 1) * of_nat (digits_val (digits n)) * 10 powi num_scale n"

definition mantissa_val :: "str \<Rightarrow> int" where
  "mantissa_val m = (if starts_with m ''-'' then - 1 else 1) * int (digits_val (unsigned_digits m))"

definition scaled_value :: "str \<Rightarrow> int \<Rightarrow> rat" where
  "scaled_value m s = of_int (mantissa_val m) * 10 powi s"

text \<open>A number without superfluous leading zeros, as every normalized mantissa is.\<close>

definition plain_digits :: "str \<Rightarrow> bool" where
  "plain_digits d \<longleftrightarrow> d \<noteq> [] \<and> all_digits d \<and> (hd d = CHR ''0'' \<longrightarrow> d = ''0'')"

lemma digits_val_trailing [simp]: "digits_val (d @ replicate k (CHR ''0'')) = digits_val d * 10 ^ k"
  using digits_val_zeros [of k "[]"] by (simp add: digits_val_append)

lemma digit_val_eq_0: "is_ascii_digit c \<Longrightarrow> digit_val c = 0 \<longleftrightarrow> c = CHR ''0''"
  using byte_val_inject [of c "CHR ''0''"] by (auto simp: digit_val_def is_ascii_digit_def)

lemma digits_val_ge: "all_digits d \<Longrightarrow> d \<noteq> [] \<Longrightarrow> hd d \<noteq> CHR ''0'' \<Longrightarrow> 10 ^ (length d - 1) \<le> digits_val d"
proof (cases d)
  case (Cons c cs)
  assume "all_digits d" "hd d \<noteq> CHR ''0''"
  then have "digit_val c \<noteq> 0" using Cons by (simp add: digit_val_eq_0)
  then show ?thesis using Cons by (simp add: digits_val_Cons Suc_le_eq trans_le_add1)
qed simp

lemma plain_digits_order:
  assumes a: "all_digits a" "a \<noteq> []" "hd a \<noteq> CHR ''0''" and b: "all_digits b" "b \<noteq> []" "hd b \<noteq> CHR ''0''"
  shows "then_with (cmp (length a) (length b)) (cmp a b) = cmp (digits_val a) (digits_val b)"
proof -
  have shorter: "digits_val x < digits_val y"
    if "length x < length y" "all_digits x" "all_digits y" "y \<noteq> []" "hd y \<noteq> CHR ''0''" for x y
  proof -
    have "digits_val x < 10 ^ length x" using that by (simp add: digits_val_less)
    also have "\<dots> \<le> 10 ^ (length y - 1)" using that by (intro power_increasing) auto
    also have "\<dots> \<le> digits_val y" using that by (intro digits_val_ge)
    finally show ?thesis .
  qed
  show ?thesis
  proof (cases "length a" "length b" rule: linorder_cases)
    case less
    then show ?thesis using shorter [of a b] a b by (simp add: cmp_def)
  next
    case equal
    then show ?thesis using digits_order [OF equal a(1) b(1)] digits_inject [OF equal a(1) b(1)] by (auto simp: cmp_def)
  next
    case greater
    then show ?thesis using shorter [of b a] a b by (simp add: cmp_def)
  qed
qed

lemma cmp_reverse: "cmp (- a) (- b) = reverse_ordering (cmp a b)" for a b :: rat
  by (auto simp: cmp_def)

lemma cmp_scale: "0 < c \<Longrightarrow> cmp (a * c) (b * c) = cmp a b" for a b c :: rat
  by (auto simp: cmp_def)

lemma cmp_of_nat: "cmp (of_nat a :: rat) (of_nat b) = cmp a b"
  by (simp add: cmp_def)

lemma digits_val_plain_pos: "plain_digits d \<Longrightarrow> d \<noteq> ''0'' \<Longrightarrow> 0 < digits_val d"
  using order.strict_trans2 [OF zero_less_power [of 10] digits_val_ge [of d]] by (auto simp: plain_digits_def)

lemma digits_val_0: "digits_val ''0'' = 0"
  by (simp add: digits_val_def digit_val_def)

lemma num_value_sign:
  assumes "plain_digits (digits n)" "digits n \<noteq> ''0''"
  shows "negative n \<Longrightarrow> num_value n < 0" "\<not> negative n \<Longrightarrow> 0 < num_value n"
  using digits_val_plain_pos [OF assms] by (simp_all add: num_value_def zero_less_mult_iff mult_less_0_iff)

text \<open>The scales are too far apart for the code to align them.\<close>

definition scales_overflow :: "scaled_number \<Rightarrow> scaled_number \<Rightarrow> bool" where
  "scales_overflow l r \<longleftrightarrow> digits l \<noteq> ''0'' \<and> digits r \<noteq> ''0'' \<and> negative l = negative r
     \<and> (isize_max < length (digits l) + nat (num_scale l - num_scale r) \<or> isize_max < length (digits r) + nat (num_scale r - num_scale l))"

lemma compare_scaled_aligned:
  assumes "digits l \<noteq> ''0''" "digits r \<noteq> ''0''" "negative l = negative r" and c: "c = min (num_scale l) (num_scale r)"
  shows "compare_scaled l r = (if scales_overflow l r then panics else
    let al = digits l @ replicate (nat (num_scale l - c)) (CHR ''0''); ar = digits r @ replicate (nat (num_scale r - c)) (CHR ''0'');
        absolute = then_with (cmp (length al) (length ar)) (cmp al ar)
    in Inr (if negative l then reverse_ordering absolute else absolute))"
  using assms
  by (auto simp: compare_scaled_def scale_difference_def align_digits_def isize_max_def scales_overflow_def Let_def in_i64_def min_def)

lemma compare_scaled_value:
  assumes l: "plain_digits (digits l)" and r: "plain_digits (digits r)"
  shows "compare_scaled l r = (if scales_overflow l r then panics else Inr (cmp (num_value l) (num_value r)))"
proof -
  have zero: "num_value n = 0" if "digits n = ''0''" for n using that by (simp add: num_value_def digits_val_0)
  show ?thesis
  proof (cases "digits l = ''0'' \<or> digits r = ''0'' \<or> negative l \<noteq> negative r")
    case True
    then show ?thesis
      using num_value_sign [OF l] num_value_sign [OF r] zero [of l] zero [of r]
      by (cases "negative l"; cases "negative r"; cases "digits l = ''0''"; cases "digits r = ''0''")
        (auto simp: compare_scaled_def cmp_def scales_overflow_def)
  next
    case False
    define c where "c = min (num_scale l) (num_scale r)"
    define al where "al = digits l @ replicate (nat (num_scale l - c)) (CHR ''0'')"
    define ar where "ar = digits r @ replicate (nat (num_scale r - c)) (CHR ''0'')"
    have abs: "of_nat (digits_val (digits n)) * 10 powi num_scale n =
        (of_nat (digits_val (digits n @ replicate (nat (num_scale n - c)) (CHR ''0''))) * 10 powi c :: rat)"
      if "c \<le> num_scale n" for n :: scaled_number
    proof -
      have "(10::rat) powi num_scale n = 10 ^ nat (num_scale n - c) * 10 powi c"
        using that power_int_add [of "10::rat" "num_scale n - c" c] by (simp add: power_int_def)
      then show ?thesis by simp
    qed
    have "then_with (cmp (length al) (length ar)) (cmp al ar) = cmp (digits_val al) (digits_val ar)"
      by (rule plain_digits_order) (use l r False in \<open>auto simp: al_def ar_def plain_digits_def\<close>)
    also have "\<dots> = cmp (of_nat (digits_val al) * 10 powi c) (of_nat (digits_val ar) * 10 powi c :: rat)"
      by (simp add: cmp_scale cmp_of_nat zero_less_power_int)
    finally have a: "then_with (cmp (length al) (length ar)) (cmp al ar) =
        cmp (of_nat (digits_val (digits l)) * 10 powi num_scale l) (of_nat (digits_val (digits r)) * 10 powi num_scale r :: rat)"
      using abs [of l] abs [of r] by (simp only: al_def ar_def c_def min.cobounded1 min.cobounded2)
    have "compare_scaled l r = (if scales_overflow l r then panics else
        Inr (if negative l then reverse_ordering (then_with (cmp (length al) (length ar)) (cmp al ar))
          else then_with (cmp (length al) (length ar)) (cmp al ar)))"
      using False by (simp add: compare_scaled_aligned [OF _ _ _ c_def] Let_def al_def ar_def)
    then show ?thesis using False by (auto simp: a num_value_def cmp_reverse [symmetric])
  qed
qed

section \<open>Normal forms\<close>

lemma units_inverse: "unit_from_str (unit_as_str u) = Inr u"
  by (cases u) (simp_all add: unit_from_str_def)

lemma mantissa_shape:
  assumes "validate_parts m s = Inr ()"
  shows "m = ''0'' \<and> s = 0 \<or>
    (plain_digits (unsigned_digits m) \<and> unsigned_digits m \<noteq> ''0'' \<and> last (unsigned_digits m) \<noteq> CHR ''0''
     \<and> m = (if starts_with m ''-'' then CHR ''-'' # unsigned_digits m else unsigned_digits m))"
proof (cases "m = ''0''")
  case True
  then show ?thesis using assms by (simp add: validate_parts_def split: if_splits)
next
  case False
  let ?d = "unsigned_digits m"
  have d: "?d \<noteq> []" "\<not> starts_with ?d ''0''" "\<not> ends_with ?d ''0''" "list_all is_ascii_digit ?d"
    using assms False by (auto simp: validate_parts_def Let_def split: if_splits)
  then have hd: "hd ?d \<noteq> CHR ''0''" by (cases ?d) (auto simp: starts_with_def)
  have "m = (if starts_with m ''-'' then CHR ''-'' # ?d else ?d)"
    by (auto simp: unsigned_digits_def strip_prefix_def starts_with_iff)
  then show ?thesis using d hd by (auto simp: plain_digits_def all_digits_def ends_with_zero)
qed

lemma digits_val_mod_10:
  assumes "all_digits d" "d \<noteq> []"
  shows "digits_val d mod 10 = digit_val (last d)"
proof -
  obtain e c where "d = e @ [c]" using assms(2) by (cases d rule: rev_cases) auto
  then show ?thesis using assms(1) digit_val_lt [of c] by (auto simp: digits_val_append digits_val_Cons)
qed

text \<open>Powers of ten can be cancelled only when they are equal, if neither factor ends in zero.\<close>

lemma scaled_unique:
  assumes "of_nat a * 10 powi s = (of_nat b * 10 powi t :: rat)" "a mod 10 \<noteq> 0" "b mod 10 \<noteq> 0"
  shows "a = b \<and> s = t"
proof -
  have less: False if eq: "of_nat a * 10 powi s = (of_nat b * 10 powi t :: rat)" and "s < t" "a mod 10 \<noteq> 0" for a b s t
  proof -
    have "(10::rat) powi t = 10 ^ nat (t - s) * 10 powi s"
      using that(2) power_int_add [of "10::rat" "t - s" s] by (simp add: power_int_def)
    then have "(of_nat a :: rat) = of_nat (b * 10 ^ nat (t - s))" using eq by simp
    then have "a = b * 10 ^ nat (t - s)" by (simp only: of_nat_eq_iff)
    moreover have "10 ^ nat (t - s) mod (10::nat) = 0" using that(2) by (cases "nat (t - s)") auto
    ultimately show False using that(3) by (metis mod_mult_right_eq mult_zero_right mod_0)
  qed
  have "s = t"
    using less [OF assms(1) _ assms(2)] less [OF assms(1) [symmetric] _ assms(3)] by (cases s t rule: linorder_cases) auto
  then show ?thesis using assms(1) by simp
qed

lemma normal_form_unique:
  assumes m: "validate_parts m s = Inr ()" and n: "validate_parts n t = Inr ()"
    and eq: "scaled_value m s = scaled_value n t"
  shows "m = n \<and> s = t"
proof -
  have zero: "x = ''0'' \<and> u = 0 \<longleftrightarrow> scaled_value x u = 0" if "validate_parts x u = Inr ()" for x u
  proof
    assume "x = ''0'' \<and> u = 0"
    then show "scaled_value x u = 0"
      by (simp add: scaled_value_def mantissa_val_def unsigned_digits_def strip_prefix_def starts_with_def digits_val_0)
  next
    assume z: "scaled_value x u = 0"
    show "x = ''0'' \<and> u = 0"
    proof (rule ccontr)
      assume "\<not> (x = ''0'' \<and> u = 0)"
      then have "0 < digits_val (unsigned_digits x)"
        using mantissa_shape [OF that] digits_val_plain_pos by blast
      then show False using z by (simp add: scaled_value_def mantissa_val_def split: if_splits)
    qed
  qed
  show ?thesis
  proof (cases "scaled_value m s = 0")
    case True
    then show ?thesis using zero [OF m] zero [OF n] eq by simp
  next
    case False
    let ?d = "unsigned_digits m" and ?e = "unsigned_digits n"
    have d: "plain_digits ?d" "?d \<noteq> ''0''" "last ?d \<noteq> CHR ''0''"
        "m = (if starts_with m ''-'' then CHR ''-'' # ?d else ?d)"
      using mantissa_shape [OF m] zero [OF m] False by auto
    have e: "plain_digits ?e" "?e \<noteq> ''0''" "last ?e \<noteq> CHR ''0''"
        "n = (if starts_with n ''-'' then CHR ''-'' # ?e else ?e)"
      using mantissa_shape [OF n] zero [OF n] False eq by auto
    have pos: "0 < digits_val ?d" "0 < digits_val ?e" using digits_val_plain_pos d e by auto
    have sign: "starts_with m ''-'' \<longleftrightarrow> starts_with n ''-''"
    proof -
      have neg: "starts_with x ''-'' \<longleftrightarrow> scaled_value x u < 0" if "0 < digits_val (unsigned_digits x)" for x u
      proof -
        have "\<not> (10::rat) powi u < 0" by (simp add: not_less)
        then show ?thesis using that
          by (auto simp: scaled_value_def mantissa_val_def mult_less_0_iff zero_less_mult_iff)
      qed
      show ?thesis using neg [OF pos(1), of s] neg [OF pos(2), of t] eq by simp
    qed
    have "of_nat (digits_val ?d) * 10 powi s = (of_nat (digits_val ?e) * 10 powi t :: rat)"
      using eq sign by (auto simp: scaled_value_def mantissa_val_def split: if_splits)
    moreover have "digits_val ?d mod 10 \<noteq> 0" "digits_val ?e mod 10 \<noteq> 0"
      using d e by (auto simp: plain_digits_def digits_val_mod_10 digit_val_eq_0 all_digits_def list_all_iff)
    ultimately have v: "digits_val ?d = digits_val ?e \<and> s = t" by (rule scaled_unique)
    have "?d = nat_to_str (digits_val ?d)" "?e = nat_to_str (digits_val ?e)"
      using nat_to_str_unique [of ?d] nat_to_str_unique [of ?e] d e by (auto simp: plain_digits_def)
    then have "?d = ?e" using v by simp
    then show ?thesis using d(4) e(4) sign v by metis
  qed
qed

text \<open>The number a plain decimal text denotes.\<close>

definition decimal_value :: "str \<Rightarrow> rat" where
  "decimal_value s =
     (case (case split_once (unsigned_digits s) ''.'' of Some p \<Rightarrow> p | None \<Rightarrow> (unsigned_digits s, [])) of
        (i, f) \<Rightarrow> (if starts_with s ''-'' then - 1 else 1) * of_nat (digits_val (i @ f)) / 10 ^ length f)"

lemma trim_zeros_value:
  "trim_zeros d s = Inr (e, t) \<Longrightarrow> d \<noteq> [] \<Longrightarrow> hd d \<noteq> CHR ''0'' \<Longrightarrow>
    \<exists>k. d = e @ replicate k (CHR ''0'') \<and> t = s + int k \<and> e \<noteq> [] \<and> hd e = hd d"
proof (induction d s rule: trim_zeros.induct)
  case (1 d s)
  show ?case
  proof (cases "ends_with d ''0''")
    case True
    then have d: "d = butlast d @ [CHR ''0'']" using append_butlast_last_id [of d] by (auto simp: ends_with_zero)
    have ne: "butlast d \<noteq> []" "hd (butlast d) = hd d" using 1(3,4) d by (metis append_Nil list.sel(1), metis append_Nil hd_append2 list.sel(1))
    have run: "\<not> s + 1 > 9223372036854775807" "trim_zeros (butlast d) (s + 1) = Inr (e, t)"
      using 1(2) True by (subst (asm) trim_zeros.simps; simp split: if_splits)+
    then obtain k where "butlast d = e @ replicate k (CHR ''0'')" "t = s + 1 + int k" "e \<noteq> []" "hd e = hd (butlast d)"
      using 1(1) [OF True] ne 1(4) by auto
    then have "d = e @ replicate (Suc k) (CHR ''0'') \<and> t = s + int (Suc k) \<and> e \<noteq> [] \<and> hd e = hd d"
      using d ne by (metis add.assoc append.assoc of_nat_Suc add.commute replicate_append_same replicate_Suc)
    then show ?thesis by blast
  next
    case False
    then show ?thesis using 1(2,3) by (subst (asm) trim_zeros.simps) (auto intro: exI [of _ 0])
  qed
qed

lemma digits_val_dropWhile: "digits_val (dropWhile (\<lambda>c. c = CHR ''0'') d) = digits_val d"
  by (induction d) (simp_all add: digits_val_Cons digit_val_def)

lemma scaled_value_signed:
  assumes "d \<noteq> []" "hd d \<noteq> CHR ''-''"
  shows "scaled_value (if neg then CHR ''-'' # d else d) s = (if neg then - 1 else 1) * of_nat (digits_val d) * 10 powi s"
proof -
  have "\<not> starts_with d ''-''" using assms by (cases d) (auto simp: starts_with_def)
  then show ?thesis
    by (simp add: scaled_value_def mantissa_val_def unsigned_digits_def strip_prefix_def starts_with_def)
qed

lemma from_decimal_value:
  assumes "from_decimal_str s u = Inr x"
  shows "scaled_value (mantissa x) (scale x) = decimal_value s \<and> validate_parts (mantissa x) (scale x) = Inr () \<and> unit_of x = u"
proof -
  define neg where "neg = starts_with s ''-''"
  define d where "d = unsigned_digits s"
  define i where "i = (case split_once d ''.'' of Some p \<Rightarrow> fst p | None \<Rightarrow> d)"
  define f where "f = (case split_once d ''.'' of Some p \<Rightarrow> snd p | None \<Rightarrow> [])"
  let ?digits = "dropWhile (\<lambda>c. c = CHR ''0'') (i @ f)"
  have strip: "(case strip_prefix s ''-'' of Some d \<Rightarrow> (True, d) | None \<Rightarrow> (False, s)) = (neg, d)"
    by (simp add: neg_def d_def unsigned_digits_def strip_prefix_def)
  have run: "(if ?digits = [] then (if neg then Inl NegativeZero else try_from_parts ''0'' 0 u)
      else bindE (trim_zeros ?digits (- int (length f))) (\<lambda>(e, t). try_from_parts (if neg then CHR ''-'' # e else e) t u)) = Inr x"
    and ds: "list_all is_ascii_digit (i @ f)"
    using assms strip unfolding from_decimal_str_def
    by (auto simp: Let_def i_def f_def split: if_splits option.splits prod.splits)
  have value_eq: "decimal_value s = (if neg then - 1 else 1) * of_nat (digits_val ?digits) / 10 ^ length f"
    unfolding decimal_value_def digits_val_dropWhile
    by (simp add: neg_def i_def f_def d_def split: option.split prod.split)
  show ?thesis
  proof (cases "?digits = []")
    case True
    then show ?thesis using run value_eq
      by (auto simp: try_from_parts_def result_simps scaled_value_def mantissa_val_def unsigned_digits_def strip_prefix_def
          starts_with_def digits_val_0 simp del: dropWhile_eq_Nil_conv split: if_splits)
  next
    case False
    then obtain e t where e: "trim_zeros ?digits (- int (length f)) = Inr (e, t)"
      and x: "try_from_parts (if neg then CHR ''-'' # e else e) t u = Inr x"
      using run by (auto simp: result_simps simp del: dropWhile_eq_Nil_conv split: if_splits)
    have hd: "hd ?digits \<noteq> CHR ''0''" using hd_dropWhile [of "\<lambda>c. c = CHR ''0''" "i @ f"] False
      by (simp del: dropWhile_append dropWhile_eq_Nil_conv)
    from trim_zeros_value [OF e False hd] obtain k where k: "?digits = e @ replicate k (CHR ''0'')" "t = - int (length f) + int k"
      "e \<noteq> []" by blast
    have "list_all is_ascii_digit ?digits" using ds unfolding list_all_iff by (metis set_dropWhileD)
    then have "is_ascii_digit (hd e)" using k(1,3) by (cases e) (auto simp del: dropWhile_append)
    then have sign: "hd e \<noteq> CHR ''-''" by (auto simp: is_ascii_digit_def)
    have "scaled_value (if neg then CHR ''-'' # e else e) t = (if neg then - 1 else 1) * of_nat (digits_val e) * 10 powi t"
      using k(3) sign by (rule scaled_value_signed)
    also have "\<dots> = (if neg then - 1 else 1) * of_nat (digits_val ?digits) / 10 ^ length f"
      unfolding k digits_val_trailing using power_int_add [of "10::rat" "- int (length f)" "int k"]
      by (simp add: power_int_minus divide_inverse)
    finally show ?thesis using x value_eq by (auto simp: try_from_parts_def result_simps)
  qed
qed

section \<open>Properties\<close>

text \<open>
  C38: comparing two decimal numbers by sign, aligned length and digits is the comparison of the rational numbers
  they denote, for every mantissa without superfluous leading zeros, as long as the aligned texts fit \<^verbatim>\<open>isize::MAX\<close>
  bytes. Otherwise, for two numbers other than zero of one sign, the comparison panics: with overflow checks in
  the subtraction of the \<^verbatim>\<open>i64\<close> scales, or in the allocation. Between scales that are integers of a canonical document,
  with mantissas of at most 2 to the 62 digits, it never panics.
\<close>

theorem compare_scaled_exact:
  assumes "plain_digits (digits l)" "plain_digits (digits r)"
  shows "(compare_scaled l r :: 'e fault + ordering) =
      (if digits l \<noteq> ''0'' \<and> digits r \<noteq> ''0'' \<and> negative l = negative r
         \<and> (9223372036854775807 < length (digits l) + nat (num_scale l - num_scale r)
            \<or> 9223372036854775807 < length (digits r) + nat (num_scale r - num_scale l)) then panics
       else Inr (cmp (num_value l) (num_value r)))
    \<and> (\<bar>num_scale l\<bar> \<le> 9007199254740991 \<and> \<bar>num_scale r\<bar> \<le> 9007199254740991
       \<and> length (digits l) \<le> 2 ^ 62 \<and> length (digits r) \<le> 2 ^ 62 \<longrightarrow> (compare_scaled l r :: 'e fault + ordering) \<noteq> panics)"
  using compare_scaled_value [OF assms] by (auto simp: scales_overflow_def isize_max_def)

definition sample_number :: "bool \<Rightarrow> str \<Rightarrow> int \<Rightarrow> scaled_number" where
  "sample_number neg d s = \<lparr> negative = neg, digits = d, num_scale = s, num_unit = ''ratio'' \<rparr>"

theorem compare_scaled_exact_witness:
  "compare_scaled (sample_number False ''25'' (- 1)) (sample_number False ''3'' 0) = Inr Less
    \<and> compare_scaled (sample_number False ''1'' 9223372036854775807) (sample_number False ''1'' (- 1)) = panics"
proof
  have digits: "plain_digits ''25''" "plain_digits ''3''" "plain_digits ''1''" by code_simp+
  have "cmp (num_value (sample_number False ''25'' (- 1))) (num_value (sample_number False ''3'' 0)) = Less"
    by (simp add: cmp_def num_value_def sample_number_def digits_val_Cons digit_val_def)
  then show "compare_scaled (sample_number False ''25'' (- 1)) (sample_number False ''3'' 0) = Inr Less"
    using digits by (subst compare_scaled_exact [THEN conjunct1]) (simp_all add: sample_number_def)
  show "compare_scaled (sample_number False ''1'' 9223372036854775807) (sample_number False ''1'' (- 1)) = panics"
    using digits by (subst compare_scaled_exact [THEN conjunct1]) (simp_all add: sample_number_def)
qed

text \<open>
  \<open>from_decimal_str\<close> keeps the number and normalizes it: the result denotes the decimal text, is
  accepted by \<open>try_from_parts\<close> as it stands, and two texts give the same representation exactly when
  they denote the same number.
\<close>

theorem decimal_normal_form:
  assumes "from_decimal_str a u = Inr x" "from_decimal_str b u = Inr y"
  shows "scaled_value (mantissa x) (scale x) = decimal_value a \<and> try_from_parts (mantissa x) (scale x) u = Inr x
    \<and> (x = y \<longleftrightarrow> decimal_value a = decimal_value b)"
proof -
  note x = from_decimal_value [OF assms(1)] and y = from_decimal_value [OF assms(2)]
  have "mantissa x = mantissa y \<and> scale x = scale y" if "decimal_value a = decimal_value b"
    using normal_form_unique [of "mantissa x" "scale x" "mantissa y" "scale y"] x y that by simp
  then have "x = y \<longleftrightarrow> decimal_value a = decimal_value b" using x y by (metis scaled_integer.equality old.unit.exhaust)
  moreover have "try_from_parts (mantissa x) (scale x) u = Inr x"
    using x by (cases x) (simp add: try_from_parts_def)
  ultimately show ?thesis using x by simp
qed

theorem decimal_normal_form_witness:
  "decimal_value ''-1.50'' = decimal_value ''-001.5'' \<and> scaled_value ''-15'' (- 1) = decimal_value ''-1.50''"
proof -
  let ?x = "\<lparr> mantissa = ''-15'', scale = - 1, unit_of = Mm \<rparr>"
  have "from_decimal_str ''-1.50'' Mm = Inr ?x" "from_decimal_str ''-001.5'' Mm = Inr ?x" by code_simp+
  from decimal_normal_form [OF this] show ?thesis by simp
qed

end
