(* ===== verification/Schema_Validation.thy ===== *)
theory Schema_Validation
  imports Canonical_Parser Canonical_Time Scaled_Integer "HOL-Library.AList"
begin

text \<open>
  The ingestion boundary, \<^verbatim>\<open>src/crates/synapse-schema/src/lib.rs\<close>: schema selection, the walk along
  schema annotations, local semantic rules and OID calculation.

  \<^item> The bundled schema documents and the compiled JSON Schema validators (third-party code) are
    the fields of \<open>schema_registry\<close>: a validator is the test whether it reports no error.
  \<^item> A \<open>&JsonValue\<close> into a document is its location, file and steps: two references are the same
    pointer exactly when the locations are equal.
  \<^item> The recursive closure \<open>visit\<close> of \<open>expand_entries\<close> is written with its pending calls as a list,
    in the order in which the recursion makes them.
\<close>

section \<open>Schema documents\<close>

datatype json_step = Key str | Index nat

fun node_at :: "json \<Rightarrow> json_step list \<Rightarrow> json option" where
  "node_at v [] = Some v"
| "node_at (Object entries) (Key k # path) =
     (case find_entry entries k of None \<Rightarrow> None | Some child \<Rightarrow> node_at child path)"
| "node_at (Array values) (Index i # path) = (if i < length values then node_at (values ! i) path else None)"
| "node_at _ _ = None"

record schema_entry =
  entry_file :: str
  entry_path :: "json_step list"

record schema_registry =
  documents :: "(str \<times> json) list"
  validators :: "(str \<times> (json \<Rightarrow> bool)) list"

definition entry_schema :: "(str \<times> json) list \<Rightarrow> schema_entry \<Rightarrow> json option" where
  "entry_schema docs e = Option.bind (map_of docs (entry_file e)) (\<lambda>d. node_at d (entry_path e))"

definition entry_get :: "(str \<times> json) list \<Rightarrow> schema_entry \<Rightarrow> str \<Rightarrow> json option" where
  "entry_get docs e k = Option.bind (entry_schema docs e) (\<lambda>v. json_get v k)"

definition child_entry :: "schema_entry \<Rightarrow> json_step list \<Rightarrow> schema_entry" where
  "child_entry e steps = e\<lparr> entry_path := entry_path e @ steps \<rparr>"

fun is_object :: "json \<Rightarrow> bool" where
  "is_object (Object entries) = True"
| "is_object _ = False"

text \<open>\<open>serde_json::Value::pointer\<close>, as the steps it takes.\<close>

fun unescape_token :: "str \<Rightarrow> str" where
  "unescape_token (CHR ''~'' # CHR ''1'' # rest) = CHR ''/'' # unescape_token rest"
| "unescape_token (CHR ''~'' # CHR ''0'' # rest) = CHR ''~'' # unescape_token rest"
| "unescape_token (c # rest) = c # unescape_token rest"
| "unescape_token [] = []"

definition parse_index :: "str \<Rightarrow> nat option" where
  "parse_index s =
     (if starts_with s ''+'' \<or> (starts_with s ''0'' \<and> length s \<noteq> 1) \<or> s = [] \<or> \<not> list_all is_ascii_digit s
         \<or> digits_val s > usize_max then None
      else Some (digits_val s))"

fun pointer_steps :: "json \<Rightarrow> str list \<Rightarrow> json_step list option" where
  "pointer_steps v [] = Some []"
| "pointer_steps (Object entries) (t # ts) =
     (case find_entry entries t of None \<Rightarrow> None | Some child \<Rightarrow> map_option ((#) (Key t)) (pointer_steps child ts))"
| "pointer_steps (Array values) (t # ts) =
     (case parse_index t of
        None \<Rightarrow> None
      | Some i \<Rightarrow> if i < length values then map_option ((#) (Index i)) (pointer_steps (values ! i) ts) else None)"
| "pointer_steps _ (t # ts) = None"

definition json_pointer :: "json \<Rightarrow> str \<Rightarrow> json_step list option" where
  "json_pointer v p =
     (if p = [] then Some []
      else if \<not> starts_with p ''/'' then None
      else pointer_steps v (map unescape_token (tl (split_on (CHR ''/'') p))))"

definition resolve_schema_ref :: "(str \<times> json) list \<Rightarrow> str \<Rightarrow> str \<Rightarrow> core_error + schema_entry" where
  "resolve_schema_ref docs reference base_file =
     (let (file_part, fragment) = (case split_once reference ''#'' of None \<Rightarrow> (reference, []) | Some p \<Rightarrow> p);
          requested = (if file_part = [] then base_file else file_part)
      in case map_of docs requested of
           None \<Rightarrow> Inl SchemaInvalid
         | Some document \<Rightarrow>
             if fragment = [] then Inr \<lparr> entry_file = requested, entry_path = [] \<rparr>
             else if \<not> starts_with fragment ''/'' then Inl SchemaInvalid
             else
               case json_pointer document fragment of
                 None \<Rightarrow> Inl SchemaInvalid
               | Some path \<Rightarrow> Inr \<lparr> entry_file = requested, entry_path = path \<rparr>)"

text \<open>The calls \<open>visit\<close> makes on the schemas an entry refers to, in order.\<close>

definition entry_successors :: "(str \<times> json) list \<Rightarrow> schema_entry \<Rightarrow> schema_entry list" where
  "entry_successors docs e =
     (case Option.bind (entry_get docs e ''$ref'') as_str of
        None \<Rightarrow> []
      | Some reference \<Rightarrow> (case resolve_schema_ref docs reference (entry_file e) of Inl _ \<Rightarrow> [] | Inr resolved \<Rightarrow> [resolved]))
     @ concat (map (\<lambda>keyword.
         case Option.bind (entry_get docs e keyword) as_array of
           None \<Rightarrow> []
         | Some children \<Rightarrow> map (\<lambda>i. child_entry e [Key keyword, Index i]) [0..<length children])
         [''allOf'', ''oneOf'', ''anyOf''])"

section \<open>Expansion ends\<close>

definition object_entry :: "(str \<times> json) list \<Rightarrow> schema_entry \<Rightarrow> bool" where
  "object_entry docs e \<longleftrightarrow> (case entry_schema docs e of None \<Rightarrow> False | Some v \<Rightarrow> is_object v)"

lemma find_entry_assoc: "find_entry es k = map_of es k"
  by (induction es) auto

lemma finite_paths: "finite {path. node_at v path \<noteq> None}"
proof (induction v rule: json_induct)
  case (Array vs)
  have "{path. node_at (Array vs) path \<noteq> None} \<subseteq>
      insert [] (\<Union>i\<in>{..<length vs}. (#) (Index i) ` {path. node_at (vs ! i) path \<noteq> None})"
  proof
    fix path assume "path \<in> {path. node_at (Array vs) path \<noteq> None}"
    then show "path \<in> insert [] (\<Union>i\<in>{..<length vs}. (#) (Index i) ` {path. node_at (vs ! i) path \<noteq> None})"
      by (cases "(Array vs, path)" rule: node_at.cases) (auto split: if_splits)
  qed
  moreover have "finite {path. node_at (vs ! i) path \<noteq> None}" if "i < length vs" for i using Array that by simp
  then have "finite (insert [] (\<Union>i\<in>{..<length vs}. (#) (Index i) ` {path. node_at (vs ! i) path \<noteq> None}))" by blast
  ultimately show ?case by (rule finite_subset)
next
  case (Object es)
  have "{path. node_at (Object es) path \<noteq> None} \<subseteq>
      insert [] (\<Union>e\<in>set es. (#) (Key (fst e)) ` {path. node_at (snd e) path \<noteq> None})"
  proof
    fix path assume "path \<in> {path. node_at (Object es) path \<noteq> None}"
    then show "path \<in> insert [] (\<Union>e\<in>set es. (#) (Key (fst e)) ` {path. node_at (snd e) path \<noteq> None})"
      by (cases "(Object es, path)" rule: node_at.cases) (force simp: find_entry_assoc split: option.splits dest!: map_of_SomeD)+
  qed
  moreover have "finite {path. node_at (snd e) path \<noteq> None}" if "e \<in> set es" for e using Object that by (cases e) auto
  then have "finite (insert [] (\<Union>e\<in>set es. (#) (Key (fst e)) ` {path. node_at (snd e) path \<noteq> None}))" by blast
  ultimately show ?case by (rule finite_subset)
qed (auto elim: node_at.elims intro: finite_subset [of _ "{[]}"])

lemma finite_entries: "finite {e. object_entry docs e}"
proof -
  have "{e. object_entry docs e} \<subseteq> (\<Union>d\<in>set docs. (\<lambda>path. \<lparr> entry_file = fst d, entry_path = path \<rparr>) ` {path. node_at (snd d) path \<noteq> None})"
  proof
    fix e assume "e \<in> {e. object_entry docs e}"
    then obtain d v where "map_of docs (entry_file e) = Some d" "node_at d (entry_path e) = Some v"
      by (auto simp: object_entry_def entry_schema_def split: option.splits bind_splits)
    then show "e \<in> (\<Union>d\<in>set docs. (\<lambda>path. \<lparr> entry_file = fst d, entry_path = path \<rparr>) ` {path. node_at (snd d) path \<noteq> None})"
      by (cases e) (force dest!: map_of_SomeD)
  qed
  moreover have "finite (\<Union>d\<in>set docs. (\<lambda>path. \<lparr> entry_file = fst d, entry_path = path \<rparr>) ` {path. node_at (snd d) path \<noteq> None})"
    using finite_paths by blast
  ultimately show ?thesis by (rule finite_subset)
qed

function expand_from :: "(str \<times> json) list \<Rightarrow> schema_entry list \<Rightarrow> schema_entry list \<Rightarrow> schema_entry list" where
  "expand_from docs seen [] = []"
| "expand_from docs seen (e # pending) =
     (if \<not> object_entry docs e \<or> e \<in> set seen then expand_from docs seen pending
      else e # expand_from docs (e # seen) (entry_successors docs e @ pending))"
  by pat_completeness auto

termination
proof (relation "measures [\<lambda>(docs, seen, _). card ({e. object_entry docs e} - set seen), \<lambda>(_, _, pending). length pending]")
  fix docs seen e pending
  assume "\<not> (\<not> object_entry docs e \<or> e \<in> set seen)"
  then have "{x. object_entry docs x} - set (e # seen) \<subset> {x. object_entry docs x} - set seen" by auto
  then have "card ({x. object_entry docs x} - set (e # seen)) < card ({x. object_entry docs x} - set seen)"
    by (intro psubset_card_mono finite_Diff finite_entries)
  then show "((docs, e # seen, entry_successors docs e @ pending), docs, seen, e # pending)
      \<in> measures [\<lambda>(docs, seen, _). card ({e. object_entry docs e} - set seen), \<lambda>(_, _, pending). length pending]" by simp
qed simp_all

definition expand_entries :: "(str \<times> json) list \<Rightarrow> schema_entry list \<Rightarrow> schema_entry list" where
  "expand_entries docs entries = expand_from docs [] entries"

section \<open>Annotations\<close>

definition property_entries :: "(str \<times> json) list \<Rightarrow> schema_entry list \<Rightarrow> str \<Rightarrow> schema_entry list" where
  "property_entries docs entries property =
     concat (map (\<lambda>e.
       case Option.bind (entry_get docs e ''properties'') (\<lambda>ps. json_get ps property) of
         Some _ \<Rightarrow> [child_entry e [Key ''properties'', Key property]]
       | None \<Rightarrow>
           (case entry_get docs e ''additionalProperties'' of
              Some s \<Rightarrow> if is_object s then [child_entry e [Key ''additionalProperties'']] else []
            | None \<Rightarrow> [])) (expand_entries docs entries))"

definition item_entries :: "(str \<times> json) list \<Rightarrow> schema_entry list \<Rightarrow> schema_entry list" where
  "item_entries docs entries =
     concat (map (\<lambda>e.
       case entry_get docs e ''items'' of
         Some s \<Rightarrow> if is_object s then [child_entry e [Key ''items'']] else []
       | None \<Rightarrow> []) (expand_entries docs entries))"

definition entries_include_common_def :: "(str \<times> json) list \<Rightarrow> schema_entry list \<Rightarrow> str \<Rightarrow> bool" where
  "entries_include_common_def docs expanded name =
     (let target = \<lparr> entry_file = ''common.schema.json'', entry_path = [Key ''$defs'', Key name] \<rparr>
      in entry_schema docs target \<noteq> None \<and> target \<in> set expanded)"

definition validate_timestamp :: "str \<Rightarrow> core_error + unit" where
  "validate_timestamp s = (if is_ok (timestamp_parse s) then Inr () else Inl TimestampInvalid)"

definition get_str :: "json \<Rightarrow> str \<Rightarrow> str option" where
  "get_str v k = Option.bind (json_get v k) as_str"

definition validate_valid_time :: "json \<Rightarrow> core_error + unit" where
  "validate_valid_time v =
     (if get_str v ''kind'' \<noteq> Some ''interval'' then Inr ()
      else case (get_str v ''from'', get_str v ''to'') of
        (Some f, Some t) \<Rightarrow>
          bindE (validate_timestamp f) (\<lambda>_.
          bindE (validate_timestamp t) (\<lambda>_.
          if f > t then Inl IntervalInvalid else Inr ()))
      | _ \<Rightarrow> Inr ())"

definition scaled_integer_of :: "json \<Rightarrow> scaled_number option" where
  "scaled_integer_of v =
     (case get_str v ''mantissa'' of
        None \<Rightarrow> None
      | Some m \<Rightarrow>
          (case Option.bind (json_get v ''scale'') as_i64 of
             None \<Rightarrow> None
           | Some s \<Rightarrow>
               (case get_str v ''unit'' of
                  None \<Rightarrow> None
                | Some u \<Rightarrow> Some \<lparr> negative = starts_with m ''-'', digits = unsigned_digits m, num_scale = s, num_unit = u \<rparr>)))"

definition validate_temporal_precision :: "json \<Rightarrow> core_error + unit" where
  "validate_temporal_precision v =
     (if get_str v ''kind'' \<noteq> Some ''resolution'' \<and> get_str v ''kind'' \<noteq> Some ''uncertainty'' then Inr ()
      else case Option.bind (json_get v ''value'') scaled_integer_of of
        None \<Rightarrow> Inr ()
      | Some n \<Rightarrow>
          if negative n \<or> \<not> (num_unit n = ''ms'' \<or> num_unit n = ''s'') then Inl FixedPointNotNormalized else Inr ())"

definition validate_scaled_integer :: "json \<Rightarrow> core_error + unit" where
  "validate_scaled_integer v =
     (case as_object v of
        None \<Rightarrow> Inr ()
      | Some entries \<Rightarrow>
          (case (Option.bind (find_entry entries ''mantissa'') as_str, Option.bind (find_entry entries ''scale'') as_i64,
                 Option.bind (find_entry entries ''unit'') as_str) of
             (Some m, Some s, Some u) \<Rightarrow>
               if is_ok (bindE (unit_from_str u) (\<lambda>u. try_from_parts m s u)) then Inr () else Inl FixedPointNotNormalized
           | _ \<Rightarrow> Inr ()))"

definition validate_confidence :: "json \<Rightarrow> core_error fault + unit" where
  "validate_confidence v =
     (if get_str v ''kind'' = Some ''probability'' then
        (case Option.bind (json_get v ''value'') scaled_integer_of of
           None \<Rightarrow> Inr ()
         | Some n \<Rightarrow>
             if num_unit n \<noteq> ''ratio'' then fails FixedPointNotNormalized
             else
             bindE (compare_scaled n \<lparr> negative = False, digits = ''0'', num_scale = 0, num_unit = ''ratio'' \<rparr>) (\<lambda>with_zero.
             if with_zero = Less then fails FixedPointNotNormalized
             else
             bindE (compare_scaled n \<lparr> negative = False, digits = ''1'', num_scale = 0, num_unit = ''ratio'' \<rparr>) (\<lambda>with_one.
             if with_one = Greater then fails FixedPointNotNormalized else Inr ())))
      else if get_str v ''kind'' = Some ''interval'' then
        (case (Option.bind (json_get v ''lower'') scaled_integer_of, Option.bind (json_get v ''upper'') scaled_integer_of) of
           (Some l, Some u) \<Rightarrow>
             if num_unit l \<noteq> num_unit u then fails FixedPointNotNormalized
             else
             bindE (compare_scaled l u) (\<lambda>order.
             if order = Greater then fails IntervalInvalid else Inr ())
         | _ \<Rightarrow> Inr ())
      else Inr ())"

text \<open>The items of a set stand in strictly increasing canonical order.\<close>

fun check_set_items ::
    "(str \<Rightarrow> str) \<Rightarrow> resource_limits \<Rightarrow> bytes option \<Rightarrow> json list \<Rightarrow> core_error fault + unit" where
  "check_set_items nfc rl previous [] = Inr ()"
| "check_set_items nfc rl previous (item # items) =
     bindE (canonical_json_with_limits nfc rl item) (\<lambda>encoded.
     case previous of
       None \<Rightarrow> check_set_items nfc rl (Some encoded) items
     | Some p \<Rightarrow>
         (case cmp p encoded of
            Equal \<Rightarrow> fails SetDuplicate
          | Greater \<Rightarrow> fails SetNotSorted
          | Less \<Rightarrow> check_set_items nfc rl (Some encoded) items))"

definition order_annotation :: "(str \<times> json) list \<Rightarrow> schema_entry list \<Rightarrow> core_error + str option" where
  "order_annotation docs expanded =
     foldE (\<lambda>order e.
       case Option.bind (entry_get docs e ''x-synapse-order'') as_str of
         None \<Rightarrow> Inr order
       | Some candidate \<Rightarrow>
           if order \<noteq> None \<and> order \<noteq> Some candidate then Inl SchemaInvalid else Inr (Some candidate)) None expanded"

definition string_annotated :: "(str \<times> json) list \<Rightarrow> schema_entry list \<Rightarrow> str \<Rightarrow> bool" where
  "string_annotated docs expanded annotation \<longleftrightarrow>
     list_ex (\<lambda>e. Option.bind (entry_get docs e ''x-synapse-string'') as_str = Some annotation) expanded"

definition check_string :: "(str \<Rightarrow> str) \<Rightarrow> (str \<times> json) list \<Rightarrow> schema_entry list \<Rightarrow> str \<Rightarrow> core_error + unit" where
  "check_string nfc docs expanded s =
     (if string_annotated docs expanded ''identifier-nfc'' \<and> nfc s \<noteq> s then Inl IdentifierNotNfc
      else if string_annotated docs expanded ''canonical-timestamp'' then validate_timestamp s
      else Inr ())"

definition check_array ::
    "(str \<Rightarrow> str) \<Rightarrow> (str \<times> json) list \<Rightarrow> resource_limits \<Rightarrow> schema_entry list \<Rightarrow> json list \<Rightarrow> core_error fault + unit" where
  "check_array nfc docs rl expanded values =
     bindE (lift_err (order_annotation docs expanded)) (\<lambda>order.
     if order = Some ''set'' then check_set_items nfc rl None values else Inr ())"

definition check_common_defs :: "(str \<times> json) list \<Rightarrow> schema_entry list \<Rightarrow> json \<Rightarrow> core_error fault + unit" where
  "check_common_defs docs expanded v =
     eachE (\<lambda>(name, check). if entries_include_common_def docs expanded name then check v else Inr ())
       [(''ScaledInteger'', lift_err \<circ> validate_scaled_integer), (''ValidTime'', lift_err \<circ> validate_valid_time),
        (''TemporalPrecision'', lift_err \<circ> validate_temporal_precision), (''Confidence'', validate_confidence)]"

lemma eachE_cong [fundef_cong]:
  "xs = ys \<Longrightarrow> (\<And>x. x \<in> set ys \<Longrightarrow> f x = g x) \<Longrightarrow> eachE f xs = eachE g ys"
  by (induction ys arbitrary: xs) (auto simp: bindE_def split: sum.splits)

function validate_annotated ::
    "(str \<Rightarrow> str) \<Rightarrow> (str \<times> json) list \<Rightarrow> resource_limits \<Rightarrow> schema_entry list \<Rightarrow> json \<Rightarrow> core_error fault + unit" where
  "validate_annotated nfc docs rl entries (String s) = lift_err (check_string nfc docs (expand_entries docs entries) s)"
| "validate_annotated nfc docs rl entries (Array values) =
     bindE (check_array nfc docs rl (expand_entries docs entries) values) (\<lambda>_.
     eachE (validate_annotated nfc docs rl (item_entries docs (expand_entries docs entries))) values)"
| "validate_annotated nfc docs rl entries (Object object) =
     bindE (check_common_defs docs (expand_entries docs entries) (Object object)) (\<lambda>_.
     eachE (\<lambda>e. validate_annotated nfc docs rl (property_entries docs (expand_entries docs entries) (fst e)) (snd e)) object)"
| "validate_annotated nfc docs rl entries Null = Inr ()"
| "validate_annotated nfc docs rl entries (Bool b) = Inr ()"
| "validate_annotated nfc docs rl entries (Integer i) = Inr ()"
  by pat_completeness auto

termination
  by (relation "measure (\<lambda>(_, _, _, _, v). size v)") (auto intro: size_element size_entry)

section \<open>Whole objects\<close>

definition RECORD_SCHEMAS :: "(str \<times> str) list" where
  "RECORD_SCHEMAS =
     [(''actor'', ''actor.schema.json''), (''subject'', ''subject.schema.json''), (''activity'', ''activity.schema.json''),
      (''observation'', ''observation.schema.json''), (''claim'', ''claim.schema.json''),
      (''claim_reaction'', ''claim-reaction.schema.json''), (''capture_profile'', ''capture-profile.schema.json''),
      (''analysis_result'', ''analysis-result.schema.json''), (''context_pack'', ''context-pack.schema.json''),
      (''delegation_grant'', ''delegation-grant.schema.json''), (''decision_feedback'', ''decision-feedback.schema.json''),
      (''policy'', ''policy.schema.json''), (''assurance'', ''assurance.schema.json''),
      (''evidence_gap'', ''evidence-gap.schema.json''), (''tombstone'', ''tombstone.schema.json'')]"

definition select_schema :: "json \<Rightarrow> core_error + str" where
  "select_schema v =
     bindE (ok_or SchemaInvalid (get_str v ''object_type'')) (\<lambda>object_type.
     if object_type = ''tree'' then Inr ''manifest-tree.schema.json''
     else if object_type = ''commit'' then Inr ''commit.schema.json''
     else if object_type = ''record'' then
       bindE (ok_or SchemaInvalid (get_str v ''record_type'')) (\<lambda>record_type.
       ok_or SchemaInvalid (map_of RECORD_SCHEMAS record_type))
     else Inl SchemaInvalid)"

definition check_manifest_entry :: "str \<times> json \<Rightarrow> core_error + unit" where
  "check_manifest_entry e =
     (if \<not> is_portable_segment (fst e) then Inl PathSegmentInvalid
      else case get_str (snd e) ''entry_kind'' of
        None \<Rightarrow> Inr ()
      | Some entry_kind \<Rightarrow>
          (case get_str (snd e) ''oid'' of
             None \<Rightarrow> Inr ()
           | Some oid \<Rightarrow> if hd (split_on (CHR '':'') oid) \<noteq> entry_kind then Inl ReferenceTypeMismatch else Inr ()))"

definition validate_manifest :: "json \<Rightarrow> core_error + unit" where
  "validate_manifest v =
     (case Option.bind (json_get v ''entries'') as_object of
        None \<Rightarrow> Inr ()
      | Some entries \<Rightarrow> eachE check_manifest_entry entries)"

definition validate_delegation_expiration :: "json \<Rightarrow> core_error + unit" where
  "validate_delegation_expiration v =
     (case get_str v ''recorded_at'' of
        None \<Rightarrow> Inr ()
      | Some recorded_at \<Rightarrow>
          (case Option.bind (json_get v ''payload'') (\<lambda>p. get_str p ''expires_at'') of
             None \<Rightarrow> Inr ()
           | Some expires_at \<Rightarrow>
               bindE (validate_timestamp recorded_at) (\<lambda>_.
               bindE (validate_timestamp expires_at) (\<lambda>_.
               if expires_at < recorded_at then Inl IntervalInvalid else Inr ()))))"

definition validate_object_semantics :: "json \<Rightarrow> str \<Rightarrow> core_error + unit" where
  "validate_object_semantics v schema_name =
     bindE (if schema_name = ''manifest-tree.schema.json'' then validate_manifest v else Inr ()) (\<lambda>_.
     if get_str v ''record_type'' = Some ''observation'' \<and> json_get v ''valid_time'' \<noteq> None then Inl SchemaInvalid
     else if get_str v ''record_type'' = Some ''delegation_grant'' then validate_delegation_expiration v
     else Inr ())"

fun to_json_value :: "json \<Rightarrow> json" where
  "to_json_value (Array values) = Array (map to_json_value values)"
| "to_json_value (Object entries) =
     Object (sort_key fst (foldl (\<lambda>m e. AList.update (fst e) (snd e) m) []
       (map (\<lambda>e. (fst e, to_json_value (snd e))) entries)))"
| "to_json_value v = v"

definition validate_selected ::
    "(str \<Rightarrow> str) \<Rightarrow> schema_registry \<Rightarrow> resource_limits \<Rightarrow> json \<Rightarrow> str \<Rightarrow> core_error fault + unit" where
  "validate_selected nfc reg rl v schema_name =
     (case map_of (documents reg) schema_name of
        None \<Rightarrow> fails SchemaInvalid
      | Some root_schema \<Rightarrow>
          bindE (validate_annotated nfc (documents reg) rl [\<lparr> entry_file = schema_name, entry_path = [] \<rparr>] v) (\<lambda>_.
          bindE (lift_err (validate_object_semantics v schema_name)) (\<lambda>_.
          case map_of (validators reg) schema_name of
            None \<Rightarrow> fails SchemaInvalid
          | Some accepts \<Rightarrow> if accepts (to_json_value v) then Inr () else fails SchemaInvalid)))"

definition validate_with_limits :: "(str \<Rightarrow> str) \<Rightarrow> schema_registry \<Rightarrow> resource_limits \<Rightarrow> json \<Rightarrow> core_error fault + unit" where
  "validate_with_limits nfc reg rl v =
     bindE (canonical_json_with_limits nfc rl v) (\<lambda>_.
     bindE (lift_err (select_schema v)) (\<lambda>schema_name.
     validate_selected nfc reg rl v schema_name))"

definition validate :: "(str \<Rightarrow> str) \<Rightarrow> schema_registry \<Rightarrow> json \<Rightarrow> core_error fault + unit" where
  "validate nfc reg v = validate_with_limits nfc reg default_limits v"

record validated_object =
  vo_value :: json
  vo_canonical_bytes :: bytes
  vo_oid :: str
  vo_schema_name :: str

definition finish_ingestion ::
    "(bytes \<Rightarrow> bytes) \<Rightarrow> (str \<Rightarrow> str) \<Rightarrow> schema_registry \<Rightarrow> resource_limits \<Rightarrow> str option \<Rightarrow> json
      \<Rightarrow> core_error fault + validated_object" where
  "finish_ingestion sha256 nfc reg rl claimed v =
     bindE (canonical_json_with_limits nfc rl v) (\<lambda>canonical.
     bindE (lift_err (select_schema v)) (\<lambda>schema_name.
     bindE (validate_selected nfc reg rl v schema_name) (\<lambda>_.
     bindE (structured_oid_unchecked_with_limits sha256 nfc rl v) (\<lambda>oid.
     if claimed \<noteq> None \<and> claimed \<noteq> Some oid then fails OidMismatch
     else Inr \<lparr> vo_value = v, vo_canonical_bytes = canonical, vo_oid = oid, vo_schema_name = schema_name \<rparr>))))"

definition ingest_with_limits ::
    "(bytes \<Rightarrow> bytes) \<Rightarrow> (str \<Rightarrow> str) \<Rightarrow> schema_registry \<Rightarrow> resource_limits \<Rightarrow> bytes \<Rightarrow> core_error fault + validated_object" where
  "ingest_with_limits sha256 nfc reg rl input =
     bindE (parse_strict_with_limits nfc rl input) (\<lambda>v. finish_ingestion sha256 nfc reg rl None v)"

definition ingest_claimed_with_limits ::
    "(bytes \<Rightarrow> bytes) \<Rightarrow> (str \<Rightarrow> str) \<Rightarrow> schema_registry \<Rightarrow> resource_limits \<Rightarrow> str \<Rightarrow> bytes
      \<Rightarrow> core_error fault + validated_object" where
  "ingest_claimed_with_limits sha256 nfc reg rl claimed input =
     bindE (parse_strict_with_limits nfc rl input) (\<lambda>v. finish_ingestion sha256 nfc reg rl (Some claimed) v)"

definition ingest ::
    "(bytes \<Rightarrow> bytes) \<Rightarrow> (str \<Rightarrow> str) \<Rightarrow> schema_registry \<Rightarrow> bytes \<Rightarrow> core_error fault + validated_object" where
  "ingest sha256 nfc reg input = ingest_with_limits sha256 nfc reg default_limits input"

definition ingest_claimed ::
    "(bytes \<Rightarrow> bytes) \<Rightarrow> (str \<Rightarrow> str) \<Rightarrow> schema_registry \<Rightarrow> str \<Rightarrow> bytes \<Rightarrow> core_error fault + validated_object" where
  "ingest_claimed sha256 nfc reg claimed input = ingest_claimed_with_limits sha256 nfc reg default_limits claimed input"

section \<open>Building the registry\<close>

fun audit_schema_node :: "json \<Rightarrow> core_error + unit" where
  "audit_schema_node (Array values) = eachE audit_schema_node values"
| "audit_schema_node (Object object) =
     bindE (if get_str (Object object) ''type'' = Some ''array'' then
              (let order = get_str (Object object) ''x-synapse-order'' in
               if order \<noteq> Some ''set'' \<and> order \<noteq> Some ''sequence'' then Inl SchemaInvalid
               else if order = Some ''set'' \<and> json_get (Object object) ''uniqueItems'' \<noteq> Some (Bool True) then Inl SchemaInvalid
               else Inr ())
            else Inr ()) (\<lambda>_.
     eachE (\<lambda>e. audit_schema_node (snd e)) object)"
| "audit_schema_node v = Inr ()"

definition audit_record_dispatch :: "(str \<times> json) list \<Rightarrow> core_error + unit" where
  "audit_record_dispatch docs =
     (case Option.bind (entry_schema docs \<lparr> entry_file = ''record-envelope.schema.json'',
              entry_path = [Key ''properties'', Key ''record_type'', Key ''enum''] \<rparr>) as_array of
        None \<Rightarrow> Inl SchemaInvalid
      | Some envelope \<Rightarrow>
          if set (List.map_filter as_str envelope) \<noteq> set (map fst RECORD_SCHEMAS) then Inl SchemaInvalid
          else
            (case Option.bind (entry_schema docs \<lparr> entry_file = ''record.schema.json'', entry_path = [Key ''oneOf''] \<rparr>) as_array of
               None \<Rightarrow> Inl SchemaInvalid
             | Some dispatcher \<Rightarrow>
                 if set (List.map_filter (\<lambda>e. get_str e ''$ref'') dispatcher) \<noteq> set (map snd RECORD_SCHEMAS)
                 then Inl SchemaInvalid else Inr ()))"

definition SCHEMA_BASE :: str where
  "SCHEMA_BASE = ''https://schemas.synapsegit.dev/core/v0.1/''"

text \<open>The parsed text of one bundled document, with its \<open>$id\<close> set.\<close>

definition register_document :: "(str \<times> json) list \<Rightarrow> str \<times> json option \<Rightarrow> core_error + (str \<times> json) list" where
  "register_document docs source =
     (case Option.bind (snd source) as_object of
        None \<Rightarrow> Inl SchemaInvalid
      | Some object \<Rightarrow>
          let document = Object (AList.update ''$id'' (String (SCHEMA_BASE @ fst source)) object) in
          bindE (audit_schema_node document) (\<lambda>_. Inr (AList.update (fst source) document docs)))"

definition concrete_schema_names :: "str list" where
  "concrete_schema_names = map snd RECORD_SCHEMAS @ [''manifest-tree.schema.json'', ''commit.schema.json'']"

text \<open>\<open>compile\<close> is the third-party schema compiler, given the documents its retriever can reach.\<close>

definition registry_new ::
    "((str \<times> json) list \<Rightarrow> json \<Rightarrow> (json \<Rightarrow> bool) option) \<Rightarrow> (str \<times> json option) list \<Rightarrow> core_error + schema_registry" where
  "registry_new compile sources =
     bindE (foldE register_document [] sources) (\<lambda>docs.
     bindE (audit_record_dispatch docs) (\<lambda>_.
     bindE (mapE (\<lambda>name.
         case Option.bind (map_of docs name) (compile (map (\<lambda>(n, d). (SCHEMA_BASE @ n, d)) docs)) of
           None \<Rightarrow> Inl SchemaInvalid
         | Some accepts \<Rightarrow> Inr (name, accepts)) concrete_schema_names) (\<lambda>compiled.
     Inr \<lparr> documents = docs, validators = compiled \<rparr>)))"

section \<open>What expansion finds\<close>

inductive schema_reaches :: "(str \<times> json) list \<Rightarrow> schema_entry set \<Rightarrow> schema_entry \<Rightarrow> bool" for docs roots where
  reaches_start: "e \<in> roots \<Longrightarrow> object_entry docs e \<Longrightarrow> schema_reaches docs roots e"
| reaches_successor: "schema_reaches docs roots e \<Longrightarrow> s \<in> set (entry_successors docs e) \<Longrightarrow> object_entry docs s
    \<Longrightarrow> schema_reaches docs roots s"

lemma expand_from_new:
  "set (expand_from docs seen pending) \<inter> set seen = {} \<and> distinct (expand_from docs seen pending)"
  by (induction docs seen pending rule: expand_from.induct) auto

lemma expand_from_sound:
  "e \<in> set (expand_from docs seen pending) \<Longrightarrow> schema_reaches docs (set pending) e"
proof (induction docs seen pending rule: expand_from.induct)
  case (2 docs seen x pending)
  have mono: "schema_reaches docs A e \<Longrightarrow> A \<subseteq> B \<Longrightarrow> schema_reaches docs B e" for A B e
    by (induction rule: schema_reaches.induct) (auto intro: schema_reaches.intros)
  show ?case
  proof (cases "\<not> object_entry docs x \<or> x \<in> set seen")
    case True
    then show ?thesis using 2 mono [of "set pending" e "set (x # pending)"] by auto
  next
    case False
    have lift: "schema_reaches docs (set (x # pending)) y"
      if "schema_reaches docs (set (entry_successors docs x @ pending)) y" for y
      using that
    proof induction
      case (reaches_start y)
      then show ?case using False by (auto intro: schema_reaches.intros)
    next
      case (reaches_successor y s)
      then show ?case by (auto intro: schema_reaches.intros)
    qed
    show ?thesis using 2 False lift by (auto intro: schema_reaches.reaches_start)
  qed
qed simp

lemma expand_from_complete:
  assumes "\<And>s t. s \<in> set seen \<Longrightarrow> t \<in> set (entry_successors docs s) \<Longrightarrow> object_entry docs t \<Longrightarrow> t \<in> set seen \<union> set pending"
    and "schema_reaches docs (set pending) e"
  shows "e \<in> set seen \<union> set (expand_from docs seen pending)"
  using assms
proof (induction docs seen pending rule: expand_from.induct)
  case (1 docs seen)
  have False using 1(2) by (induction rule: schema_reaches.induct) auto
  then show ?case ..
next
  case (2 docs seen x pending)
  show ?case
  proof (cases "\<not> object_entry docs x \<or> x \<in> set seen")
    case True
    have closed: "y \<in> set seen \<or> schema_reaches docs (set pending) y" if "schema_reaches docs (set (x # pending)) y" for y
      using that
    proof induction
      case (reaches_start y)
      then show ?case using True by (auto intro: schema_reaches.intros)
    next
      case (reaches_successor y s)
      then show ?case using 2(3) [of y s] True by (auto intro: schema_reaches.intros)
    qed
    moreover have "t \<in> set seen \<union> set pending"
      if "s \<in> set seen" "t \<in> set (entry_successors docs s)" "object_entry docs t" for s t
      using 2(3) [OF that] True that(3) by auto
    ultimately show ?thesis using 2(1) [OF True] 2(4) True by auto
  next
    case False
    have closed: "y \<in> set (x # seen) \<or> schema_reaches docs (set (entry_successors docs x @ pending)) y"
      if "schema_reaches docs (set (x # pending)) y" for y
      using that
    proof induction
      case (reaches_start y)
      then show ?case by (auto intro: schema_reaches.intros)
    next
      case (reaches_successor y s)
      then show ?case using 2(3) [of y s] by (auto intro: schema_reaches.intros)
    qed
    have "t \<in> set (x # seen) \<union> set (entry_successors docs x @ pending)"
      if "s \<in> set (x # seen)" "t \<in> set (entry_successors docs s)" "object_entry docs t" for s t
      using that 2(3) [of s t] by auto
    then show ?thesis using 2(2) [OF False] 2(4) False closed [OF 2(4)] by auto
  qed
qed

lemma expand_entries_set: "set (expand_entries docs es) = {e. schema_reaches docs (set es) e}"
  using expand_from_sound [of _ docs "[]" es] expand_from_complete [of "[]" docs es] by (auto simp: expand_entries_def)

end
