(* ===== verification/Schema_Laws.thy ===== *)
theory Schema_Laws
  imports Schema_Validation Object_Store_Laws
begin

text \<open>
  What the ingestion boundary promises: the checks an accepted object has passed, in terms of the
  numbers and instants its text denotes, and that the canonical bytes of an accepted object are
  accepted again under the same OID.
\<close>

section \<open>Key order does not matter\<close>

lemma get_str_ordered: "json_fits nfc rl d v \<Longrightarrow> get_str (key_ordered v) k = get_str v k"
  by (simp add: get_str_def json_get_key_ordered Option.bind_map_option as_str_key_ordered comp_def)

lemma as_i64_ordered: "as_i64 (key_ordered v) = as_i64 v"
  by (cases v) simp_all

lemma fits_child: "json_fits nfc rl d v \<Longrightarrow> json_get v k = Some w \<Longrightarrow> json_fits nfc rl (Suc d) w"
  by (cases v) (auto simp: find_entry_map_of dest!: map_of_SomeD)

lemma scaled_integer_ordered: "json_fits nfc rl d v \<Longrightarrow> scaled_integer_of (key_ordered v) = scaled_integer_of v"
  by (auto simp: scaled_integer_of_def get_str_ordered json_get_key_ordered Option.bind_map_option as_i64_ordered comp_def
      split: option.split)

lemma scaled_child_ordered:
  assumes "json_fits nfc rl d v"
  shows "Option.bind (json_get (key_ordered v) k) scaled_integer_of = Option.bind (json_get v k) scaled_integer_of"
  using assms fits_child [OF assms, of k] by (cases "json_get v k") (auto simp: json_get_key_ordered scaled_integer_ordered)

lemma scaled_parts_ordered:
  assumes "json_fits nfc rl d (Object es)"
  shows "validate_scaled_integer (key_ordered (Object es)) = validate_scaled_integer (Object es)"
proof -
  have "find_entry (sort_entries (map (\<lambda>e. (fst e, key_ordered (snd e))) es)) k = map_option key_ordered (find_entry es k)" for k
    using json_get_key_ordered [OF assms, of k] by simp
  then show ?thesis
    by (simp add: validate_scaled_integer_def Option.bind_map_option as_str_key_ordered as_i64_ordered comp_def)
qed

lemma common_defs_ordered:
  assumes "json_fits nfc rl d (Object es)"
  shows "check_common_defs docs xs (key_ordered (Object es)) = check_common_defs docs xs (Object es)"
proof -
  note get = get_str_ordered [OF assms] and child = scaled_child_ordered [OF assms]
  have "validate_valid_time (key_ordered (Object es)) = validate_valid_time (Object es)"
    "validate_temporal_precision (key_ordered (Object es)) = validate_temporal_precision (Object es)"
    "validate_confidence (key_ordered (Object es)) = validate_confidence (Object es)"
    unfolding validate_valid_time_def validate_temporal_precision_def validate_confidence_def get child by simp_all
  then show ?thesis using scaled_parts_ordered [OF assms] unfolding check_common_defs_def by (simp del: key_ordered.simps)
qed

lemma canonical_ordered:
  assumes "limits_usize rl"
  shows "canonical_json_with_limits nfc rl (key_ordered v) = Inr out \<longleftrightarrow> canonical_json_with_limits nfc rl v = Inr out"
  by (simp add: canonical_json_iff [OF assms])

lemma set_items_ordered:
  assumes "limits_usize rl"
  shows "check_set_items nfc rl p (map key_ordered vs) = Inr () \<longleftrightarrow> check_set_items nfc rl p vs = Inr ()"
  by (induction vs arbitrary: p)
    (auto simp: result_simps canonical_ordered [OF assms] split: option.splits ordering.splits)

lemma check_array_ordered:
  assumes "limits_usize rl"
  shows "check_array nfc docs rl xs (map key_ordered vs) = Inr () \<longleftrightarrow> check_array nfc docs rl xs vs = Inr ()"
  by (auto simp: check_array_def result_simps set_items_ordered [OF assms])

lemma is_ok_unit: "is_ok (r :: 'e + unit) \<longleftrightarrow> r = Inr ()"
  by (cases r) auto

lemma annotated_ordered:
  assumes rl: "limits_usize rl" and "json_fits nfc rl d v"
  shows "validate_annotated nfc docs rl es (key_ordered v) = Inr () \<longleftrightarrow> validate_annotated nfc docs rl es v = Inr ()"
  using assms(2)
proof (induction v arbitrary: d es rule: json_induct)
  case (Array vs)
  then have "validate_annotated nfc docs rl fs (key_ordered v) = Inr () \<longleftrightarrow> validate_annotated nfc docs rl fs v = Inr ()"
    if "v \<in> set vs" for v fs using that by auto
  then show ?case by (auto simp: result_simps check_array_ordered [OF rl] is_ok_unit)
next
  case (Object os)
  have child: "validate_annotated nfc docs rl fs (key_ordered (snd e)) = Inr () \<longleftrightarrow> validate_annotated nfc docs rl fs (snd e) = Inr ()"
    if "e \<in> set os" for e fs
  proof -
    have "json_fits nfc rl (Suc d) (snd e)" using Object.prems that by simp
    then show ?thesis using Object.IH [of "fst e" "snd e"] that by simp
  qed
  show ?case
    using common_defs_ordered [OF Object.prems] child by (auto simp: result_simps is_ok_unit)
qed auto

lemma foldl_update_fresh:
  "distinct (map fst es) \<Longrightarrow> fst ` set es \<inter> fst ` set m = {} \<Longrightarrow> foldl (\<lambda>m e. AList.update (fst e) (snd e) m) m es = m @ es"
proof (induction es arbitrary: m)
  case (Cons e es)
  have "AList.update k v m = m @ [(k, v)]" if "k \<notin> fst ` set m" for k v and m :: "('a \<times> 'b) list"
    using that by (induction m) auto
  then show ?case using Cons by simp
qed simp

lemma sort_key_fst_perm:
  assumes "mset es = mset fs" "distinct (map fst es)"
  shows "sort_key fst es = sort_key fst fs"
proof (rule sort_key_inj_key_eq)
  show "mset es = mset (sort_key fst fs)" using assms(1) by simp
  show "inj_on fst (set es)" using assms(2) by (simp add: distinct_map)
qed simp

lemma to_json_value_ordered:
  "json_fits nfc rl d v \<Longrightarrow> to_json_value (key_ordered v) = to_json_value v"
proof (induction v arbitrary: d rule: json_induct)
  case (Array vs)
  then show ?case by auto
next
  case (Object os)
  have child: "to_json_value (key_ordered (snd e)) = to_json_value (snd e)" if "e \<in> set os" for e
  proof -
    have "json_fits nfc rl (Suc d) (snd e)" using Object.prems that by simp
    then show ?thesis using Object.IH [of "fst e" "snd e"] that by simp
  qed
  let ?g = "map (\<lambda>e. (fst e, to_json_value (snd e)))"
  let ?os = "sort_entries (map (\<lambda>e. (fst e, key_ordered (snd e))) os)"
  have d: "distinct (map fst os)" using Object.prems by simp
  then have d': "distinct (map fst ?os)" by (simp add: distinct_sort_entries comp_def)
  have "mset (?g ?os) = mset (?g (map (\<lambda>e. (fst e, key_ordered (snd e))) os))" by (simp add: sort_entries_def image_mset.compositionality)
  also have "?g (map (\<lambda>e. (fst e, key_ordered (snd e))) os) = ?g os" using child by simp
  finally have "sort_key fst (?g ?os) = sort_key fst (?g os)"
    by (rule sort_key_fst_perm) (use d' in \<open>simp add: comp_def\<close>)
  then show ?case using d d' by (simp add: foldl_update_fresh comp_def)
qed auto

lemma select_schema_ordered: "json_fits nfc rl d v \<Longrightarrow> select_schema (key_ordered v) = select_schema v"
  unfolding select_schema_def by (simp only: get_str_ordered)

lemma manifest_ordered:
  assumes "json_fits nfc rl d v"
  shows "validate_manifest (key_ordered v) = Inr () \<longleftrightarrow> validate_manifest v = Inr ()"
proof (cases "json_get v ''entries''")
  case (Some w)
  note w = fits_child [OF assms Some]
  show ?thesis
  proof (cases w)
    case (Object es)
    have "check_manifest_entry (fst e, key_ordered (snd e)) = check_manifest_entry e" if "e \<in> set es" for e
    proof -
      have "json_fits nfc rl (Suc (Suc d)) (snd e)" using w Object that by simp
      then show ?thesis unfolding check_manifest_entry_def by (simp only: fst_conv snd_conv get_str_ordered)
    qed
    then show ?thesis using Some Object by (auto simp: validate_manifest_def json_get_key_ordered [OF assms] result_simps)
  qed (use Some in \<open>simp_all add: validate_manifest_def json_get_key_ordered [OF assms]\<close>)
qed (simp add: validate_manifest_def json_get_key_ordered [OF assms])

lemma semantics_ordered:
  assumes "json_fits nfc rl d v"
  shows "validate_object_semantics (key_ordered v) name = Inr () \<longleftrightarrow> validate_object_semantics v name = Inr ()"
proof -
  have payload: "Option.bind (json_get (key_ordered v) ''payload'') (\<lambda>p. get_str p k)
      = Option.bind (json_get v ''payload'') (\<lambda>p. get_str p k)" for k
    using fits_child [OF assms, of "''payload''"]
    by (cases "json_get v ''payload''") (auto simp: json_get_key_ordered [OF assms] get_str_ordered)
  have "validate_delegation_expiration (key_ordered v) = validate_delegation_expiration v"
    unfolding validate_delegation_expiration_def get_str_ordered [OF assms] payload by simp
  then show ?thesis
    using manifest_ordered [OF assms]
    by (auto simp: validate_object_semantics_def get_str_ordered [OF assms] json_get_key_ordered [OF assms] result_simps
        split: if_splits)
qed

lemma validate_selected_ordered:
  assumes "limits_usize rl" "json_fits nfc rl d v"
  shows "validate_selected nfc reg rl (key_ordered v) name = Inr () \<longleftrightarrow> validate_selected nfc reg rl v name = Inr ()"
  using annotated_ordered [OF assms] semantics_ordered [OF assms(2)] to_json_value_ordered [OF assms(2)]
  by (auto simp: validate_selected_def result_simps split: option.splits if_splits)

section \<open>Properties\<close>

text \<open>
  C37: annotations are collected along every \<open>$ref\<close>, \<open>allOf\<close>, \<open>oneOf\<close> and \<open>anyOf\<close>: expansion ends even on
  schemas that refer to each other in a cycle, and returns exactly the reachable object schemas,
  each once.
\<close>

theorem expand_exact:
  "set (expand_entries docs es) = {e. schema_reaches docs (set es) e} \<and> distinct (expand_entries docs es)"
  using expand_entries_set expand_from_new [of docs "[]" es] by (simp add: expand_entries_def)

lemma finish_ingestion_ok:
  "finish_ingestion sha256 nfc reg rl claimed v = Inr ob \<longleftrightarrow>
    (\<exists>canonical name oid. canonical_json_with_limits nfc rl v = Inr canonical \<and> select_schema v = Inr name
      \<and> validate_selected nfc reg rl v name = Inr () \<and> structured_oid_unchecked_with_limits sha256 nfc rl v = Inr oid
      \<and> (claimed = None \<or> claimed = Some oid)
      \<and> ob = \<lparr> vo_value = v, vo_canonical_bytes = canonical, vo_oid = oid, vo_schema_name = name \<rparr>)"
  by (auto simp: finish_ingestion_def result_simps split: if_splits)

lemma structured_oid_ordered:
  assumes "limits_usize rl" "json_fits nfc rl d v" "structured_oid_unchecked_with_limits sha256 nfc rl v = Inr oid"
  shows "structured_oid_unchecked_with_limits sha256 nfc rl (key_ordered v) = Inr oid"
  using assms(3) get_str_ordered [OF assms(2), of "''object_type''"]
  by (auto simp: structured_oid_unchecked_with_limits_def result_simps canonical_ordered [OF assms(1)] get_str_def split: if_splits)

lemma ingest_again:
  assumes "limits_usize rl" "max_canonical_bytes rl \<le> max_input_bytes rl"
    and "ingest_with_limits sha256 nfc reg rl input = Inr ob"
  shows "ingest_claimed_with_limits sha256 nfc reg rl (vo_oid ob) (vo_canonical_bytes ob)
      = Inr (ob\<lparr> vo_value := key_ordered (vo_value ob) \<rparr>)"
    and "validate_with_limits nfc reg rl (vo_value ob) = Inr ()"
    and "validate_with_limits nfc reg rl (key_ordered (vo_value ob)) = Inr ()"
    and "parse_strict_with_limits nfc rl (vo_canonical_bytes ob) = Inr (key_ordered (vo_value ob))"
proof -
  from assms(3) obtain v where p: "parse_strict_with_limits nfc rl input = Inr v"
    and f: "finish_ingestion sha256 nfc reg rl None v = Inr ob" by (auto simp: ingest_with_limits_def result_simps)
  from f obtain canonical name oid where c: "canonical_json_with_limits nfc rl v = Inr canonical" "select_schema v = Inr name"
      "validate_selected nfc reg rl v name = Inr ()" "structured_oid_unchecked_with_limits sha256 nfc rl v = Inr oid"
    and ob: "ob = \<lparr> vo_value = v, vo_canonical_bytes = canonical, vo_oid = oid, vo_schema_name = name \<rparr>"
    unfolding finish_ingestion_ok by auto
  have v: "json_fits nfc rl 0 v" "json_utf8 v" "json_nodes v \<le> max_nodes rl" "max_nesting_depth rl \<le> HARD_MAX_NESTING_DEPTH"
    using safely_value [OF parse_strict_safe p] by auto
  have "canonical = render v" "length (render v) \<le> max_canonical_bytes rl"
    using c(1) by (simp_all add: canonical_json_iff [OF assms(1)])
  then have again: "parse_strict_with_limits nfc rl canonical = Inr (key_ordered v)"
    using v assms(1,2) by (simp add: parse_render)
  have fin: "finish_ingestion sha256 nfc reg rl (Some oid) (key_ordered v) = Inr (ob\<lparr> vo_value := key_ordered v \<rparr>)"
    unfolding finish_ingestion_ok
    using c structured_oid_ordered [OF assms(1) v(1) c(4)] canonical_ordered [OF assms(1)] select_schema_ordered [OF v(1)]
      validate_selected_ordered [OF assms(1) v(1)] by (auto simp: ob)
  then have "validate_with_limits nfc reg rl (key_ordered v) = Inr ()"
    by (auto simp: finish_ingestion_ok validate_with_limits_def)
  then show "ingest_claimed_with_limits sha256 nfc reg rl (vo_oid ob) (vo_canonical_bytes ob)
      = Inr (ob\<lparr> vo_value := key_ordered (vo_value ob) \<rparr>)"
    "validate_with_limits nfc reg rl (vo_value ob) = Inr ()"
    "validate_with_limits nfc reg rl (key_ordered (vo_value ob)) = Inr ()"
    "parse_strict_with_limits nfc rl (vo_canonical_bytes ob) = Inr (key_ordered (vo_value ob))"
    using c again fin by (simp_all add: ob ingest_claimed_with_limits_def validate_with_limits_def)
qed

text \<open>
  C35: an accepted object stays accepted. The canonical bytes that ingestion returns are accepted
  again, under the returned OID as claim, with the same bytes and OID; the value is the same up to
  the order of keys, and passes \<open>validate_with_limits\<close>. The limits admit as many bytes of input as of
  canonical output, as the default limits do.
\<close>

theorem ingest_stable:
  assumes "limits_usize rl" "max_canonical_bytes rl \<le> max_input_bytes rl"
    and "ingest_with_limits sha256 nfc reg rl input = Inr ob"
  shows "ingest_claimed_with_limits sha256 nfc reg rl (vo_oid ob) (vo_canonical_bytes ob)
      = Inr (ob\<lparr> vo_value := key_ordered (vo_value ob) \<rparr>)
    \<and> validate_with_limits nfc reg rl (vo_value ob) = Inr ()"
  using ingest_again(1,2) [OF assms] by simp

definition sample_registry :: schema_registry where
  "sample_registry = \<lparr> documents = [(''manifest-tree.schema.json'', Object [(''type'', String ''object'')])],
     validators = [(''manifest-tree.schema.json'', is_object)] \<rparr>"

theorem ingest_stable_witness:
  "\<exists>ob. ingest_with_limits sample_hash (\<lambda>s. s) sample_registry default_limits ''{ \"object_type\" : \"tree\" }'' = Inr ob
     \<and> ingest_claimed_with_limits sample_hash (\<lambda>s. s) sample_registry default_limits (vo_oid ob) (vo_canonical_bytes ob)
        = Inr (ob\<lparr> vo_value := key_ordered (vo_value ob) \<rparr>)"
proof -
  have "is_ok (ingest_with_limits sample_hash (\<lambda>s. s) sample_registry default_limits ''{ \"object_type\" : \"tree\" }'')"
    "limits_usize default_limits" "max_canonical_bytes default_limits \<le> max_input_bytes default_limits" by code_simp+
  then show ?thesis using ingest_stable [of default_limits sample_hash "\<lambda>s. s" sample_registry] by (auto simp: is_ok_iff)
qed

lemma validated_parts:
  assumes "validate_with_limits nfc reg rl v = Inr ()"
  obtains name root accepts where "select_schema v = Inr name" "validate_object_semantics v name = Inr ()"
    "map_of (documents reg) name = Some root" "validate_annotated nfc (documents reg) rl [\<lparr> entry_file = name, entry_path = [] \<rparr>] v = Inr ()"
    "map_of (validators reg) name = Some accepts" "accepts (to_json_value v)"
  using assms by (auto simp: validate_with_limits_def validate_selected_def result_simps split: option.splits if_splits)

lemma validated_instant: "validate_timestamp s = Inr () \<Longrightarrow> \<exists>n. parse_canonical_timestamp_unix_nanos s = Inr n"
  by (auto simp: validate_timestamp_def timestamp_parse_def is_ok_iff result_simps split: if_splits)

lemma manifest_entry_ok:
  assumes "check_manifest_entry (segment, entry) = Inr ()"
  shows "is_portable_segment segment \<and> (get_str entry ''entry_kind'' = Some kind \<longrightarrow> get_str entry ''oid'' = Some oid \<longrightarrow>
    parse_oid oid = Inr k \<longrightarrow> kind = kind_prefix k)"
proof -
  have "hd (split_on (CHR '':'') oid) = kind_prefix k" if "parse_oid oid = Inr k"
    using that by (metis parse_oid_cases split_format_oid list.sel(1))
  then show ?thesis using assms by (auto simp: check_manifest_entry_def split: if_splits)
qed

text \<open>
  C36: what is guaranteed of an accepted object. Its schema is selected by its type and both the walk along the
  annotations of that schema and the compiled validator of that schema accept it; a Tree has only portable segments,
  each naming an OID of the family its entry kind says; an Observation has no \<open>valid_time\<close>; a DelegationGrant does not
  expire before the instant it was recorded at.
\<close>

theorem validated_semantics:
  assumes "validate_with_limits nfc reg rl v = Inr ()"
  shows "(\<exists>name root accepts. select_schema v = Inr name \<and> map_of (documents reg) name = Some root
      \<and> validate_annotated nfc (documents reg) rl [\<lparr> entry_file = name, entry_path = [] \<rparr>] v = Inr ()
      \<and> map_of (validators reg) name = Some accepts \<and> accepts (to_json_value v))
    \<and> (get_str v ''record_type'' = Some ''observation'' \<longrightarrow> json_get v ''valid_time'' = None)
    \<and> (get_str v ''object_type'' = Some ''tree'' \<longrightarrow> Option.bind (json_get v ''entries'') as_object = Some entries \<longrightarrow>
      (segment, entry) \<in> set entries \<longrightarrow> is_portable_segment segment
        \<and> (get_str entry ''entry_kind'' = Some kind \<longrightarrow> get_str entry ''oid'' = Some oid \<longrightarrow> parse_oid oid = Inr k \<longrightarrow> kind = kind_prefix k))
    \<and> (get_str v ''record_type'' = Some ''delegation_grant'' \<longrightarrow> get_str v ''recorded_at'' = Some recorded \<longrightarrow>
      Option.bind (json_get v ''payload'') (\<lambda>p. get_str p ''expires_at'') = Some expires \<longrightarrow>
      (\<exists>a b. parse_canonical_timestamp_unix_nanos recorded = Inr a \<and> parse_canonical_timestamp_unix_nanos expires = Inr b \<and> a \<le> b))"
proof (intro conjI impI)
  obtain name root accepts where name: "select_schema v = Inr name" "validate_object_semantics v name = Inr ()"
    and schema: "map_of (documents reg) name = Some root" "validate_annotated nfc (documents reg) rl [\<lparr> entry_file = name, entry_path = [] \<rparr>] v = Inr ()"
      "map_of (validators reg) name = Some accepts" "accepts (to_json_value v)"
    using assms by (rule validated_parts)
  from name(1) schema show "\<exists>name root accepts. select_schema v = Inr name \<and> map_of (documents reg) name = Some root
      \<and> validate_annotated nfc (documents reg) rl [\<lparr> entry_file = name, entry_path = [] \<rparr>] v = Inr ()
      \<and> map_of (validators reg) name = Some accepts \<and> accepts (to_json_value v)" by blast
  show "json_get v ''valid_time'' = None" if "get_str v ''record_type'' = Some ''observation''"
    using name(2) that by (auto simp: validate_object_semantics_def result_simps split: if_splits)
  {
    assume t: "get_str v ''object_type'' = Some ''tree''" and e: "Option.bind (json_get v ''entries'') as_object = Some entries"
      and m: "(segment, entry) \<in> set entries"
    have "name = ''manifest-tree.schema.json''" using name(1) t by (simp add: select_schema_def)
    then have "validate_manifest v = Inr ()" using name(2) by (simp add: validate_object_semantics_def result_simps)
    then have ok: "check_manifest_entry (segment, entry) = Inr ()"
      using e m by (auto simp: validate_manifest_def result_simps is_ok_unit)
    show "is_portable_segment segment" using manifest_entry_ok [OF ok] by blast
    show "kind = kind_prefix k" if "get_str entry ''entry_kind'' = Some kind" "get_str entry ''oid'' = Some oid" "parse_oid oid = Inr k"
      using manifest_entry_ok [OF ok, of kind oid k] that by blast
  next
    assume "get_str v ''record_type'' = Some ''delegation_grant''" "get_str v ''recorded_at'' = Some recorded"
      "Option.bind (json_get v ''payload'') (\<lambda>p. get_str p ''expires_at'') = Some expires"
    then have ok: "validate_timestamp recorded = Inr ()" "validate_timestamp expires = Inr ()" "\<not> expires < recorded"
      using name(2) by (auto simp: validate_object_semantics_def validate_delegation_expiration_def result_simps split: if_splits)
    then obtain a b where "parse_canonical_timestamp_unix_nanos recorded = Inr a" "parse_canonical_timestamp_unix_nanos expires = Inr b"
      using validated_instant by blast
    then show "\<exists>a b. parse_canonical_timestamp_unix_nanos recorded = Inr a \<and> parse_canonical_timestamp_unix_nanos expires = Inr b \<and> a \<le> b"
      using ok(3) parse_order [of expires b recorded a] by (auto simp: not_less)
  }
qed

definition sample_manifest :: json where
  "sample_manifest = Object [(''object_type'', String ''tree''),
     (''entries'', Object [(''a.txt'', Object [(''entry_kind'', String ''blob''), (''oid'', String (blob_oid sample_hash ''hi''))])])]"

theorem validated_semantics_witness:
  "validate_with_limits (\<lambda>s. s) sample_registry default_limits sample_manifest = Inr () \<and> is_portable_segment ''a.txt''"
proof -
  have v: "validate_with_limits (\<lambda>s. s) sample_registry default_limits sample_manifest = Inr ()" by code_simp
  show ?thesis
    using validated_semantics [OF v, of "[(''a.txt'', Object [(''entry_kind'', String ''blob''), (''oid'', String (blob_oid sample_hash ''hi''))])]"
        "''a.txt''"] v by (auto simp: sample_manifest_def get_str_def)
qed

end
