(* ===== verification/Repository.thy ===== *)
theory Repository
  imports Closure_Properties Ref_Store Schema_Laws
begin

text \<open>
  The repository facade, \<^verbatim>\<open>src/crates/synapse-core/src/lib.rs\<close>: the object store, the Ref store and
  the schema boundary composed into the operations a client calls.

  \<^item> \<open>Repository\<close> is the record \<^verbatim>\<open>repository\<close>. An operation is an action on it: its \<open>Result\<close> and the
    repository afterwards, errors included. \<open>sha256\<close>, \<open>nfc\<close> and the schema registry are arguments.
  \<^item> A \<open>PathBuf\<close> of an error and every message are dropped; \<open>code\<close> keeps what a client can test.
  \<^item> fsck reads through a memo of verified objects; over a store that does not change meanwhile the
    memo answers like the store, so the store is read directly.
\<close>

section \<open>Errors\<close>

datatype repository_error =
    RepoReadOnly
  | RepositoryNotFound
  | RepoCore core_error
  | RepoStore store_error
  | RepoRefStore ref_store_error
  | RepoIo
  | RepoArchiveInvalid
  | ArchiveDestinationExists
  | RepositoryNotEmpty
  | RepoJson
  | RepoClock

primrec repository_error_code :: "repository_error \<Rightarrow> str" where
  "repository_error_code RepoReadOnly = ''read_only''"
| "repository_error_code RepositoryNotFound = ''repository_not_found''"
| "repository_error_code (RepoCore e) = error_code_as_str e"
| "repository_error_code (RepoStore e) =
     (case store_error_code e of None \<Rightarrow> ''storage_error'' | Some c \<Rightarrow> error_code_as_str c)"
| "repository_error_code (RepoRefStore e) = ref_store_error_code e"
| "repository_error_code RepoIo = ''storage_error''"
| "repository_error_code RepoArchiveInvalid = ''archive_invalid''"
| "repository_error_code ArchiveDestinationExists = ''archive_invalid''"
| "repository_error_code RepositoryNotEmpty = ''archive_not_empty''"
| "repository_error_code RepoJson = ''archive_invalid''"
| "repository_error_code RepoClock = ''storage_error''"

type_synonym 'a repo_result = "repository_error fault + 'a"

abbreviation of_core :: "core_error fault + 'a \<Rightarrow> 'a repo_result" where
  "of_core \<equiv> map_err (map_fault RepoCore)"

abbreviation of_store :: "'a store_result \<Rightarrow> 'a repo_result" where
  "of_store \<equiv> map_err (map_fault RepoStore)"

abbreviation of_refs :: "ref_store_error + 'a \<Rightarrow> 'a repo_result" where
  "of_refs \<equiv> map_err (\<lambda>e. Fail (RepoRefStore e))"

definition repo_resource_limit :: "'a repo_result" where
  "repo_resource_limit = fails (RepoCore ResourceLimit)"

section \<open>The state\<close>

record repository =
  objects :: file_store
  refs_of :: ref_store
  repo_graph_limits :: graph_limits
  repo_scan_limits :: tombstone_scan_limits
  repo_read_only :: bool

type_synonym 'a repo_action = "(repository, repository_error fault, 'a) action"

definition ensure_writable_repo :: "repository \<Rightarrow> unit repo_result" where
  "ensure_writable_repo r = (if repo_read_only r then fails RepoReadOnly else Inr ())"

definition on_objects :: "'a store_action \<Rightarrow> 'a repo_action" where
  "on_objects m r = (case m (objects r) of (res, st) \<Rightarrow> (of_store res, r\<lparr> objects := st \<rparr>))"

section \<open>Storing objects\<close>

definition repo_put_blob :: "(bytes \<Rightarrow> bytes) \<Rightarrow> bytes option list \<Rightarrow> put_result repo_action" where
  "repo_put_blob sha256 reader =
     bindA (readA ensure_writable_repo) (\<lambda>_. on_objects (put_blob sha256 reader))"

definition repo_put_blob_claimed :: "(bytes \<Rightarrow> bytes) \<Rightarrow> str \<Rightarrow> bytes option list \<Rightarrow> put_result repo_action" where
  "repo_put_blob_claimed sha256 claimed reader =
     bindA (readA ensure_writable_repo) (\<lambda>_. on_objects (put_blob_claimed sha256 claimed reader))"

definition store_validated ::
    "(bytes \<Rightarrow> bytes) \<Rightarrow> (str \<Rightarrow> str) \<Rightarrow> validated_object \<Rightarrow> put_result repo_action" where
  "store_validated sha256 nfc validated =
     on_objects (put_verified_raw sha256 nfc (vo_oid validated) (vo_canonical_bytes validated))"

definition put_object ::
    "(bytes \<Rightarrow> bytes) \<Rightarrow> (str \<Rightarrow> str) \<Rightarrow> schema_registry \<Rightarrow> bytes \<Rightarrow> put_result repo_action" where
  "put_object sha256 nfc reg input =
     bindA (readA ensure_writable_repo) (\<lambda>_.
     bindA (resultA (of_core (ingest sha256 nfc reg input))) (\<lambda>validated.
     store_validated sha256 nfc validated))"

definition put_object_as ::
    "(bytes \<Rightarrow> bytes) \<Rightarrow> (str \<Rightarrow> str) \<Rightarrow> schema_registry \<Rightarrow> object_kind \<Rightarrow> bytes \<Rightarrow> put_result repo_action" where
  "put_object_as sha256 nfc reg expected input =
     bindA (readA ensure_writable_repo) (\<lambda>_.
     if \<not> is_structured expected then resultA (fails (RepoCore SchemaInvalid))
     else
       bindA (resultA (of_core (ingest sha256 nfc reg input))) (\<lambda>validated.
       bindA (resultA (of_core (lift_err (parse_oid (vo_oid validated))))) (\<lambda>actual.
       if actual \<noteq> expected then resultA (fails (RepoCore ReferenceTypeMismatch))
       else store_validated sha256 nfc validated)))"

definition put_object_claimed ::
    "(bytes \<Rightarrow> bytes) \<Rightarrow> (str \<Rightarrow> str) \<Rightarrow> schema_registry \<Rightarrow> str \<Rightarrow> bytes \<Rightarrow> put_result repo_action" where
  "put_object_claimed sha256 nfc reg claimed input =
     bindA (readA ensure_writable_repo) (\<lambda>_.
     bindA (resultA (of_core (ingest_claimed sha256 nfc reg claimed input))) (\<lambda>validated.
     store_validated sha256 nfc validated))"

definition put_object_claimed_as ::
    "(bytes \<Rightarrow> bytes) \<Rightarrow> (str \<Rightarrow> str) \<Rightarrow> schema_registry \<Rightarrow> object_kind \<Rightarrow> str \<Rightarrow> bytes \<Rightarrow> put_result repo_action" where
  "put_object_claimed_as sha256 nfc reg expected claimed input =
     bindA (readA ensure_writable_repo) (\<lambda>_.
     if \<not> is_structured expected then resultA (fails (RepoCore SchemaInvalid))
     else
       bindA (resultA (of_core (lift_err (parse_oid claimed)))) (\<lambda>kind.
       if kind \<noteq> expected then resultA (fails (RepoCore ReferenceTypeMismatch))
       else
         bindA (resultA (of_core (ingest_claimed sha256 nfc reg claimed input))) (\<lambda>validated.
         store_validated sha256 nfc validated)))"

section \<open>Heads\<close>

definition error_code_str :: "store_error \<Rightarrow> str" where
  "error_code_str e = (case store_error_code e of None \<Rightarrow> ''storage_error'' | Some c \<Rightarrow> error_code_as_str c)"

fun issue_code :: "closure_issue_kind \<Rightarrow> str" where
  "issue_code MissingIssue = ''closure_missing''"
| "issue_code CorruptIssue = ''oid_mismatch''"
| "issue_code ReadFailureIssue = ''oid_mismatch''"
| "issue_code (TypeMismatchIssue _ _) = ''reference_type_mismatch''"
| "issue_code (SemanticMismatchIssue _ _) = ''reference_type_mismatch''"
| "issue_code InvalidObjectIssue = ''schema_invalid''"
| "issue_code (InvalidReferenceIssue _) = ''schema_invalid''"
| "issue_code (CycleIssue _) = ''schema_invalid''"
| "issue_code (ResourceLimitIssue _ _) = ''resource_limit''"

fun limit_issue :: "closure_issue_kind \<Rightarrow> bool" where
  "limit_issue (ResourceLimitIssue _ _) = True"
| "limit_issue _ = False"

definition limit_reached :: "closure_report \<Rightarrow> bool" where
  "limit_reached rp \<longleftrightarrow> truncated rp \<or> list_ex (\<lambda>i. limit_issue (issue_kind i)) (issues rp)"

definition validate_closure_report :: "closure_report \<Rightarrow> validation_error + unit" where
  "validate_closure_report rp =
     (if is_complete rp then Inr ()
      else if limit_reached rp then Inl (ValidationError ''resource_limit'')
      else case issues rp of
        [] \<Rightarrow> Inl (ValidationError ''resource_limit'')
      | issue # _ \<Rightarrow> Inl (ValidationError (issue_code (issue_kind issue))))"

definition as_validation :: "'a store_result \<Rightarrow> validation_error fault + 'a" where
  "as_validation m = map_err (map_fault (\<lambda>e. ValidationError (error_code_str e))) m"

definition validate_prepared_head :: "source \<Rightarrow> prepared_verifier \<Rightarrow> str \<Rightarrow> validation_error fault + unit" where
  "validate_prepared_head get verifier h =
     bindE (as_validation (verify_uncached get verifier h)) (\<lambda>rp. lift_err (validate_closure_report rp))"

definition validate_head ::
    "source \<Rightarrow> (object_kind \<Rightarrow> nat \<Rightarrow> str list store_result) \<Rightarrow> graph_limits \<Rightarrow> tombstone_scan_limits \<Rightarrow> str
      \<Rightarrow> validation_error fault + unit" where
  "validate_head get list_kind bounds scan h =
     bindE (map_err (\<lambda>e. Fail (ValidationError (ref_store_error_code e))) (validate_commit_oid h)) (\<lambda>_.
     bindE (as_validation (new_verifier get list_kind bounds scan)) (\<lambda>verifier.
     validate_prepared_head get verifier h))"

definition repo_validate_head ::
    "(bytes \<Rightarrow> bytes) \<Rightarrow> (str \<Rightarrow> str) \<Rightarrow> repository \<Rightarrow> str \<Rightarrow> validation_error fault + unit" where
  "repo_validate_head sha256 nfc r h =
     validate_head (get_verified sha256 nfc (objects r)) (list_oids_by_kind_limited (objects r))
       (repo_graph_limits r) (repo_scan_limits r) h"

text \<open>
  The closure handed to the Ref store. A panic would unwind through the transaction; it is kept as
  an error of its own here, and \<open>head_never_panics\<close> shows that it does not occur.
\<close>

definition caught :: "validation_error fault + unit \<Rightarrow> validation_error + unit" where
  "caught m = map_err (case_fault (\<lambda>e. e) (ValidationError ''panic'')) m"

definition repo_update_ref ::
    "(bytes \<Rightarrow> bytes) \<Rightarrow> (str \<Rightarrow> str) \<Rightarrow> ref_update \<Rightarrow> reflog_entry repo_action" where
  "repo_update_ref sha256 nfc up r =
     (case bindE (ensure_writable_repo r) (\<lambda>_.
        of_refs (compare_and_swap (\<lambda>h. caught (repo_validate_head sha256 nfc r h)) (refs_of r) up)) of
        Inl e \<Rightarrow> (Inl e, r)
      | Inr (entry, s) \<Rightarrow> (Inr entry, r\<lparr> refs_of := s \<rparr>))"

definition update_ref_with_preconditions ::
    "(bytes \<Rightarrow> bytes) \<Rightarrow> (str \<Rightarrow> str) \<Rightarrow> ref_update \<Rightarrow> ref_precondition list \<Rightarrow> reflog_entry repo_action" where
  "update_ref_with_preconditions sha256 nfc up preconditions r =
     (if preconditions = [] then repo_update_ref sha256 nfc up r
      else
        let validator = (\<lambda>h. caught (repo_validate_head sha256 nfc r h)) in
        case bindE (ensure_writable_repo r) (\<lambda>_.
          of_refs (compare_and_swap_with_preconditions_and_guard validator (validator (up_new_head up))
            (refs_of r) up preconditions)) of
          Inl e \<Rightarrow> (Inl e, r)
        | Inr (entry, s) \<Rightarrow> (Inr entry, r\<lparr> refs_of := s \<rparr>))"

section \<open>Consistency checks\<close>

definition repo_fsck :: "(bytes \<Rightarrow> bytes) \<Rightarrow> (str \<Rightarrow> str) \<Rightarrow> repository \<Rightarrow> fsck_report repo_result" where
  "repo_fsck sha256 nfc r =
     of_store (fsck sha256 nfc (objects r) (map head (load_snapshot (refs_of r))) (repo_graph_limits r))"

record fsck_limits =
  max_ref_roots :: nat
  fsck_max_objects :: nat
  fsck_max_object_bytes :: nat
  max_closure_nodes :: nat
  max_closure_edges :: nat
  fsck_tombstone_scan :: tombstone_scan_limits

definition default_fsck_limits :: fsck_limits where
  "default_fsck_limits = \<lparr> max_ref_roots = 100000, fsck_max_objects = 100000,
     fsck_max_object_bytes = 1024 * 1024 * 1024 * 1024, max_closure_nodes = 1000000,
     max_closure_edges = 10000000, fsck_tombstone_scan = default_tombstone_scan_limits \<rparr>"

definition validate_fsck_limits :: "fsck_limits \<Rightarrow> unit repo_result" where
  "validate_fsck_limits bounds =
     (if 0 \<in> {max_ref_roots bounds, fsck_max_objects bounds, max_closure_nodes bounds, max_closure_edges bounds,
             max_record_objects (fsck_tombstone_scan bounds)} then repo_resource_limit
      else if fsck_max_object_bytes bounds = 0 then repo_resource_limit
      else if max_record_bytes (fsck_tombstone_scan bounds) = 0 then repo_resource_limit
      else Inr ())"

definition checked_add_fsck_work :: "nat \<Rightarrow> nat \<Rightarrow> nat \<Rightarrow> nat repo_result" where
  "checked_add_fsck_work current additional limit =
     (case checked_add current additional of
        None \<Rightarrow> repo_resource_limit
      | Some new_total \<Rightarrow> if new_total > limit then repo_resource_limit else Inr new_total)"

record fsck_inventory =
  inv_verified :: nat
  inv_bytes :: nat
  inv_commits :: "str list"
  inv_issues :: "fsck_issue list"
  inv_tombstones :: tombstone_catalog

definition add_fsck_issue :: "fsck_issue \<Rightarrow> fsck_inventory \<Rightarrow> fsck_inventory" where
  "add_fsck_issue i fi = fi\<lparr> inv_issues := inv_issues fi @ [i] \<rparr>"

text \<open>One round of the loop over the inventory: the size of the stored file, then its verification.\<close>

definition fsck_read ::
    "(bytes \<Rightarrow> bytes) \<Rightarrow> (str \<Rightarrow> str) \<Rightarrow> file_store \<Rightarrow> str \<Rightarrow> nat \<Rightarrow> fsck_inventory \<Rightarrow> fsck_inventory repo_result" where
  "fsck_read sha256 nfc st oid byte_len fi =
     (case get_verified sha256 nfc st oid of
        Inr (Some ob) \<Rightarrow>
          if obj_byte_len ob \<noteq> byte_len then fails RepoIo
          else (case checked_add (inv_verified fi) 1 of
            None \<Rightarrow> repo_resource_limit
          | Some n \<Rightarrow>
              bindE (of_store (observe (inv_tombstones fi) ob)) (\<lambda>cat.
              Inr (fi\<lparr> inv_verified := n, inv_tombstones := cat \<rparr>)))
      | Inr None \<Rightarrow> Inr (add_fsck_issue (MissingScannedObject oid) fi)
      | Inl Panic \<Rightarrow> panics
      | Inl (Fail (CorruptObject _)) \<Rightarrow> Inr (add_fsck_issue (CorruptScannedObject oid) fi)
      | Inl (Fail e) \<Rightarrow>
          if store_error_code e = Some ResourceLimit then fails (RepoStore e)
          else Inr (add_fsck_issue (ReadFailureScanned oid) fi))"

definition fsck_object ::
    "(bytes \<Rightarrow> bytes) \<Rightarrow> (str \<Rightarrow> str) \<Rightarrow> file_store \<Rightarrow> fsck_limits \<Rightarrow> fsck_inventory \<Rightarrow> str \<Rightarrow> fsck_inventory repo_result" where
  "fsck_object sha256 nfc st bounds fi oid =
     bindE (of_core (lift_err (parse_oid oid))) (\<lambda>kind.
     let fi = (if kind = Commit then fi\<lparr> inv_commits := inv_commits fi @ [oid] \<rparr> else fi) in
     bindE (of_store (stored_object_byte_len st oid)) (\<lambda>stored.
     case stored of
       None \<Rightarrow> Inr (add_fsck_issue (MissingScannedObject oid) fi)
     | Some byte_len \<Rightarrow>
         (case checked_add (inv_bytes fi) byte_len of
            None \<Rightarrow> repo_resource_limit
          | Some new_total \<Rightarrow>
              if new_total > fsck_max_object_bytes bounds then repo_resource_limit
              else fsck_read sha256 nfc st oid byte_len (fi\<lparr> inv_bytes := new_total \<rparr>))))"

record fsck_closures =
  fc_nodes :: nat
  fc_edges :: nat
  fc_closures :: "closure_report list"

text \<open>One round of the loop over the distinct heads.\<close>

definition fsck_head ::
    "source \<Rightarrow> prepared_verifier \<Rightarrow> fsck_limits \<Rightarrow> fsck_closures \<Rightarrow> str \<Rightarrow> fsck_closures repo_result" where
  "fsck_head get verifier bounds fc h =
     (if max_closure_nodes bounds < fc_nodes fc \<or> max_closure_edges bounds < fc_edges fc then repo_resource_limit
      else
        bindE (of_store (verify_uncached_with_work_limits get verifier h
          (max_closure_nodes bounds - fc_nodes fc) (max_closure_edges bounds - fc_edges fc))) (\<lambda>closure.
        if limit_reached closure then repo_resource_limit
        else
          bindE (checked_add_fsck_work (fc_nodes fc) (length (nodes closure)) (max_closure_nodes bounds)) (\<lambda>n.
          bindE (checked_add_fsck_work (fc_edges fc) (length (edges closure)) (max_closure_edges bounds)) (\<lambda>m.
          Inr \<lparr> fc_nodes = n, fc_edges = m, fc_closures = fc_closures fc @ [closure] \<rparr>))))"

definition distinct_first :: "'a list \<Rightarrow> 'a list" where
  "distinct_first xs = rev (remdups (rev xs))"

definition fsck_snapshot_with_limits ::
    "(bytes \<Rightarrow> bytes) \<Rightarrow> (str \<Rightarrow> str) \<Rightarrow> repository \<Rightarrow> ref_record list \<Rightarrow> fsck_limits \<Rightarrow> fsck_report repo_result" where
  "fsck_snapshot_with_limits sha256 nfc r snap bounds =
     bindE (validate_fsck_limits bounds) (\<lambda>_.
     if length snap > max_ref_roots bounds then repo_resource_limit
     else
       bindE (of_store (list_oids_limited (objects r) (fsck_max_objects bounds))) (\<lambda>inventory.
       bindE (of_store (bounded_catalog (fsck_tombstone_scan bounds))) (\<lambda>cat.
       bindE (foldE (fsck_object sha256 nfc (objects r) bounds)
         \<lparr> inv_verified = 0, inv_bytes = 0, inv_commits = [], inv_issues = [], inv_tombstones = cat \<rparr> inventory) (\<lambda>fi.
       bindE (foldE (fsck_head (get_verified sha256 nfc (objects r))
           (from_catalog (repo_graph_limits r) (inv_tombstones fi)) bounds)
         \<lparr> fc_nodes = 0, fc_edges = 0, fc_closures = [] \<rparr>
         (distinct_first (if snap = [] then inv_commits fi else map head snap))) (\<lambda>fc.
       Inr \<lparr> objects_seen = length inventory, objects_verified = inv_verified fi, closures = fc_closures fc,
             fsck_issues = inv_issues fi @ map ClosureFinding (concat (map issues (fc_closures fc))) \<rparr>)))))"

definition fsck_with_limits ::
    "(bytes \<Rightarrow> bytes) \<Rightarrow> (str \<Rightarrow> str) \<Rightarrow> repository \<Rightarrow> fsck_limits \<Rightarrow> fsck_report repo_result" where
  "fsck_with_limits sha256 nfc r bounds =
     bindE (validate_fsck_limits bounds) (\<lambda>_.
     bindE (of_refs (snapshot_limited (refs_of r) (max_ref_roots bounds))) (\<lambda>snap.
     fsck_snapshot_with_limits sha256 nfc r snap bounds))"

end
