(* ===== verification/Repository_Laws.thy ===== *)
theory Repository_Laws
  imports Repository
begin

text \<open>
  What the composition guarantees: reading never panics, a head that passes validation has an intact
  closure, and what a Ref was published with stays readable whatever is done afterwards.
\<close>

section \<open>Reads never panic\<close>

abbreviation no_panic :: "'e fault + 'a \<Rightarrow> bool" where
  "no_panic m \<equiv> safely (\<lambda>_. True) m"

lemma no_panic_iff: "no_panic m \<longleftrightarrow> m \<noteq> panics"
  by (auto simp: safely_def split: sum.splits)

lemma safely_foldE:
  "P s \<Longrightarrow> (\<And>s x. P s \<Longrightarrow> x \<in> set xs \<Longrightarrow> safely P (f s x)) \<Longrightarrow> safely P (foldE f s xs)"
  by (induction xs arbitrary: s) (auto intro: safely_bindE)

lemma safely_mapE: "(\<And>x. x \<in> set xs \<Longrightarrow> no_panic (f x)) \<Longrightarrow> no_panic (mapE f xs)"
  by (induction xs) (auto intro!: safely_bindE [where Q = "\<lambda>_. True"])

lemma safely_map_fault [simp]: "safely P (map_err (map_fault f) m) = safely P m"
proof (cases m)
  case (Inl e)
  then show ?thesis by (cases e) auto
qed simp

lemma no_panic_bindE: "no_panic m \<Longrightarrow> (\<And>x. m = Inr x \<Longrightarrow> safely P (f x)) \<Longrightarrow> safely P (bindE m f)"
  by (rule safely_bindE) auto

lemma safely_if: "(b \<Longrightarrow> safely P x) \<Longrightarrow> (\<not> b \<Longrightarrow> safely P y) \<Longrightarrow> safely P (if b then x else y)"
  by simp

lemma no_panic_leaf [simp]:
  "no_panic (lift_err m)" "no_panic (ok_or (Fail e) x)" "safely P (resource_limit :: 'a store_result)"
  "no_panic (map_err (\<lambda>_. Fail e) m)"
  by (auto simp: safely_def map_err_def resource_limit_def ok_or_def split: option.split sum.split)

lemma no_panic_stored [simp]: "no_panic (map_err (stored_object_error oid) m) = no_panic m"
proof (cases m)
  case (Inl e)
  then show ?thesis by (cases e) auto
qed simp

lemmas no_panic_rules = no_panic_bindE safely_if

lemma structured_oid_no_panic:
  "limits_usize rl \<Longrightarrow> no_panic (structured_oid_unchecked_with_limits sha256 nfc rl v)"
  unfolding structured_oid_unchecked_with_limits_def
  by (intro no_panic_rules) (simp_all add: no_panic_iff [of "canonical_json_with_limits _ _ _"] canonical_json_no_panic)

lemma parse_strict_no_panic: "no_panic (parse_strict_with_limits nfc rl bs)"
  by (rule safely_mono [OF parse_strict_safe]) simp

lemma verify_raw_no_panic:
  assumes "limits_usize (structured_limits sl)"
  shows "no_panic (verify_raw_bytes sha256 nfc sl oid kind bs)"
  unfolding verify_raw_bytes_def verify_claimed_oid_unchecked_with_limits_def
  by (intro no_panic_rules)
    (simp_all add: parse_strict_no_panic structured_oid_no_panic assms no_panic_iff [of "canonical_json_with_limits _ _ _"]
      canonical_json_no_panic)

lemma verified_body_no_panic:
  assumes "limits_usize (structured_limits (st_limits st))"
  shows "no_panic (verified_body sha256 nfc st oid kind p n)"
  unfolding verified_body_def verify_blob_file_def read_file_limited_def open_object_def Let_def
  by (intro no_panic_rules)
    (auto simp: verify_raw_no_panic assms no_panic_iff [of "stream_blob _ _ _ _"] stream_blob_safe)

lemma get_verified_no_panic:
  assumes "store_limits_ok (st_limits st)"
  shows "no_panic (get_verified sha256 nfc st oid)"
proof -
  have "no_panic (verified_body sha256 nfc st oid kind p n)" for kind p n
    using assms by (intro verified_body_no_panic) (simp add: store_limits_ok_def)
  then show ?thesis
    unfolding get_verified_def validated_object_path_def regular_file_metadata_if_present_def
    by (auto intro!: no_panic_bindE split: sum.splits fs_node.splits io_error.splits option.splits)
qed

lemma list_kind_no_panic: "no_panic (list_oids_by_kind_limited st kind m)"
proof -
  have dir: "safely (\<lambda>r. length r \<le> k) (read_directory_at_most t p k e)" for t p k e
    unfolding read_directory_at_most_def scan_dir_def
  proof (rule no_panic_bindE)
    fix es show "safely (\<lambda>r. length r \<le> k) (take_entries k e 0 [] es)"
      using take_entries_ok [of k e 0 "[]" es] take_entries_no_panic [of k e 0 "[]" es]
      by (auto simp: safely_def split: sum.splits)
  qed simp
  have step: "safely (\<lambda>acc. fst acc \<le> m) (scan_prefix_at_most t family kind m acc e)"
    if "fst acc \<le> m" for t family acc e
    unfolding scan_prefix_at_most_def using that
    by (auto intro!: safely_bindE [OF dir] no_panic_bindE safely_mapE simp: result_simps)
  have "no_panic (foldE (scan_prefix_at_most t family kind m) (0, []) xs)" for t family xs
    by (rule safely_mono [OF safely_foldE [where P = "\<lambda>acc. fst acc \<le> m"]]) (auto intro: step)
  then have "no_panic (scan_kind_inventory_at_most (files st) kind m)"
    unfolding scan_kind_inventory_at_most_def Let_def
    by (intro no_panic_rules) (auto intro!: safely_mono [OF dir])
  then show ?thesis by (simp add: list_oids_by_kind_limited_def scan_kind_inventory_limited_def)
qed

section \<open>Validated heads\<close>

definition scan_room :: "tombstone_scan_limits \<Rightarrow> bool" where
  "scan_room scan \<longleftrightarrow> max_record_objects scan < usize_max"

lemma charge_record_safe:
  assumes "cat_limits cat = Some scan" "records cat \<le> max_record_objects scan" "scan_room scan"
  shows "safely (\<lambda>cat'. cat_limits cat' = Some scan \<and> records cat' \<le> max_record_objects scan) (charge_record cat ob)"
  using assms by (auto simp: charge_record_def scan_room_def split: option.split)

lemma observe_safe:
  assumes "cat_limits cat = Some scan" "records cat \<le> max_record_objects scan" "scan_room scan"
  shows "safely (\<lambda>cat'. cat_limits cat' = Some scan \<and> records cat' \<le> max_record_objects scan) (observe cat ob)"
  using assms unfolding observe_def
  by (auto intro!: safely_bindE [OF charge_record_safe] split: option.split)

lemma new_verifier_no_panic:
  assumes "\<And>oid. no_panic (get oid)" "\<And>kind m. no_panic (list_kind kind m)" "scan_room scan"
  shows "no_panic (new_verifier get list_kind bounds scan)"
proof -
  let ?ok = "\<lambda>cat. cat_limits cat = Some scan \<and> records cat \<le> max_record_objects scan"
  have collect: "safely ?ok (collect_tombstones_from_oids get names cat)" if "?ok cat" for names cat
    unfolding collect_tombstones_from_oids_def
    by (rule safely_foldE [where P = ?ok, OF that])
      (auto intro!: no_panic_bindE assms(1) observe_safe assms(3) split: option.split)
  have "no_panic (collect_tombstones_from_oids get names (empty_catalog\<lparr> cat_limits := Some scan \<rparr>))" for names
    by (rule safely_mono [OF collect]) (simp_all add: empty_catalog_def)
  then show ?thesis
    unfolding new_verifier_def collect_tombstones_bounded_def bounded_catalog_def validate_tombstone_scan_limits_def
    by (intro no_panic_rules) (auto simp: assms result_simps resource_limit_def split: if_splits)
qed

lemma verify_uncached_no_panic:
  assumes "\<And>oid. no_panic (get oid)" "max_edges (pv_limits pv) \<le> usize_max"
  shows "no_panic (verify_uncached get pv h)"
  using closure_ok [OF assms(2), where get = get and r = h and cat = "pv_tombstones pv"] assms(1)
  by (auto simp: verify_uncached_def no_panic_iff split: sum.splits)

lemma validate_head_no_panic:
  assumes "\<And>oid. no_panic (get oid)" "\<And>kind m. no_panic (list_kind kind m)" "scan_room scan" "max_edges bounds \<le> usize_max"
  shows "no_panic (validate_head get list_kind bounds scan h)"
proof -
  have "no_panic (verify_uncached get pv h)" if "new_verifier get list_kind bounds scan = Inr pv" for pv
    using that assms by (intro verify_uncached_no_panic) (auto simp: new_verifier_def from_catalog_def result_simps)
  moreover have "no_panic (map_err (\<lambda>e. Fail (f e)) m)" for f :: "ref_store_error \<Rightarrow> validation_error" and m :: "_ + unit"
    by (cases m) auto
  ultimately show ?thesis
    unfolding validate_head_def validate_prepared_head_def as_validation_def
    by (intro no_panic_bindE) (auto simp: new_verifier_no_panic assms result_simps)
qed

text \<open>The panic branch of \<open>caught\<close> is never taken.\<close>

lemma head_never_panics:
  assumes "store_limits_ok (st_limits (objects r))" "scan_room (repo_scan_limits r)" "max_edges (repo_graph_limits r) \<le> usize_max"
  shows "repo_validate_head sha256 nfc r h \<noteq> panics"
  using validate_head_no_panic [OF get_verified_no_panic [OF assms(1)] list_kind_no_panic assms(2,3)]
  by (simp add: repo_validate_head_def no_panic_iff)

context verified_source
begin

lemma prepared_catalog_resolves:
  assumes "new_verifier get list_kind bounds scan = Inr pv" "tombstone_for (pv_tombstones pv) target = Some t"
  shows "\<exists>ob. get t = Inr (Some ob) \<and> tombstone_target ob = Some target"
proof -
  from assms(1) obtain names cat where "collect_tombstones_from_oids get names cat = Inr (pv_tombstones pv)" "targets cat = []"
    by (auto simp: new_verifier_def collect_tombstones_bounded_def bounded_catalog_def empty_catalog_def from_catalog_def
        resource_limit_def result_simps split: if_splits)
  then show ?thesis using assms(2) tombstone_resolves by blast
qed

lemma prepared_head_intact:
  assumes pv: "new_verifier get list_kind bounds scan = Inr pv" and wide: "max_edges bounds \<le> usize_max"
    and v: "validate_prepared_head get pv h = Inr ()"
  shows "closure_intact get h"
proof -
  have "pv_limits pv = bounds" using pv by (auto simp: new_verifier_def from_catalog_def result_simps)
  moreover from v obtain rp where "verify_uncached get pv h = Inr rp" "is_complete rp"
    by (auto simp: validate_prepared_head_def as_validation_def validate_closure_report_def result_simps
        split: if_splits list.splits)
  ultimately have "closed_under get (pv_tombstones pv) h rp"
    using closure_ok [OF wide, where get = get and r = h and cat = "pv_tombstones pv"] by (simp add: verify_uncached_def)
  then show ?thesis by (rule closed_intact) (rule prepared_catalog_resolves [OF pv])
qed

lemma validated_head_intact:
  assumes "validate_head get list_kind bounds scan h = Inr ()" "max_edges bounds \<le> usize_max"
  shows "closure_intact get h"
  using assms prepared_head_intact by (auto simp: validate_head_def as_validation_def result_simps)

end

section \<open>History\<close>

definition repo_inv :: "repository \<Rightarrow> bool" where
  "repo_inv r \<longleftrightarrow> store_limits_ok (st_limits (objects r)) \<and> max_edges (repo_graph_limits r) \<le> usize_max \<and> store_inv (refs_of r)"

lemma keeps_reads:
  assumes "keeps_objects sha256 nfc st st'" "store_limits_ok (st_limits st)" "get_verified sha256 nfc st oid = Inr (Some ob)"
  shows "get_verified sha256 nfc st' oid = Inr (Some ob)"
proof -
  have same: "st_limits st' = st_limits st" using assms(1) by (simp add: keeps_objects_def same_handle_def)
  from assms(3) obtain kind bs where "parse_oid oid = Inr kind" "stored_bytes st oid kind bs"
      "object_bytes sha256 nfc (st_limits st) oid kind bs (structured ob)"
      "info ob = \<lparr> info_oid = oid, info_kind = kind, info_byte_len = length bs \<rparr>"
    unfolding get_verified_iff [OF assms(2)] by blast
  moreover from this have "stored_bytes st' oid kind bs" using assms(1) unfolding keeps_objects_def by blast
  ultimately show ?thesis using assms(2) same by (subst get_verified_iff) auto
qed

text \<open>
  The contract that carries a history: a step keeps the invariant and every readable object, and an
  event it appends names a head whose closure is intact.
\<close>

locale head_history =
  fixes sha256 :: "bytes \<Rightarrow> bytes" and nfc :: "str \<Rightarrow> str" and step :: "repository \<Rightarrow> 'ev \<Rightarrow> repository"
  assumes step_inv: "repo_inv r \<Longrightarrow> repo_inv (step r ev)"
    and step_keeps: "repo_inv r \<Longrightarrow> keeps_objects sha256 nfc (objects r) (objects (step r ev))"
    and step_heads: "repo_inv r \<Longrightarrow> e \<in> set (ref_events (refs_of (step r ev)))
      \<Longrightarrow> e \<in> set (ref_events (refs_of r)) \<or> closure_intact (get_verified sha256 nfc (objects r)) (new_head e)"
begin

lemma run_inv: "repo_inv r \<Longrightarrow> repo_inv (foldl step r evs)"
  by (induction evs arbitrary: r) (auto intro: step_inv)

lemma run_keeps: "repo_inv r \<Longrightarrow> keeps_objects sha256 nfc (objects r) (objects (foldl step r evs))"
proof (induction evs arbitrary: r)
  case Nil
  then show ?case using reflpD [OF keeps_order(1)] by simp
next
  case (Cons ev evs)
  then show ?case using step_keeps step_inv transpD [OF keeps_order(2)] by (metis foldl_Cons)
qed

lemma run_reads:
  assumes "repo_inv r" "get_verified sha256 nfc (objects r) oid = Inr (Some ob)"
  shows "get_verified sha256 nfc (objects (foldl step r evs)) oid = Inr (Some ob)"
  using keeps_reads [OF run_keeps [OF assms(1)]] assms by (simp add: repo_inv_def)

lemma later_reads:
  assumes "repo_inv r" "get_verified sha256 nfc (objects (foldl step r (take k evs))) oid = Inr (Some ob)"
  shows "get_verified sha256 nfc (objects (foldl step r evs)) oid = Inr (Some ob)"
proof -
  have "foldl step r evs = foldl step (foldl step r (take k evs)) (drop k evs)"
    by (metis append_take_drop_id foldl_append)
  then show ?thesis using run_reads [OF run_inv [OF assms(1)] assms(2)] by simp
qed

lemma event_published:
  assumes "repo_inv r" "ref_events (refs_of r) = []" "e \<in> set (ref_events (refs_of (foldl step r evs)))"
  shows "\<exists>k\<le>length evs. closure_intact (get_verified sha256 nfc (objects (foldl step r (take k evs)))) (new_head e)"
  using assms(3)
proof (induction evs rule: rev_induct)
  case Nil
  then show ?case using assms(2) by simp
next
  case (snoc ev evs)
  have "repo_inv (foldl step r evs)" using run_inv [OF assms(1)] .
  with snoc.prems consider (old) "e \<in> set (ref_events (refs_of (foldl step r evs)))"
    | (new) "closure_intact (get_verified sha256 nfc (objects (foldl step r evs))) (new_head e)"
    using step_heads by auto
  then show ?case
  proof cases
    case old
    from snoc.IH [OF this] obtain k where "k \<le> length evs"
        "closure_intact (get_verified sha256 nfc (objects (foldl step r (take k evs)))) (new_head e)" by blast
    then show ?thesis by (intro exI [of _ k]) simp
  next
    case new
    then show ?thesis by (intro exI [of _ "length evs"]) simp
  qed
qed

lemma head_published:
  assumes "repo_inv r" "ref_events (refs_of r) = []" "query_head (refs_of (foldl step r evs)) n = Some h"
  shows "\<exists>k\<le>length evs. closure_intact (get_verified sha256 nfc (objects (foldl step r (take k evs)))) h"
proof -
  have "store_inv (refs_of (foldl step r evs))" using run_inv [OF assms(1)] by (simp add: repo_inv_def)
  from query_head_last_event [OF this, of n] assms(3)
  have "\<exists>e. e \<in> set (select_events (refs_of (foldl step r evs)) (Some n)) \<and> new_head e = h"
    by (intro exI [of _ "last (select_events (refs_of (foldl step r evs)) (Some n))"]) (auto simp: Let_def split: if_splits)
  then obtain e where "e \<in> set (ref_events (refs_of (foldl step r evs)))" "new_head e = h"
    by (auto simp: select_events_def)
  then show ?thesis using event_published [OF assms(1,2)] by blast
qed

end

datatype repo_event =
    RepoPutBlob "bytes option list"
  | RepoPutBlobClaimed str "bytes option list"
  | PutObject bytes
  | PutObjectAs object_kind bytes
  | PutObjectClaimed str bytes
  | PutObjectClaimedAs object_kind str bytes
  | UpdateRef ref_update "ref_precondition list"

primrec repo_step ::
    "(bytes \<Rightarrow> bytes) \<Rightarrow> (str \<Rightarrow> str) \<Rightarrow> schema_registry \<Rightarrow> repository \<Rightarrow> repo_event \<Rightarrow> repository" where
  "repo_step sha256 nfc reg r (RepoPutBlob reader) = snd (repo_put_blob sha256 reader r)"
| "repo_step sha256 nfc reg r (RepoPutBlobClaimed claimed reader) = snd (repo_put_blob_claimed sha256 claimed reader r)"
| "repo_step sha256 nfc reg r (PutObject input) = snd (put_object sha256 nfc reg input r)"
| "repo_step sha256 nfc reg r (PutObjectAs kind input) = snd (put_object_as sha256 nfc reg kind input r)"
| "repo_step sha256 nfc reg r (PutObjectClaimed claimed input) = snd (put_object_claimed sha256 nfc reg claimed input r)"
| "repo_step sha256 nfc reg r (PutObjectClaimedAs kind claimed input) =
     snd (put_object_claimed_as sha256 nfc reg kind claimed input r)"
| "repo_step sha256 nfc reg r (UpdateRef up pres) = snd (update_ref_with_preconditions sha256 nfc up pres r)"

text \<open>Storing touches the object store only, and only adds to it.\<close>

definition stores_only :: "repository \<Rightarrow> repository \<Rightarrow> bool" where
  "stores_only r r' \<longleftrightarrow> grows (objects r) (objects r') \<and> refs_of r' = refs_of r
     \<and> repo_graph_limits r' = repo_graph_limits r \<and> repo_scan_limits r' = repo_scan_limits r
     \<and> repo_read_only r' = repo_read_only r"

lemma stores_only_order: "reflp stores_only" "transp stores_only"
  using transpD [OF grows_order(2)] by (auto simp: reflp_def transp_def stores_only_def)

lemma stores_only_facts:
  assumes "stores_only r r'" "repo_inv r"
  shows "repo_inv r'" "keeps_objects sha256 nfc (objects r) (objects r')" "refs_of r' = refs_of r"
  using assms by (auto simp: stores_only_def repo_inv_def grows_keeps) (auto simp: grows_def same_handle_def)

lemma moves_on_objects: "moves grows m \<Longrightarrow> moves stores_only (on_objects m)"
  by (auto simp: moves_def on_objects_def stores_only_def split: prod.splits) (metis snd_conv)

lemma moves_if: "(b \<Longrightarrow> moves R m) \<Longrightarrow> (\<not> b \<Longrightarrow> moves R n) \<Longrightarrow> moves R (if b then m else n)"
  by simp

lemmas stores_rules = moves_bindA [OF stores_only_order(2)] moves_readA [OF stores_only_order(1)]
  moves_resultA [OF stores_only_order(1)] moves_if moves_on_objects put_moves

lemma put_stores_only:
  "moves stores_only (repo_put_blob sha256 reader)"
  "moves stores_only (repo_put_blob_claimed sha256 claimed reader)"
  "moves stores_only (put_object sha256 nfc reg input)"
  "moves stores_only (put_object_as sha256 nfc reg kind input)"
  "moves stores_only (put_object_claimed sha256 nfc reg claimed input)"
  "moves stores_only (put_object_claimed_as sha256 nfc reg kind claimed input)"
  unfolding repo_put_blob_def repo_put_blob_claimed_def put_object_def put_object_as_def put_object_claimed_def
    put_object_claimed_as_def store_validated_def
  by (intro stores_rules)+

lemma caught_ok: "caught m = Inr () \<longleftrightarrow> m = Inr ()"
  by (simp add: caught_def map_err_eq_Inr)

text \<open>A Ref update touches the Ref store only; a failed one touches nothing.\<close>

lemma update_ref_cases:
  assumes "repo_inv r"
  shows "case update_ref_with_preconditions sha256 nfc up pres r of
      (Inl _, r') \<Rightarrow> r' = r
    | (Inr entry, r') \<Rightarrow> \<not> repo_read_only r \<and> repo_validate_head sha256 nfc r (up_new_head up) = Inr ()
        \<and> update_admissible (\<lambda>h. caught (repo_validate_head sha256 nfc r h)) (Inr ()) (refs_of r) up pres
        \<and> sequence (refs_of r) < i64_max \<and> entry = update_entry (refs_of r) up
        \<and> r' = r\<lparr> refs_of := advance (refs_of r) up \<rparr>"
proof -
  have s: "store_inv (refs_of r)" using assms by (simp add: repo_inv_def)
  show ?thesis
    by (auto simp: update_ref_with_preconditions_def repo_update_ref_def compare_and_swap_def allow_transaction_def
        ensure_writable_repo_def result_simps cas_exact [OF s] update_admissible_def caught_ok Let_def split: sum.splits if_splits)
qed

lemma update_ref_succeeds:
  assumes "repo_inv r" "\<not> repo_read_only r" "sequence (refs_of r) < i64_max"
    and "update_admissible (\<lambda>h. caught (repo_validate_head sha256 nfc r h)) (Inr ()) (refs_of r) up pres"
  shows "update_ref_with_preconditions sha256 nfc up pres r =
    (Inr (update_entry (refs_of r) up), r\<lparr> refs_of := advance (refs_of r) up \<rparr>)"
proof -
  have s: "store_inv (refs_of r)" using assms(1) by (simp add: repo_inv_def)
  let ?v = "\<lambda>h. caught (repo_validate_head sha256 nfc r h)"
  have "compare_and_swap_with_preconditions_and_guard ?v (?v (up_new_head up)) (refs_of r) up pres =
      Inr (update_entry (refs_of r) up, advance (refs_of r) up)"
    "compare_and_swap_with_preconditions_and_guard ?v (Inr ()) (refs_of r) up pres =
      Inr (update_entry (refs_of r) up, advance (refs_of r) up)"
    using assms unfolding cas_exact [OF s] by (auto simp: update_admissible_def)
  then show ?thesis using assms(2)
    by (cases "pres = []") (simp_all add: update_ref_with_preconditions_def repo_update_ref_def compare_and_swap_def
      allow_transaction_def ensure_writable_repo_def)
qed

lemma advance_simps [simp]:
  "ref_events (advance s up) = ref_events s @ [update_entry s up]" "new_head (update_entry s up) = up_new_head up"
  by (simp_all add: advance_def update_entry_def)

lemma update_ref_facts:
  assumes r: "repo_inv r" and u: "update_ref_with_preconditions sha256 nfc up pres r = (res, r')"
  shows "repo_inv r'" "objects r' = objects r"
    and "e \<in> set (ref_events (refs_of r')) \<Longrightarrow>
      e \<in> set (ref_events (refs_of r)) \<or> closure_intact (get_verified sha256 nfc (objects r)) (new_head e)"
proof -
  have intact: "closure_intact (get_verified sha256 nfc (objects r)) h" if "repo_validate_head sha256 nfc r h = Inr ()" for h
    using that r file_source.validated_head_intact by (auto simp: repo_validate_head_def repo_inv_def)
  show "repo_inv r'" "objects r' = objects r"
    and "e \<in> set (ref_events (refs_of r')) \<Longrightarrow>
      e \<in> set (ref_events (refs_of r)) \<or> closure_intact (get_verified sha256 nfc (objects r)) (new_head e)"
    using update_ref_cases [OF r, of sha256 nfc up pres] r u
    by (auto simp: repo_inv_def update_admissible_def intro: advance_inv intact split: sum.splits)
qed

interpretation repo_heads: head_history sha256 nfc "repo_step sha256 nfc reg" for sha256 nfc reg
proof
  fix r ev e
  assume r: "repo_inv r"
  let ?r' = "repo_step sha256 nfc reg r ev"
  have "repo_inv ?r' \<and> keeps_objects sha256 nfc (objects r) (objects ?r') \<and> (e \<in> set (ref_events (refs_of ?r')) \<longrightarrow>
      e \<in> set (ref_events (refs_of r)) \<or> closure_intact (get_verified sha256 nfc (objects r)) (new_head e))"
  proof (cases "\<exists>up pres. ev = UpdateRef up pres")
    case True
    then show ?thesis using update_ref_facts [OF r] reflpD [OF keeps_order(1)] by (metis prod.collapse repo_step.simps(7))
  next
    case False
    then have "stores_only r ?r'" using put_stores_only by (cases ev) (auto simp: moves_def)
    then show ?thesis using stores_only_facts [OF _ r] by auto
  qed
  then show "repo_inv ?r'" "keeps_objects sha256 nfc (objects r) (objects ?r')"
    "e \<in> set (ref_events (refs_of ?r')) \<Longrightarrow>
      e \<in> set (ref_events (refs_of r)) \<or> closure_intact (get_verified sha256 nfc (objects r)) (new_head e)" by auto
qed

end
