(* ===== verification/Repository_Properties.thy ===== *)
theory Repository_Properties
  imports Repository_Laws
begin

text \<open>
  The properties of the repository facade: what storing, publishing and checking mean for the object
  store, the Ref store and the schema boundary together.
\<close>

section \<open>Stored objects\<close>

lemma store_validated_ok:
  assumes hash: "\<And>b. length (sha256 b) = 32"
    and lims: "limits_readable (st_limits (objects r))" "structured_limits (st_limits (objects r)) = default_limits"
    and val: "ingest_with_limits sha256 nfc reg default_limits input = Inr validated"
    and put: "store_validated sha256 nfc validated r = (Inr res, r')"
  shows "info_oid res = vo_oid validated" "parse_oid (info_oid res) = Inr (info_kind res)"
    "get_verified sha256 nfc (objects r') (info_oid res) =
      Inr (Some \<lparr> info = \<lparr> info_oid = info_oid res, info_kind = info_kind res,
          info_byte_len = length (vo_canonical_bytes validated) \<rparr>, structured = Some (key_ordered (vo_value validated)) \<rparr>)"
    "refs_of r' = refs_of r"
proof -
  have rl: "limits_usize default_limits" "max_canonical_bytes default_limits \<le> max_input_bytes default_limits"
    using lims by (auto simp: limits_readable_def store_limits_ok_def)
  note again = ingest_again [OF rl val]
  from val obtain v where oid: "structured_oid_unchecked_with_limits sha256 nfc default_limits v = Inr (vo_oid validated)"
    by (auto simp: ingest_with_limits_def finish_ingestion_ok result_simps)
  then obtain k where k: "parse_oid (vo_oid validated) = Inr k" "k \<noteq> Blob"
    using structured_oid_parse [OF hash oid] by blast
  from put obtain res' st where raw: "put_verified_raw sha256 nfc (vo_oid validated) (vo_canonical_bytes validated) (objects r) = (res', st)"
    and res: "of_store res' = Inr res" and r': "r' = r\<lparr> objects := st \<rparr>"
    by (auto simp: store_validated_def on_objects_def split: prod.splits)
  from res have "res' = Inr res" by (simp add: map_err_eq_Inr)
  with raw k have inner: "put_structured_inner sha256 nfc (Some (vo_oid validated)) (vo_canonical_bytes validated) True (objects r) = (Inr res, st)"
    by (auto simp: put_verified_raw_def elim!: bindA_Inr_cases)
  have lim': "st_limits st = st_limits (objects r)" using limits_preserved [OF put_moves(5) raw] .
  from put_structured_inner_ok [OF hash lims(1) inner] obtain w canonical where
      w: "parse_strict_with_limits nfc default_limits (vo_canonical_bytes validated) = Inr w"
        "canonical_json_with_limits nfc default_limits w = Inr canonical"
    and c: "vo_canonical_bytes validated = canonical" and claim: "vo_oid validated = info_oid res"
    and at: "object_at sha256 nfc st (info_oid res) (info_kind res) canonical (Some (key_ordered w))"
    unfolding lims(2) by (metis option.distinct(1) option.inject)
  have "w = key_ordered (vo_value validated)" using w(1) again(4) by simp
  then have obj: "object_at sha256 nfc st (info_oid res) (info_kind res) canonical (Some (key_ordered (vo_value validated)))"
    using at by simp
  have "store_limits_ok (st_limits st)" using lims(1) lim' by (simp add: limits_readable_def)
  then show "get_verified sha256 nfc (objects r') (info_oid res) =
      Inr (Some \<lparr> info = \<lparr> info_oid = info_oid res, info_kind = info_kind res,
          info_byte_len = length (vo_canonical_bytes validated) \<rparr>, structured = Some (key_ordered (vo_value validated)) \<rparr>)"
    using obj c by (auto simp: get_verified_iff object_at_def r')
  show "info_oid res = vo_oid validated" "parse_oid (info_oid res) = Inr (info_kind res)" "refs_of r' = refs_of r"
    using claim obj by (simp_all add: object_at_def r')
qed

section \<open>Bounded fsck\<close>

lemma guard_eq_Inr: "(if b then Inl e else m) = Inr x \<longleftrightarrow> \<not> b \<and> m = Inr x"
  by simp

lemma fsck_read_cases:
  assumes "fsck_read sha256 nfc st oid n fi = Inr fi'"
  shows "inv_commits fi' = inv_commits fi \<and>
    ((\<exists>ob. get_verified sha256 nfc st oid = Inr (Some ob) \<and> inv_verified fi' = inv_verified fi + 1
          \<and> inv_issues fi' = inv_issues fi \<and> observe (inv_tombstones fi) ob = Inr (inv_tombstones fi'))
      \<or> (\<exists>i. inv_issues fi' = inv_issues fi @ [i] \<and> inv_tombstones fi' = inv_tombstones fi))"
proof (cases "get_verified sha256 nfc st oid")
  case (Inl e)
  then show ?thesis using assms
    by (cases e) (auto simp: fsck_read_def add_fsck_issue_def split: store_error.splits if_splits)
next
  case (Inr x)
  then show ?thesis using assms
    by (cases x) (auto simp: fsck_read_def add_fsck_issue_def repo_resource_limit_def result_simps split: option.splits if_splits)
qed

lemma fsck_object_cases:
  assumes "fsck_object sha256 nfc st bounds fi oid = Inr fi'"
  shows "inv_commits fi' = inv_commits fi @ filter (\<lambda>oid. parse_oid oid = Inr Commit) [oid] \<and>
    ((\<exists>ob. get_verified sha256 nfc st oid = Inr (Some ob) \<and> inv_verified fi' = inv_verified fi + 1
          \<and> inv_issues fi' = inv_issues fi \<and> observe (inv_tombstones fi) ob = Inr (inv_tombstones fi'))
      \<or> (\<exists>i. inv_issues fi' = inv_issues fi @ [i] \<and> inv_tombstones fi' = inv_tombstones fi))"
proof -
  from assms obtain kind stored where k: "parse_oid oid = Inr kind" "stored_object_byte_len st oid = Inr stored"
    by (auto simp: fsck_object_def Let_def result_simps)
  let ?fi = "if kind = Commit then fi\<lparr> inv_commits := inv_commits fi @ [oid] \<rparr> else fi"
  have same: "inv_verified ?fi = inv_verified fi" "inv_issues ?fi = inv_issues fi" "inv_tombstones ?fi = inv_tombstones fi"
    "inv_commits ?fi = inv_commits fi @ filter (\<lambda>oid. parse_oid oid = Inr Commit) [oid]" using k(1) by auto
  show ?thesis
  proof (cases stored)
    case None
    then have "fi' = add_fsck_issue (MissingScannedObject oid) ?fi" using assms k by (simp add: fsck_object_def)
    then show ?thesis using same by (simp add: add_fsck_issue_def)
  next
    case (Some n)
    then obtain t where "fsck_read sha256 nfc st oid n (?fi\<lparr> inv_bytes := t \<rparr>) = Inr fi'"
      using assms k by (auto simp: fsck_object_def Let_def repo_resource_limit_def split: option.splits if_splits)
    from fsck_read_cases [OF this] show ?thesis using same by simp
  qed
qed

lemma fsck_object_fold:
  assumes "foldE (fsck_object sha256 nfc st bounds) fi names = Inr fi'"
  shows "inv_commits fi' = inv_commits fi @ filter (\<lambda>oid. parse_oid oid = Inr Commit) names
    \<and> (\<exists>found. inv_issues fi' = inv_issues fi @ found
        \<and> (found = [] \<longrightarrow> (\<forall>oid\<in>set names. \<exists>ob. get_verified sha256 nfc st oid = Inr (Some ob))
            \<and> inv_verified fi' = inv_verified fi + length names))"
  using assms
proof (induction names arbitrary: fi)
  case (Cons oid names)
  from Cons.prems obtain fi1 where s: "fsck_object sha256 nfc st bounds fi oid = Inr fi1"
    and rest: "foldE (fsck_object sha256 nfc st bounds) fi1 names = Inr fi'" by (auto simp: result_simps)
  show ?case using Cons.IH [OF rest] fsck_object_cases [OF s] by auto
qed simp

lemma fsck_object_catalog:
  assumes "foldE (fsck_object sha256 nfc st bounds) fi names = Inr fi'" "catalog_of obs (inv_tombstones fi)" "finite obs"
    and "\<And>ob. ob \<in> obs \<Longrightarrow> \<exists>oid. get_verified sha256 nfc st oid = Inr (Some ob)"
  shows "\<exists>obs'. catalog_of obs' (inv_tombstones fi') \<and> finite obs'
    \<and> (\<forall>ob\<in>obs'. \<exists>oid. get_verified sha256 nfc st oid = Inr (Some ob))"
  using assms
proof (induction names arbitrary: fi obs)
  case (Cons oid names)
  from Cons.prems obtain fi1 where s: "fsck_object sha256 nfc st bounds fi oid = Inr fi1"
    and rest: "foldE (fsck_object sha256 nfc st bounds) fi1 names = Inr fi'" by (auto simp: result_simps)
  from fsck_object_cases [OF s] show ?case
  proof (elim disjE exE conjE)
    fix ob assume ob: "get_verified sha256 nfc st oid = Inr (Some ob)" "observe (inv_tombstones fi) ob = Inr (inv_tombstones fi1)"
    show ?thesis
      by (rule Cons.IH [OF rest, of "insert ob obs"]) (use catalog_of_observe [OF ob(2)] Cons.prems ob(1) in auto)
  next
    assume "inv_tombstones fi1 = inv_tombstones fi"
    then show ?thesis using Cons.IH [OF rest, of obs] Cons.prems by simp
  qed
qed auto

lemma fsck_heads_fold:
  assumes "foldE (fsck_head get pv bounds) fc hs = Inr fc'" "max_edges (pv_limits pv) \<le> usize_max"
  shows "\<exists>rps. fc_closures fc' = fc_closures fc @ rps \<and> list_all2 (\<lambda>h rp. is_complete rp \<longrightarrow> closed_under get (pv_tombstones pv) h rp) hs rps"
  using assms(1)
proof (induction hs arbitrary: fc)
  case (Cons h hs)
  from Cons.prems obtain fc1 where s: "fsck_head get pv bounds fc h = Inr fc1"
    and rest: "foldE (fsck_head get pv bounds) fc1 hs = Inr fc'" by (auto simp: result_simps)
  from s obtain rp n m where rp: "verify_uncached_with_work_limits get pv h n m = Inr rp" "fc_closures fc1 = fc_closures fc @ [rp]"
    unfolding fsck_head_def repo_resource_limit_def guard_eq_Inr bindE_eq_Inr map_err_eq_Inr by auto
  let ?lims = "\<lparr> max_objects = min (max_objects (pv_limits pv)) n, max_edges = min (max_edges (pv_limits pv)) m,
    max_depth = max_depth (pv_limits pv) \<rparr>"
  have "max_edges ?lims \<le> usize_max" using assms(2) by simp
  from closure_ok [OF this, where get = get and r = h and cat = "pv_tombstones pv"]
  have "is_complete rp \<longrightarrow> closed_under get (pv_tombstones pv) h rp"
    using rp(1) by (simp add: verify_uncached_with_work_limits_def)
  moreover obtain rps where "fc_closures fc' = fc_closures fc1 @ rps"
    "list_all2 (\<lambda>h rp. is_complete rp \<longrightarrow> closed_under get (pv_tombstones pv) h rp) hs rps" using Cons.IH [OF rest] by blast
  ultimately show ?case using rp(2) by (intro exI [of _ "rp # rps"]) simp
qed simp

lemma set_distinct_first [simp]: "set (distinct_first xs) = set xs"
  by (simp add: distinct_first_def)

lemma list_all2_member: "list_all2 P xs ys \<Longrightarrow> x \<in> set xs \<Longrightarrow> \<exists>y\<in>set ys. P x y"
  by (induction rule: list_all2_induct) auto

lemma fsck_snapshot_clean:
  assumes run: "fsck_snapshot_with_limits sha256 nfc r snap bounds = Inr fr" and clean: "is_clean fr"
    and wide: "max_edges (repo_graph_limits r) \<le> usize_max"
  obtains names where "list_oids_limited (objects r) (fsck_max_objects bounds) = Inr names"
    "\<forall>oid\<in>set names. \<exists>ob. get_verified sha256 nfc (objects r) oid = Inr (Some ob)"
    "objects_seen fr = length names" "objects_verified fr = length names"
    "\<forall>rec\<in>set snap. closure_intact (get_verified sha256 nfc (objects r)) (head rec)"
proof -
  let ?get = "get_verified sha256 nfc (objects r)"
  from run obtain names cat fi fc where names: "list_oids_limited (objects r) (fsck_max_objects bounds) = Inr names"
    and cat: "bounded_catalog (fsck_tombstone_scan bounds) = Inr cat"
    and scan: "foldE (fsck_object sha256 nfc (objects r) bounds)
        \<lparr> inv_verified = 0, inv_bytes = 0, inv_commits = [], inv_issues = [], inv_tombstones = cat \<rparr> names = Inr fi"
    and heads: "foldE (fsck_head ?get (from_catalog (repo_graph_limits r) (inv_tombstones fi)) bounds)
         \<lparr> fc_nodes = 0, fc_edges = 0, fc_closures = [] \<rparr>
         (distinct_first (if snap = [] then inv_commits fi else map head snap)) = Inr fc"
    and fr: "fr = \<lparr> objects_seen = length names, objects_verified = inv_verified fi, closures = fc_closures fc,
             fsck_issues = inv_issues fi @ map ClosureFinding (concat (map issues (fc_closures fc))) \<rparr>"
    unfolding fsck_snapshot_with_limits_def repo_resource_limit_def guard_eq_Inr bindE_eq_Inr map_err_eq_Inr by auto
  have nil: "inv_issues fi = []" "list_all is_complete (fc_closures fc)" using clean by (auto simp: is_clean_def fr)
  have "targets cat = []" using cat by (auto simp: bounded_catalog_def empty_catalog_def result_simps)
  from fsck_object_catalog [OF scan] catalog_of_empty [OF this] obtain obs where obs: "catalog_of obs (inv_tombstones fi)" "finite obs"
    "\<forall>ob\<in>obs. \<exists>oid. ?get oid = Inr (Some ob)" by auto
  obtain rps where "fc_closures fc = rps" "list_all2 (\<lambda>h rp. is_complete rp \<longrightarrow> closed_under ?get (inv_tombstones fi) h rp)
      (distinct_first (if snap = [] then inv_commits fi else map head snap)) rps"
    using fsck_heads_fold [OF heads] wide by (auto simp: from_catalog_def)
  then have "\<exists>rp. closed_under ?get (inv_tombstones fi) h rp" if h: "h \<in> set (map head snap)" for h
    using h nil(2) list_all2_member [where x = h] by (cases "snap = []") (fastforce simp: list_all_iff)+
  then have "closure_intact ?get h" if "h \<in> set (map head snap)" for h
    using that closed_intact [where get = ?get and cat = "inv_tombstones fi"] file_source.catalog_resolves [OF obs] by blast
  then show thesis using that names fsck_object_fold [OF scan] nil(1) fr by auto
qed

lemma snapshot_limited_ok: "snapshot_limited s limit = Inr rows \<Longrightarrow> rows = load_snapshot s"
  by (auto simp: snapshot_limited_def validate_snapshot_limit_def load_snapshot_count_limited_def Let_def result_simps
      saturating_add_def usize_max_def i64_max_def split: if_splits)

lemma query_head_snapshot: "query_head s n = Some h \<Longrightarrow> h \<in> set (map head (load_snapshot s))"
  by (auto simp: query_head_def load_snapshot_def dest: find_ref_Some)

section \<open>A sample repository\<close>

definition sample_repo :: repository where
  "sample_repo = \<lparr> objects = sample_archive, refs_of = empty_store, repo_graph_limits = default_graph_limits,
     repo_scan_limits = default_tombstone_scan_limits, repo_read_only = False \<rparr>"

definition sample_publish :: ref_update where
  "sample_publish = \<lparr> up_ref_name = ''decision/main'', up_expected_head = None, up_new_head = sample_root,
     up_metadata = \<lparr> md_occurred_at = 0, md_actor = None, md_message = None \<rparr> \<rparr>"

definition sample_published :: repository where
  "sample_published = sample_repo\<lparr> refs_of := advance empty_store sample_publish \<rparr>"

lemma sample_repo_inv: "repo_inv sample_repo" "ref_events (refs_of sample_repo) = []"
  using empty_store_inv
  by (simp_all add: repo_inv_def sample_repo_def sample_archive_def sample_files_def sample_limits default_graph_wide empty_store_def)

lemma sample_list_kind:
  "list_oids_by_kind_limited sample_archive Record (max_record_objects default_tombstone_scan_limits) = Inr [sample_tombstone]"
  by code_simp

lemma sample_validate: "repo_validate_head sample_hash (\<lambda>s. s) sample_repo sample_root = Inr ()"
proof -
  have "validate_head sample_source (\<lambda>kind m. Inr [sample_tombstone]) default_graph_limits default_tombstone_scan_limits sample_root
      = Inr ()" by code_simp
  then show ?thesis
    by (simp add: repo_validate_head_def sample_repo_def sample_source_eq validate_head_def new_verifier_def
        collect_tombstones_bounded_def sample_list_kind)
qed

lemma sample_step:
  "repo_step sample_hash (\<lambda>s. s) sample_registry sample_repo (UpdateRef sample_publish []) = sample_published"
proof -
  have v: "update_valid sample_publish" by code_simp
  have "compare_and_swap (\<lambda>h. caught (repo_validate_head sample_hash (\<lambda>s. s) sample_repo h)) empty_store sample_publish
      = Inr (update_entry empty_store sample_publish, advance empty_store sample_publish)"
    unfolding compare_and_swap_def cas_exact [OF empty_store_inv] update_admissible_def
    using v sample_validate
    by (simp add: sample_publish_def caught_def allow_transaction_def empty_store_def i64_max_def query_head_def find_ref_def)
  then show ?thesis
    by (simp add: update_ref_with_preconditions_def repo_update_ref_def ensure_writable_repo_def sample_published_def)
      (simp add: sample_repo_def)
qed

section \<open>Properties\<close>

text \<open>
  C6: publication is permanent. Start from a repository without Refs and perform any sequence of
  object writes and Ref updates, with whatever results. Then every Ref points at a Commit whose
  closure was intact at some earlier moment of that history, and every object that could be read at
  that moment can still be read, unchanged.
\<close>

theorem published_heads:
  assumes "repo_inv r" "ref_events (refs_of r) = []"
    and "query_head (refs_of (foldl (repo_step sha256 nfc reg) r evs)) n = Some h"
  shows "\<exists>k\<le>length evs.
    let before = get_verified sha256 nfc (objects (foldl (repo_step sha256 nfc reg) r (take k evs)));
        now = get_verified sha256 nfc (objects (foldl (repo_step sha256 nfc reg) r evs))
    in closure_intact before h \<and> (\<forall>oid ob. before oid = Inr (Some ob) \<longrightarrow> now oid = Inr (Some ob))"
  using repo_heads.head_published [OF assms] repo_heads.later_reads [OF assms(1)] unfolding Let_def by blast

theorem published_heads_witness:
  "\<exists>k\<le>2. closure_intact (get_verified sample_hash (\<lambda>s. s) (objects (foldl (repo_step sample_hash (\<lambda>s. s) sample_registry)
      sample_repo (take k [UpdateRef sample_publish [], RepoPutBlob [Some ''hi'']])))) sample_root"
proof -
  let ?evs = "[UpdateRef sample_publish [], RepoPutBlob [Some ''hi'']]"
  have "refs_of (foldl (repo_step sample_hash (\<lambda>s. s) sample_registry) sample_repo ?evs) = refs_of sample_published"
    using put_stores_only(1) [of sample_hash "[Some ''hi'']"] by (simp del: repo_step.simps(7) add: sample_step moves_def stores_only_def)
  moreover have "query_head (refs_of sample_published) ''decision/main'' = Some sample_root"
    by (simp add: sample_published_def query_head_advance sample_publish_def)
  ultimately show ?thesis
    using published_heads [OF sample_repo_inv, of sample_hash "\<lambda>s. s" sample_registry ?evs "''decision/main''" sample_root]
    by (auto simp: Let_def numeral_2_eq_2)
qed



text \<open>
  Only validated objects are stored. When \<open>put_object_as\<close> returns, the object can be read back
  under the returned OID, has the requested kind, is the value that was ingested (up to the order of
  keys) and passes \<open>validate\<close>; the Refs are untouched.
\<close>

theorem put_object_as_validated:
  assumes "\<And>b. length (sha256 b) = 32" "limits_readable (st_limits (objects r))"
    "structured_limits (st_limits (objects r)) = default_limits"
    and "put_object_as sha256 nfc reg expected input r = (Inr res, r')"
  shows "\<exists>v ob. parse_strict_with_limits nfc default_limits input = Inr v
    \<and> get_verified sha256 nfc (objects r') (info_oid res) = Inr (Some ob) \<and> obj_kind ob = expected
    \<and> structured ob = Some (key_ordered v) \<and> validate nfc reg (key_ordered v) = Inr () \<and> refs_of r' = refs_of r"
proof -
  have rl: "limits_usize default_limits" "max_canonical_bytes default_limits \<le> max_input_bytes default_limits"
    using assms(2,3) by (auto simp: limits_readable_def store_limits_ok_def)
  from assms(4) obtain validated where val: "ingest_with_limits sha256 nfc reg default_limits input = Inr validated"
    and kind: "parse_oid (vo_oid validated) = Inr expected" and put: "store_validated sha256 nfc validated r = (Inr res, r')"
    unfolding put_object_as_def
    by (auto simp: ensure_writable_repo_def ingest_def result_simps elim!: bindA_Inr_cases split: if_splits)
  note stored = store_validated_ok [OF assms(1-3) val put]
  have "parse_strict_with_limits nfc default_limits input = Inr (vo_value validated)"
    using val by (auto simp: ingest_with_limits_def finish_ingestion_ok result_simps)
  moreover have "info_kind res = expected" using stored(1,2) kind by simp
  ultimately show ?thesis
    using stored ingest_again(3) [OF rl val] by (auto simp: validate_def)
qed

definition sample_input :: bytes where
  "sample_input = ''{ \"object_type\" : \"tree\" }''"

theorem put_object_as_validated_witness:
  "\<exists>res r' ob. put_object_as sample_hash (\<lambda>s. s) sample_registry Tree sample_input sample_repo = (Inr res, r')
     \<and> get_verified sample_hash (\<lambda>s. s) (objects r') (info_oid res) = Inr (Some ob) \<and> obj_kind ob = Tree"
proof -
  have "is_ok (fst (put_object_as sample_hash (\<lambda>s. s) sample_registry Tree sample_input sample_repo))" by code_simp
  then obtain res r' where put: "put_object_as sample_hash (\<lambda>s. s) sample_registry Tree sample_input sample_repo = (Inr res, r')"
    by (metis is_ok_iff prod.collapse)
  have "st_limits (objects sample_repo) = default_store_limits" by (simp add: sample_repo_def sample_archive_def sample_files_def)
  then show ?thesis
    using put_object_as_validated [OF sample_hash_length _ _ put] put sample_limits(1) by (auto simp: default_store_limits_def)
qed

text \<open>
  A clean bounded fsck means what it says. Every stored object verifies, none is left out of the
  count, and the closure of every current Ref is intact, although the check ran within its limits
  and checked each distinct head once.
\<close>

theorem fsck_with_limits_clean:
  assumes "fsck_with_limits sha256 nfc r bounds = Inr fr" "is_clean fr" "max_edges (repo_graph_limits r) \<le> usize_max"
    and "tree_ok (files (objects r))"
  shows "(\<forall>oid\<in>stored_oids (files (objects r)). \<exists>ob. get_verified sha256 nfc (objects r) oid = Inr (Some ob))
    \<and> objects_verified fr = card (stored_oids (files (objects r))) \<and> objects_seen fr = objects_verified fr
    \<and> (\<forall>n h. query_head (refs_of r) n = Some h \<longrightarrow> closure_intact (get_verified sha256 nfc (objects r)) h)"
proof -
  from assms(1) have run: "fsck_snapshot_with_limits sha256 nfc r (load_snapshot (refs_of r)) bounds = Inr fr"
    by (auto simp: fsck_with_limits_def result_simps dest: snapshot_limited_ok)
  obtain names where names: "list_oids_limited (objects r) (fsck_max_objects bounds) = Inr names"
    "\<forall>oid\<in>set names. \<exists>ob. get_verified sha256 nfc (objects r) oid = Inr (Some ob)"
    "objects_seen fr = length names" "objects_verified fr = length names"
    "\<forall>rec\<in>set (load_snapshot (refs_of r)). closure_intact (get_verified sha256 nfc (objects r)) (head rec)"
    using fsck_snapshot_clean [OF run assms(2,3)] by blast
  have "set names = stored_oids (files (objects r))" "sorted_wrt (<) names"
    using scan_inventory_limited_ok [OF assms(4)] names(1) by (auto simp: list_oids_limited_def)
  then have "length names = card (stored_oids (files (objects r)))" by (metis distinct_card strict_sorted_iff)
  then show ?thesis using names \<open>set names = _\<close> query_head_snapshot by fastforce
qed

lemma sample_objects: "objects sample_published = sample_archive"
  by (simp add: sample_published_def sample_repo_def)

theorem fsck_with_limits_clean_witness:
  "closure_intact (get_verified sample_hash (\<lambda>s. s) (objects sample_published)) sample_root
   \<and> card (stored_oids (files (objects sample_published))) = 3"
proof -
  have "case fsck_with_limits sample_hash (\<lambda>s. s) sample_published default_fsck_limits of
      Inl e \<Rightarrow> False | Inr fr \<Rightarrow> is_clean fr \<and> objects_verified fr = 3"
    unfolding fsck_with_limits_def fsck_snapshot_with_limits_def fsck_object_def [abs_def] fsck_read_def
      sample_objects sample_source_eq by code_simp
  then obtain fr where "fsck_with_limits sample_hash (\<lambda>s. s) sample_published default_fsck_limits = Inr fr"
    "is_clean fr" "objects_verified fr = 3" by (auto split: sum.splits)
  moreover have "query_head (refs_of sample_published) ''decision/main'' = Some sample_root"
    by (simp add: sample_published_def query_head_advance sample_publish_def)
  moreover have "tree_ok (files (objects sample_published))" "max_edges (repo_graph_limits sample_published) \<le> usize_max"
    using sample_tree_ok default_graph_wide by (simp_all add: sample_published_def sample_repo_def)
  ultimately show ?thesis
    using fsck_with_limits_clean [of sample_hash "\<lambda>s. s" sample_published default_fsck_limits fr] by auto
qed

end
