(* ===== verification/Authorization.thy ===== *)
theory Authorization
  imports Repository_Laws
begin

text \<open>
  Creative AI authorization at the publication boundary,
  \<^verbatim>\<open>src/crates/synapse-core/src/authorization.rs\<close>.

  \<^item> What the checks read of a repository is an \<open>object_view\<close>: the verified reads of its object store,
    the bounded listing, the schema check and the limits. \<open>repo_view\<close> is the one of a repository.
  \<^item> The clock is the embedding service's: its readings are arguments, \<^const>\<open>None\<close> for a failing clock.
    Publication reads it twice, when the Grant is evaluated and inside the transaction.
  \<^item> A \<open>BTreeSet\<close> is the sorted list of its members, a \<open>Vec\<close> used as a stack a list with its top first.
  \<^item> Messages are dropped; \<open>denied\<close> is the error every failed requirement has.
\<close>

section \<open>Vocabulary\<close>

datatype ai_capability = ReadContext | Analyze | ProposeBranch | SubmitClaim | RequestReview | RenderPreview

primrec capability_as_str :: "ai_capability \<Rightarrow> str" where
  "capability_as_str ReadContext = ''read_context''"
| "capability_as_str Analyze = ''analyze''"
| "capability_as_str ProposeBranch = ''propose_branch''"
| "capability_as_str SubmitClaim = ''submit_claim''"
| "capability_as_str RequestReview = ''request_review''"
| "capability_as_str RenderPreview = ''render_preview''"

definition capability_parse :: "str \<Rightarrow> ai_capability option" where
  "capability_parse s =
     (if s = ''read_context'' then Some ReadContext
      else if s = ''analyze'' then Some Analyze
      else if s = ''propose_branch'' then Some ProposeBranch
      else if s = ''submit_claim'' then Some SubmitClaim
      else if s = ''request_review'' then Some RequestReview
      else if s = ''render_preview'' then Some RenderPreview
      else None)"

primrec policy_action :: "ai_capability \<Rightarrow> str" where
  "policy_action ReadContext = ''read''"
| "policy_action Analyze = ''analyze''"
| "policy_action ProposeBranch = ''propose''"
| "policy_action RequestReview = ''propose''"
| "policy_action SubmitClaim = ''derive''"
| "policy_action RenderPreview = ''derive''"

text \<open>The derived \<open>Ord\<close>: the order of declaration.\<close>

primrec capability_rank :: "ai_capability \<Rightarrow> nat" where
  "capability_rank ReadContext = 0"
| "capability_rank Analyze = 1"
| "capability_rank ProposeBranch = 2"
| "capability_rank SubmitClaim = 3"
| "capability_rank RequestReview = 4"
| "capability_rank RenderPreview = 5"

lemma capability_rank_inject [simp]: "capability_rank a = capability_rank b \<longleftrightarrow> a = b"
  by (cases a; cases b) auto

instantiation ai_capability :: linorder
begin

definition less_eq_ai_capability :: "ai_capability \<Rightarrow> ai_capability \<Rightarrow> bool" where
  "a \<le> b \<longleftrightarrow> capability_rank a \<le> capability_rank b"

definition less_ai_capability :: "ai_capability \<Rightarrow> ai_capability \<Rightarrow> bool" where
  "a < b \<longleftrightarrow> capability_rank a < capability_rank b"

instance
  by standard (auto simp: less_eq_ai_capability_def less_ai_capability_def dest: antisym)

end

interpretation capability_names: exact_codec "\<lambda>_. True" capability_as_str capability_parse
proof
  show "capability_parse (capability_as_str c) = Some c" for c
    by (cases c) (simp_all add: capability_parse_def)
next
  show "True \<and> capability_as_str c = s" if "capability_parse s = Some c" for s c
    using that by (auto simp: capability_parse_def split: if_splits)
qed

datatype ai_side_effect_class = NoSideEffect | ProjectInternal

primrec side_effect_as_str :: "ai_side_effect_class \<Rightarrow> str" where
  "side_effect_as_str NoSideEffect = ''none''"
| "side_effect_as_str ProjectInternal = ''project_internal''"

definition side_effect_parse :: "str \<Rightarrow> ai_side_effect_class option" where
  "side_effect_parse s =
     (if s = ''none'' then Some NoSideEffect else if s = ''project_internal'' then Some ProjectInternal else None)"

interpretation side_effect_names: exact_codec "\<lambda>_. True" side_effect_as_str side_effect_parse
proof
  show "side_effect_parse (side_effect_as_str c) = Some c" for c
    by (cases c) (simp_all add: side_effect_parse_def)
next
  show "True \<and> side_effect_as_str c = s" if "side_effect_parse s = Some c" for s c
    using that by (auto simp: side_effect_parse_def split: if_splits)
qed

record ai_execution_authority =
  authenticated_actor_id :: str
  authorized_project_id :: str
  authorized_principal_id :: str
  authorized_base_ref :: str
  actor_record_oid :: str
  principal_actor_record_oid :: str
  context_pack_oid :: str
  authorized_capabilities :: "ai_capability list"
  runtime_capabilities :: "ai_capability list"

record ai_proposal_update =
  pr_ref_name :: str
  pr_expected_head :: "str option"
  pr_new_head :: str
  pr_message :: "str option"
  pr_activity_oid :: str

record ai_publication_target =
  tg_ref_name :: str
  tg_expected_head :: "str option"
  tg_side_effect_class :: ai_side_effect_class

record ai_generated_proposal =
  gen_new_head :: str
  gen_activity_oid :: str
  gen_message :: "str option"

record ai_preflight_decision =
  pd_actor_id :: str
  pd_project_id :: str
  pd_principal_id :: str
  pd_base_ref :: str
  pd_actor_record_oid :: str
  pd_principal_actor_record_oid :: str
  pd_context_pack_oid :: str
  pd_delegation_grant_oid :: str
  pd_policy_oid :: str
  pd_base_commit_oid :: str
  pd_target_ref_name :: str
  pd_expected_target_head :: "str option"
  pd_side_effect_class :: ai_side_effect_class
  pd_exact_capabilities :: "ai_capability list"
  pd_runtime_capabilities :: "ai_capability list"
  pd_evaluated_at :: int
  pd_grant_expires_at :: int

record authorization_decision =
  dec_reflog :: reflog_entry
  dec_actor_record_oid :: str
  dec_activity_oid :: str
  dec_context_pack_oid :: str
  dec_delegation_grant_oid :: str
  dec_policy_oid :: str
  dec_effective_capabilities :: "ai_capability list"

record resolved_ai_authority =
  res_context_payload :: json
  res_grant_payload :: json
  res_delegation_grant_oid :: str
  res_policy_oid :: str
  res_base_ref_name :: str
  res_base_commit_oid :: str
  res_target_ref_name :: str
  res_expected_target_head :: "str option"
  res_side_effect_class :: ai_side_effect_class
  res_exact_capabilities :: "ai_capability list"
  res_grant_active_from :: int
  res_grant_expires_at :: int
  res_evaluated_at :: int

section \<open>The clock\<close>

text \<open>
  \<open>SystemAuthorizationClock\<close>: a sample is the wall clock in nanoseconds since the epoch (\<^const>\<open>None\<close> when
  it is before) and the monotonic clock. \<open>i128\<close> bounds are written out.
\<close>

definition i128_max :: int where
  "i128_max = 170141183460469231731687303715884105727"

record clock_state =
  last_unix_nanos :: int
  last_monotonic :: nat

definition observe_clock :: "clock_state \<Rightarrow> int \<Rightarrow> nat \<Rightarrow> (int \<times> clock_state) option" where
  "observe_clock cs wall monotonic_now =
     (if monotonic_now < last_monotonic cs then None
      else
        let elapsed = int (monotonic_now - last_monotonic cs) in
        if elapsed > i128_max then None
        else if last_unix_nanos cs + elapsed > i128_max then None
        else
          let observed = max wall (last_unix_nanos cs + elapsed) in
          Some (observed, \<lparr> last_unix_nanos = observed, last_monotonic = monotonic_now \<rparr>))"

record clock_sample =
  wall_clock :: "nat option"
  monotonic_clock :: nat

definition now_unix_nanos :: "clock_sample \<Rightarrow> clock_state option \<Rightarrow> int option \<times> clock_state option" where
  "now_unix_nanos sample state =
     (case wall_clock sample of
        None \<Rightarrow> (None, state)
      | Some w \<Rightarrow>
          if int w > i128_max then (None, state)
          else case state of
            None \<Rightarrow> (Some (int w), Some \<lparr> last_unix_nanos = int w, last_monotonic = monotonic_clock sample \<rparr>)
          | Some cs \<Rightarrow>
              (case observe_clock cs (int w) (monotonic_clock sample) of
                 None \<Rightarrow> (None, state)
               | Some (t, cs') \<Rightarrow> (Some t, Some cs')))"

section \<open>Reading authority objects\<close>

record object_view =
  view_get :: source
  view_list_kind :: "object_kind \<Rightarrow> nat \<Rightarrow> str list store_result"
  view_validate :: "json \<Rightarrow> core_error fault + unit"
  view_graph_limits :: graph_limits
  view_scan_limits :: tombstone_scan_limits

definition repo_view :: "(bytes \<Rightarrow> bytes) \<Rightarrow> (str \<Rightarrow> str) \<Rightarrow> schema_registry \<Rightarrow> repository \<Rightarrow> object_view" where
  "repo_view sha256 nfc reg r = \<lparr> view_get = get_verified sha256 nfc (objects r),
     view_list_kind = list_oids_by_kind_limited (objects r), view_validate = validate nfc reg,
     view_graph_limits = repo_graph_limits r, view_scan_limits = repo_scan_limits r \<rparr>"

definition denied :: "'a repo_result" where
  "denied = fails (RepoCore AuthorizationDenied)"

definition kind_of_oid :: "str \<Rightarrow> object_kind repo_result" where
  "kind_of_oid oid = of_core (lift_err (parse_oid oid))"

definition require_that :: "bool \<Rightarrow> unit repo_result" where
  "require_that b = (if b then Inr () else denied)"

definition require_equal :: "str \<Rightarrow> str \<Rightarrow> unit repo_result" where
  "require_equal left right = require_that (left = right)"

definition require_string :: "json \<Rightarrow> str \<Rightarrow> str repo_result" where
  "require_string v key = (case get_str v key of None \<Rightarrow> denied | Some s \<Rightarrow> Inr s)"

definition require_array :: "json \<Rightarrow> str \<Rightarrow> json list repo_result" where
  "require_array v key = (case Option.bind (json_get v key) as_array of None \<Rightarrow> denied | Some vs \<Rightarrow> Inr vs)"

definition require_object :: "json \<Rightarrow> str \<Rightarrow> json repo_result" where
  "require_object v key =
     (case json_get v key of
        None \<Rightarrow> denied
      | Some child \<Rightarrow> if as_object child = None then denied else Inr child)"

definition require_array_contains :: "json \<Rightarrow> str \<Rightarrow> str \<Rightarrow> unit repo_result" where
  "require_array_contains v key expected =
     bindE (require_array v key) (\<lambda>vs. require_that (list_ex (\<lambda>x. as_str x = Some expected) vs))"

definition require_oid_kind :: "str \<Rightarrow> object_kind \<Rightarrow> unit repo_result" where
  "require_oid_kind oid expected =
     bindE (kind_of_oid oid) (\<lambda>actual.
     if actual = expected then Inr () else fails (RepoCore ReferenceTypeMismatch))"

definition require_role :: "json \<Rightarrow> str \<Rightarrow> str \<Rightarrow> str \<Rightarrow> str \<Rightarrow> unit repo_result" where
  "require_role payload key field role expected =
     bindE (require_array payload key) (\<lambda>vs.
     let matching = filter (\<lambda>e. get_str e ''role'' = Some role) vs in
     require_that (length matching = 1 \<and> get_str (hd matching) field = Some expected))"

definition require_role_actor :: "json \<Rightarrow> str \<Rightarrow> str \<Rightarrow> unit repo_result" where
  "require_role_actor payload role actor_id = require_role payload ''actor_refs'' ''actor_ref'' role actor_id"

definition require_role_oid :: "json \<Rightarrow> str \<Rightarrow> str \<Rightarrow> str \<Rightarrow> unit repo_result" where
  "require_role_oid payload key role oid = require_role payload key ''oid'' role oid"

definition require_ai_namespace :: "str \<Rightarrow> unit repo_result" where
  "require_ai_namespace n =
     (let first = hd (split_on (CHR ''/'') n) in
      if first = ''proposal'' then Inr ()
      else if first = ''decision'' \<or> first = ''release'' then fails (RepoCore HumanGateRequired)
      else denied)"

definition require_human_gated_base :: "str \<Rightarrow> unit repo_result" where
  "require_human_gated_base n =
     bindE (of_refs (validate_ref_name n)) (\<lambda>_.
     require_that (hd (split_on (CHR ''/'') n) \<in> {''decision'', ''release''}))"

definition get_present :: "object_view \<Rightarrow> str \<Rightarrow> verified_object repo_result" where
  "get_present ov oid =
     bindE (of_store (view_get ov oid)) (\<lambda>found.
     case found of None \<Rightarrow> fails (RepoCore ClosureMissing) | Some ob \<Rightarrow> Inr ob)"

definition structured_body :: "object_view \<Rightarrow> str \<Rightarrow> json repo_result" where
  "structured_body ov oid =
     bindE (get_present ov oid) (\<lambda>ob.
     bindE (case structured ob of None \<Rightarrow> fails (RepoCore ReferenceTypeMismatch) | Some v \<Rightarrow> Inr v) (\<lambda>v.
     bindE (of_core (view_validate ov v)) (\<lambda>_. Inr v)))"

definition load_structured :: "object_view \<Rightarrow> str \<Rightarrow> object_kind \<Rightarrow> json repo_result" where
  "load_structured ov oid expected =
     bindE (kind_of_oid oid) (\<lambda>kind.
     if kind \<noteq> expected then fails (RepoCore ReferenceTypeMismatch) else structured_body ov oid)"

definition load_record :: "object_view \<Rightarrow> str \<Rightarrow> str \<Rightarrow> json repo_result" where
  "load_record ov oid expected_record_type =
     bindE (load_structured ov oid Record) (\<lambda>v.
     bindE (require_string v ''record_type'') (\<lambda>t.
     bindE (require_equal t expected_record_type) (\<lambda>_. Inr v)))"

definition btree_set :: "'a::linorder list \<Rightarrow> 'a list" where
  "btree_set xs = sort (remdups xs)"

definition normalized_capabilities :: "ai_capability list \<Rightarrow> ai_capability list" where
  "normalized_capabilities cs = btree_set cs"

definition parse_capabilities :: "json list \<Rightarrow> ai_capability list repo_result" where
  "parse_capabilities vs =
     bindE (mapE (\<lambda>v. case Option.bind (as_str v) capability_parse of None \<Rightarrow> denied | Some c \<Rightarrow> Inr c) vs) (\<lambda>cs.
     Inr (btree_set cs))"

section \<open>Selectors and Policy\<close>

definition segment_prefix_matches :: "str \<Rightarrow> str \<Rightarrow> bool" where
  "segment_prefix_matches prefix v =
     (let prefix = trim_end_matches (CHR ''/'') prefix in
      v = prefix \<or> (case strip_prefix v prefix of None \<Rightarrow> False | Some suffix \<Rightarrow> starts_with suffix ''/''))"

definition selector_supported :: "str \<Rightarrow> bool" where
  "selector_supported selector =
     (let base = (case strip_suffix selector ''/**'' of None \<Rightarrow> selector | Some b \<Rightarrow> b) in
      base \<noteq> [] \<and> CHR ''*'' \<notin> set base \<and> \<not> starts_with base ''/'' \<and> \<not> ends_with base ''/''
      \<and> list_all (\<lambda>s. s \<notin> {[], ''.'', ''..''}) (split_on (CHR ''/'') base))"

definition selector_matches :: "str \<Rightarrow> str \<Rightarrow> bool" where
  "selector_matches selector resource =
     (if \<not> selector_supported selector then False
      else case strip_suffix selector ''/**'' of
        Some prefix \<Rightarrow> segment_prefix_matches prefix resource
      | None \<Rightarrow> selector = resource)"

definition require_writable_prefix :: "json \<Rightarrow> str \<Rightarrow> unit repo_result" where
  "require_writable_prefix grant_payload n =
     bindE (require_array grant_payload ''writable_ref_prefixes'') (\<lambda>vs.
     require_that (list_ex (\<lambda>p. segment_prefix_matches p n) (List.map_filter as_str vs)))"

definition project_resource :: "str \<Rightarrow> str" where
  "project_resource project_id = ''project/'' @ project_id"

definition require_project_resource :: "json \<Rightarrow> str \<Rightarrow> unit repo_result" where
  "require_project_resource grant_payload project_id =
     bindE (require_array grant_payload ''resource_selectors'') (\<lambda>vs.
     require_that (list_ex (\<lambda>s. selector_matches s (project_resource project_id)) (List.map_filter as_str vs)))"

datatype policy_effect = Allow | RequireHumanGate | Deny

primrec effect_rank :: "policy_effect \<Rightarrow> nat" where
  "effect_rank Allow = 0"
| "effect_rank RequireHumanGate = 1"
| "effect_rank Deny = 2"

definition effect_max :: "policy_effect \<Rightarrow> policy_effect \<Rightarrow> policy_effect" where
  "effect_max a b = (if effect_rank a \<le> effect_rank b then b else a)"

definition capability_resource :: "ai_capability \<Rightarrow> str \<Rightarrow> str \<Rightarrow> str" where
  "capability_resource c project_id target_ref =
     (if c \<in> {ProposeBranch, RequestReview} then target_ref else project_resource project_id)"

text \<open>One rule: its effect on the capability, or \<^const>\<open>None\<close> when it does not apply.\<close>

definition rule_effect :: "str \<Rightarrow> str \<Rightarrow> json \<Rightarrow> policy_effect option repo_result" where
  "rule_effect action resource rule =
     (if get_str rule ''action'' \<noteq> Some action then Inr None
      else case get_str rule ''resource_selector'' of
        None \<Rightarrow> Inr None
      | Some selector \<Rightarrow>
          if \<not> selector_supported selector then denied
          else if \<not> selector_matches selector resource then Inr None
          else if get_str rule ''effect'' = Some ''allow'' then
            (if json_get rule ''condition_text'' \<noteq> None then denied else Inr (Some Allow))
          else if get_str rule ''effect'' = Some ''require_human_gate'' then Inr (Some RequireHumanGate)
          else if get_str rule ''effect'' = Some ''deny'' then Inr (Some Deny)
          else Inr None)"

definition fold_rule :: "str \<Rightarrow> str \<Rightarrow> policy_effect option \<Rightarrow> json \<Rightarrow> policy_effect option repo_result" where
  "fold_rule action resource effect rule =
     bindE (rule_effect action resource rule) (\<lambda>candidate.
     case candidate of
       None \<Rightarrow> Inr effect
     | Some c \<Rightarrow> Inr (Some (case effect of None \<Rightarrow> c | Some e \<Rightarrow> effect_max e c)))"

definition authorize_policy_capability :: "json \<Rightarrow> ai_capability \<Rightarrow> str \<Rightarrow> str \<Rightarrow> unit repo_result" where
  "authorize_policy_capability policy c project_id target_ref =
     bindE (require_object policy ''payload'') (\<lambda>payload.
     bindE (require_array payload ''rules'') (\<lambda>rules.
     bindE (foldE (fold_rule (policy_action c) (capability_resource c project_id target_ref)) None rules) (\<lambda>effect.
     case (case effect of
             Some e \<Rightarrow> e
           | None \<Rightarrow> if get_str payload ''default_effect'' = Some ''allow'' then Allow else Deny) of
       Allow \<Rightarrow> Inr ()
     | RequireHumanGate \<Rightarrow> fails (RepoCore HumanGateRequired)
     | Deny \<Rightarrow> denied)))"

section \<open>Snapshots\<close>

record snapshot_state =
  sn_objects :: "str list"
  sn_trees :: "str list"
  sn_pending :: "(str \<times> nat) list"
  sn_edges :: nat

text \<open>One entry of a Tree. \<open>edges += 1\<close> and \<open>depth + 1\<close> are unchecked.\<close>

definition snapshot_entry :: "graph_limits \<Rightarrow> nat \<Rightarrow> snapshot_state \<Rightarrow> str \<times> json \<Rightarrow> snapshot_state repo_result" where
  "snapshot_entry bounds depth sn e =
     bindE (require_string (snd e) ''oid'') (\<lambda>oid.
     if sn_edges sn = usize_max then panics
     else if sn_edges sn + 1 > max_edges bounds then repo_resource_limit
     else
       bindE (kind_of_oid oid) (\<lambda>kind.
       if kind = Tree \<and> depth = usize_max then panics
       else Inr (sn\<lparr> sn_edges := sn_edges sn + 1, sn_objects := List.insert oid (sn_objects sn),
              sn_pending := (if kind = Tree then (oid, depth + 1) # sn_pending sn else sn_pending sn) \<rparr>)))"

definition snapshot_step :: "object_view \<Rightarrow> str \<times> nat \<Rightarrow> snapshot_state \<Rightarrow> snapshot_state repo_result" where
  "snapshot_step ov item sn =
     (case item of (tree_oid, depth) \<Rightarrow>
        if tree_oid \<in> set (sn_trees sn) then Inr sn
        else
          let sn = sn\<lparr> sn_trees := tree_oid # sn_trees sn, sn_objects := List.insert tree_oid (sn_objects sn) \<rparr> in
          if length (sn_objects sn) > max_objects (view_graph_limits ov) \<or> depth > max_depth (view_graph_limits ov)
          then repo_resource_limit
          else
            bindE (load_structured ov tree_oid Tree) (\<lambda>tree.
            bindE (require_object tree ''entries'') (\<lambda>entries.
            case as_object entries of
              None \<Rightarrow> denied
            | Some es \<Rightarrow> foldE (snapshot_entry (view_graph_limits ov) depth) sn es)))"

text \<open>Why the traversal ends: a popped item pays for itself, a pushed one is paid by its edge.\<close>

definition snapshot_weight :: "graph_limits \<Rightarrow> snapshot_state \<Rightarrow> nat" where
  "snapshot_weight bounds sn = 2 * (max_edges bounds - sn_edges sn) + length (sn_pending sn)"

lemma snapshot_entry_weight:
  "snapshot_entry bounds depth sn e = Inr sn' \<Longrightarrow> snapshot_weight bounds sn' \<le> snapshot_weight bounds sn"
  by (auto simp: snapshot_entry_def snapshot_weight_def repo_resource_limit_def result_simps split: if_splits)

lemma snapshot_step_weight:
  assumes "snapshot_step ov item sn = Inr sn'"
  shows "snapshot_weight (view_graph_limits ov) sn' \<le> snapshot_weight (view_graph_limits ov) sn"
proof -
  have fold: "snapshot_weight bounds t' \<le> snapshot_weight bounds sn"
    if "foldE (snapshot_entry bounds depth) t es = Inr t'" "snapshot_weight bounds t \<le> snapshot_weight bounds sn"
    for bounds depth t es t'
    using foldE_invariant [OF that(1), of "\<lambda>t. snapshot_weight bounds t \<le> snapshot_weight bounds sn"] that(2)
      snapshot_entry_weight order_trans by blast
  show ?thesis
    using assms
    by (auto simp: snapshot_step_def Let_def repo_resource_limit_def denied_def result_simps snapshot_weight_def
        dest!: fold split: if_splits option.splits prod.splits)
qed

function snapshot_loop :: "object_view \<Rightarrow> snapshot_state \<Rightarrow> str list repo_result" where
  "snapshot_loop ov sn =
     (case sn_pending sn of
        [] \<Rightarrow> Inr (sort (sn_objects sn))
      | item # rest \<Rightarrow>
          bindE (snapshot_step ov item (sn\<lparr> sn_pending := rest \<rparr>)) (\<lambda>sn'. snapshot_loop ov sn'))"
  by pat_completeness auto

termination
proof (relation "measure (\<lambda>(ov, sn). snapshot_weight (view_graph_limits ov) sn)")
  fix ov sn item rest sn'
  assume "sn_pending sn = item # rest" "snapshot_step ov item (sn\<lparr> sn_pending := rest \<rparr>) = Inr sn'"
  with snapshot_step_weight [OF this(2)]
  show "((ov, sn'), ov, sn) \<in> measure (\<lambda>(ov, sn). snapshot_weight (view_graph_limits ov) sn)"
    by (simp add: snapshot_weight_def)
qed simp

declare snapshot_loop.simps [simp del]

definition snapshot_object_set :: "object_view \<Rightarrow> str \<Rightarrow> str list repo_result" where
  "snapshot_object_set ov commit_oid =
     bindE (load_structured ov commit_oid Commit) (\<lambda>commit.
     bindE (require_string commit ''snapshot'') (\<lambda>snapshot_oid.
     snapshot_loop ov \<lparr> sn_objects = [], sn_trees = [], sn_pending = [(snapshot_oid, 0)], sn_edges = 0 \<rparr>))"

section \<open>Presence and snapshot requirements\<close>

definition require_present :: "object_view \<Rightarrow> str \<Rightarrow> unit repo_result" where
  "require_present ov oid = bindE (get_present ov oid) (\<lambda>_. Inr ())"

definition require_present_oid_array :: "object_view \<Rightarrow> json \<Rightarrow> str \<Rightarrow> unit repo_result" where
  "require_present_oid_array ov v field =
     bindE (require_array v field) (\<lambda>vs.
     eachE (\<lambda>x. case as_str x of None \<Rightarrow> denied | Some oid \<Rightarrow> require_present ov oid) vs)"

definition require_present_reference_array :: "object_view \<Rightarrow> json \<Rightarrow> str \<Rightarrow> unit repo_result" where
  "require_present_reference_array ov activity_payload field =
     bindE (require_array activity_payload field) (\<lambda>vs.
     eachE (\<lambda>x. case get_str x ''oid'' of None \<Rightarrow> denied | Some oid \<Rightarrow> require_present ov oid) vs)"

definition require_present_optional :: "object_view \<Rightarrow> json \<Rightarrow> str \<Rightarrow> unit repo_result" where
  "require_present_optional ov v field =
     (if json_get v field \<noteq> None then require_present_oid_array ov v field else Inr ())"

definition require_present_activity_references :: "object_view \<Rightarrow> json \<Rightarrow> unit repo_result" where
  "require_present_activity_references ov activity_payload =
     bindE (eachE (require_present_reference_array ov activity_payload) [''input_refs'', ''output_refs'']) (\<lambda>_.
     bindE (eachE (require_present_optional ov activity_payload) [''before_observation_refs'', ''after_observation_refs'']) (\<lambda>_.
     bindE (require_object activity_payload ''ai_run'') (\<lambda>ai_run.
     require_present_optional ov ai_run ''prompt_refs'')))"

definition require_base_snapshot_bindings :: "object_view \<Rightarrow> str \<Rightarrow> str list \<Rightarrow> unit repo_result" where
  "require_base_snapshot_bindings ov base_commit required =
     bindE (snapshot_object_set ov base_commit) (\<lambda>snap. require_that (set required \<subseteq> set snap))"

definition require_candidate_preserves_base_snapshot_objects :: "object_view \<Rightarrow> str \<Rightarrow> str \<Rightarrow> unit repo_result" where
  "require_candidate_preserves_base_snapshot_objects ov candidate_commit base_commit =
     bindE (snapshot_object_set ov base_commit) (\<lambda>base.
     bindE (snapshot_object_set ov candidate_commit) (\<lambda>candidate.
     eachE (\<lambda>oid. bindE (kind_of_oid oid) (\<lambda>kind. require_that (kind = Tree \<or> oid \<in> set candidate))) base))"

definition require_direct_base_parent :: "json \<Rightarrow> str \<Rightarrow> unit repo_result" where
  "require_direct_base_parent candidate base_commit =
     bindE (require_array candidate ''parents'') (\<lambda>parents.
     require_that (length parents = 1 \<and> as_str (hd parents) = Some base_commit))"

definition canonical_timestamp_unix_nanos :: "str \<Rightarrow> int repo_result" where
  "canonical_timestamp_unix_nanos s =
     map_err (\<lambda>_. Fail (RepoCore TimestampInvalid)) (parse_canonical_timestamp_unix_nanos s)"

section \<open>Resolving authority\<close>

text \<open>The principal, Grant, Policy and Actor records that the ContextPack names.\<close>

definition resolve_grant :: "object_view \<Rightarrow> ai_execution_authority \<Rightarrow> str \<Rightarrow> (json \<times> json) repo_result" where
  "resolve_grant ov authority grant_oid =
     bindE (load_record ov grant_oid ''delegation_grant'') (\<lambda>grant.
     bindE (require_object grant ''payload'') (\<lambda>payload.
     bindE (require_string payload ''delegate_ref'') (\<lambda>delegate.
     bindE (require_equal delegate (authenticated_actor_id authority)) (\<lambda>_.
     bindE (require_string payload ''principal_ref'') (\<lambda>principal.
     bindE (require_equal principal (authorized_principal_id authority)) (\<lambda>_.
     bindE (require_string grant ''asserted_by'') (\<lambda>asserted.
     bindE (require_equal asserted (authorized_principal_id authority)) (\<lambda>_.
     Inr (grant, payload)))))))))"

definition resolve_policy :: "object_view \<Rightarrow> ai_execution_authority \<Rightarrow> str \<Rightarrow> json repo_result" where
  "resolve_policy ov authority policy_oid =
     bindE (load_record ov policy_oid ''policy'') (\<lambda>policy.
     bindE (require_string policy ''asserted_by'') (\<lambda>asserted.
     bindE (require_equal asserted (authorized_principal_id authority)) (\<lambda>_. Inr policy)))"

definition resolve_actor :: "object_view \<Rightarrow> ai_execution_authority \<Rightarrow> json repo_result" where
  "resolve_actor ov authority =
     bindE (load_record ov (actor_record_oid authority) ''actor'') (\<lambda>actor_rec.
     bindE (require_string actor_rec ''entity_id'') (\<lambda>entity.
     bindE (require_equal entity (authenticated_actor_id authority)) (\<lambda>_.
     bindE (require_object actor_rec ''payload'') (\<lambda>payload.
     bindE (require_string payload ''actor_kind'') (\<lambda>kind.
     bindE (require_equal kind ''ai_agent'') (\<lambda>_.
     bindE (require_string actor_rec ''asserted_by'') (\<lambda>asserted.
     bindE (require_equal asserted (authorized_principal_id authority)) (\<lambda>_. Inr payload))))))))"

definition check_principal :: "object_view \<Rightarrow> ai_execution_authority \<Rightarrow> unit repo_result" where
  "check_principal ov authority =
     bindE (load_record ov (principal_actor_record_oid authority) ''actor'') (\<lambda>principal.
     bindE (require_string principal ''entity_id'') (\<lambda>entity.
     bindE (require_equal entity (authorized_principal_id authority)) (\<lambda>_.
     bindE (require_string principal ''asserted_by'') (\<lambda>asserted.
     bindE (require_equal asserted (authorized_principal_id authority)) (\<lambda>_.
     bindE (require_object principal ''payload'') (\<lambda>payload.
     bindE (require_string payload ''actor_kind'') (\<lambda>kind.
     require_that (kind = ''human'' \<or> kind = ''organization''))))))))"

text \<open>The base Commit and its live Ref name, bound to the snapshot that holds the authority records.\<close>

definition resolve_base :: "object_view \<Rightarrow> ai_execution_authority \<Rightarrow> json \<Rightarrow> str \<Rightarrow> str \<Rightarrow> (str \<times> str) repo_result" where
  "resolve_base ov authority context_payload grant_oid policy_oid =
     bindE (require_string context_payload ''base_commit'') (\<lambda>base_commit.
     bindE (require_string context_payload ''expected_ref_head'') (\<lambda>expected_base.
     bindE (require_equal base_commit expected_base) (\<lambda>_.
     bindE (require_array_contains context_payload ''selected_context_refs'' base_commit) (\<lambda>_.
     bindE (require_present_oid_array ov context_payload ''selected_context_refs'') (\<lambda>_.
     bindE (require_base_snapshot_bindings ov base_commit
       [actor_record_oid authority, principal_actor_record_oid authority, grant_oid, policy_oid]) (\<lambda>_.
     bindE (require_string context_payload ''base_ref_name'') (\<lambda>base_ref_name.
     bindE (require_equal base_ref_name (authorized_base_ref authority)) (\<lambda>_.
     Inr (base_commit, base_ref_name)))))))))"

definition check_scope :: "ai_execution_authority \<Rightarrow> json \<Rightarrow> json \<Rightarrow> json \<Rightarrow> str \<Rightarrow> str repo_result" where
  "check_scope authority context_payload grant_payload policy target_ref =
     bindE (require_string grant_payload ''project_ref'') (\<lambda>project_id.
     bindE (require_equal project_id (authorized_project_id authority)) (\<lambda>_.
     bindE (require_object policy ''payload'') (\<lambda>policy_payload.
     bindE (require_array_contains policy_payload ''scope_refs'' project_id) (\<lambda>_.
     bindE (require_string context_payload ''data_classification'') (\<lambda>classification.
     bindE (require_array_contains grant_payload ''data_classes'' classification) (\<lambda>_.
     bindE (require_project_resource grant_payload project_id) (\<lambda>_.
     bindE (require_writable_prefix grant_payload target_ref) (\<lambda>_.
     Inr project_id))))))))"

definition check_capabilities ::
    "ai_execution_authority \<Rightarrow> json \<Rightarrow> json \<Rightarrow> json \<Rightarrow> str \<Rightarrow> str \<Rightarrow> ai_capability list repo_result" where
  "check_capabilities authority actor_payload grant_payload policy project_id target_ref =
     (let exact = btree_set (authorized_capabilities authority) in
      bindE (require_that (ProposeBranch \<in> set exact)) (\<lambda>_.
      bindE (require_object actor_payload ''ai_profile'') (\<lambda>profile.
      bindE (require_array profile ''capabilities'') (\<lambda>vs.
      bindE (parse_capabilities vs) (\<lambda>actor_caps.
      bindE (require_array grant_payload ''capabilities'') (\<lambda>ws.
      bindE (parse_capabilities ws) (\<lambda>grant_caps.
      let runtime_caps = btree_set (runtime_capabilities authority) in
      bindE (eachE (\<lambda>c.
        bindE (require_that (c \<in> set actor_caps \<and> c \<in> set grant_caps \<and> c \<in> set runtime_caps)) (\<lambda>_.
        authorize_policy_capability policy c project_id target_ref)) exact) (\<lambda>_.
      Inr exact))))))))"

definition read_clock :: "int option \<Rightarrow> int repo_result" where
  "read_clock now = (case now of None \<Rightarrow> fails RepoClock | Some t \<Rightarrow> Inr t)"

definition resolve_ai_authority ::
    "object_view \<Rightarrow> ai_execution_authority \<Rightarrow> int option \<Rightarrow> ai_publication_target \<Rightarrow> resolved_ai_authority repo_result" where
  "resolve_ai_authority ov authority now target =
     bindE (of_refs (validate_ref_name (tg_ref_name target))) (\<lambda>_.
     bindE (require_ai_namespace (tg_ref_name target)) (\<lambda>_.
     bindE (of_refs (validate_commit_oid_opt (tg_expected_head target))) (\<lambda>_.
     bindE (require_human_gated_base (authorized_base_ref authority)) (\<lambda>_.
     bindE (load_record ov (context_pack_oid authority) ''context_pack'') (\<lambda>context.
     bindE (require_string context ''asserted_by'') (\<lambda>asserted.
     bindE (require_equal asserted (authorized_principal_id authority)) (\<lambda>_.
     bindE (require_object context ''payload'') (\<lambda>context_payload.
     bindE (require_string context_payload ''delegation_grant_ref'') (\<lambda>grant_oid.
     bindE (require_string context_payload ''policy_snapshot_ref'') (\<lambda>policy_oid.
     bindE (resolve_grant ov authority grant_oid) (\<lambda>(grant, grant_payload).
     bindE (resolve_policy ov authority policy_oid) (\<lambda>policy.
     bindE (resolve_actor ov authority) (\<lambda>actor_payload.
     bindE (check_principal ov authority) (\<lambda>_.
     bindE (resolve_base ov authority context_payload grant_oid policy_oid) (\<lambda>(base_commit, base_ref_name).
     bindE (check_scope authority context_payload grant_payload policy (tg_ref_name target)) (\<lambda>project_id.
     bindE (check_capabilities authority actor_payload grant_payload policy project_id (tg_ref_name target)) (\<lambda>exact.
     bindE (require_string grant ''recorded_at'') (\<lambda>recorded_at.
     bindE (canonical_timestamp_unix_nanos recorded_at) (\<lambda>active_from.
     bindE (require_string grant_payload ''expires_at'') (\<lambda>expires.
     bindE (canonical_timestamp_unix_nanos expires) (\<lambda>expires_at.
     bindE (read_clock now) (\<lambda>evaluated_at.
     bindE (require_that (active_from \<le> evaluated_at)) (\<lambda>_.
     bindE (require_that (evaluated_at < expires_at)) (\<lambda>_.
     Inr \<lparr> res_context_payload = context_payload, res_grant_payload = grant_payload,
           res_delegation_grant_oid = grant_oid, res_policy_oid = policy_oid, res_base_ref_name = base_ref_name,
           res_base_commit_oid = base_commit, res_target_ref_name = tg_ref_name target,
           res_expected_target_head = tg_expected_head target, res_side_effect_class = tg_side_effect_class target,
           res_exact_capabilities = exact, res_grant_active_from = active_from, res_grant_expires_at = expires_at,
           res_evaluated_at = evaluated_at \<rparr>))))))))))))))))))))))))"

section \<open>Candidate outputs\<close>

type_synonym links = "(str \<times> str) list"

definition linked :: "links \<Rightarrow> str \<Rightarrow> str list" where
  "linked ls oid = map snd (filter (\<lambda>l. fst l = oid) ls)"

text \<open>The loops that close a set of roots under the edges of the candidate closure.\<close>

function reach_loop :: "links \<Rightarrow> nat \<Rightarrow> str list \<Rightarrow> str list \<Rightarrow> str list repo_result" where
  "reach_loop out limit seen [] = Inr (sort seen)"
| "reach_loop out limit seen (oid # rest) =
     (if oid \<in> set seen then reach_loop out limit seen rest
      else if Suc (length seen) > limit then repo_resource_limit
      else reach_loop out limit (oid # seen) (rev (linked out oid) @ rest))"
  by pat_completeness auto

termination
  by (relation "measures [\<lambda>(out, limit, seen, pending). limit - length seen, \<lambda>(out, limit, seen, pending). length pending]") auto

definition close_under :: "links \<Rightarrow> nat \<Rightarrow> str list \<Rightarrow> str list repo_result" where
  "close_under out limit roots = reach_loop out limit [] (rev roots)"

text \<open>The Trees of the snapshot above a bound object are bound as well.\<close>

definition unbound :: "links \<Rightarrow> str list \<Rightarrow> str \<Rightarrow> str list" where
  "unbound up bound oid = filter (\<lambda>p. p \<notin> set bound) (distinct_first (linked up oid))"

lemma unbound_measure:
  assumes "unbound up bound oid \<noteq> []"
  shows "card (set (map snd up) - set (unbound up bound oid @ bound)) < card (set (map snd up) - set bound)"
proof (rule psubset_card_mono)
  obtain p where p: "p \<in> set (unbound up bound oid)" using assms by (cases "unbound up bound oid") auto
  then have "p \<in> set (map snd up)" "p \<notin> set bound" by (auto simp: unbound_def distinct_first_def linked_def)
  then show "set (map snd up) - set (unbound up bound oid @ bound) \<subset> set (map snd up) - set bound" using p by auto
qed simp

function bind_loop :: "links \<Rightarrow> str list \<Rightarrow> str list \<Rightarrow> str list" where
  "bind_loop up bound [] = bound"
| "bind_loop up bound (oid # rest) = bind_loop up (unbound up bound oid @ bound) (rev (unbound up bound oid) @ rest)"
  by pat_completeness auto

termination
proof (relation "measures [\<lambda>(up, bound, pending). card (set (map snd up) - set bound), \<lambda>(up, bound, pending). length pending]")
  fix up bound oid rest
  show "((up, unbound up bound oid @ bound, rev (unbound up bound oid) @ rest), up, bound, oid # rest)
    \<in> measures [\<lambda>(up, bound, pending). card (set (map snd up) - set bound), \<lambda>(up, bound, pending). length pending]"
    using unbound_measure [of up bound oid] by (cases "unbound up bound oid = []") auto
qed simp

record candidate_binding =
  cb_candidate_commit :: str
  cb_base_commit :: str
  cb_activity_oid :: str
  cb_context_pack_oid :: str
  cb_actor_id :: str
  cb_context_payload :: json
  cb_activity_payload :: json
  cb_grant_payload :: json

definition oid_fields :: "json list \<Rightarrow> str list repo_result" where
  "oid_fields outputs =
     bindE (mapE (\<lambda>output. case get_str output ''oid'' of None \<Rightarrow> denied | Some oid \<Rightarrow> Inr oid) outputs) (\<lambda>oids.
     Inr (btree_set oids))"

definition oid_strings :: "json list \<Rightarrow> str list repo_result" where
  "oid_strings vs = mapE (\<lambda>v. case as_str v of None \<Rightarrow> denied | Some oid \<Rightarrow> Inr oid) vs"

definition node_kind :: "closure_report \<Rightarrow> str \<Rightarrow> (object_kind \<times> nat) repo_result" where
  "node_kind rp oid =
     (case map_of (nodes rp) oid of
        None \<Rightarrow> fails (RepoCore ClosureMissing)
      | Some n \<Rightarrow> (case node_state n of Present kind len \<Rightarrow> Inr (kind, len) | _ \<Rightarrow> fails (RepoCore ClosureMissing)))"

definition check_input_object :: "object_view \<Rightarrow> closure_report \<Rightarrow> str \<Rightarrow> unit repo_result" where
  "check_input_object ov rp oid =
     bindE (node_kind rp oid) (\<lambda>(kind, _).
     if kind = Record then bindE (structured_body ov oid) (\<lambda>_. Inr ()) else Inr ())"

definition snapshot_links :: "str list \<Rightarrow> graph_edge list \<Rightarrow> links repo_result" where
  "snapshot_links snap es =
     foldE (\<lambda>ls e.
       if edge_source e \<in> set snap \<and> edge_target e \<in> set snap then
         bindE (kind_of_oid (edge_source e)) (\<lambda>kind.
         Inr (if kind = Tree then ls @ [(edge_target e, edge_source e)] else ls))
       else Inr ls) [] es"

text \<open>Nothing in the candidate snapshot, or in its closure, that the Activity does not declare.\<close>

definition check_snapshot_declared ::
    "str list \<Rightarrow> str list \<Rightarrow> str \<Rightarrow> str \<Rightarrow> str \<Rightarrow> str list \<Rightarrow> str list \<Rightarrow> unit repo_result" where
  "check_snapshot_declared snap base_snap snapshot_root activity_oid pack_oid produced bound =
     eachE (\<lambda>oid. bindE (kind_of_oid oid) (\<lambda>kind.
       require_that (oid \<in> set base_snap \<or> (kind = Tree \<and> (oid = snapshot_root \<or> oid \<in> set bound))
         \<or> oid = activity_oid \<or> oid = pack_oid \<or> oid \<in> set produced))) snap"

definition is_tree_node :: "closure_node \<Rightarrow> bool" where
  "is_tree_node n = (case node_state n of Present kind _ \<Rightarrow> kind = Tree | _ \<Rightarrow> False)"

definition check_closure_declared ::
    "closure_report \<Rightarrow> closure_report \<Rightarrow> str \<Rightarrow> str \<Rightarrow> str \<Rightarrow> str list \<Rightarrow> str list \<Rightarrow> unit repo_result" where
  "check_closure_declared candidate base candidate_commit activity_oid pack_oid inputs produced =
     eachE (\<lambda>(oid, n).
       require_that (map_of (nodes base) oid \<noteq> None \<or> oid = candidate_commit \<or> oid = activity_oid \<or> oid = pack_oid
         \<or> oid \<in> set inputs \<or> is_tree_node n \<or> oid \<in> set produced)) (nodes candidate)"

record output_count =
  oc_bytes :: nat
  oc_counted :: "str list"
  oc_required :: "ai_capability list"

definition count_bytes :: "output_count \<Rightarrow> str \<Rightarrow> nat \<Rightarrow> output_count repo_result" where
  "count_bytes oc oid len =
     (if oid \<in> set (oc_counted oc) then Inr oc
      else if oc_bytes oc + len > u64_max then repo_resource_limit
      else Inr (oc\<lparr> oc_bytes := oc_bytes oc + len, oc_counted := oid # oc_counted oc \<rparr>))"

definition count_tree :: "object_view \<Rightarrow> output_count \<Rightarrow> str \<Rightarrow> output_count repo_result" where
  "count_tree ov oc oid =
     bindE (kind_of_oid oid) (\<lambda>kind.
     if kind \<noteq> Tree then Inr oc
     else bindE (get_present ov oid) (\<lambda>tree. count_bytes oc oid (obj_byte_len tree)))"

definition require_capability :: "ai_capability \<Rightarrow> output_count \<Rightarrow> output_count" where
  "require_capability c oc = oc\<lparr> oc_required := btree_set (c # oc_required oc) \<rparr>"

text \<open>What an output Record may be: an analysis result or a Claim of the authenticated agent.\<close>

definition check_output_record :: "object_view \<Rightarrow> str \<Rightarrow> str \<Rightarrow> output_count \<Rightarrow> output_count repo_result" where
  "check_output_record ov actor_id oid oc =
     bindE (structured_body ov oid) (\<lambda>v.
     bindE (require_string v ''asserted_by'') (\<lambda>asserted.
     bindE (require_equal asserted actor_id) (\<lambda>_.
     if get_str v ''record_type'' = Some ''analysis_result'' then Inr (require_capability Analyze oc)
     else if get_str v ''record_type'' = Some ''claim'' then
       bindE (require_object v ''payload'') (\<lambda>payload.
       if json_get payload ''ai_run_ref'' \<noteq> None then denied else Inr (require_capability SubmitClaim oc))
     else denied)))"

definition count_output ::
    "object_view \<Rightarrow> closure_report \<Rightarrow> str list \<Rightarrow> str \<Rightarrow> output_count \<Rightarrow> str \<Rightarrow> output_count repo_result" where
  "count_output ov candidate base_snap actor_id oc oid =
     bindE (node_kind candidate oid) (\<lambda>(kind, len).
     bindE (if oid \<notin> set base_snap then count_bytes oc oid len else Inr oc) (\<lambda>oc.
     if kind = Record then check_output_record ov actor_id oid oc
     else if kind = Commit then denied
     else Inr oc))"

definition role_capability :: "output_count \<Rightarrow> json \<Rightarrow> output_count" where
  "role_capability oc output =
     (if get_str output ''role'' = Some ''preview'' then require_capability RenderPreview oc
      else if get_str output ''role'' = Some ''review_request'' then require_capability RequestReview oc
      else oc)"

text \<open>\<open>limit as u64\<close> wraps a negative limit around.\<close>

definition within_output_limit :: "json \<Rightarrow> nat \<Rightarrow> bool" where
  "within_output_limit grant_payload n =
     (case Option.bind (json_get grant_payload ''max_output_bytes'') as_i64 of
        None \<Rightarrow> True
      | Some limit \<Rightarrow> int n \<le> limit mod 2 ^ 64)"

definition require_candidate_output_binding :: "object_view \<Rightarrow> candidate_binding \<Rightarrow> ai_capability list repo_result" where
  "require_candidate_output_binding ov cb =
     bindE (of_store (new_verifier (view_get ov) (view_list_kind ov) (view_graph_limits ov) (view_scan_limits ov))) (\<lambda>verifier.
     bindE (of_store (verify_uncached (view_get ov) verifier (cb_candidate_commit cb))) (\<lambda>candidate.
     bindE (of_store (verify_uncached (view_get ov) verifier (cb_base_commit cb))) (\<lambda>base.
     if \<not> is_complete candidate \<or> \<not> is_complete base then fails (RepoCore ClosureMissing)
     else
     bindE (load_structured ov (cb_candidate_commit cb) Commit) (\<lambda>commit.
     bindE (require_string commit ''snapshot'') (\<lambda>snapshot_root.
     bindE (snapshot_object_set ov (cb_candidate_commit cb)) (\<lambda>snap.
     bindE (snapshot_object_set ov (cb_base_commit cb)) (\<lambda>base_snap.
     bindE (require_array (cb_activity_payload cb) ''output_refs'') (\<lambda>outputs.
     bindE (oid_fields outputs) (\<lambda>output_roots.
     bindE (require_that (set output_roots \<subseteq> set snap)) (\<lambda>_.
     let outgoing = map (\<lambda>e. (edge_source e, edge_target e)) (edges candidate);
         limit = max_objects (view_graph_limits ov) in
     bindE (close_under outgoing limit output_roots) (\<lambda>output_closure.
     bindE (require_array (cb_context_payload cb) ''selected_context_refs'') (\<lambda>selected.
     bindE (oid_strings selected) (\<lambda>input_oids.
     bindE (close_under outgoing limit (btree_set (cb_context_pack_oid cb # input_oids))) (\<lambda>input_closure.
     bindE (eachE (check_input_object ov candidate) input_closure) (\<lambda>_.
     let produced = filter (\<lambda>oid. oid \<in> set output_roots \<or> oid \<notin> set input_closure) output_closure in
     bindE (snapshot_links snap (edges candidate)) (\<lambda>parents.
     let bound = filter (\<lambda>oid. oid \<in> set base_snap \<or> oid = cb_activity_oid cb \<or> oid = cb_context_pack_oid cb
           \<or> oid \<in> set produced) snap;
         bound = bind_loop parents bound (rev bound) in
     bindE (check_snapshot_declared snap base_snap snapshot_root (cb_activity_oid cb) (cb_context_pack_oid cb) produced bound) (\<lambda>_.
     bindE (check_closure_declared candidate base (cb_candidate_commit cb) (cb_activity_oid cb) (cb_context_pack_oid cb)
       input_closure produced) (\<lambda>_.
     bindE (foldE (count_tree ov) \<lparr> oc_bytes = 0, oc_counted = [], oc_required = [ReadContext, ProposeBranch] \<rparr>
       (filter (\<lambda>oid. oid \<notin> set base_snap) snap)) (\<lambda>oc.
     bindE (foldE (count_output ov candidate base_snap (cb_actor_id cb)) oc produced) (\<lambda>oc.
     let oc = foldl role_capability oc outputs in
     bindE (require_that (within_output_limit (cb_grant_payload cb) (oc_bytes oc))) (\<lambda>_.
     Inr (oc_required oc))))))))))))))))))))))"

section \<open>Publication\<close>

definition require_preflight_authority_binding :: "ai_execution_authority \<Rightarrow> ai_preflight_decision \<Rightarrow> unit repo_result" where
  "require_preflight_authority_binding authority decision =
     require_that (pd_actor_id decision = authenticated_actor_id authority
       \<and> pd_project_id decision = authorized_project_id authority
       \<and> pd_principal_id decision = authorized_principal_id authority
       \<and> pd_base_ref decision = authorized_base_ref authority
       \<and> pd_actor_record_oid decision = actor_record_oid authority
       \<and> pd_principal_actor_record_oid decision = principal_actor_record_oid authority
       \<and> pd_context_pack_oid decision = context_pack_oid authority
       \<and> pd_exact_capabilities decision = normalized_capabilities (authorized_capabilities authority)
       \<and> pd_runtime_capabilities decision = normalized_capabilities (runtime_capabilities authority))"

definition require_resolved_preflight_binding :: "resolved_ai_authority \<Rightarrow> ai_preflight_decision \<Rightarrow> unit repo_result" where
  "require_resolved_preflight_binding resolved decision =
     (if res_evaluated_at resolved < pd_evaluated_at decision then fails RepoClock
      else require_that (res_delegation_grant_oid resolved = pd_delegation_grant_oid decision
       \<and> res_policy_oid resolved = pd_policy_oid decision
       \<and> res_base_ref_name resolved = pd_base_ref decision
       \<and> res_base_commit_oid resolved = pd_base_commit_oid decision
       \<and> res_target_ref_name resolved = pd_target_ref_name decision
       \<and> res_expected_target_head resolved = pd_expected_target_head decision
       \<and> res_side_effect_class resolved = pd_side_effect_class decision
       \<and> res_exact_capabilities resolved = pd_exact_capabilities decision
       \<and> res_grant_expires_at resolved = pd_grant_expires_at decision))"

definition live_head :: "ref_store \<Rightarrow> str \<Rightarrow> str option repo_result" where
  "live_head s n = bindE (of_refs (get_ref s n)) (\<lambda>rec. Inr (map_option head rec))"

definition preflight_proposal ::
    "object_view \<Rightarrow> ref_store \<Rightarrow> ai_execution_authority \<Rightarrow> int option \<Rightarrow> ai_publication_target \<Rightarrow> ai_preflight_decision repo_result" where
  "preflight_proposal ov s authority now target =
     bindE (resolve_ai_authority ov authority now target) (\<lambda>resolved.
     bindE (live_head s (authorized_base_ref authority)) (\<lambda>actual_base.
     if actual_base \<noteq> Some (res_base_commit_oid resolved) then fails (RepoCore StaleBase)
     else
     bindE (live_head s (tg_ref_name target)) (\<lambda>actual_target.
     if actual_target \<noteq> tg_expected_head target then
       fails (RepoRefStore (RefConflict (tg_ref_name target) (tg_expected_head target) actual_target))
     else
     Inr \<lparr> pd_actor_id = authenticated_actor_id authority, pd_project_id = authorized_project_id authority,
           pd_principal_id = authorized_principal_id authority, pd_base_ref = authorized_base_ref authority,
           pd_actor_record_oid = actor_record_oid authority,
           pd_principal_actor_record_oid = principal_actor_record_oid authority,
           pd_context_pack_oid = context_pack_oid authority,
           pd_delegation_grant_oid = res_delegation_grant_oid resolved, pd_policy_oid = res_policy_oid resolved,
           pd_base_commit_oid = res_base_commit_oid resolved, pd_target_ref_name = tg_ref_name target,
           pd_expected_target_head = tg_expected_head target, pd_side_effect_class = tg_side_effect_class target,
           pd_exact_capabilities = res_exact_capabilities resolved,
           pd_runtime_capabilities = normalized_capabilities (runtime_capabilities authority),
           pd_evaluated_at = res_evaluated_at resolved, pd_grant_expires_at = res_grant_expires_at resolved \<rparr>)))"

text \<open>The candidate Commit and the AI Activity, before any authority is resolved.\<close>

definition check_candidate_commit :: "ai_execution_authority \<Rightarrow> ai_proposal_update \<Rightarrow> json \<Rightarrow> unit repo_result" where
  "check_candidate_commit authority request commit =
     bindE (require_string commit ''commit_kind'') (\<lambda>kind.
     bindE (require_equal kind ''checkpoint'') (\<lambda>_.
     bindE (require_string commit ''author_ref'') (\<lambda>author.
     bindE (require_equal author (authenticated_actor_id authority)) (\<lambda>_.
     require_array_contains commit ''transition_refs'' (pr_activity_oid request)))))"

record activity_claims =
  act_payload :: json
  act_ai_run :: json
  act_side_effect :: ai_side_effect_class
  act_context_pack_oid :: str
  act_grant_oid :: str

definition check_activity :: "ai_execution_authority \<Rightarrow> json \<Rightarrow> activity_claims repo_result" where
  "check_activity authority activity =
     bindE (require_object activity ''payload'') (\<lambda>payload.
     bindE (require_string payload ''activity_kind'') (\<lambda>kind.
     bindE (require_equal kind ''ai_run'') (\<lambda>_.
     bindE (require_object payload ''ai_run'') (\<lambda>ai_run.
     bindE (require_string ai_run ''status'') (\<lambda>status.
     bindE (require_equal status ''proposal_ready'') (\<lambda>_.
     bindE (case Option.bind (get_str payload ''side_effect_class'') side_effect_parse of None \<Rightarrow> denied | Some c \<Rightarrow> Inr c)
       (\<lambda>side_effect.
     bindE (require_string ai_run ''agent_ref'') (\<lambda>agent_id.
     bindE (require_string ai_run ''responsible_principal_ref'') (\<lambda>principal_id.
     bindE (require_equal agent_id (authenticated_actor_id authority)) (\<lambda>_.
     bindE (require_equal principal_id (authorized_principal_id authority)) (\<lambda>_.
     bindE (require_role_actor payload ''agent'' agent_id) (\<lambda>_.
     bindE (require_role_actor payload ''responsible_principal'' principal_id) (\<lambda>_.
     bindE (require_string activity ''asserted_by'') (\<lambda>asserted.
     bindE (require_equal asserted agent_id) (\<lambda>_.
     bindE (require_string ai_run ''context_pack_ref'') (\<lambda>pack_oid.
     bindE (require_equal pack_oid (context_pack_oid authority)) (\<lambda>_.
     bindE (require_string ai_run ''delegation_grant_ref'') (\<lambda>grant_oid.
     bindE (require_role_oid payload ''input_refs'' ''context'' pack_oid) (\<lambda>_.
     Inr \<lparr> act_payload = payload, act_ai_run = ai_run, act_side_effect = side_effect,
           act_context_pack_oid = pack_oid, act_grant_oid = grant_oid \<rparr>)))))))))))))))))))"

definition check_requested_capabilities ::
    "json \<Rightarrow> ai_capability list \<Rightarrow> ai_capability list \<Rightarrow> ai_capability list repo_result" where
  "check_requested_capabilities ai_run exact required =
     bindE (require_array ai_run ''requested_capabilities'') (\<lambda>vs.
     bindE (parse_capabilities vs) (\<lambda>requested.
     bindE (require_that (requested = btree_set exact)) (\<lambda>_.
     bindE (require_that (ProposeBranch \<in> set requested)) (\<lambda>_.
     bindE (require_that (set required \<subseteq> set requested)) (\<lambda>_.
     Inr requested)))))"

text \<open>The guard that runs inside the Ref transaction.\<close>

definition transaction_guard :: "int option \<Rightarrow> resolved_ai_authority \<Rightarrow> validation_error + unit" where
  "transaction_guard now resolved =
     (case now of
        None \<Rightarrow> Inl (ValidationError ''storage_error'')
      | Some t \<Rightarrow>
          if t < res_evaluated_at resolved then Inl (ValidationError ''storage_error'')
          else if t < res_grant_active_from resolved then Inl (ValidationError ''authorization_denied'')
          else if t \<ge> res_grant_expires_at resolved then Inl (ValidationError ''authorization_denied'')
          else Inr ())"

definition stale_precondition :: "ref_store_error \<Rightarrow> repository_error" where
  "stale_precondition e = (case e of PreconditionFailed _ _ _ \<Rightarrow> RepoCore StaleBase | _ \<Rightarrow> RepoRefStore e)"

definition check_proposal_request :: "ai_execution_authority \<Rightarrow> ai_proposal_update \<Rightarrow> unit repo_result" where
  "check_proposal_request authority request =
     bindE (of_refs (validate_ref_name (pr_ref_name request))) (\<lambda>_.
     bindE (require_ai_namespace (pr_ref_name request)) (\<lambda>_.
     bindE (of_refs (validate_commit_oid (pr_new_head request))) (\<lambda>_.
     bindE (of_refs (validate_commit_oid_opt (pr_expected_head request))) (\<lambda>_.
     bindE (require_oid_kind (pr_activity_oid request) Record) (\<lambda>_.
     require_human_gated_base (authorized_base_ref authority))))))"

definition check_preflight :: "resolved_ai_authority \<Rightarrow> ai_preflight_decision option \<Rightarrow> unit repo_result" where
  "check_preflight resolved preflight =
     (case preflight of None \<Rightarrow> Inr () | Some decision \<Rightarrow> require_resolved_preflight_binding resolved decision)"

text \<open>Everything that is decided before the transaction: the resolved authority and the capabilities used.\<close>

definition authorize_proposal ::
    "object_view \<Rightarrow> prepared_verifier \<Rightarrow> ai_execution_authority \<Rightarrow> int option \<Rightarrow> ai_proposal_update \<Rightarrow> ai_side_effect_class option
      \<Rightarrow> ai_preflight_decision option \<Rightarrow> (resolved_ai_authority \<times> activity_claims \<times> ai_capability list) repo_result" where
  "authorize_proposal ov verifier authority now request required_side_effect preflight =
     bindE (map_err (map_fault (\<lambda>e. RepoRefStore (Validation e)))
       (validate_prepared_head (view_get ov) verifier (pr_new_head request))) (\<lambda>_.
     bindE (load_structured ov (pr_new_head request) Commit) (\<lambda>commit.
     bindE (load_record ov (pr_activity_oid request) ''activity'') (\<lambda>activity.
     bindE (check_candidate_commit authority request commit) (\<lambda>_.
     bindE (check_activity authority activity) (\<lambda>act.
     let authorized_side_effect = (case required_side_effect of None \<Rightarrow> act_side_effect act | Some c \<Rightarrow> c);
         target = \<lparr> tg_ref_name = pr_ref_name request, tg_expected_head = pr_expected_head request,
                    tg_side_effect_class = authorized_side_effect \<rparr> in
     bindE (resolve_ai_authority ov authority now target) (\<lambda>resolved.
     bindE (check_preflight resolved preflight) (\<lambda>_.
     bindE (require_that (act_side_effect act = authorized_side_effect)) (\<lambda>_.
     bindE (require_equal (act_grant_oid act) (res_delegation_grant_oid resolved)) (\<lambda>_.
     bindE (require_direct_base_parent commit (res_base_commit_oid resolved)) (\<lambda>_.
     bindE (require_candidate_preserves_base_snapshot_objects ov (pr_new_head request) (res_base_commit_oid resolved)) (\<lambda>_.
     bindE (require_present_activity_references ov (act_payload act)) (\<lambda>_.
     bindE (require_candidate_output_binding ov
       \<lparr> cb_candidate_commit = pr_new_head request, cb_base_commit = res_base_commit_oid resolved,
         cb_activity_oid = pr_activity_oid request, cb_context_pack_oid = act_context_pack_oid act,
         cb_actor_id = authenticated_actor_id authority, cb_context_payload = res_context_payload resolved,
         cb_activity_payload = act_payload act, cb_grant_payload = res_grant_payload resolved \<rparr>) (\<lambda>required.
     bindE (check_requested_capabilities (act_ai_run act) (res_exact_capabilities resolved) required) (\<lambda>requested.
     Inr (resolved, act, requested)))))))))))))))"

definition proposal_update :: "ai_execution_authority \<Rightarrow> ai_proposal_update \<Rightarrow> int \<Rightarrow> ref_update" where
  "proposal_update authority request evaluated_at =
     \<lparr> up_ref_name = pr_ref_name request, up_expected_head = pr_expected_head request, up_new_head = pr_new_head request,
       up_metadata = \<lparr> md_occurred_at = evaluated_at, md_actor = Some (authenticated_actor_id authority),
                       md_message = pr_message request \<rparr> \<rparr>"

definition publish_proposal_internal ::
    "object_view \<Rightarrow> ai_execution_authority \<Rightarrow> int option \<Rightarrow> int option \<Rightarrow> ref_store \<Rightarrow> ai_proposal_update
      \<Rightarrow> ai_side_effect_class option \<Rightarrow> ai_preflight_decision option \<Rightarrow> (authorization_decision \<times> ref_store) repo_result" where
  "publish_proposal_internal ov authority now later s request required_side_effect preflight =
     bindE (check_proposal_request authority request) (\<lambda>_.
     bindE (of_store (new_verifier (view_get ov) (view_list_kind ov) (view_graph_limits ov) (view_scan_limits ov))) (\<lambda>verifier.
     bindE (authorize_proposal ov verifier authority now request required_side_effect preflight) (\<lambda>(resolved, act, requested).
     if \<not> in_i64 (res_evaluated_at resolved) then fails RepoClock
     else
     bindE (map_err (\<lambda>e. Fail (stale_precondition e)) (compare_and_swap_with_preconditions_and_guard
         (\<lambda>h. caught (validate_prepared_head (view_get ov) verifier h)) (transaction_guard later resolved) s
         (proposal_update authority request (res_evaluated_at resolved))
         [\<lparr> pre_ref_name = res_base_ref_name resolved, pre_expected_head = Some (res_base_commit_oid resolved) \<rparr>])) (\<lambda>(entry, s').
     Inr (\<lparr> dec_reflog = entry, dec_actor_record_oid = actor_record_oid authority,
            dec_activity_oid = pr_activity_oid request, dec_context_pack_oid = act_context_pack_oid act,
            dec_delegation_grant_oid = act_grant_oid act, dec_policy_oid = res_policy_oid resolved,
            dec_effective_capabilities = requested \<rparr>, s')))))"

definition on_refs :: "(ref_store \<Rightarrow> ('a \<times> ref_store) repo_result) \<Rightarrow> 'a repo_action" where
  "on_refs f r = (case f (refs_of r) of Inl e \<Rightarrow> (Inl e, r) | Inr (x, s) \<Rightarrow> (Inr x, r\<lparr> refs_of := s \<rparr>))"

definition publish_proposal ::
    "(bytes \<Rightarrow> bytes) \<Rightarrow> (str \<Rightarrow> str) \<Rightarrow> schema_registry \<Rightarrow> ai_execution_authority \<Rightarrow> int option \<Rightarrow> int option
      \<Rightarrow> ai_proposal_update \<Rightarrow> authorization_decision repo_action" where
  "publish_proposal sha256 nfc reg authority now later request r =
     on_refs (\<lambda>s. publish_proposal_internal (repo_view sha256 nfc reg r) authority now later s request None None) r"

definition preflight_update :: "ai_preflight_decision \<Rightarrow> ai_generated_proposal \<Rightarrow> ai_proposal_update" where
  "preflight_update decision generated =
     \<lparr> pr_ref_name = pd_target_ref_name decision, pr_expected_head = pd_expected_target_head decision,
       pr_new_head = gen_new_head generated, pr_message = gen_message generated,
       pr_activity_oid = gen_activity_oid generated \<rparr>"

definition publish_preflighted_through ::
    "object_view \<Rightarrow> ai_execution_authority \<Rightarrow> int option \<Rightarrow> int option \<Rightarrow> ai_preflight_decision \<Rightarrow> ai_generated_proposal \<Rightarrow> ref_store
      \<Rightarrow> (authorization_decision \<times> ref_store) repo_result" where
  "publish_preflighted_through ov authority now later decision generated s =
     bindE (require_preflight_authority_binding authority decision) (\<lambda>_.
     publish_proposal_internal ov authority now later s (preflight_update decision generated)
       (Some (pd_side_effect_class decision)) (Some decision))"

definition publish_preflighted ::
    "(bytes \<Rightarrow> bytes) \<Rightarrow> (str \<Rightarrow> str) \<Rightarrow> schema_registry \<Rightarrow> ai_execution_authority \<Rightarrow> int option \<Rightarrow> int option
      \<Rightarrow> ai_preflight_decision \<Rightarrow> ai_generated_proposal \<Rightarrow> authorization_decision repo_action" where
  "publish_preflighted sha256 nfc reg authority now later decision generated r =
     on_refs (publish_preflighted_through (repo_view sha256 nfc reg r) authority now later decision generated) r"

end
