(* ===== verification/Authorization_Laws.thy ===== *)
theory Authorization_Laws
  imports Authorization
begin

text \<open>
  Facts about the authorization checks: the requirements as conditions on the records read, the
  Policy decision as a condition on the set of rules, the snapshot traversal as reachability, and
  what a successful publication implies.
\<close>

section \<open>Requirements\<close>

named_theorems require_simps \<open>success of a requirement as a condition\<close>

lemma require_that_ok [require_simps]: "require_that b = Inr u \<longleftrightarrow> b"
  by (simp add: require_that_def denied_def)

lemma require_equal_ok [require_simps]: "require_equal a b = Inr u \<longleftrightarrow> a = b"
  by (simp add: require_equal_def require_that_ok)

lemma require_string_ok [require_simps]: "require_string v k = Inr s \<longleftrightarrow> get_str v k = Some s"
  by (simp add: require_string_def denied_def split: option.split)

lemma require_array_ok [require_simps]: "require_array v k = Inr vs \<longleftrightarrow> json_get v k = Some (Array vs)"
proof (cases "json_get v k")
  case (Some x)
  then show ?thesis by (cases x) (auto simp: require_array_def denied_def)
qed (simp add: require_array_def denied_def)

lemma require_object_ok [require_simps]: "require_object v k = Inr w \<longleftrightarrow> (\<exists>es. json_get v k = Some w \<and> w = Object es)"
proof -
  have "as_object x \<noteq> None \<longleftrightarrow> (\<exists>es. x = Object es)" for x by (cases x) auto
  then show ?thesis by (auto simp: require_object_def denied_def split: option.split)
qed

lemma require_array_contains_ok [require_simps]:
  "require_array_contains v k s = Inr u \<longleftrightarrow> (\<exists>vs. json_get v k = Some (Array vs) \<and> (\<exists>x\<in>set vs. as_str x = Some s))"
  by (auto simp: require_array_contains_def result_simps require_simps list_ex_iff)

lemma kind_of_oid_ok [require_simps]: "kind_of_oid oid = Inr k \<longleftrightarrow> parse_oid oid = Inr k"
  by (simp add: kind_of_oid_def result_simps)

lemma get_present_ok [require_simps]: "get_present ov oid = Inr ob \<longleftrightarrow> view_get ov oid = Inr (Some ob)"
  by (auto simp: get_present_def result_simps split: option.splits)

lemma structured_body_ok [require_simps]:
  "structured_body ov oid = Inr v \<longleftrightarrow>
    (\<exists>ob. view_get ov oid = Inr (Some ob) \<and> structured ob = Some v \<and> view_validate ov v = Inr ())"
  by (auto simp: structured_body_def result_simps require_simps split: option.splits)

lemma load_structured_ok [require_simps]:
  "load_structured ov oid k = Inr v \<longleftrightarrow> parse_oid oid = Inr k \<and>
    (\<exists>ob. view_get ov oid = Inr (Some ob) \<and> structured ob = Some v \<and> view_validate ov v = Inr ())"
  by (auto simp: load_structured_def result_simps require_simps split: if_splits)

lemma load_record_ok [require_simps]:
  "load_record ov oid t = Inr v \<longleftrightarrow> load_structured ov oid Record = Inr v \<and> get_str v ''record_type'' = Some t"
  by (auto simp: load_record_def result_simps require_simps)

lemma btree_set_facts [simp]: "set (btree_set xs) = set xs" "sorted_wrt (<) (btree_set xs)" "distinct (btree_set xs)"
  by (simp_all add: btree_set_def strict_sorted_iff)

lemma btree_set_idem: "sorted_wrt (<) xs \<Longrightarrow> btree_set xs = xs"
  by (simp add: btree_set_def strict_sorted_iff sorted_sort_id distinct_remdups_id)

lemma parse_capabilities_ok:
  assumes "parse_capabilities vs = Inr cs"
  shows "set cs = {c. String (capability_as_str c) \<in> set vs} \<and> sorted_wrt (<) cs"
proof -
  from assms obtain ds where ds: "list_all2 (\<lambda>v c. Option.bind (as_str v) capability_parse = Some c) vs ds" "cs = btree_set ds"
    by (auto simp: parse_capabilities_def result_simps denied_def list_all2_conv_all_nth split: option.splits)
  have parse: "Option.bind (as_str v) capability_parse = Some c \<longleftrightarrow> v = String (capability_as_str c)" for v c
    by (cases v) (auto simp: capability_names.decode_iff)
  from ds(1) have "set ds = {c. String (capability_as_str c) \<in> set vs}"
    unfolding parse by (induction rule: list_all2_induct) (auto dest: capability_names.encode_inject [OF TrueI TrueI])
  then show ?thesis using ds(2) by simp
qed

section \<open>Policy\<close>

lemma fold_rule_ok:
  "foldE (fold_rule a res) e rules = Inr e' \<longleftrightarrow>
    (\<forall>rule\<in>set rules. is_ok (rule_effect a res rule)) \<and>
    e' = foldl (\<lambda>e c. Some (case e of None \<Rightarrow> c | Some d \<Rightarrow> effect_max d c)) e
      (List.map_filter (\<lambda>rule. case rule_effect a res rule of Inl _ \<Rightarrow> None | Inr x \<Rightarrow> x) rules)"
proof (induction rules arbitrary: e)
  case (Cons rule rules)
  show ?case
  proof (cases "rule_effect a res rule")
    case (Inr x)
    then show ?thesis using Cons.IH by (cases x) (auto simp: fold_rule_def map_filter_simps)
  qed (simp add: fold_rule_def)
qed (auto simp: map_filter_simps)

lemma fold_effects:
  "foldl (\<lambda>e c. Some (case e of None \<Rightarrow> c | Some d \<Rightarrow> effect_max d c)) (Some e) cs = Some Allow
    \<longleftrightarrow> e = Allow \<and> (\<forall>c\<in>set cs. c = Allow)"
proof (induction cs arbitrary: e)
  case (Cons c cs)
  have "effect_max e c = Allow \<longleftrightarrow> e = Allow \<and> c = Allow" by (cases e; cases c) (auto simp: effect_max_def)
  with Cons.IH show ?case by auto
qed simp

lemma fold_effects_total: "foldl (\<lambda>e c. Some (case e of None \<Rightarrow> c | Some d \<Rightarrow> effect_max d c)) (Some e) cs \<noteq> None"
  by (induction cs arbitrary: e) auto

text \<open>The decision over the list of rules that apply.\<close>

lemma policy_decision:
  "(case foldl (\<lambda>e c. Some (case e of None \<Rightarrow> c | Some d \<Rightarrow> effect_max d c)) None cs of
      Some e \<Rightarrow> e | None \<Rightarrow> if allow then Allow else Deny) = Allow
    \<longleftrightarrow> (\<forall>c\<in>set cs. c = Allow) \<and> (cs = [] \<longrightarrow> allow)"
proof (cases cs)
  case (Cons c ds)
  then show ?thesis
    using fold_effects [of c ds] fold_effects_total [of c ds] by (auto split: option.splits)
qed simp

lemma set_map_filter_conv: "set (List.map_filter g xs) = {y. \<exists>x\<in>set xs. g x = Some y}"
  by (induction xs) (auto simp: map_filter_simps split: option.splits)

lemma rules_allow:
  fixes f :: "json \<Rightarrow> policy_effect option repo_result"
  defines "cs rules \<equiv> List.map_filter (\<lambda>rule. case f rule of Inl _ \<Rightarrow> None | Inr x \<Rightarrow> x) rules"
  shows "(\<forall>rule\<in>set rules. is_ok (f rule)) \<and> (\<forall>c\<in>set (cs rules). c = Allow) \<and> (cs rules = [] \<longrightarrow> allow) \<longleftrightarrow>
    (\<forall>rule\<in>set rules. f rule \<in> {Inr None, Inr (Some Allow)}) \<and> ((\<exists>rule\<in>set rules. f rule = Inr (Some Allow)) \<or> allow)"
proof -
  have pick: "(case f rule of Inl _ \<Rightarrow> None | Inr x \<Rightarrow> x) = Some c \<longleftrightarrow> f rule = Inr (Some c)" for rule c
    by (cases "f rule") auto
  have eff: "set (cs rules) = {c. \<exists>rule\<in>set rules. f rule = Inr (Some c)}"
    unfolding cs_def set_map_filter_conv pick ..
  then have nil: "cs rules = [] \<longleftrightarrow> (\<forall>rule\<in>set rules. \<forall>c. f rule \<noteq> Inr (Some c))" by (auto simp flip: set_empty)
  have each: "is_ok (f rule) \<and> (\<forall>c. f rule = Inr (Some c) \<longrightarrow> c = Allow) \<longleftrightarrow> f rule \<in> {Inr None, Inr (Some Allow)}" for rule
    by (cases "f rule") (auto simp: is_ok_iff, metis option.exhaust)
  have "(\<forall>rule\<in>set rules. is_ok (f rule)) \<and> (\<forall>c\<in>set (cs rules). c = Allow) \<longleftrightarrow>
    (\<forall>rule\<in>set rules. f rule \<in> {Inr None, Inr (Some Allow)})"
    unfolding eff each [symmetric] by blast
  moreover have "(cs rules = [] \<longrightarrow> allow) \<longleftrightarrow> (\<exists>rule\<in>set rules. f rule = Inr (Some Allow)) \<or> allow"
    if "\<forall>rule\<in>set rules. f rule \<in> {Inr None, Inr (Some Allow)}"
    using that unfolding nil by fastforce
  ultimately show ?thesis by blast
qed

lemma authorize_policy_iff:
  "authorize_policy_capability policy c project ref = Inr () \<longleftrightarrow>
    (\<exists>fields rules. json_get policy ''payload'' = Some (Object fields) \<and> json_get (Object fields) ''rules'' = Some (Array rules)
      \<and> (\<forall>rule\<in>set rules. rule_effect (policy_action c) (capability_resource c project ref) rule \<in> {Inr None, Inr (Some Allow)})
      \<and> ((\<exists>rule\<in>set rules. rule_effect (policy_action c) (capability_resource c project ref) rule = Inr (Some Allow))
          \<or> get_str (Object fields) ''default_effect'' = Some ''allow''))"
proof -
  let ?f = "rule_effect (policy_action c) (capability_resource c project ref)"
  have decide: "(case e of Allow \<Rightarrow> Inr () | RequireHumanGate \<Rightarrow> fails (RepoCore HumanGateRequired) | Deny \<Rightarrow> denied) = Inr ()
      \<longleftrightarrow> e = Allow" for e by (cases e) (auto simp: denied_def)
  have "authorize_policy_capability policy c project ref = Inr () \<longleftrightarrow>
    (\<exists>fields rules. json_get policy ''payload'' = Some (Object fields) \<and> json_get (Object fields) ''rules'' = Some (Array rules)
      \<and> (\<forall>rule\<in>set rules. is_ok (?f rule))
      \<and> (\<forall>c\<in>set (List.map_filter (\<lambda>rule. case ?f rule of Inl _ \<Rightarrow> None | Inr x \<Rightarrow> x) rules). c = Allow)
      \<and> (List.map_filter (\<lambda>rule. case ?f rule of Inl _ \<Rightarrow> None | Inr x \<Rightarrow> x) rules = [] \<longrightarrow>
          get_str (Object fields) ''default_effect'' = Some ''allow''))"
    unfolding authorize_policy_capability_def bindE_eq_Inr require_simps fold_rule_ok decide policy_decision [symmetric] by blast
  then show ?thesis unfolding rules_allow .
qed

section \<open>The clock\<close>

text \<open>The readings of one clock over a sequence of samples.\<close>

primrec readings :: "clock_state option \<Rightarrow> clock_sample list \<Rightarrow> int option list" where
  "readings state [] = []"
| "readings state (sample # samples) =
     (case now_unix_nanos sample state of (t, state') \<Rightarrow> t # readings state' samples)"

lemma now_cases:
  assumes "now_unix_nanos sample state = (r, state')"
  obtains (failed) "r = None" "state' = state"
  | (read) t w where "r = Some t" "wall_clock sample = Some w" "int w \<le> t"
      "state' = Some \<lparr> last_unix_nanos = t, last_monotonic = monotonic_clock sample \<rparr>"
      "\<And>cs. state = Some cs \<Longrightarrow> last_monotonic cs \<le> monotonic_clock sample
        \<and> last_unix_nanos cs + int (monotonic_clock sample - last_monotonic cs) \<le> t"
  using assms
  by (auto simp: now_unix_nanos_def observe_clock_def Let_def split: option.splits if_splits)

lemma readings_length [simp]: "length (readings state samples) = length samples"
  by (induction samples arbitrary: state) (auto split: prod.split)

lemma readings_above_wall:
  "i < length samples \<Longrightarrow> readings state samples ! i = Some t \<Longrightarrow> \<exists>w. wall_clock (samples ! i) = Some w \<and> int w \<le> t"
proof (induction samples arbitrary: state i)
  case (Cons sample samples)
  obtain r state' where "now_unix_nanos sample state = (r, state')" by fastforce
  with Cons show ?case by (cases i) (auto elim!: now_cases)
qed simp

lemma readings_after:
  "j < length samples \<Longrightarrow> readings (Some cs) samples ! j = Some t \<Longrightarrow>
    last_monotonic cs \<le> monotonic_clock (samples ! j)
    \<and> last_unix_nanos cs + int (monotonic_clock (samples ! j) - last_monotonic cs) \<le> t"
proof (induction samples arbitrary: cs j)
  case (Cons sample samples)
  obtain r state' where now: "now_unix_nanos sample (Some cs) = (r, state')" by fastforce
  show ?case
  proof (cases j)
    case 0
    with Cons.prems now show ?thesis by (auto elim!: now_cases)
  next
    case (Suc k)
    from now show ?thesis
    proof (cases rule: now_cases)
      case failed
      with Cons.prems Cons.IH [of k cs] Suc now show ?thesis by (auto simp: of_nat_diff)
    next
      case (read t0 w)
      with Cons.prems Cons.IH [of k "\<lparr> last_unix_nanos = t0, last_monotonic = monotonic_clock sample \<rparr>"] Suc now
      show ?thesis by (auto simp: of_nat_diff)
    qed
  qed
qed simp

lemma readings_monotone:
  "i < j \<Longrightarrow> j < length samples \<Longrightarrow> readings state samples ! i = Some t \<Longrightarrow> readings state samples ! j = Some t' \<Longrightarrow>
    monotonic_clock (samples ! i) \<le> monotonic_clock (samples ! j)
    \<and> t + int (monotonic_clock (samples ! j) - monotonic_clock (samples ! i)) \<le> t'"
proof (induction samples arbitrary: state i j)
  case (Cons sample samples)
  obtain r state' where now: "now_unix_nanos sample state = (r, state')" by fastforce
  from Cons.prems obtain k where j: "j = Suc k" by (cases j) auto
  show ?case
  proof (cases i)
    case 0
    with now Cons.prems have "state' = Some \<lparr> last_unix_nanos = t, last_monotonic = monotonic_clock sample \<rparr>"
      by (auto elim!: now_cases)
    with readings_after [of k samples "\<lparr> last_unix_nanos = t, last_monotonic = monotonic_clock sample \<rparr>" t'] Cons.prems 0 j now
    show ?thesis by (auto simp: of_nat_diff)
  next
    case (Suc l)
    with Cons.prems Cons.IH [of l k state'] j now show ?thesis by (auto simp: of_nat_diff)
  qed
qed simp

section \<open>Snapshots\<close>

text \<open>The objects a Commit holds: its root Tree, and what the entries of a held Tree name.\<close>

definition tree_entries :: "object_view \<Rightarrow> str \<Rightarrow> (str \<times> json) list" where
  "tree_entries ov oid =
     (case load_structured ov oid Tree of
        Inl _ \<Rightarrow> []
      | Inr tree \<Rightarrow> (case Option.bind (json_get tree ''entries'') as_object of None \<Rightarrow> [] | Some es \<Rightarrow> es))"

definition entry_oids :: "object_view \<Rightarrow> str \<Rightarrow> str list" where
  "entry_oids ov oid = List.map_filter (\<lambda>e. get_str (snd e) ''oid'') (tree_entries ov oid)"

inductive in_snapshot :: "object_view \<Rightarrow> str \<Rightarrow> str \<Rightarrow> bool" for ov start where
  root: "in_snapshot ov start start"
| entry: "in_snapshot ov start tree \<Longrightarrow> parse_oid tree = Inr Tree \<Longrightarrow> oid \<in> set (entry_oids ov tree) \<Longrightarrow> in_snapshot ov start oid"

text \<open>What the loop keeps: everything found is held, and a found Tree is read or still pending.\<close>

definition snapshot_sound :: "object_view \<Rightarrow> str \<Rightarrow> snapshot_state \<Rightarrow> bool" where
  "snapshot_sound ov start sn \<longleftrightarrow> distinct (sn_objects sn)
     \<and> (\<forall>oid\<in>set (sn_objects sn) \<union> fst ` set (sn_pending sn). in_snapshot ov start oid)
     \<and> start \<in> set (sn_objects sn) \<union> fst ` set (sn_pending sn)
     \<and> set (sn_trees sn) \<subseteq> set (sn_objects sn)"

definition snapshot_closed :: "object_view \<Rightarrow> str set \<Rightarrow> snapshot_state \<Rightarrow> bool" where
  "snapshot_closed ov open_trees sn \<longleftrightarrow>
     (\<forall>oid\<in>set (sn_objects sn). parse_oid oid = Inr Tree \<longrightarrow> oid \<in> set (sn_trees sn) \<union> fst ` set (sn_pending sn))
     \<and> (\<forall>tree\<in>set (sn_trees sn) - open_trees. parse_oid tree = Inr Tree \<and> set (entry_oids ov tree) \<subseteq> set (sn_objects sn))"

lemma snapshot_entry_ok:
  assumes "snapshot_entry bounds depth sn e = Inr sn'"
  obtains oid kind where "get_str (snd e) ''oid'' = Some oid" "parse_oid oid = Inr kind"
    "sn' = sn\<lparr> sn_edges := sn_edges sn + 1, sn_objects := List.insert oid (sn_objects sn),
              sn_pending := (if kind = Tree then (oid, depth + 1) # sn_pending sn else sn_pending sn) \<rparr>"
  using assms
  by (auto simp: snapshot_entry_def result_simps require_simps repo_resource_limit_def split: if_splits)

lemma snapshot_entries:
  assumes "foldE (snapshot_entry bounds depth) sn es = Inr sn'" "snapshot_sound ov start sn" "snapshot_closed ov open_trees sn"
    and "\<And>e oid. e \<in> set es \<Longrightarrow> get_str (snd e) ''oid'' = Some oid \<Longrightarrow> in_snapshot ov start oid"
  shows "snapshot_sound ov start sn' \<and> snapshot_closed ov open_trees sn' \<and> sn_trees sn' = sn_trees sn
    \<and> set (List.map_filter (\<lambda>e. get_str (snd e) ''oid'') es) \<subseteq> set (sn_objects sn')
    \<and> set (sn_objects sn) \<subseteq> set (sn_objects sn')"
  using assms
proof (induction es arbitrary: sn)
  case (Cons e es)
  then obtain sn1 where step: "snapshot_entry bounds depth sn e = Inr sn1" "foldE (snapshot_entry bounds depth) sn1 es = Inr sn'"
    by (auto simp: result_simps)
  from step(1) show ?case
  proof (cases rule: snapshot_entry_ok)
    case (1 oid kind)
    from Cons.prems(4) [of e oid] have "in_snapshot ov start oid" using 1(1) by simp
    with Cons.prems(2) have "snapshot_sound ov start sn1" unfolding snapshot_sound_def 1(3) by auto
    moreover from Cons.prems(3) have "snapshot_closed ov open_trees sn1" using 1(2) unfolding snapshot_closed_def 1(3) by auto
    ultimately show ?thesis using Cons.IH [OF step(2)] Cons.prems(4) 1(1) by (auto simp: 1(3) map_filter_simps)
  qed
qed (simp add: map_filter_simps)

lemma snapshot_step_ok:
  assumes "snapshot_step ov (tree, depth) sn = Inr sn'" "tree \<notin> set (sn_trees sn)"
  shows "parse_oid tree = Inr Tree \<and> foldE (snapshot_entry (view_graph_limits ov) depth)
    (sn\<lparr> sn_trees := tree # sn_trees sn, sn_objects := List.insert tree (sn_objects sn) \<rparr>) (tree_entries ov tree) = Inr sn'"
proof -
  from assms obtain v es where load: "load_structured ov tree Tree = Inr v" and es: "json_get v ''entries'' = Some (Object es)"
    and run: "foldE (snapshot_entry (view_graph_limits ov) depth)
      (sn\<lparr> sn_trees := tree # sn_trees sn, sn_objects := List.insert tree (sn_objects sn) \<rparr>) es = Inr sn'"
    by (auto simp: snapshot_step_def Let_def bindE_eq_Inr require_object_ok repo_resource_limit_def split: if_splits)
  from load es have "tree_entries ov tree = es" by (simp add: tree_entries_def)
  with run load show ?thesis by (simp add: load_structured_ok)
qed

lemma snapshot_step_keeps:
  assumes step: "snapshot_step ov item (sn\<lparr> sn_pending := rest \<rparr>) = Inr sn'" and pending: "sn_pending sn = item # rest"
    and sound: "snapshot_sound ov start sn" and closed: "snapshot_closed ov {} sn"
  shows "snapshot_sound ov start sn' \<and> snapshot_closed ov {} sn'"
proof -
  obtain tree depth where item: "item = (tree, depth)" by fastforce
  show ?thesis
  proof (cases "tree \<in> set (sn_trees sn)")
    case True
    with step item have "sn' = sn\<lparr> sn_pending := rest \<rparr>" by (simp add: snapshot_step_def)
    with True sound closed pending item show ?thesis
      unfolding snapshot_sound_def snapshot_closed_def by auto
  next
    case False
    let ?sn = "sn\<lparr> sn_pending := rest, sn_trees := tree # sn_trees sn, sn_objects := List.insert tree (sn_objects sn) \<rparr>"
    from snapshot_step_ok [of ov tree depth "sn\<lparr> sn_pending := rest \<rparr>" sn'] False step item
    have kind: "parse_oid tree = Inr Tree" and run: "foldE (snapshot_entry (view_graph_limits ov) depth) ?sn (tree_entries ov tree) = Inr sn'"
      by simp_all
    have held: "in_snapshot ov start tree" using sound pending item by (simp add: snapshot_sound_def)
    have "snapshot_sound ov start ?sn" using sound pending item held unfolding snapshot_sound_def by auto
    moreover have "snapshot_closed ov {tree} ?sn" using closed pending item unfolding snapshot_closed_def by auto
    moreover have "in_snapshot ov start oid" if "e \<in> set (tree_entries ov tree)" "get_str (snd e) ''oid'' = Some oid" for e oid
      using that held kind by (auto intro!: in_snapshot.entry [of ov start tree] simp: entry_oids_def set_map_filter_conv)
    ultimately have after: "snapshot_sound ov start sn' \<and> snapshot_closed ov {tree} sn' \<and> sn_trees sn' = tree # sn_trees sn
        \<and> set (entry_oids ov tree) \<subseteq> set (sn_objects sn')"
      using snapshot_entries [OF run] by (simp add: entry_oids_def)
    then show ?thesis using kind unfolding snapshot_closed_def by auto
  qed
qed

lemma snapshot_done:
  assumes "snapshot_sound ov start sn" "snapshot_closed ov {} sn" "sn_pending sn = []"
  shows "set (sn_objects sn) = {oid. in_snapshot ov start oid}"
proof -
  have "oid \<in> set (sn_objects sn)" if "in_snapshot ov start oid" for oid
    using that
  proof induction
    case root
    then show ?case using assms by (simp add: snapshot_sound_def)
  next
    case (entry tree oid)
    then show ?case using assms(2,3) unfolding snapshot_closed_def by fastforce
  qed
  then show ?thesis using assms(1) by (auto simp: snapshot_sound_def)
qed

lemma snapshot_loop_exact:
  "snapshot_loop ov sn = Inr os \<Longrightarrow> snapshot_sound ov start sn \<Longrightarrow> snapshot_closed ov {} sn \<Longrightarrow>
    set os = {oid. in_snapshot ov start oid} \<and> sorted_wrt (<) os"
proof (induction ov sn rule: snapshot_loop.induct)
  case (1 ov sn)
  show ?case
  proof (cases "sn_pending sn")
    case Nil
    then have "os = sort (sn_objects sn)" using "1.prems"(1) by (subst (asm) snapshot_loop.simps) simp
    moreover have "distinct (sn_objects sn)" using "1.prems"(2) unfolding snapshot_sound_def by blast
    ultimately have "sorted_wrt (<) os" "set os = set (sn_objects sn)" by (simp_all add: strict_sorted_iff)
    with snapshot_done [OF "1.prems"(2,3) Nil] show ?thesis by (simp only: simp_thms)
  next
    case (Cons item rest)
    with "1.prems"(1) obtain sn' where "snapshot_step ov item (sn\<lparr> sn_pending := rest \<rparr>) = Inr sn'" "snapshot_loop ov sn' = Inr os"
      by (subst (asm) snapshot_loop.simps) (auto simp: bindE_eq_Inr)
    then show ?thesis using "1.IH" [OF Cons] snapshot_step_keeps [OF _ Cons "1.prems"(2,3)] by blast
  qed
qed

lemma snapshot_object_set_exact:
  assumes "snapshot_object_set ov commit_oid = Inr os"
  obtains commit start where "load_structured ov commit_oid Commit = Inr commit" "get_str commit ''snapshot'' = Some start"
    "set os = {oid. in_snapshot ov start oid}" "sorted_wrt (<) os"
proof -
  from assms obtain commit start where "load_structured ov commit_oid Commit = Inr commit" "get_str commit ''snapshot'' = Some start"
      "snapshot_loop ov \<lparr> sn_objects = [], sn_trees = [], sn_pending = [(start, 0)], sn_edges = 0 \<rparr> = Inr os"
    by (auto simp: snapshot_object_set_def bindE_eq_Inr require_string_ok)
  moreover from this(3) have "set os = {oid. in_snapshot ov start oid} \<and> sorted_wrt (<) os"
    by (rule snapshot_loop_exact) (simp_all add: snapshot_sound_def snapshot_closed_def in_snapshot.root)
  ultimately show ?thesis using that by blast
qed

section \<open>Authority\<close>

text \<open>A Grant by the responsible principal to the authenticated agent, for the authorized project.\<close>

definition delegates :: "object_view \<Rightarrow> ai_execution_authority \<Rightarrow> str \<Rightarrow> json \<Rightarrow> json \<Rightarrow> bool" where
  "delegates ov authority grant_oid grant payload \<longleftrightarrow>
     load_record ov grant_oid ''delegation_grant'' = Inr grant \<and> json_get grant ''payload'' = Some payload
     \<and> get_str payload ''delegate_ref'' = Some (authenticated_actor_id authority)
     \<and> get_str payload ''principal_ref'' = Some (authorized_principal_id authority)
     \<and> get_str grant ''asserted_by'' = Some (authorized_principal_id authority)
     \<and> get_str payload ''project_ref'' = Some (authorized_project_id authority)"

text \<open>The Grant is in force at a time: recorded no later and not yet expired.\<close>

definition in_force :: "json \<Rightarrow> json \<Rightarrow> int \<Rightarrow> bool" where
  "in_force grant payload t \<longleftrightarrow> (\<exists>recorded expires from until.
     get_str grant ''recorded_at'' = Some recorded \<and> canonical_timestamp_unix_nanos recorded = Inr from
     \<and> get_str payload ''expires_at'' = Some expires \<and> canonical_timestamp_unix_nanos expires = Inr until
     \<and> from \<le> t \<and> t < until)"

definition ref_writable :: "json \<Rightarrow> str \<Rightarrow> bool" where
  "ref_writable payload n \<longleftrightarrow> (\<exists>vs prefix. json_get payload ''writable_ref_prefixes'' = Some (Array vs)
     \<and> String prefix \<in> set vs \<and> segment_prefix_matches prefix n)"

text \<open>A capability that the Actor record, the Grant, the runtime and the Policy all give.\<close>

definition lists_capability :: "json \<Rightarrow> ai_capability \<Rightarrow> bool" where
  "lists_capability v c \<longleftrightarrow> (\<exists>vs. json_get v ''capabilities'' = Some (Array vs) \<and> String (capability_as_str c) \<in> set vs)"

definition capability_given :: "object_view \<Rightarrow> ai_execution_authority \<Rightarrow> json \<Rightarrow> str \<Rightarrow> str \<Rightarrow> ai_capability \<Rightarrow> bool" where
  "capability_given ov authority grant_payload policy_oid target_ref c \<longleftrightarrow>
     c \<in> set (runtime_capabilities authority) \<and> lists_capability grant_payload c
     \<and> (\<exists>actor_rec payload profile. load_record ov (actor_record_oid authority) ''actor'' = Inr actor_rec
          \<and> get_str actor_rec ''entity_id'' = Some (authenticated_actor_id authority)
          \<and> json_get actor_rec ''payload'' = Some payload \<and> get_str payload ''actor_kind'' = Some ''ai_agent''
          \<and> json_get payload ''ai_profile'' = Some profile \<and> lists_capability profile c)
     \<and> (\<exists>policy. load_record ov policy_oid ''policy'' = Inr policy
          \<and> get_str policy ''asserted_by'' = Some (authorized_principal_id authority)
          \<and> authorize_policy_capability policy c (authorized_project_id authority) target_ref = Inr ())"

lemma resolve_grant_ok:
  "resolve_grant ov authority grant_oid = Inr (grant, payload) \<longleftrightarrow>
    load_record ov grant_oid ''delegation_grant'' = Inr grant \<and> (\<exists>es. payload = Object es) \<and> json_get grant ''payload'' = Some payload
     \<and> get_str payload ''delegate_ref'' = Some (authenticated_actor_id authority)
     \<and> get_str payload ''principal_ref'' = Some (authorized_principal_id authority)
     \<and> get_str grant ''asserted_by'' = Some (authorized_principal_id authority)"
  unfolding resolve_grant_def bindE_eq_Inr require_object_ok require_string_ok require_equal_ok by auto

lemma resolve_policy_ok:
  "resolve_policy ov authority policy_oid = Inr policy \<longleftrightarrow>
    load_record ov policy_oid ''policy'' = Inr policy \<and> get_str policy ''asserted_by'' = Some (authorized_principal_id authority)"
  unfolding resolve_policy_def bindE_eq_Inr require_string_ok require_equal_ok by auto

lemma resolve_actor_ok:
  assumes "resolve_actor ov authority = Inr payload"
  shows "\<exists>actor_rec. load_record ov (actor_record_oid authority) ''actor'' = Inr actor_rec
    \<and> get_str actor_rec ''entity_id'' = Some (authenticated_actor_id authority)
    \<and> json_get actor_rec ''payload'' = Some payload \<and> get_str payload ''actor_kind'' = Some ''ai_agent''"
  using assms unfolding resolve_actor_def bindE_eq_Inr require_object_ok require_string_ok require_equal_ok by auto

lemma resolve_base_ok:
  assumes "resolve_base ov authority context_payload grant_oid policy_oid = Inr (base_commit, base_ref)"
  shows "base_ref = authorized_base_ref authority \<and> get_str context_payload ''base_commit'' = Some base_commit
    \<and> (\<exists>snap. snapshot_object_set ov base_commit = Inr snap
        \<and> {actor_record_oid authority, principal_actor_record_oid authority, grant_oid, policy_oid} \<subseteq> set snap)"
  using assms unfolding resolve_base_def require_base_snapshot_bindings_def bindE_eq_Inr require_string_ok require_equal_ok
    require_that_ok by auto

lemma list_ex_filtered: "list_ex P (List.map_filter as_str vs) \<longleftrightarrow> (\<exists>s. String s \<in> set vs \<and> P s)"
proof -
  have str: "as_str v = Some s \<longleftrightarrow> v = String s" for v s by (cases v) auto
  show ?thesis unfolding list_ex_iff set_map_filter_conv str by auto
qed

lemma check_scope_ok:
  assumes "check_scope authority context_payload grant_payload policy target_ref = Inr project"
  shows "project = authorized_project_id authority \<and> get_str grant_payload ''project_ref'' = Some project
    \<and> ref_writable grant_payload target_ref"
  using assms unfolding check_scope_def require_writable_prefix_def bindE_eq_Inr require_string_ok require_equal_ok
    require_array_ok require_that_ok list_ex_filtered ref_writable_def by auto

lemma check_capabilities_ok:
  assumes "check_capabilities authority actor_payload grant_payload policy project target_ref = Inr exact"
  shows "exact = btree_set (authorized_capabilities authority) \<and> ProposeBranch \<in> set exact
    \<and> (\<exists>profile. json_get actor_payload ''ai_profile'' = Some profile \<and> (\<forall>c\<in>set exact.
        c \<in> set (runtime_capabilities authority) \<and> lists_capability profile c \<and> lists_capability grant_payload c
        \<and> authorize_policy_capability policy c project target_ref = Inr ()))"
proof -
  from assms obtain profile vs ws as gs where got: "json_get actor_payload ''ai_profile'' = Some profile"
      "json_get profile ''capabilities'' = Some (Array vs)" "parse_capabilities vs = Inr as"
      "json_get grant_payload ''capabilities'' = Some (Array ws)" "parse_capabilities ws = Inr gs"
      "exact = btree_set (authorized_capabilities authority)" "ProposeBranch \<in> set exact"
    and each: "\<forall>c\<in>set exact. c \<in> set as \<and> c \<in> set gs \<and> c \<in> set (runtime_capabilities authority)
      \<and> authorize_policy_capability policy c project target_ref = Inr ()"
    unfolding check_capabilities_def Let_def bindE_eq_Inr require_object_ok require_array_ok require_that_ok eachE_eq_Inr is_ok_iff
    by auto
  have "set as = {c. String (capability_as_str c) \<in> set vs}" "set gs = {c. String (capability_as_str c) \<in> set ws}"
    using got parse_capabilities_ok by blast+
  with got each show ?thesis by (auto simp: lists_capability_def)
qed

lemma resolve_authority_facts:
  assumes "resolve_ai_authority ov authority now target = Inr res"
  obtains t grant snap where
    "now = Some t" "res_evaluated_at res = t"
    "delegates ov authority (res_delegation_grant_oid res) grant (res_grant_payload res)"
    "ref_writable (res_grant_payload res) (tg_ref_name target)"
    "\<And>t'. in_force grant (res_grant_payload res) t' \<longleftrightarrow> res_grant_active_from res \<le> t' \<and> t' < res_grant_expires_at res"
    "in_force grant (res_grant_payload res) t"
    "res_exact_capabilities res = btree_set (authorized_capabilities authority)"
    "\<And>c. c \<in> set (authorized_capabilities authority) \<Longrightarrow>
      capability_given ov authority (res_grant_payload res) (res_policy_oid res) (tg_ref_name target) c"
    "require_ai_namespace (tg_ref_name target) = Inr ()" "require_human_gated_base (authorized_base_ref authority) = Inr ()"
    "res_base_ref_name res = authorized_base_ref authority"
    "snapshot_object_set ov (res_base_commit_oid res) = Inr snap"
    "{actor_record_oid authority, principal_actor_record_oid authority, res_delegation_grant_oid res, res_policy_oid res} \<subseteq> set snap"
proof -
  from assms obtain context_payload grant policy actor_payload project recorded expires t where
    ns: "require_ai_namespace (tg_ref_name target) = Inr ()" "require_human_gated_base (authorized_base_ref authority) = Inr ()"
    and grant: "resolve_grant ov authority (res_delegation_grant_oid res) = Inr (grant, res_grant_payload res)"
    and policy: "resolve_policy ov authority (res_policy_oid res) = Inr policy"
    and agent: "resolve_actor ov authority = Inr actor_payload"
    and base: "resolve_base ov authority context_payload (res_delegation_grant_oid res) (res_policy_oid res) =
      Inr (res_base_commit_oid res, res_base_ref_name res)"
    and scope: "check_scope authority context_payload (res_grant_payload res) policy (tg_ref_name target) = Inr project"
    and caps: "check_capabilities authority actor_payload (res_grant_payload res) policy project (tg_ref_name target) =
      Inr (res_exact_capabilities res)"
    and times: "get_str grant ''recorded_at'' = Some recorded" "canonical_timestamp_unix_nanos recorded = Inr (res_grant_active_from res)"
      "get_str (res_grant_payload res) ''expires_at'' = Some expires"
      "canonical_timestamp_unix_nanos expires = Inr (res_grant_expires_at res)"
      "now = Some t" "res_evaluated_at res = t" "res_grant_active_from res \<le> t" "t < res_grant_expires_at res"
    unfolding resolve_ai_authority_def bindE_eq_Inr require_string_ok require_that_ok
    by (auto simp: bindE_eq_Inr require_string_ok require_that_ok read_clock_def split: option.splits prod.splits)
  have project: "project = authorized_project_id authority" using check_scope_ok [OF scope] by simp
  have given: "capability_given ov authority (res_grant_payload res) (res_policy_oid res) (tg_ref_name target) c"
    if "c \<in> set (authorized_capabilities authority)" for c
    using that check_capabilities_ok [OF caps] resolve_actor_ok [OF agent] policy project
    unfolding capability_given_def resolve_policy_ok by auto
  from resolve_base_ok [OF base] obtain snap where "snapshot_object_set ov (res_base_commit_oid res) = Inr snap"
      "{actor_record_oid authority, principal_actor_record_oid authority, res_delegation_grant_oid res, res_policy_oid res} \<subseteq> set snap"
    by blast
  moreover have "delegates ov authority (res_delegation_grant_oid res) grant (res_grant_payload res)"
    using grant check_scope_ok [OF scope] unfolding delegates_def resolve_grant_ok by auto
  moreover have "in_force grant (res_grant_payload res) t' \<longleftrightarrow> res_grant_active_from res \<le> t' \<and> t' < res_grant_expires_at res" for t'
    using times by (auto simp: in_force_def)
  ultimately show ?thesis
    using that [of t grant snap] times ns given check_scope_ok [OF scope] check_capabilities_ok [OF caps] resolve_base_ok [OF base]
    by blast
qed

end
