(* ===== verification/Human_Decision.thy ===== *)
theory Human_Decision
  imports Authorization_Laws
begin

text \<open>
  Human-gated publication of project decisions, \<^verbatim>\<open>src/crates/synapse-core/src/human_decision.rs\<close>.

  The route reads the repository through the same \<open>object_view\<close> as the authorization boundary, uses its
  requirement helpers and snapshot traversal, and reads the clock twice: before and inside the
  transaction.
\<close>

section \<open>Vocabulary\<close>

datatype decision_disposition = AdoptedUnchanged | AdoptedModified | PartiallyAdopted | Rejected | Deferred | ExperimentOnly

primrec disposition_as_str :: "decision_disposition \<Rightarrow> str" where
  "disposition_as_str AdoptedUnchanged = ''adopted_unchanged''"
| "disposition_as_str AdoptedModified = ''adopted_modified''"
| "disposition_as_str PartiallyAdopted = ''partially_adopted''"
| "disposition_as_str Rejected = ''rejected''"
| "disposition_as_str Deferred = ''deferred''"
| "disposition_as_str ExperimentOnly = ''experiment_only''"

definition disposition_parse :: "str \<Rightarrow> decision_disposition repo_result" where
  "disposition_parse s =
     (if s = ''adopted_unchanged'' then Inr AdoptedUnchanged
      else if s = ''adopted_modified'' then Inr AdoptedModified
      else if s = ''partially_adopted'' then Inr PartiallyAdopted
      else if s = ''rejected'' then Inr Rejected
      else if s = ''deferred'' then Inr Deferred
      else if s = ''experiment_only'' then Inr ExperimentOnly
      else denied)"

record human_decision_authority =
  authenticated_human_id :: str
  decision_project_id :: str
  decision_ref_name :: str
  decision_head :: str
  proposal_ref_name :: str
  proposal_head :: str
  human_actor_record_oid :: str
  policy_record_oid :: str

record human_decision_update =
  hd_new_head :: str
  hd_decision_feedback_oid :: str
  hd_message :: "str option"

record human_decision_receipt =
  rc_reflog :: reflog_entry
  rc_human_actor_record_oid :: str
  rc_policy_record_oid :: str
  rc_proposal_commit_oid :: str
  rc_decision_feedback_oid :: str
  rc_disposition :: decision_disposition

section \<open>Requirements\<close>

definition require_ref_namespace :: "str \<Rightarrow> str \<Rightarrow> unit repo_result" where
  "require_ref_namespace n expected =
     bindE (of_refs (validate_ref_name n)) (\<lambda>_. require_that (hd (split_on (CHR ''/'') n) = expected))"

definition require_commit_oid :: "str \<Rightarrow> unit repo_result" where
  "require_commit_oid oid =
     bindE (kind_of_oid oid) (\<lambda>kind. if kind = Commit then Inr () else fails (RepoCore ReferenceTypeMismatch))"

definition require_human_actor :: "json \<Rightarrow> str \<Rightarrow> unit repo_result" where
  "require_human_actor actor_rec human =
     bindE (require_string actor_rec ''entity_id'') (\<lambda>entity.
     bindE (require_equal entity human) (\<lambda>_.
     bindE (require_string actor_rec ''asserted_by'') (\<lambda>asserted.
     bindE (require_equal asserted human) (\<lambda>_.
     bindE (require_object actor_rec ''payload'') (\<lambda>payload.
     bindE (require_string payload ''actor_kind'') (\<lambda>kind.
     require_equal kind ''human''))))))"

definition require_base_authority_bindings :: "object_view \<Rightarrow> str \<Rightarrow> str \<Rightarrow> str \<Rightarrow> unit repo_result" where
  "require_base_authority_bindings ov base_commit human_actor_oid policy_oid =
     bindE (snapshot_object_set ov base_commit) (\<lambda>snap.
     eachE (\<lambda>oid. require_that (oid \<in> set snap)) [human_actor_oid, policy_oid])"

definition require_single_parent :: "json \<Rightarrow> str \<Rightarrow> unit repo_result" where
  "require_single_parent commit expected_parent =
     bindE (require_array commit ''parents'') (\<lambda>parents.
     require_that (length parents = 1 \<and> as_str (hd parents) = Some expected_parent))"

definition require_exact_transition :: "json \<Rightarrow> str \<Rightarrow> unit repo_result" where
  "require_exact_transition commit expected =
     bindE (require_array commit ''transition_refs'') (\<lambda>transitions.
     require_that (length transitions = 1 \<and> as_str (hd transitions) = Some expected))"

definition require_disposition_snapshot :: "json \<Rightarrow> json \<Rightarrow> json \<Rightarrow> decision_disposition \<Rightarrow> unit repo_result" where
  "require_disposition_snapshot base_commit proposal_commit decision_commit verdict =
     bindE (require_string base_commit ''snapshot'') (\<lambda>base_snapshot.
     bindE (require_string proposal_commit ''snapshot'') (\<lambda>proposal_snapshot.
     bindE (require_string decision_commit ''snapshot'') (\<lambda>decision_snapshot.
     case verdict of
       AdoptedUnchanged \<Rightarrow> require_equal decision_snapshot proposal_snapshot
     | Rejected \<Rightarrow> require_equal decision_snapshot base_snapshot
     | Deferred \<Rightarrow> require_equal decision_snapshot base_snapshot
     | ExperimentOnly \<Rightarrow> require_equal decision_snapshot base_snapshot
     | AdoptedModified \<Rightarrow> denied
     | PartiallyAdopted \<Rightarrow> denied)))"

definition require_snapshot_retains_base_non_tree :: "object_view \<Rightarrow> str \<Rightarrow> str \<Rightarrow> unit repo_result" where
  "require_snapshot_retains_base_non_tree ov candidate_commit base_commit =
     bindE (snapshot_object_set ov base_commit) (\<lambda>base.
     bindE (snapshot_object_set ov candidate_commit) (\<lambda>candidate.
     eachE (\<lambda>oid. bindE (kind_of_oid oid) (\<lambda>kind. require_that (\<not> (kind \<noteq> Tree \<and> oid \<notin> set candidate)))) base))"

definition is_control_type :: "str \<Rightarrow> bool" where
  "is_control_type t \<longleftrightarrow> t \<in> {''actor'', ''policy'', ''delegation_grant'', ''tombstone''}"

definition add_control :: "object_view \<Rightarrow> str list \<Rightarrow> str \<Rightarrow> str list repo_result" where
  "add_control ov controls oid =
     bindE (kind_of_oid oid) (\<lambda>kind.
     if kind \<noteq> Record then Inr controls
     else
       bindE (load_structured ov oid Record) (\<lambda>v.
       bindE (require_string v ''record_type'') (\<lambda>t.
       Inr (if is_control_type t then btree_set (oid # controls) else controls))))"

definition protected_control_set :: "object_view \<Rightarrow> str \<Rightarrow> str list repo_result" where
  "protected_control_set ov commit_oid =
     bindE (snapshot_object_set ov commit_oid) (\<lambda>snap. foldE (add_control ov) [] snap)"

definition require_exact_protected_controls :: "object_view \<Rightarrow> str \<Rightarrow> str \<Rightarrow> unit repo_result" where
  "require_exact_protected_controls ov base_commit candidate_commit =
     bindE (protected_control_set ov base_commit) (\<lambda>base.
     bindE (protected_control_set ov candidate_commit) (\<lambda>candidate.
     require_that (base = candidate)))"

section \<open>One decision per proposal\<close>

record ancestry_state =
  an_visited :: "str list"
  an_pending :: "(str \<times> nat) list"
  an_edges :: nat

text \<open>\<open>edges += 1\<close> and \<open>depth + 1\<close> are unchecked.\<close>

definition add_edge :: "graph_limits \<Rightarrow> ancestry_state \<Rightarrow> ancestry_state repo_result" where
  "add_edge bounds an =
     (if an_edges an = usize_max then panics
      else if an_edges an + 1 > max_edges bounds then repo_resource_limit
      else Inr (an\<lparr> an_edges := an_edges an + 1 \<rparr>))"

definition feedback_for :: "json \<Rightarrow> str \<Rightarrow> bool" where
  "feedback_for v proposal_commit \<longleftrightarrow> get_str v ''record_type'' = Some ''decision_feedback''
     \<and> Option.bind (json_get v ''payload'') (\<lambda>payload. get_str payload ''proposal_ref'') = Some proposal_commit"

definition check_transition :: "object_view \<Rightarrow> str \<Rightarrow> ancestry_state \<Rightarrow> json \<Rightarrow> ancestry_state repo_result" where
  "check_transition ov proposal_commit an transition =
     bindE (add_edge (view_graph_limits ov) an) (\<lambda>an.
     case as_str transition of
       None \<Rightarrow> Inr an
     | Some oid \<Rightarrow>
         bindE (load_structured ov oid Record) (\<lambda>v.
         if feedback_for v proposal_commit then denied else Inr an))"

definition add_parent :: "graph_limits \<Rightarrow> nat \<Rightarrow> ancestry_state \<Rightarrow> json \<Rightarrow> ancestry_state repo_result" where
  "add_parent bounds depth an parent =
     bindE (add_edge bounds an) (\<lambda>an.
     case as_str parent of
       None \<Rightarrow> denied
     | Some oid \<Rightarrow>
         if depth = usize_max then panics
         else Inr (an\<lparr> an_pending := (oid, depth + 1) # an_pending an \<rparr>))"

definition ancestry_step :: "object_view \<Rightarrow> str \<Rightarrow> str \<times> nat \<Rightarrow> ancestry_state \<Rightarrow> ancestry_state repo_result" where
  "ancestry_step ov proposal_commit item an =
     (case item of (commit_oid, depth) \<Rightarrow>
        if commit_oid \<in> set (an_visited an) then Inr an
        else
          let an = an\<lparr> an_visited := commit_oid # an_visited an \<rparr> in
          if length (an_visited an) > max_objects (view_graph_limits ov) \<or> depth > max_depth (view_graph_limits ov)
          then repo_resource_limit
          else
            bindE (load_structured ov commit_oid Commit) (\<lambda>commit.
            bindE (require_array commit ''transition_refs'') (\<lambda>transitions.
            bindE (foldE (check_transition ov proposal_commit) an transitions) (\<lambda>an.
            bindE (require_array commit ''parents'') (\<lambda>parents.
            foldE (add_parent (view_graph_limits ov) depth) an parents)))))"

text \<open>Why the traversal ends: a popped Commit pays for itself, a pushed one is paid by its edge.\<close>

definition ancestry_weight :: "graph_limits \<Rightarrow> ancestry_state \<Rightarrow> nat" where
  "ancestry_weight bounds an = 2 * (max_edges bounds - an_edges an) + length (an_pending an)"

lemma add_edge_ok:
  "add_edge bounds an = Inr an' \<longleftrightarrow> an_edges an \<noteq> usize_max \<and> an_edges an + 1 \<le> max_edges bounds \<and> an' = an\<lparr> an_edges := an_edges an + 1 \<rparr>"
  by (auto simp: add_edge_def repo_resource_limit_def split: if_splits)

lemma check_transition_ok:
  assumes "check_transition ov p an x = Inr an'"
  shows "an' = an\<lparr> an_edges := an_edges an + 1 \<rparr> \<and> an_edges an + 1 \<le> max_edges (view_graph_limits ov)
    \<and> (\<forall>oid. as_str x = Some oid \<longrightarrow> (\<exists>v. load_structured ov oid Record = Inr v \<and> \<not> feedback_for v p))"
  using assms
  by (auto simp: check_transition_def bindE_eq_Inr add_edge_ok denied_def split: option.splits if_splits)

lemma add_parent_ok:
  assumes "add_parent bounds depth an x = Inr an'"
  shows "\<exists>oid. as_str x = Some oid \<and> an_edges an + 1 \<le> max_edges bounds
    \<and> an' = an\<lparr> an_edges := an_edges an + 1, an_pending := (oid, depth + 1) # an_pending an \<rparr>"
  using assms by (auto simp: add_parent_def bindE_eq_Inr add_edge_ok denied_def split: option.splits if_splits)

lemma ancestry_step_weight:
  assumes "ancestry_step ov p item an = Inr an'"
  shows "ancestry_weight (view_graph_limits ov) an' \<le> ancestry_weight (view_graph_limits ov) an"
proof -
  let ?w = "ancestry_weight (view_graph_limits ov)"
  have transitions: "?w t' \<le> ?w an" if "foldE (check_transition ov p) t xs = Inr t'" "?w t \<le> ?w an" for t xs t'
    using foldE_invariant [OF that(1), of "\<lambda>t. ?w t \<le> ?w an"] that(2) check_transition_ok
    by (fastforce simp: ancestry_weight_def)
  have parents: "?w t' \<le> ?w an" if "foldE (add_parent (view_graph_limits ov) depth) t xs = Inr t'" "?w t \<le> ?w an" for t xs t' depth
    using foldE_invariant [OF that(1), of "\<lambda>t. ?w t \<le> ?w an"] that(2) add_parent_ok
    by (fastforce simp: ancestry_weight_def)
  obtain commit_oid depth where item: "item = (commit_oid, depth)" by fastforce
  have start: "?w (an\<lparr> an_visited := commit_oid # an_visited an \<rparr>) \<le> ?w an" by (simp add: ancestry_weight_def)
  show ?thesis
  proof (cases "commit_oid \<in> set (an_visited an)")
    case False
    with assms item obtain transitions an1 parents where
        "foldE (check_transition ov p) (an\<lparr> an_visited := commit_oid # an_visited an \<rparr>) transitions = Inr an1"
        "foldE (add_parent (view_graph_limits ov) depth) an1 parents = Inr an'"
      by (auto simp: ancestry_step_def Let_def repo_resource_limit_def bindE_eq_Inr split: if_splits)
    then show ?thesis using transitions [OF _ start] parents by blast
  qed (use assms item in \<open>simp add: ancestry_step_def\<close>)
qed

function ancestry_loop :: "object_view \<Rightarrow> str \<Rightarrow> ancestry_state \<Rightarrow> unit repo_result" where
  "ancestry_loop ov proposal_commit an =
     (case an_pending an of
        [] \<Rightarrow> Inr ()
      | item # rest \<Rightarrow>
          bindE (ancestry_step ov proposal_commit item (an\<lparr> an_pending := rest \<rparr>)) (\<lambda>an'. ancestry_loop ov proposal_commit an'))"
  by pat_completeness auto

termination
proof (relation "measure (\<lambda>(ov, p, an). ancestry_weight (view_graph_limits ov) an)")
  fix ov p an item rest an'
  assume "an_pending an = item # rest" "ancestry_step ov p item (an\<lparr> an_pending := rest \<rparr>) = Inr an'"
  with ancestry_step_weight [OF this(2)]
  show "((ov, p, an'), ov, p, an) \<in> measure (\<lambda>(ov, p, an). ancestry_weight (view_graph_limits ov) an)"
    by (simp add: ancestry_weight_def)
qed simp

declare ancestry_loop.simps [simp del]

definition require_proposal_not_previously_decided :: "object_view \<Rightarrow> str \<Rightarrow> str \<Rightarrow> unit repo_result" where
  "require_proposal_not_previously_decided ov base_commit proposal_commit =
     ancestry_loop ov proposal_commit \<lparr> an_visited = [], an_pending = [(base_commit, 0)], an_edges = 0 \<rparr>"

section \<open>Policy\<close>

datatype evaluated_policy_effect = EvalAllow | SatisfiedDecisionGate | UnsatisfiedHumanGate | EvalDeny

definition publish_rule_effect :: "str \<Rightarrow> json \<Rightarrow> evaluated_policy_effect option repo_result" where
  "publish_rule_effect decision_ref rule =
     (if get_str rule ''action'' \<noteq> Some ''publish'' then Inr None
      else
        bindE (require_string rule ''resource_selector'') (\<lambda>selector.
        if \<not> selector_supported selector then denied
        else if \<not> selector_matches selector decision_ref then Inr None
        else if json_get rule ''condition_text'' \<noteq> None then denied
        else
          bindE (require_string rule ''effect'') (\<lambda>effect.
          if effect = ''allow'' then Inr (Some EvalAllow)
          else if effect = ''deny'' then Inr (Some EvalDeny)
          else if effect = ''require_human_gate'' then
            Inr (Some (if get_str rule ''human_gate'' = Some ''before_decision_ref'' then SatisfiedDecisionGate else UnsatisfiedHumanGate))
          else denied)))"

definition authorize_human_publish :: "json \<Rightarrow> str \<Rightarrow> unit repo_result" where
  "authorize_human_publish policy_payload decision_ref =
     bindE (require_array policy_payload ''rules'') (\<lambda>rules.
     bindE (mapE (publish_rule_effect decision_ref) rules) (\<lambda>found.
     let effects = List.map_filter (\<lambda>x. x) found in
     if EvalDeny \<in> set effects then denied
     else if UnsatisfiedHumanGate \<in> set effects then fails (RepoCore HumanGateRequired)
     else if SatisfiedDecisionGate \<in> set effects \<or> EvalAllow \<in> set effects then Inr ()
     else
       bindE (require_string policy_payload ''default_effect'') (\<lambda>effect.
       if effect = ''allow'' then Inr () else denied)))"

section \<open>The reviewed proposal\<close>

record proposal_chain =
  ch_activity_oid :: str
  ch_activity_payload :: json
  ch_agent_id :: str
  ch_context_oid :: str
  ch_grant_oid :: str

text \<open>The AI Activity that the proposal Commit binds.\<close>

definition check_proposal_activity :: "object_view \<Rightarrow> json \<Rightarrow> str \<Rightarrow> proposal_chain repo_result" where
  "check_proposal_activity ov proposal human =
     bindE (require_array proposal ''transition_refs'') (\<lambda>transitions.
     if length transitions \<noteq> 1 then denied
     else
     bindE (case as_str (hd transitions) of None \<Rightarrow> denied | Some oid \<Rightarrow> Inr oid) (\<lambda>activity_oid.
     bindE (load_record ov activity_oid ''activity'') (\<lambda>activity.
     bindE (require_object activity ''payload'') (\<lambda>payload.
     bindE (require_string payload ''activity_kind'') (\<lambda>kind.
     bindE (require_equal kind ''ai_run'') (\<lambda>_.
     bindE (require_object payload ''ai_run'') (\<lambda>ai_run.
     bindE (require_string ai_run ''status'') (\<lambda>status.
     bindE (require_equal status ''proposal_ready'') (\<lambda>_.
     bindE (require_string ai_run ''agent_ref'') (\<lambda>agent_id.
     bindE (require_string proposal ''author_ref'') (\<lambda>author.
     bindE (require_equal author agent_id) (\<lambda>_.
     bindE (require_string activity ''asserted_by'') (\<lambda>asserted.
     bindE (require_equal asserted agent_id) (\<lambda>_.
     bindE (require_string ai_run ''responsible_principal_ref'') (\<lambda>principal.
     bindE (require_equal principal human) (\<lambda>_.
     bindE (require_role_actor payload ''agent'' agent_id) (\<lambda>_.
     bindE (require_role_actor payload ''responsible_principal'' human) (\<lambda>_.
     bindE (require_that (get_str payload ''side_effect_class'' \<in> {Some ''none'', Some ''project_internal''})) (\<lambda>_.
     bindE (require_array_contains ai_run ''required_human_gates'' ''before_decision_ref'') (\<lambda>_.
     bindE (require_string ai_run ''context_pack_ref'') (\<lambda>context_oid.
     bindE (require_string ai_run ''delegation_grant_ref'') (\<lambda>grant_oid.
     bindE (require_role_oid payload ''input_refs'' ''context'' context_oid) (\<lambda>_.
     Inr \<lparr> ch_activity_oid = activity_oid, ch_activity_payload = payload, ch_agent_id = agent_id,
           ch_context_oid = context_oid, ch_grant_oid = grant_oid \<rparr>)))))))))))))))))))))))"

definition require_field :: "json \<Rightarrow> str \<times> str \<Rightarrow> unit repo_result" where
  "require_field v fe = bindE (require_string v (fst fe)) (\<lambda>s. require_equal s (snd fe))"

definition check_proposal_context :: "object_view \<Rightarrow> human_decision_authority \<Rightarrow> proposal_chain \<Rightarrow> json repo_result" where
  "check_proposal_context ov au ch =
     bindE (load_record ov (ch_context_oid ch) ''context_pack'') (\<lambda>context.
     bindE (require_string context ''asserted_by'') (\<lambda>asserted.
     bindE (require_equal asserted (authenticated_human_id au)) (\<lambda>_.
     bindE (require_object context ''payload'') (\<lambda>payload.
     bindE (eachE (require_field payload)
       [(''base_commit'', decision_head au), (''expected_ref_head'', decision_head au), (''base_ref_name'', decision_ref_name au),
        (''policy_snapshot_ref'', policy_record_oid au), (''delegation_grant_ref'', ch_grant_oid ch)]) (\<lambda>_.
     bindE (require_array_contains payload ''selected_context_refs'' (decision_head au)) (\<lambda>_.
     bindE (require_present_oid_array ov payload ''selected_context_refs'') (\<lambda>_.
     Inr payload)))))))"

definition check_proposal_grant :: "object_view \<Rightarrow> human_decision_authority \<Rightarrow> proposal_chain \<Rightarrow> json \<Rightarrow> json repo_result" where
  "check_proposal_grant ov au ch context_payload =
     bindE (load_record ov (ch_grant_oid ch) ''delegation_grant'') (\<lambda>grant.
     bindE (snapshot_object_set ov (decision_head au)) (\<lambda>snap.
     bindE (require_that (ch_grant_oid ch \<in> set snap)) (\<lambda>_.
     bindE (require_string grant ''asserted_by'') (\<lambda>asserted.
     bindE (require_equal asserted (authenticated_human_id au)) (\<lambda>_.
     bindE (require_object grant ''payload'') (\<lambda>payload.
     bindE (eachE (require_field payload)
       [(''principal_ref'', authenticated_human_id au), (''delegate_ref'', ch_agent_id ch), (''project_ref'', decision_project_id au)]) (\<lambda>_.
     bindE (require_string context_payload ''data_classification'') (\<lambda>classification.
     bindE (require_array_contains payload ''data_classes'' classification) (\<lambda>_.
     bindE (require_project_resource payload (decision_project_id au)) (\<lambda>_.
     bindE (require_writable_prefix payload (proposal_ref_name au)) (\<lambda>_.
     bindE (require_array_contains payload ''required_human_gates'' ''before_decision_ref'') (\<lambda>_.
     Inr payload))))))))))))"

definition require_ai_proposal_chain :: "object_view \<Rightarrow> human_decision_authority \<Rightarrow> json \<Rightarrow> unit repo_result" where
  "require_ai_proposal_chain ov au proposal =
     bindE (check_proposal_activity ov proposal (authenticated_human_id au)) (\<lambda>ch.
     bindE (check_proposal_context ov au ch) (\<lambda>context_payload.
     bindE (check_proposal_grant ov au ch context_payload) (\<lambda>grant_payload.
     bindE (require_present_activity_references ov (ch_activity_payload ch)) (\<lambda>_.
     bindE (require_candidate_output_binding ov
       \<lparr> cb_candidate_commit = proposal_head au, cb_base_commit = decision_head au, cb_activity_oid = ch_activity_oid ch,
         cb_context_pack_oid = ch_context_oid ch, cb_actor_id = ch_agent_id ch, cb_context_payload = context_payload,
         cb_activity_payload = ch_activity_payload ch, cb_grant_payload = grant_payload \<rparr>) (\<lambda>_. Inr ())))))"

section \<open>Publication\<close>

definition check_decision_request :: "human_decision_authority \<Rightarrow> human_decision_update \<Rightarrow> unit repo_result" where
  "check_decision_request au up =
     bindE (require_ref_namespace (decision_ref_name au) ''decision'') (\<lambda>_.
     bindE (require_ref_namespace (proposal_ref_name au) ''proposal'') (\<lambda>_.
     bindE (require_commit_oid (decision_head au)) (\<lambda>_.
     bindE (require_commit_oid (proposal_head au)) (\<lambda>_.
     bindE (require_commit_oid (hd_new_head up)) (\<lambda>_.
     require_oid_kind (hd_decision_feedback_oid up) Record)))))"

text \<open>The reviewer and the Policy.\<close>

definition check_reviewer :: "object_view \<Rightarrow> human_decision_authority \<Rightarrow> json \<Rightarrow> json \<Rightarrow> unit repo_result" where
  "check_reviewer ov au human_actor policy =
     bindE (require_human_actor human_actor (authenticated_human_id au)) (\<lambda>_.
     bindE (require_base_authority_bindings ov (decision_head au) (human_actor_record_oid au) (policy_record_oid au)) (\<lambda>_.
     bindE (require_object policy ''payload'') (\<lambda>payload.
     bindE (require_string policy ''asserted_by'') (\<lambda>asserted.
     bindE (require_equal asserted (authenticated_human_id au)) (\<lambda>_.
     bindE (require_array_contains payload ''scope_refs'' (decision_project_id au)) (\<lambda>_.
     authorize_human_publish payload (decision_ref_name au)))))))"

definition check_proposal :: "object_view \<Rightarrow> human_decision_authority \<Rightarrow> json \<Rightarrow> unit repo_result" where
  "check_proposal ov au proposal_commit =
     bindE (require_proposal_not_previously_decided ov (decision_head au) (proposal_head au)) (\<lambda>_.
     bindE (require_string proposal_commit ''commit_kind'') (\<lambda>kind.
     bindE (require_equal kind ''checkpoint'') (\<lambda>_.
     bindE (require_single_parent proposal_commit (decision_head au)) (\<lambda>_.
     bindE (require_exact_protected_controls ov (decision_head au) (proposal_head au)) (\<lambda>_.
     bindE (require_ai_proposal_chain ov au proposal_commit) (\<lambda>_.
     require_snapshot_retains_base_non_tree ov (proposal_head au) (decision_head au)))))))"

definition check_decision_commit :: "human_decision_authority \<Rightarrow> human_decision_update \<Rightarrow> json \<Rightarrow> unit repo_result" where
  "check_decision_commit au up commit =
     bindE (require_string commit ''commit_kind'') (\<lambda>kind.
     bindE (require_equal kind ''decision'') (\<lambda>_.
     bindE (require_single_parent commit (decision_head au)) (\<lambda>_.
     bindE (require_string commit ''author_ref'') (\<lambda>author.
     bindE (require_equal author (authenticated_human_id au)) (\<lambda>_.
     bindE (require_exact_transition commit (hd_decision_feedback_oid up)) (\<lambda>_.
     bindE (require_array commit ''bound_declaration_refs'') (\<lambda>bound.
     require_that (bound = []))))))))"

definition check_feedback :: "human_decision_authority \<Rightarrow> json \<Rightarrow> decision_disposition repo_result" where
  "check_feedback au feedback =
     bindE (require_string feedback ''asserted_by'') (\<lambda>asserted.
     bindE (require_equal asserted (authenticated_human_id au)) (\<lambda>_.
     bindE (require_string feedback ''origin'') (\<lambda>origin.
     bindE (require_equal origin ''self_declared'') (\<lambda>_.
     bindE (require_object feedback ''payload'') (\<lambda>payload.
     bindE (require_string payload ''proposal_ref'') (\<lambda>proposal.
     bindE (require_equal proposal (proposal_head au)) (\<lambda>_.
     bindE (require_string payload ''disposition'') (\<lambda>d.
     disposition_parse d))))))))"

definition validated_heads :: "object_view \<Rightarrow> prepared_verifier \<Rightarrow> str list \<Rightarrow> unit repo_result" where
  "validated_heads ov verifier heads =
     eachE (\<lambda>h. map_err (map_fault (\<lambda>e. RepoRefStore (Validation e))) (validate_prepared_head (view_get ov) verifier h)) heads"

text \<open>Everything that is decided before the transaction.\<close>

definition authorize_decision ::
    "object_view \<Rightarrow> prepared_verifier \<Rightarrow> human_decision_authority \<Rightarrow> human_decision_update \<Rightarrow> decision_disposition repo_result" where
  "authorize_decision ov verifier au up =
     bindE (validated_heads ov verifier [decision_head au, proposal_head au, hd_new_head up]) (\<lambda>_.
     bindE (load_structured ov (decision_head au) Commit) (\<lambda>base_commit.
     bindE (load_structured ov (proposal_head au) Commit) (\<lambda>proposal_commit.
     bindE (load_structured ov (hd_new_head up) Commit) (\<lambda>decision_commit.
     bindE (load_record ov (hd_decision_feedback_oid up) ''decision_feedback'') (\<lambda>feedback.
     bindE (load_record ov (human_actor_record_oid au) ''actor'') (\<lambda>human_actor.
     bindE (load_record ov (policy_record_oid au) ''policy'') (\<lambda>policy.
     bindE (check_reviewer ov au human_actor policy) (\<lambda>_.
     bindE (check_proposal ov au proposal_commit) (\<lambda>_.
     bindE (check_decision_commit au up decision_commit) (\<lambda>_.
     bindE (check_feedback au feedback) (\<lambda>verdict.
     bindE (require_disposition_snapshot base_commit proposal_commit decision_commit verdict) (\<lambda>_.
     bindE (require_snapshot_retains_base_non_tree ov (hd_new_head up) (decision_head au)) (\<lambda>_.
     bindE (require_exact_protected_controls ov (decision_head au) (hd_new_head up)) (\<lambda>_.
     Inr verdict))))))))))))))"

definition decision_guard :: "int option \<Rightarrow> int \<Rightarrow> validation_error + unit" where
  "decision_guard now evaluated_at =
     (case now of
        None \<Rightarrow> Inl (ValidationError ''storage_error'')
      | Some t \<Rightarrow> if t < evaluated_at then Inl (ValidationError ''storage_error'') else Inr ())"

definition decision_update :: "human_decision_authority \<Rightarrow> human_decision_update \<Rightarrow> int \<Rightarrow> ref_update" where
  "decision_update au up t =
     \<lparr> up_ref_name = decision_ref_name au, up_expected_head = Some (decision_head au), up_new_head = hd_new_head up,
       up_metadata = \<lparr> md_occurred_at = t, md_actor = Some (authenticated_human_id au), md_message = hd_message up \<rparr> \<rparr>"

definition publish_decision_through ::
    "object_view \<Rightarrow> human_decision_authority \<Rightarrow> int option \<Rightarrow> int option \<Rightarrow> human_decision_update \<Rightarrow> ref_store
      \<Rightarrow> (human_decision_receipt \<times> ref_store) repo_result" where
  "publish_decision_through ov au now later up s =
     bindE (check_decision_request au up) (\<lambda>_.
     bindE (of_store (new_verifier (view_get ov) (view_list_kind ov) (view_graph_limits ov) (view_scan_limits ov))) (\<lambda>verifier.
     bindE (authorize_decision ov verifier au up) (\<lambda>verdict.
     bindE (read_clock now) (\<lambda>evaluated_at.
     if \<not> in_i64 evaluated_at then fails RepoClock
     else
     bindE (of_refs (compare_and_swap_with_preconditions_and_guard
         (\<lambda>h. caught (validate_prepared_head (view_get ov) verifier h)) (decision_guard later evaluated_at) s
         (decision_update au up evaluated_at)
         [\<lparr> pre_ref_name = proposal_ref_name au, pre_expected_head = Some (proposal_head au) \<rparr>])) (\<lambda>(entry, s').
     Inr (\<lparr> rc_reflog = entry, rc_human_actor_record_oid = human_actor_record_oid au, rc_policy_record_oid = policy_record_oid au,
            rc_proposal_commit_oid = proposal_head au, rc_decision_feedback_oid = hd_decision_feedback_oid up,
            rc_disposition = verdict \<rparr>, s'))))))"

definition publish_decision ::
    "(bytes \<Rightarrow> bytes) \<Rightarrow> (str \<Rightarrow> str) \<Rightarrow> schema_registry \<Rightarrow> human_decision_authority \<Rightarrow> int option \<Rightarrow> int option
      \<Rightarrow> human_decision_update \<Rightarrow> human_decision_receipt repo_action" where
  "publish_decision sha256 nfc reg au now later up r =
     on_refs (publish_decision_through (repo_view sha256 nfc reg r) au now later up) r"

end
