(* ===== verification/Authorization_Outputs.thy ===== *)
theory Authorization_Outputs
  imports Authorization_Laws
begin

text \<open>
  What a candidate may add: the loops of \<open>require_candidate_output_binding\<close> as reachability between
  objects, the closure of the candidate accounted for, the outputs checked one by one, and the bytes of
  the new objects within the Grant's budget.
\<close>

section \<open>Closing roots under edges\<close>

lemma set_linked: "set (linked ls oid) = {p. (oid, p) \<in> set ls}"
  by (force simp: linked_def)

lemma reach_loop_exact:
  assumes "reach_loop out limit seen pending = Inr os" "distinct seen"
    and "\<And>a b. a \<in> set seen \<Longrightarrow> (a, b) \<in> set out \<Longrightarrow> b \<in> set seen \<union> set pending"
  shows "set os = set seen \<union> {b. \<exists>a\<in>set pending. (a, b) \<in> (set out)\<^sup>*} \<and> sorted_wrt (<) os"
  using assms
proof (induction out limit seen pending rule: reach_loop.induct)
  case (1 out limit seen)
  then show ?case by (auto simp: strict_sorted_iff)
next
  case (2 out limit seen oid rest)
  show ?case
  proof (cases "oid \<in> set seen")
    case True
    have closed: "b \<in> set seen \<union> {b. \<exists>a\<in>set rest. (a, b) \<in> (set out)\<^sup>*}" if "(oid, b) \<in> (set out)\<^sup>*" for b
      using that
    proof induction
      case base
      show ?case using True by simp
    next
      case (step a b)
      then show ?case
        using "2.prems"(3) [of a b] True by (auto intro: rtrancl_into_rtrancl)
    qed
    have "set os = set seen \<union> {b. \<exists>a\<in>set rest. (a, b) \<in> (set out)\<^sup>*} \<and> sorted_wrt (<) os"
      using "2.prems" True by (intro "2.IH"(1)) auto
    with closed show ?thesis by auto
  next
    case False
    with "2.prems"(1) have room: "\<not> Suc (length seen) > limit" by (auto simp: repo_resource_limit_def split: if_splits)
    have "set os = set (oid # seen) \<union> {b. \<exists>a\<in>set (rev (linked out oid) @ rest). (a, b) \<in> (set out)\<^sup>*} \<and> sorted_wrt (<) os"
      using "2.prems" False room by (intro "2.IH"(2)) (auto simp: set_linked)
    moreover have "{b. (oid, b) \<in> (set out)\<^sup>*} = {oid} \<union> {b. \<exists>a. (oid, a) \<in> set out \<and> (a, b) \<in> (set out)\<^sup>*}"
      by (auto elim: converse_rtranclE intro: converse_rtrancl_into_rtrancl)
    ultimately show ?thesis by (auto simp: set_linked)
  qed
qed

lemma close_under_exact:
  assumes "close_under out limit starts = Inr os"
  shows "set os = {b. \<exists>a\<in>set starts. (a, b) \<in> (set out)\<^sup>*}" "sorted_wrt (<) os"
  using reach_loop_exact [OF assms [unfolded close_under_def]] by simp_all

lemma reaches_trans:
  assumes "reaches get a b" "reaches get b c" shows "reaches get a c"
  using assms(2,1) by induction (auto intro: reaches.intros)

lemma closed_under_nodes:
  assumes "closed_under get cat r rp"
  shows "node_oids rp = {oid. reaches get r oid}" "\<forall>(oid, n)\<in>set (nodes rp). node_ok get cat r oid (node_state n)"
  by (use assms in \<open>unfold closed_under_def, blast\<close>)+

lemma edge_of_ends: "edge_source (edge_of oid rf) = oid" "edge_target (edge_of oid rf) = ref_target rf"
  by (simp_all add: edge_of_def)

text \<open>In a complete report, following edges is following references.\<close>

lemma edges_reach:
  assumes closed: "closed_under get cat r rp" and a: "reaches get r a"
  shows "(a, b) \<in> (set (map (\<lambda>e. (edge_source e, edge_target e)) (edges rp)))\<^sup>* \<longleftrightarrow> reaches get a b"
proof -
  have es: "set (edges rp) = {edge_of oid rf |oid ob rf. reaches get r oid \<and> get oid = Inr (Some ob) \<and> rf \<in> set (references_of ob)}"
    using closed by (simp only: closed_under_def)
  have edge: "(x, y) \<in> set (map (\<lambda>e. (edge_source e, edge_target e)) (edges rp)) \<longleftrightarrow>
      (\<exists>ob rf. reaches get r x \<and> get x = Inr (Some ob) \<and> rf \<in> set (references_of ob) \<and> y = ref_target rf)" for x y
  proof
    assume "(x, y) \<in> set (map (\<lambda>e. (edge_source e, edge_target e)) (edges rp))"
    then obtain e where "e \<in> set (edges rp)" "x = edge_source e" "y = edge_target e" by auto
    then show "\<exists>ob rf. reaches get r x \<and> get x = Inr (Some ob) \<and> rf \<in> set (references_of ob) \<and> y = ref_target rf"
      unfolding es by (auto simp: edge_of_ends)
  next
    assume "\<exists>ob rf. reaches get r x \<and> get x = Inr (Some ob) \<and> rf \<in> set (references_of ob) \<and> y = ref_target rf"
    then obtain rf where "edge_of x rf \<in> set (edges rp)" "y = ref_target rf" unfolding es by blast
    then show "(x, y) \<in> set (map (\<lambda>e. (edge_source e, edge_target e)) (edges rp))"
      by (auto intro!: image_eqI [of _ _ "edge_of x rf"] simp: edge_of_ends)
  qed
  show ?thesis
  proof
    assume "(a, b) \<in> (set (map (\<lambda>e. (edge_source e, edge_target e)) (edges rp)))\<^sup>*"
    then show "reaches get a b" by induction (auto simp only: edge intro: reaches.intros)
  next
    assume "reaches get a b"
    then show "(a, b) \<in> (set (map (\<lambda>e. (edge_source e, edge_target e)) (edges rp)))\<^sup>*"
    proof induction
      case (reaches_reference oid ob rf)
      then have "reaches get r oid" using reaches_trans a by blast
      with reaches_reference have "(oid, ref_target rf) \<in> set (map (\<lambda>e. (edge_source e, edge_target e)) (edges rp))"
        unfolding edge by blast
      with reaches_reference.IH show ?case by (rule rtrancl_into_rtrancl)
    qed simp
  qed
qed

lemma node_kind_ok:
  assumes closed: "closed_under get cat r rp" and n: "node_kind rp oid = Inr (kind, len)"
  shows "reaches get r oid \<and> (\<exists>ob. get oid = Inr (Some ob) \<and> parse_oid oid = Inr kind \<and> kind = obj_kind ob \<and> len = obj_byte_len ob)"
proof -
  from n obtain nd where nd: "map_of (nodes rp) oid = Some nd" "node_state nd = Present kind len"
    by (auto simp: node_kind_def split: option.splits closure_node_state.splits)
  from map_of_SomeD [OF nd(1)] have "(oid, nd) \<in> set (nodes rp)" .
  moreover from this have "oid \<in> node_oids rp" by (force simp: node_oids_def)
  ultimately have "node_ok get cat r oid (node_state nd)" "reaches get r oid" using closed_under_nodes [OF closed] by auto
  then show ?thesis by (auto simp: node_ok_def nd(2))
qed

section \<open>Outputs\<close>

text \<open>An output the agent may produce: never a Commit, a Record only as its own result or Claim.\<close>

definition output_allowed :: "object_view \<Rightarrow> str \<Rightarrow> str \<Rightarrow> bool" where
  "output_allowed ov actor_id oid \<longleftrightarrow> parse_oid oid \<noteq> Inr Commit \<and>
     (parse_oid oid = Inr Record \<longrightarrow> (\<exists>v. structured_body ov oid = Inr v \<and> get_str v ''asserted_by'' = Some actor_id
        \<and> (get_str v ''record_type'' = Some ''analysis_result'' \<or>
           (get_str v ''record_type'' = Some ''claim''
            \<and> (\<exists>payload. json_get v ''payload'' = Some payload \<and> json_get payload ''ai_run_ref'' = None)))))"

definition output_needs :: "object_view \<Rightarrow> str \<Rightarrow> ai_capability \<Rightarrow> bool" where
  "output_needs ov oid c \<longleftrightarrow> parse_oid oid = Inr Record \<and> (\<exists>v. structured_body ov oid = Inr v
     \<and> ((get_str v ''record_type'' = Some ''analysis_result'' \<and> c = Analyze)
       \<or> (get_str v ''record_type'' = Some ''claim'' \<and> c = SubmitClaim)))"

definition size_of :: "object_view \<Rightarrow> str \<Rightarrow> nat" where
  "size_of ov oid = (case view_get ov oid of Inr (Some ob) \<Rightarrow> obj_byte_len ob | _ \<Rightarrow> 0)"

text \<open>The running count: each object once.\<close>

definition counts :: "object_view \<Rightarrow> output_count \<Rightarrow> bool" where
  "counts ov oc \<longleftrightarrow> oc_bytes oc = (\<Sum>oid\<in>set (oc_counted oc). size_of ov oid)"

lemma count_bytes_ok:
  assumes "count_bytes oc oid len = Inr oc'" "counts ov oc" "len = size_of ov oid"
  shows "counts ov oc' \<and> set (oc_counted oc') = insert oid (set (oc_counted oc)) \<and> oc_required oc' = oc_required oc"
  using assms by (auto simp: count_bytes_def counts_def repo_resource_limit_def insert_absorb split: if_splits)

lemma count_tree_ok:
  assumes "count_tree ov oc oid = Inr oc'" "counts ov oc"
  shows "counts ov oc' \<and> set (oc_counted oc') = set (oc_counted oc) \<union> {oid. parse_oid oid = Inr Tree} \<inter> {oid}
    \<and> oc_required oc' = oc_required oc"
proof -
  from assms(1) obtain kind where kind: "parse_oid oid = Inr kind"
    and run: "if kind \<noteq> Tree then oc' = oc else \<exists>ob. view_get ov oid = Inr (Some ob) \<and> count_bytes oc oid (obj_byte_len ob) = Inr oc'"
    by (auto simp: count_tree_def bindE_eq_Inr kind_of_oid_ok get_present_ok split: if_splits)
  show ?thesis
  proof (cases "kind = Tree")
    case True
    with run obtain ob where "view_get ov oid = Inr (Some ob)" "count_bytes oc oid (obj_byte_len ob) = Inr oc'" by auto
    moreover from this(1) have "obj_byte_len ob = size_of ov oid" by (simp add: size_of_def)
    ultimately show ?thesis using count_bytes_ok [of oc oid "obj_byte_len ob" oc' ov] assms(2) kind True by (simp only: Int_insert_right) simp
  next
    case False
    with run kind assms(2) show ?thesis by auto
  qed
qed

lemma count_trees_ok:
  assumes "foldE (count_tree ov) oc names = Inr oc'" "counts ov oc"
  shows "counts ov oc' \<and> set (oc_counted oc') = set (oc_counted oc) \<union> {oid\<in>set names. parse_oid oid = Inr Tree}
    \<and> oc_required oc' = oc_required oc"
  using assms
proof (induction names arbitrary: oc)
  case (Cons oid names)
  then obtain oc1 where "count_tree ov oc oid = Inr oc1" "foldE (count_tree ov) oc1 names = Inr oc'" by (auto simp: result_simps)
  with Cons.IH [of oc1] count_tree_ok [of ov oc oid oc1] Cons.prems(2) show ?case by auto
qed simp

lemma require_capability_simps [simp]:
  "oc_counted (require_capability c oc) = oc_counted oc" "oc_bytes (require_capability c oc) = oc_bytes oc"
  "set (oc_required (require_capability c oc)) = insert c (set (oc_required oc))"
  "counts ov (require_capability c oc) = counts ov oc"
  by (simp_all add: require_capability_def counts_def)

lemma check_output_record_ok:
  assumes "check_output_record ov actor_id oid oc = Inr oc'" "parse_oid oid = Inr Record"
  shows "output_allowed ov actor_id oid \<and> oc_counted oc' = oc_counted oc \<and> (counts ov oc \<longrightarrow> counts ov oc')
    \<and> set (oc_required oc') = set (oc_required oc) \<union> {c. output_needs ov oid c}"
proof -
  from assms obtain v where v: "structured_body ov oid = Inr v" "get_str v ''asserted_by'' = Some actor_id"
    and "(get_str v ''record_type'' = Some ''analysis_result'' \<and> oc' = require_capability Analyze oc)
      \<or> (get_str v ''record_type'' = Some ''claim'' \<and> oc' = require_capability SubmitClaim oc
         \<and> (\<exists>payload. json_get v ''payload'' = Some payload \<and> json_get payload ''ai_run_ref'' = None))"
    by (auto simp: check_output_record_def bindE_eq_Inr require_string_ok require_equal_ok require_object_ok denied_def split: if_splits)
  then consider (result) "get_str v ''record_type'' = Some ''analysis_result''" "oc' = require_capability Analyze oc"
    | (claim) payload where "get_str v ''record_type'' = Some ''claim''" "oc' = require_capability SubmitClaim oc"
        "json_get v ''payload'' = Some payload" "json_get payload ''ai_run_ref'' = None"
    by blast
  then show ?thesis
    by cases (use v assms(2) in \<open>auto simp: output_allowed_def output_needs_def\<close>)
qed

lemma count_output_ok:
  assumes closed: "closed_under (view_get ov) cat r rp"
    and run: "count_output ov rp base_snap actor_id oc oid = Inr oc'" and c: "counts ov oc"
  shows "reaches (view_get ov) r oid \<and> output_allowed ov actor_id oid \<and> counts ov oc'
    \<and> set (oc_counted oc') = set (oc_counted oc) \<union> ({oid} - set base_snap)
    \<and> set (oc_required oc') = set (oc_required oc) \<union> {c. output_needs ov oid c}"
proof -
  from run obtain kind len oc1 where n: "node_kind rp oid = Inr (kind, len)"
    and count: "(if oid \<notin> set base_snap then count_bytes oc oid len else Inr oc) = Inr oc1"
    and check: "(if kind = Record then check_output_record ov actor_id oid oc1
      else if kind = Commit then denied else Inr oc1) = Inr oc'"
    by (auto simp: count_output_def bindE_eq_Inr)
  from node_kind_ok [OF closed n] have node: "reaches (view_get ov) r oid" "parse_oid oid = Inr kind" "len = size_of ov oid"
    by (auto simp: size_of_def)
  have step: "counts ov oc1 \<and> set (oc_counted oc1) = set (oc_counted oc) \<union> ({oid} - set base_snap) \<and> oc_required oc1 = oc_required oc"
    using count count_bytes_ok [of oc oid len oc1 ov] c node(3) by (auto split: if_splits)
  show ?thesis
  proof (cases "kind = Record")
    case True
    with check_output_record_ok [of ov actor_id oid oc1 oc'] check node step show ?thesis by auto
  next
    case False
    with check node step show ?thesis by (auto simp: output_allowed_def output_needs_def denied_def split: if_splits)
  qed
qed

lemma count_outputs_ok:
  assumes closed: "closed_under (view_get ov) cat r rp"
    and "foldE (count_output ov rp base_snap actor_id) oc names = Inr oc'" "counts ov oc"
  shows "(\<forall>oid\<in>set names. reaches (view_get ov) r oid \<and> output_allowed ov actor_id oid) \<and> counts ov oc'
    \<and> set (oc_counted oc') = set (oc_counted oc) \<union> (set names - set base_snap)
    \<and> set (oc_required oc') = set (oc_required oc) \<union> {c. \<exists>oid\<in>set names. output_needs ov oid c}"
  using assms(2,3)
proof (induction names arbitrary: oc)
  case (Cons oid names)
  then obtain oc1 where "count_output ov rp base_snap actor_id oc oid = Inr oc1"
      "foldE (count_output ov rp base_snap actor_id) oc1 names = Inr oc'" by (auto simp: result_simps)
  with Cons.IH [of oc1] count_output_ok [OF closed, of base_snap actor_id oc oid oc1] Cons.prems(2) show ?case by auto
qed simp

lemma role_capabilities_ok:
  "set (oc_required oc) \<subseteq> set (oc_required (foldl role_capability oc outputs)) \<and> oc_bytes (foldl role_capability oc outputs) = oc_bytes oc"
proof (induction outputs arbitrary: oc)
  case (Cons x outputs)
  have "set (oc_required oc) \<subseteq> set (oc_required (role_capability oc x))" "oc_bytes (role_capability oc x) = oc_bytes oc"
    by (auto simp: role_capability_def)
  then show ?case using Cons.IH [of "role_capability oc x"] by auto
qed simp

section \<open>The binding\<close>

text \<open>
  What a candidate declares, in terms of references between objects. Its inputs are reachable from the
  ContextPack or a selected reference; it produces its output roots and what they reach beyond the inputs.
\<close>

definition selected_inputs :: "candidate_binding \<Rightarrow> str set" where
  "selected_inputs cb = insert (cb_context_pack_oid cb)
     {s. \<exists>vs. json_get (cb_context_payload cb) ''selected_context_refs'' = Some (Array vs) \<and> String s \<in> set vs}"

definition output_roots :: "candidate_binding \<Rightarrow> str set" where
  "output_roots cb = {s. \<exists>vs v. json_get (cb_activity_payload cb) ''output_refs'' = Some (Array vs) \<and> v \<in> set vs
     \<and> get_str v ''oid'' = Some s}"

definition is_input :: "object_view \<Rightarrow> candidate_binding \<Rightarrow> str \<Rightarrow> bool" where
  "is_input ov cb oid \<longleftrightarrow> (\<exists>a\<in>selected_inputs cb. reaches (view_get ov) a oid)"

definition is_produced :: "object_view \<Rightarrow> candidate_binding \<Rightarrow> str \<Rightarrow> bool" where
  "is_produced ov cb oid \<longleftrightarrow> (\<exists>a\<in>output_roots cb. reaches (view_get ov) a oid) \<and> (oid \<in> output_roots cb \<or> \<not> is_input ov cb oid)"

lemma oid_fields_ok:
  assumes "oid_fields outputs = Inr os"
  shows "set os = {s. \<exists>v\<in>set outputs. get_str v ''oid'' = Some s}"
proof -
  from assms obtain ds where ds: "list_all2 (\<lambda>v s. get_str v ''oid'' = Some s) outputs ds" "os = btree_set ds"
    by (auto simp: oid_fields_def result_simps denied_def list_all2_conv_all_nth split: option.splits)
  from ds(1) have "set ds = {s. \<exists>v\<in>set outputs. get_str v ''oid'' = Some s}"
    by (induction rule: list_all2_induct) auto
  with ds(2) show ?thesis by simp
qed

lemma oid_strings_ok:
  assumes "oid_strings vs = Inr os" shows "set os = {s. String s \<in> set vs}"
proof -
  have str: "as_str v = Some s \<longleftrightarrow> v = String s" for v s by (cases v) auto
  from assms have "list_all2 (\<lambda>v s. v = String s) vs os"
    by (auto simp: oid_strings_def result_simps denied_def list_all2_conv_all_nth simp flip: str split: option.splits)
  then show ?thesis by (induction rule: list_all2_induct) auto
qed

lemma verifier_limits: "new_verifier get list_kind bounds scan = Inr pv \<Longrightarrow> pv_limits pv = bounds"
  by (auto simp: new_verifier_def from_catalog_def result_simps)

lemma verify_uncached_closed:
  assumes "verify_uncached get pv r = Inr rp" "is_complete rp" "max_edges (pv_limits pv) \<le> usize_max"
  shows "closed_under get (pv_tombstones pv) r rp"
  using closure_ok [OF assms(3), where get = get and r = r and cat = "pv_tombstones pv"] assms(1,2)
  by (simp add: verify_uncached_def)

text \<open>The steps of the binding, one by one.\<close>

lemma output_binding_steps:
  assumes "require_candidate_output_binding ov cb = Inr required"
  obtains verifier candidate base snap base_snap outputs starts ouc sel ins inc oc oc' where
    "new_verifier (view_get ov) (view_list_kind ov) (view_graph_limits ov) (view_scan_limits ov) = Inr verifier"
    "verify_uncached (view_get ov) verifier (cb_candidate_commit cb) = Inr candidate" "is_complete candidate"
    "verify_uncached (view_get ov) verifier (cb_base_commit cb) = Inr base" "is_complete base"
    "snapshot_object_set ov (cb_candidate_commit cb) = Inr snap" "snapshot_object_set ov (cb_base_commit cb) = Inr base_snap"
    "json_get (cb_activity_payload cb) ''output_refs'' = Some (Array outputs)" "oid_fields outputs = Inr starts"
    "set starts \<subseteq> set snap"
    "close_under (map (\<lambda>e. (edge_source e, edge_target e)) (edges candidate)) (max_objects (view_graph_limits ov)) starts = Inr ouc"
    "json_get (cb_context_payload cb) ''selected_context_refs'' = Some (Array sel)" "oid_strings sel = Inr ins"
    "close_under (map (\<lambda>e. (edge_source e, edge_target e)) (edges candidate)) (max_objects (view_graph_limits ov))
      (btree_set (cb_context_pack_oid cb # ins)) = Inr inc"
    "\<forall>oid\<in>set inc. is_ok (check_input_object ov candidate oid)"
    "check_closure_declared candidate base (cb_candidate_commit cb) (cb_activity_oid cb) (cb_context_pack_oid cb) inc
      (filter (\<lambda>oid. oid \<in> set starts \<or> oid \<notin> set inc) ouc) = Inr ()"
    "foldE (count_tree ov) \<lparr> oc_bytes = 0, oc_counted = [], oc_required = [ReadContext, ProposeBranch] \<rparr>
      (filter (\<lambda>oid. oid \<notin> set base_snap) snap) = Inr oc"
    "foldE (count_output ov candidate base_snap (cb_actor_id cb)) oc
      (filter (\<lambda>oid. oid \<in> set starts \<or> oid \<notin> set inc) ouc) = Inr oc'"
    "within_output_limit (cb_grant_payload cb) (oc_bytes oc')"
    "required = oc_required (foldl role_capability oc' outputs)"
  using assms unfolding require_candidate_output_binding_def Let_def bindE_eq_Inr map_err_eq_Inr require_array_ok require_that_ok
  by (auto simp: bindE_eq_Inr map_err_eq_Inr require_array_ok require_that_ok eachE_eq_Inr role_capabilities_ok split: if_splits)

lemma declared_inputs:
  assumes closed: "closed_under (view_get ov) cat r rp"
    and inc: "close_under (map (\<lambda>e. (edge_source e, edge_target e)) (edges rp)) limit starts = Inr os"
    and starts: "\<forall>a\<in>set starts. reaches (view_get ov) r a"
  shows "set os = {b. \<exists>a\<in>set starts. reaches (view_get ov) a b}"
  using close_under_exact(1) [OF inc] edges_reach [OF closed] starts by auto

lemma node_present:
  assumes "closed_under (view_get ov) cat r rp" "is_ok (check_input_object ov rp oid)"
  shows "reaches (view_get ov) r oid"
proof -
  from assms(2) obtain kind len where "node_kind rp oid = Inr (kind, len)"
    by (auto simp: check_input_object_def is_ok_iff bindE_eq_Inr)
  with node_kind_ok [OF assms(1)] show ?thesis by blast
qed

lemma roots_closed: "close_under out limit starts = Inr os \<Longrightarrow> set starts \<subseteq> set os"
  using close_under_exact(1) by blast

lemma closure_declared_ok:
  assumes "check_closure_declared candidate base c a p inc produced = Inr ()"
    and closed: "closed_under get cat c candidate" "closed_under get cat' b base" and oid: "reaches get c oid"
  shows "reaches get b oid \<or> oid \<in> {c, a, p} \<or> oid \<in> set inc \<or> parse_oid oid = Inr Tree \<or> oid \<in> set produced"
proof -
  have "oid \<in> node_oids candidate" using oid closed_under_nodes(1) [OF closed(1)] by simp
  then obtain n where n: "(oid, n) \<in> set (nodes candidate)" by (auto simp: node_oids_def)
  with assms(1) have "map_of (nodes base) oid \<noteq> None \<or> oid \<in> {c, a, p} \<or> oid \<in> set inc \<or> is_tree_node n \<or> oid \<in> set produced"
    by (force simp: check_closure_declared_def eachE_eq_Inr is_ok_iff require_that_ok)
  moreover have "reaches get b oid" if "map_of (nodes base) oid \<noteq> None"
    using that closed_under_nodes(1) [OF closed(2)] by (auto simp: node_oids_def map_of_eq_None_iff)
  moreover have "parse_oid oid = Inr Tree" if "is_tree_node n"
    using that n closed_under_nodes(2) [OF closed(1)] by (auto simp: is_tree_node_def node_ok_def)
  ultimately show ?thesis by blast
qed

lemma output_binding_facts:
  assumes ok: "require_candidate_output_binding ov cb = Inr required" and wide: "max_edges (view_graph_limits ov) \<le> usize_max"
  obtains snap base_snap where
    "snapshot_object_set ov (cb_candidate_commit cb) = Inr snap" "snapshot_object_set ov (cb_base_commit cb) = Inr base_snap"
    "output_roots cb \<subseteq> set snap"
    "\<And>oid. reaches (view_get ov) (cb_candidate_commit cb) oid \<Longrightarrow> reaches (view_get ov) (cb_base_commit cb) oid
      \<or> oid \<in> {cb_candidate_commit cb, cb_activity_oid cb, cb_context_pack_oid cb} \<or> is_input ov cb oid
      \<or> parse_oid oid = Inr Tree \<or> is_produced ov cb oid"
    "\<And>oid. is_produced ov cb oid \<Longrightarrow> output_allowed ov (cb_actor_id cb) oid"
    "\<And>oid c. is_produced ov cb oid \<Longrightarrow> output_needs ov oid c \<Longrightarrow> c \<in> set required"
    "{ReadContext, ProposeBranch} \<subseteq> set required"
    "finite {oid. is_produced ov cb oid}"
    "within_output_limit (cb_grant_payload cb)
      (\<Sum>oid\<in>({oid\<in>set snap. parse_oid oid = Inr Tree} \<union> {oid. is_produced ov cb oid}) - set base_snap. size_of ov oid)"
  using ok
proof (rule output_binding_steps)
  fix verifier and candidate base :: closure_report and starts ouc inc :: "str list" and snap base_snap outputs sel ins oc oc'
  let ?get = "view_get ov"
  let ?out = "map (\<lambda>e. (edge_source e, edge_target e)) (edges candidate)"
  let ?produced = "filter (\<lambda>oid. oid \<in> set starts \<or> oid \<notin> set inc) ouc"
  assume v: "new_verifier ?get (view_list_kind ov) (view_graph_limits ov) (view_scan_limits ov) = Inr verifier"
    and candidate: "verify_uncached ?get verifier (cb_candidate_commit cb) = Inr candidate" "is_complete candidate"
    and base: "verify_uncached ?get verifier (cb_base_commit cb) = Inr base" "is_complete base"
    and snaps: "snapshot_object_set ov (cb_candidate_commit cb) = Inr snap" "snapshot_object_set ov (cb_base_commit cb) = Inr base_snap"
    and outputs: "json_get (cb_activity_payload cb) ''output_refs'' = Some (Array outputs)" "oid_fields outputs = Inr starts"
    and sub: "set starts \<subseteq> set snap" and ouc: "close_under ?out (max_objects (view_graph_limits ov)) starts = Inr ouc"
    and sel: "json_get (cb_context_payload cb) ''selected_context_refs'' = Some (Array sel)" "oid_strings sel = Inr ins"
    and inc: "close_under ?out (max_objects (view_graph_limits ov)) (btree_set (cb_context_pack_oid cb # ins)) = Inr inc"
    and inputs: "\<forall>oid\<in>set inc. is_ok (check_input_object ov candidate oid)"
    and declared: "check_closure_declared candidate base (cb_candidate_commit cb) (cb_activity_oid cb) (cb_context_pack_oid cb) inc
      ?produced = Inr ()"
    and trees: "foldE (count_tree ov) \<lparr> oc_bytes = 0, oc_counted = [], oc_required = [ReadContext, ProposeBranch] \<rparr>
      (filter (\<lambda>oid. oid \<notin> set base_snap) snap) = Inr oc"
    and count: "foldE (count_output ov candidate base_snap (cb_actor_id cb)) oc ?produced = Inr oc'"
    and limit: "within_output_limit (cb_grant_payload cb) (oc_bytes oc')"
    and required: "required = oc_required (foldl role_capability oc' outputs)"
  have wide': "max_edges (pv_limits verifier) \<le> usize_max" using wide verifier_limits [OF v] by simp
  note closed = verify_uncached_closed [OF candidate wide'] verify_uncached_closed [OF base wide']
  have start: "counts ov \<lparr> oc_bytes = 0, oc_counted = [], oc_required = [ReadContext, ProposeBranch] \<rparr>" by (simp add: counts_def)
  note c1 = count_trees_ok [OF trees start]
  note c2 = count_outputs_ok [OF closed(1) count conjunct1 [OF c1]]
  have roots: "set starts = output_roots cb" using oid_fields_ok [OF outputs(2)] outputs(1) by (auto simp: output_roots_def)
  have ins: "set (btree_set (cb_context_pack_oid cb # ins)) = selected_inputs cb"
    using oid_strings_ok [OF sel(2)] sel(1) by (auto simp: selected_inputs_def)
  have "\<forall>a\<in>selected_inputs cb. reaches ?get (cb_candidate_commit cb) a"
    using roots_closed [OF inc] inputs node_present [OF closed(1)] ins by blast
  then have inc_set: "set inc = {oid. is_input ov cb oid}"
    using declared_inputs [OF closed(1) inc] unfolding ins is_input_def by blast
  have "\<forall>a\<in>set starts. reaches ?get (cb_candidate_commit cb) a" using roots_closed [OF ouc] c2 by auto
  then have produced: "set ?produced = {oid. is_produced ov cb oid}"
    using declared_inputs [OF closed(1) ouc] roots inc_set by (auto simp: is_produced_def)
  have sum: "oc_bytes oc' = (\<Sum>oid\<in>({oid\<in>set snap. parse_oid oid = Inr Tree} \<union> {oid. is_produced ov cb oid}) - set base_snap. size_of ov oid)"
  proof -
    have "set (oc_counted oc') = ({oid\<in>set snap. parse_oid oid = Inr Tree} \<union> {oid. is_produced ov cb oid}) - set base_snap"
      using c1 c2 produced by auto
    then show ?thesis using c2 by (simp only: counts_def)
  qed
  show thesis
  proof (rule that [of snap base_snap])
    show "reaches ?get (cb_base_commit cb) oid \<or> oid \<in> {cb_candidate_commit cb, cb_activity_oid cb, cb_context_pack_oid cb}
        \<or> is_input ov cb oid \<or> parse_oid oid = Inr Tree \<or> is_produced ov cb oid" if "reaches ?get (cb_candidate_commit cb) oid" for oid
      using closure_declared_ok [OF declared closed that] inc_set produced by blast
    show "output_allowed ov (cb_actor_id cb) oid" if "is_produced ov cb oid" for oid using c2 produced that by blast
    show "c \<in> set required" if "is_produced ov cb oid" "output_needs ov oid c" for oid c
      using c2 produced that role_capabilities_ok [of oc' outputs] required by blast
    show "{ReadContext, ProposeBranch} \<subseteq> set required"
      using c1 c2 role_capabilities_ok [of oc' outputs] required by auto
    show "finite {oid. is_produced ov cb oid}" using produced by (metis finite_set)
    show "within_output_limit (cb_grant_payload cb)
      (\<Sum>oid\<in>({oid\<in>set snap. parse_oid oid = Inr Tree} \<union> {oid. is_produced ov cb oid}) - set base_snap. size_of ov oid)"
      using limit sum by simp
  qed (use snaps sub roots in auto)
qed

end
