(* ===== verification/Proposal_Laws.thy ===== *)
theory Proposal_Laws
  imports Authorization_Outputs
begin

text \<open>
  What the publication of an agent's proposal rests on, gathered from the checks of the authorization
  boundary and the transaction of the Ref store.
\<close>

section \<open>Publication\<close>

lemma namespace_ok: "require_ai_namespace n = Inr u \<longleftrightarrow> hd (split_on (CHR ''/'') n) = ''proposal''"
  by (auto simp: require_ai_namespace_def denied_def Let_def)

lemma gated_ok: "require_human_gated_base n = Inr u \<Longrightarrow> hd (split_on (CHR ''/'') n) \<in> {''decision'', ''release''}"
  by (auto simp: require_human_gated_base_def bindE_eq_Inr require_that_ok)

lemma direct_base_parent_ok:
  "require_direct_base_parent commit base = Inr u \<longleftrightarrow> json_get commit ''parents'' = Some (Array [String base])"
proof -
  have str: "as_str v = Some s \<longleftrightarrow> v = String s" for v s by (cases v) auto
  have "length ps = 1 \<and> as_str (hd ps) = Some base \<longleftrightarrow> ps = [String base]" for ps by (cases ps) (auto simp: str)
  then show ?thesis by (auto simp: require_direct_base_parent_def bindE_eq_Inr require_array_ok require_that_ok)
qed

lemma requested_ok:
  assumes "check_requested_capabilities ai_run exact required = Inr requested"
  shows "requested = btree_set exact \<and> ProposeBranch \<in> set requested \<and> set required \<subseteq> set requested"
  using assms by (auto simp: check_requested_capabilities_def bindE_eq_Inr require_that_ok)

lemma transaction_guard_ok:
  "transaction_guard now resolved = Inr u \<longleftrightarrow> (\<exists>t. now = Some t \<and> res_evaluated_at resolved \<le> t
    \<and> res_grant_active_from resolved \<le> t \<and> t < res_grant_expires_at resolved)"
  by (cases now) (auto simp: transaction_guard_def)

text \<open>A candidate Commit the agent may publish on a base.\<close>

definition checkpoint_by :: "object_view \<Rightarrow> str \<Rightarrow> str \<Rightarrow> str \<Rightarrow> bool" where
  "checkpoint_by ov actor_id base oid \<longleftrightarrow> (\<exists>commit. load_structured ov oid Commit = Inr commit
     \<and> get_str commit ''commit_kind'' = Some ''checkpoint'' \<and> get_str commit ''author_ref'' = Some actor_id
     \<and> json_get commit ''parents'' = Some (Array [String base]))"

definition binding_of :: "ai_execution_authority \<Rightarrow> ai_proposal_update \<Rightarrow> resolved_ai_authority \<Rightarrow> activity_claims \<Rightarrow> candidate_binding" where
  "binding_of authority request resolved act =
     \<lparr> cb_candidate_commit = pr_new_head request, cb_base_commit = res_base_commit_oid resolved,
       cb_activity_oid = pr_activity_oid request, cb_context_pack_oid = act_context_pack_oid act,
       cb_actor_id = authenticated_actor_id authority, cb_context_payload = res_context_payload resolved,
       cb_activity_payload = act_payload act, cb_grant_payload = res_grant_payload resolved \<rparr>"

lemma authorize_proposal_facts:
  assumes "authorize_proposal ov verifier authority now request required_side_effect preflight = Inr (resolved, act, requested)"
  obtains required target where
    "validate_prepared_head (view_get ov) verifier (pr_new_head request) = Inr ()"
    "checkpoint_by ov (authenticated_actor_id authority) (res_base_commit_oid resolved) (pr_new_head request)"
    "resolve_ai_authority ov authority now target = Inr resolved" "tg_ref_name target = pr_ref_name request"
    "act_grant_oid act = res_delegation_grant_oid resolved" "check_preflight resolved preflight = Inr ()"
    "require_candidate_output_binding ov (binding_of authority request resolved act) = Inr required"
    "check_requested_capabilities (act_ai_run act) (res_exact_capabilities resolved) required = Inr requested"
  using assms unfolding authorize_proposal_def Let_def bindE_eq_Inr require_that_ok require_equal_ok direct_base_parent_ok
    binding_of_def [symmetric] check_candidate_commit_def require_string_ok map_err_eq_Inr
  by (auto simp: checkpoint_by_def)

lemma publish_internal_cases:
  assumes s: "store_inv s" and ok: "publish_proposal_internal ov authority now later s request se preflight = Inr (d, s')"
  obtains verifier resolved act t where
    "check_proposal_request authority request = Inr ()"
    "new_verifier (view_get ov) (view_list_kind ov) (view_graph_limits ov) (view_scan_limits ov) = Inr verifier"
    "authorize_proposal ov verifier authority now request se preflight = Inr (resolved, act, dec_effective_capabilities d)"
    "later = Some t" "res_evaluated_at resolved \<le> t" "res_grant_active_from resolved \<le> t" "t < res_grant_expires_at resolved"
    "update_admissible (\<lambda>h. caught (validate_prepared_head (view_get ov) verifier h)) (Inr ()) s
      (proposal_update authority request (res_evaluated_at resolved))
      [\<lparr> pre_ref_name = res_base_ref_name resolved, pre_expected_head = Some (res_base_commit_oid resolved) \<rparr>]"
    "sequence s < i64_max" "dec_delegation_grant_oid d = act_grant_oid act" "dec_policy_oid d = res_policy_oid resolved"
    "dec_reflog d = update_entry s (proposal_update authority request (res_evaluated_at resolved))"
    "s' = advance s (proposal_update authority request (res_evaluated_at resolved))"
  using ok unfolding publish_proposal_internal_def bindE_eq_Inr map_err_eq_Inr
  by (auto simp: bindE_eq_Inr map_err_eq_Inr cas_exact [OF s] update_admissible_def transaction_guard_ok split: if_splits)

lemma publish_internal_facts:
  assumes s: "store_inv s" and ok: "publish_proposal_internal ov authority now later s request se preflight = Inr (d, s')"
  obtains t t' grant payload base snap where
    "now = Some t" "later = Some t'" "t \<le> t'" "hd (split_on (CHR ''/'') (pr_ref_name request)) = ''proposal''"
    "hd (split_on (CHR ''/'') (authorized_base_ref authority)) \<in> {''decision'', ''release''}"
    "query_head s (authorized_base_ref authority) = Some base"
    "checkpoint_by ov (authenticated_actor_id authority) base (pr_new_head request)"
    "delegates ov authority (dec_delegation_grant_oid d) grant payload" "in_force grant payload t" "in_force grant payload t'"
    "ref_writable payload (pr_ref_name request)" "snapshot_object_set ov base = Inr snap"
    "{actor_record_oid authority, principal_actor_record_oid authority, dec_delegation_grant_oid d, dec_policy_oid d} \<subseteq> set snap"
    "ProposeBranch \<in> set (dec_effective_capabilities d)"
    "set (dec_effective_capabilities d) \<subseteq> Collect (capability_given ov authority payload (dec_policy_oid d) (pr_ref_name request))"
    "s' = advance s (proposal_update authority request t)" "store_inv s'"
  using s ok
proof (rule publish_internal_cases)
  fix verifier resolved act t'
  assume auth: "authorize_proposal ov verifier authority now request se preflight = Inr (resolved, act, dec_effective_capabilities d)"
    and later: "later = Some t'" "res_evaluated_at resolved \<le> t'" "res_grant_active_from resolved \<le> t'" "t' < res_grant_expires_at resolved"
    and adm: "update_admissible (\<lambda>h. caught (validate_prepared_head (view_get ov) verifier h)) (Inr ()) s
      (proposal_update authority request (res_evaluated_at resolved))
      [\<lparr> pre_ref_name = res_base_ref_name resolved, pre_expected_head = Some (res_base_commit_oid resolved) \<rparr>]"
    and room: "sequence s < i64_max" and d: "dec_delegation_grant_oid d = act_grant_oid act" "dec_policy_oid d = res_policy_oid resolved"
    and s': "s' = advance s (proposal_update authority request (res_evaluated_at resolved))"
  from auth obtain required target where c: "checkpoint_by ov (authenticated_actor_id authority) (res_base_commit_oid resolved) (pr_new_head request)"
    and r: "resolve_ai_authority ov authority now target = Inr resolved" "tg_ref_name target = pr_ref_name request"
    and g: "act_grant_oid act = res_delegation_grant_oid resolved"
    and caps: "check_requested_capabilities (act_ai_run act) (res_exact_capabilities resolved) required = Inr (dec_effective_capabilities d)"
    by (rule authorize_proposal_facts)
  have valid: "update_valid (proposal_update authority request (res_evaluated_at resolved))"
    and live: "query_head s (res_base_ref_name resolved) = Some (res_base_commit_oid resolved)"
    using adm by (auto simp: update_admissible_def)
  from r(1) show thesis
  proof (rule resolve_authority_facts)
    fix t grant snap
    assume res: "now = Some t" "res_evaluated_at resolved = t" "delegates ov authority (res_delegation_grant_oid resolved) grant (res_grant_payload resolved)"
        "ref_writable (res_grant_payload resolved) (tg_ref_name target)" "in_force grant (res_grant_payload resolved) t"
        "res_exact_capabilities resolved = btree_set (authorized_capabilities authority)"
        "require_ai_namespace (tg_ref_name target) = Inr ()" "require_human_gated_base (authorized_base_ref authority) = Inr ()"
        "res_base_ref_name resolved = authorized_base_ref authority" "snapshot_object_set ov (res_base_commit_oid resolved) = Inr snap"
        "{actor_record_oid authority, principal_actor_record_oid authority, res_delegation_grant_oid resolved, res_policy_oid resolved} \<subseteq> set snap"
      and force: "\<And>t'. in_force grant (res_grant_payload resolved) t' \<longleftrightarrow> res_grant_active_from resolved \<le> t' \<and> t' < res_grant_expires_at resolved"
      and given: "\<And>c. c \<in> set (authorized_capabilities authority) \<Longrightarrow>
        capability_given ov authority (res_grant_payload resolved) (res_policy_oid resolved) (tg_ref_name target) c"
    show thesis
    proof (rule that [of t t' "res_base_commit_oid resolved" grant "res_grant_payload resolved" snap])
      show "set (dec_effective_capabilities d) \<subseteq> Collect (capability_given ov authority (res_grant_payload resolved) (dec_policy_oid d) (pr_ref_name request))"
        using requested_ok [OF caps] given res(6) r(2) d by auto
      show "ProposeBranch \<in> set (dec_effective_capabilities d)" using requested_ok [OF caps] by blast
      show "store_inv s'" using advance_inv [OF s valid room] s' by simp
    qed (use res later force r c g d live s' gated_ok [OF res(8)] namespace_ok in simp_all)
  qed
qed

end
