(* ===== verification/Decision_Laws.thy ===== *)
theory Decision_Laws
  imports Human_Decision Proposal_Laws
begin

text \<open>
  What the human route decides: the traversal of the decision ancestry finds every earlier feedback, and a
  published decision is a reviewed one. From both, no Ref decides a proposal twice along any history of the
  two publication routes.
\<close>

section \<open>Ancestry\<close>

definition parents_of :: "object_view \<Rightarrow> str \<Rightarrow> str set" where
  "parents_of ov c = {p. \<exists>commit ps. load_structured ov c Commit = Inr commit \<and> json_get commit ''parents'' = Some (Array ps)
     \<and> String p \<in> set ps}"

inductive ancestor :: "object_view \<Rightarrow> str \<Rightarrow> str \<Rightarrow> bool" for ov where
  self: "ancestor ov c c"
| parent: "ancestor ov c d \<Longrightarrow> p \<in> parents_of ov d \<Longrightarrow> ancestor ov c p"

lemma ancestor_trans: "ancestor ov d e \<Longrightarrow> ancestor ov c d \<Longrightarrow> ancestor ov c e"
  by (induction rule: ancestor.induct) (auto intro: ancestor.intros)

text \<open>A Commit that binds feedback on a proposal.\<close>

definition binds_feedback :: "object_view \<Rightarrow> str \<Rightarrow> str \<Rightarrow> bool" where
  "binds_feedback ov c proposal \<longleftrightarrow> (\<exists>commit ts oid v. load_structured ov c Commit = Inr commit
     \<and> json_get commit ''transition_refs'' = Some (Array ts) \<and> String oid \<in> set ts
     \<and> load_structured ov oid Record = Inr v \<and> feedback_for v proposal)"

definition decided_in :: "object_view \<Rightarrow> str \<Rightarrow> str \<Rightarrow> bool" where
  "decided_in ov h proposal \<longleftrightarrow> (\<exists>c. ancestor ov h c \<and> binds_feedback ov c proposal)"

lemma decided_in_parent: "decided_in ov h p \<Longrightarrow> h \<in> parents_of ov h' \<Longrightarrow> decided_in ov h' p"
  unfolding decided_in_def using ancestor_trans ancestor.intros by metis

text \<open>Objects are only added: what loads keeps loading with the same value.\<close>

definition view_extends :: "object_view \<Rightarrow> object_view \<Rightarrow> bool" where
  "view_extends ov ov' \<longleftrightarrow> (\<forall>oid kind v. load_structured ov oid kind = Inr v \<longrightarrow> load_structured ov' oid kind = Inr v)"

lemma decided_in_extends:
  assumes "view_extends ov ov'" "decided_in ov h p" shows "decided_in ov' h p"
proof -
  have "ancestor ov' c d" if "ancestor ov c d" for c d
    using that
  proof induction
    case (parent c d p)
    have "p \<in> parents_of ov' d" using parent.hyps(2) assms(1) unfolding parents_of_def view_extends_def by auto
    with parent.IH show ?case by (rule ancestor.parent)
  qed (rule ancestor.self)
  moreover have "binds_feedback ov' c p" if "binds_feedback ov c p" for c
    using that assms(1) unfolding binds_feedback_def view_extends_def by fastforce
  ultimately show ?thesis using assms(2) unfolding decided_in_def by auto
qed

section \<open>The traversal\<close>

text \<open>Visited Commits bind no feedback on the proposal, and their parents are visited or pending.\<close>

definition ancestry_inv :: "object_view \<Rightarrow> str \<Rightarrow> ancestry_state \<Rightarrow> bool" where
  "ancestry_inv ov p an \<longleftrightarrow> (\<forall>c\<in>set (an_visited an). \<not> binds_feedback ov c p
     \<and> parents_of ov c \<subseteq> set (an_visited an) \<union> fst ` set (an_pending an))"

lemma transitions_ok:
  assumes "foldE (check_transition ov p) an ts = Inr an'"
  shows "an_visited an' = an_visited an \<and> an_pending an' = an_pending an
    \<and> (\<forall>oid. String oid \<in> set ts \<longrightarrow> (\<exists>v. load_structured ov oid Record = Inr v \<and> \<not> feedback_for v p))"
  using assms
proof (induction ts arbitrary: an)
  case (Cons x ts)
  then obtain an1 where x: "check_transition ov p an x = Inr an1" and rest: "foldE (check_transition ov p) an1 ts = Inr an'"
    by (auto simp: bindE_eq_Inr)
  from check_transition_ok [OF x] Cons.IH [OF rest] show ?case by (auto simp: ancestry_state.defs)
qed simp

lemma parents_ok:
  assumes "foldE (add_parent bounds depth) an ps = Inr an'"
  shows "an_visited an' = an_visited an \<and> fst ` set (an_pending an') = fst ` set (an_pending an) \<union> {oid. String oid \<in> set ps}"
  using assms
proof (induction ps arbitrary: an)
  case (Cons x ps)
  then obtain an1 where x: "add_parent bounds depth an x = Inr an1" and rest: "foldE (add_parent bounds depth) an1 ps = Inr an'"
    by (auto simp: bindE_eq_Inr)
  have "\<exists>oid. x = String oid \<and> an_visited an1 = an_visited an \<and> an_pending an1 = (oid, depth + 1) # an_pending an"
    using add_parent_ok [OF x] by (cases x) auto
  with Cons.IH [OF rest] show ?case by auto
qed simp

lemma ancestry_step_inv:
  assumes "ancestry_step ov p (c, depth) (an\<lparr> an_pending := rest \<rparr>) = Inr an'" "an_pending an = (c, depth) # rest" "ancestry_inv ov p an"
  shows "ancestry_inv ov p an' \<and> c \<in> set (an_visited an') \<and> set (an_visited an) \<union> fst ` set rest \<subseteq> set (an_visited an') \<union> fst ` set (an_pending an')"
proof (cases "c \<in> set (an_visited an)")
  case True
  with assms(1) have "an' = an\<lparr> an_pending := rest \<rparr>" by (simp add: ancestry_step_def)
  with True assms(2,3) show ?thesis by (auto simp: ancestry_inv_def)
next
  case False
  with assms(1) obtain commit ts an1 ps where load: "load_structured ov c Commit = Inr commit"
      "json_get commit ''transition_refs'' = Some (Array ts)" "json_get commit ''parents'' = Some (Array ps)"
    and ts: "foldE (check_transition ov p) (an\<lparr> an_pending := rest, an_visited := c # an_visited an \<rparr>) ts = Inr an1"
    and ps: "foldE (add_parent (view_graph_limits ov) depth) an1 ps = Inr an'"
    by (auto simp: ancestry_step_def Let_def repo_resource_limit_def bindE_eq_Inr require_array_ok split: if_splits)
  have "\<not> binds_feedback ov c p" "parents_of ov c = {oid. String oid \<in> set ps}"
    using load transitions_ok [OF ts] by (auto simp: binds_feedback_def parents_of_def)
  with transitions_ok [OF ts] parents_ok [OF ps] assms(2,3) show ?thesis by (auto simp: ancestry_inv_def)
qed

lemma ancestry_loop_sound:
  assumes "ancestry_loop ov p an = Inr ()" "ancestry_inv ov p an"
  shows "\<exists>V. set (an_visited an) \<union> fst ` set (an_pending an) \<subseteq> V \<and> (\<forall>c\<in>V. \<not> binds_feedback ov c p \<and> parents_of ov c \<subseteq> V)"
  using assms
proof (induction ov p an rule: ancestry_loop.induct)
  case (1 ov p an)
  show ?case
  proof (cases "an_pending an")
    case Nil
    with 1 show ?thesis by (intro exI [of _ "set (an_visited an)"]) (auto simp: ancestry_inv_def)
  next
    case (Cons item rest)
    obtain c depth where item: "item = (c, depth)" by fastforce
    from 1(2) Cons obtain an' where step: "ancestry_step ov p item (an\<lparr> an_pending := rest \<rparr>) = Inr an'"
      and loop: "ancestry_loop ov p an' = Inr ()"
      by (subst (asm) ancestry_loop.simps) (auto simp: bindE_eq_Inr)
    note keep = ancestry_step_inv [OF step [unfolded item] Cons [unfolded item] 1(3)]
    from 1(1) [OF Cons step loop] keep obtain V where V: "set (an_visited an') \<union> fst ` set (an_pending an') \<subseteq> V"
        "\<forall>c\<in>V. \<not> binds_feedback ov c p \<and> parents_of ov c \<subseteq> V" by blast
    have "set (an_visited an) \<union> fst ` set (an_pending an) \<subseteq> V" 
      using keep V(1) unfolding Cons item by (simp add: subset_iff) blast
    with V(2) show ?thesis by blast
  qed
qed

lemma not_previously_decided:
  assumes "require_proposal_not_previously_decided ov base p = Inr ()"
  shows "\<not> decided_in ov base p"
proof -
  from ancestry_loop_sound [OF assms [unfolded require_proposal_not_previously_decided_def]]
  obtain V where V: "base \<in> V" "\<forall>c\<in>V. \<not> binds_feedback ov c p \<and> parents_of ov c \<subseteq> V" by (auto simp: ancestry_inv_def)
  have "d \<in> V" if "ancestor ov c d" "c \<in> V" for c d using that V(2) by induction auto
  then show ?thesis using V unfolding decided_in_def by blast
qed

section \<open>What a published decision rests on\<close>

lemma string_elem: "as_str v = Some s \<longleftrightarrow> v = String s"
  by (cases v) auto

lemma single_element: "length vs = 1 \<and> as_str (hd vs) = Some s \<longleftrightarrow> vs = [String s]"
  by (cases vs) (auto simp: string_elem)

text \<open>The Commit that records a decision, and the feedback it binds.\<close>

definition decision_by :: "object_view \<Rightarrow> str \<Rightarrow> str \<Rightarrow> str \<Rightarrow> str \<Rightarrow> bool" where
  "decision_by ov human base feedback oid \<longleftrightarrow> (\<exists>commit. load_structured ov oid Commit = Inr commit
     \<and> get_str commit ''commit_kind'' = Some ''decision'' \<and> get_str commit ''author_ref'' = Some human
     \<and> json_get commit ''parents'' = Some (Array [String base]) \<and> json_get commit ''transition_refs'' = Some (Array [String feedback])
     \<and> json_get commit ''bound_declaration_refs'' = Some (Array []))"

definition feedback_by :: "object_view \<Rightarrow> str \<Rightarrow> str \<Rightarrow> decision_disposition \<Rightarrow> str \<Rightarrow> bool" where
  "feedback_by ov human proposal verdict oid \<longleftrightarrow> (\<exists>v payload. load_record ov oid ''decision_feedback'' = Inr v
     \<and> get_str v ''asserted_by'' = Some human \<and> get_str v ''origin'' = Some ''self_declared''
     \<and> json_get v ''payload'' = Some payload \<and> get_str payload ''proposal_ref'' = Some proposal
     \<and> get_str payload ''disposition'' = Some (disposition_as_str verdict))"

text \<open>The reviewer is a human Actor that the base holds, and a Policy the base holds lets them publish.\<close>

definition reviewer_of :: "object_view \<Rightarrow> human_decision_authority \<Rightarrow> bool" where
  "reviewer_of ov au \<longleftrightarrow> (\<exists>actor_rec payload policy policy_payload snap.
     load_record ov (human_actor_record_oid au) ''actor'' = Inr actor_rec \<and> json_get actor_rec ''payload'' = Some payload
     \<and> get_str actor_rec ''entity_id'' = Some (authenticated_human_id au) \<and> get_str payload ''actor_kind'' = Some ''human''
     \<and> load_record ov (policy_record_oid au) ''policy'' = Inr policy \<and> json_get policy ''payload'' = Some policy_payload
     \<and> get_str policy ''asserted_by'' = Some (authenticated_human_id au)
     \<and> authorize_human_publish policy_payload (decision_ref_name au) = Inr ()
     \<and> snapshot_object_set ov (decision_head au) = Inr snap \<and> {human_actor_record_oid au, policy_record_oid au} \<subseteq> set snap)"

definition snapshot_of :: "object_view \<Rightarrow> str \<Rightarrow> str option" where
  "snapshot_of ov c = (case load_structured ov c Commit of Inl _ \<Rightarrow> None | Inr commit \<Rightarrow> get_str commit ''snapshot'')"

text \<open>What the verdict does to the project: adopt the proposal unchanged, or leave the base as it is.\<close>

definition verdict_snapshot :: "object_view \<Rightarrow> human_decision_authority \<Rightarrow> decision_disposition \<Rightarrow> str option" where
  "verdict_snapshot ov au verdict = snapshot_of ov (if verdict = AdoptedUnchanged then proposal_head au else decision_head au)"

lemma disposition_parse_ok: "disposition_parse s = Inr d \<longleftrightarrow> s = disposition_as_str d"
  by (cases d) (auto simp: disposition_parse_def denied_def split: if_splits)

lemma decision_commit_ok:
  assumes "load_structured ov (hd_new_head up) Commit = Inr commit" "check_decision_commit au up commit = Inr ()"
  shows "decision_by ov (authenticated_human_id au) (decision_head au) (hd_decision_feedback_oid up) (hd_new_head up)"
  using assms unfolding check_decision_commit_def require_single_parent_def require_exact_transition_def bindE_eq_Inr
    require_string_ok require_equal_ok require_array_ok require_that_ok single_element decision_by_def by auto

lemma feedback_ok:
  assumes "load_record ov oid ''decision_feedback'' = Inr v" "check_feedback au v = Inr verdict"
  shows "feedback_by ov (authenticated_human_id au) (proposal_head au) verdict oid"
  using assms unfolding check_feedback_def bindE_eq_Inr require_string_ok require_equal_ok require_object_ok disposition_parse_ok
    feedback_by_def by auto

lemma reviewer_ok:
  assumes "load_record ov (human_actor_record_oid au) ''actor'' = Inr actor_rec" "load_record ov (policy_record_oid au) ''policy'' = Inr policy"
    "check_reviewer ov au actor_rec policy = Inr ()"
  shows "reviewer_of ov au"
  using assms unfolding check_reviewer_def require_human_actor_def require_base_authority_bindings_def bindE_eq_Inr eachE_eq_Inr
    require_string_ok require_equal_ok require_object_ok reviewer_of_def by (auto simp: is_ok_iff require_that_ok)

lemma disposition_snapshot_ok:
  assumes "load_structured ov (decision_head au) Commit = Inr base" "load_structured ov (proposal_head au) Commit = Inr proposal"
    "load_structured ov (hd_new_head up) Commit = Inr commit" "require_disposition_snapshot base proposal commit verdict = Inr ()"
  shows "verdict \<notin> {AdoptedModified, PartiallyAdopted} \<and> snapshot_of ov (hd_new_head up) = verdict_snapshot ov au verdict
    \<and> snapshot_of ov (hd_new_head up) \<noteq> None"
  using assms by (cases verdict) (auto simp: require_disposition_snapshot_def bindE_eq_Inr require_string_ok require_equal_ok denied_def
      snapshot_of_def verdict_snapshot_def)

text \<open>The reviewed proposal: an agent's checkpoint on the base whose outputs are bound again at review.\<close>

definition reviewable :: "object_view \<Rightarrow> human_decision_authority \<Rightarrow> bool" where
  "reviewable ov au \<longleftrightarrow> (\<exists>agent cb required. checkpoint_by ov agent (decision_head au) (proposal_head au)
     \<and> require_candidate_output_binding ov cb = Inr required \<and> cb_actor_id cb = agent
     \<and> cb_candidate_commit cb = proposal_head au \<and> cb_base_commit cb = decision_head au)"

lemma proposal_activity_author:
  "check_proposal_activity ov proposal human = Inr ch \<Longrightarrow> get_str proposal ''author_ref'' = Some (ch_agent_id ch)"
  unfolding check_proposal_activity_def bindE_eq_Inr require_string_ok require_equal_ok
  by (auto simp: denied_def bindE_eq_Inr require_string_ok require_equal_ok split: if_splits)

lemma proposal_ok:
  assumes load: "load_structured ov (proposal_head au) Commit = Inr proposal" and ok: "check_proposal ov au proposal = Inr ()"
  shows "reviewable ov au \<and> \<not> decided_in ov (decision_head au) (proposal_head au)
    \<and> (\<exists>controls. protected_control_set ov (decision_head au) = Inr controls \<and> protected_control_set ov (proposal_head au) = Inr controls)"
proof -
  from ok have parts: "require_proposal_not_previously_decided ov (decision_head au) (proposal_head au) = Inr ()"
      "get_str proposal ''commit_kind'' = Some ''checkpoint''" "json_get proposal ''parents'' = Some (Array [String (decision_head au)])"
      "require_ai_proposal_chain ov au proposal = Inr ()"
      "require_exact_protected_controls ov (decision_head au) (proposal_head au) = Inr ()"
    unfolding check_proposal_def require_single_parent_def bindE_eq_Inr require_string_ok require_equal_ok require_array_ok
      require_that_ok single_element by auto
  from parts(4) obtain ch context_payload grant_payload required where
    chain: "check_proposal_activity ov proposal (authenticated_human_id au) = Inr ch"
    and bound: "require_candidate_output_binding ov
       \<lparr> cb_candidate_commit = proposal_head au, cb_base_commit = decision_head au, cb_activity_oid = ch_activity_oid ch,
         cb_context_pack_oid = ch_context_oid ch, cb_actor_id = ch_agent_id ch, cb_context_payload = context_payload,
         cb_activity_payload = ch_activity_payload ch, cb_grant_payload = grant_payload \<rparr> = Inr required"
    unfolding require_ai_proposal_chain_def bindE_eq_Inr by auto
  have "checkpoint_by ov (ch_agent_id ch) (decision_head au) (proposal_head au)"
    using load parts(2,3) proposal_activity_author [OF chain] by (auto simp: checkpoint_by_def)
  then have "reviewable ov au" using bound unfolding reviewable_def by fastforce
  moreover have "\<exists>controls. protected_control_set ov (decision_head au) = Inr controls \<and> protected_control_set ov (proposal_head au) = Inr controls"
    using parts(5) by (auto simp: require_exact_protected_controls_def bindE_eq_Inr require_that_ok)
  ultimately show ?thesis using not_previously_decided [OF parts(1)] by blast
qed

text \<open>Everything a published decision rests on.\<close>

definition decision_reviewed :: "object_view \<Rightarrow> human_decision_authority \<Rightarrow> human_decision_update \<Rightarrow> decision_disposition \<Rightarrow> bool" where
  "decision_reviewed ov au up verdict \<longleftrightarrow> reviewer_of ov au \<and> reviewable ov au
     \<and> decision_by ov (authenticated_human_id au) (decision_head au) (hd_decision_feedback_oid up) (hd_new_head up)
     \<and> feedback_by ov (authenticated_human_id au) (proposal_head au) verdict (hd_decision_feedback_oid up)"

lemma authorize_decision_facts:
  assumes "authorize_decision ov verifier au up = Inr verdict"
  shows "decision_reviewed ov au up verdict" "\<not> decided_in ov (decision_head au) (proposal_head au)"
    "verdict \<notin> {AdoptedModified, PartiallyAdopted} \<and> snapshot_of ov (hd_new_head up) = verdict_snapshot ov au verdict
      \<and> snapshot_of ov (hd_new_head up) \<noteq> None"
    "\<exists>controls. protected_control_set ov (decision_head au) = Inr controls \<and> protected_control_set ov (hd_new_head up) = Inr controls"
proof -
  from assms obtain base proposal commit feedback actor_rec policy where
    load: "load_structured ov (decision_head au) Commit = Inr base" "load_structured ov (proposal_head au) Commit = Inr proposal"
      "load_structured ov (hd_new_head up) Commit = Inr commit" "load_record ov (hd_decision_feedback_oid up) ''decision_feedback'' = Inr feedback"
      "load_record ov (human_actor_record_oid au) ''actor'' = Inr actor_rec" "load_record ov (policy_record_oid au) ''policy'' = Inr policy"
    and checks: "check_reviewer ov au actor_rec policy = Inr ()" "check_proposal ov au proposal = Inr ()"
      "check_decision_commit au up commit = Inr ()" "check_feedback au feedback = Inr verdict"
      "require_disposition_snapshot base proposal commit verdict = Inr ()"
      "require_exact_protected_controls ov (decision_head au) (hd_new_head up) = Inr ()"
    unfolding authorize_decision_def bindE_eq_Inr by auto
  show "decision_reviewed ov au up verdict"
    using reviewer_ok [OF load(5,6) checks(1)] proposal_ok [OF load(2) checks(2)] decision_commit_ok [OF load(3) checks(3)]
      feedback_ok [OF load(4) checks(4)] by (simp add: decision_reviewed_def)
  show "\<not> decided_in ov (decision_head au) (proposal_head au)" using proposal_ok [OF load(2) checks(2)] by blast
  show "verdict \<notin> {AdoptedModified, PartiallyAdopted} \<and> snapshot_of ov (hd_new_head up) = verdict_snapshot ov au verdict
      \<and> snapshot_of ov (hd_new_head up) \<noteq> None" by (rule disposition_snapshot_ok [OF load(1-3) checks(5)])
  show "\<exists>controls. protected_control_set ov (decision_head au) = Inr controls \<and> protected_control_set ov (hd_new_head up) = Inr controls"
    using checks(6) by (auto simp: require_exact_protected_controls_def bindE_eq_Inr require_that_ok)
qed

lemma ref_namespace_ok: "require_ref_namespace n expected = Inr u \<Longrightarrow> hd (split_on (CHR ''/'') n) = expected"
  by (auto simp: require_ref_namespace_def bindE_eq_Inr require_that_ok)

lemma decision_guard_ok: "decision_guard now t = Inr u \<longleftrightarrow> (\<exists>t'. now = Some t' \<and> t \<le> t')"
  by (cases now) (auto simp: decision_guard_def)

lemma publish_decision_cases:
  assumes s: "store_inv s" and ok: "publish_decision_through ov au now later up s = Inr (rc, s')"
  obtains verifier t t' where
    "hd (split_on (CHR ''/'') (decision_ref_name au)) = ''decision''" "hd (split_on (CHR ''/'') (proposal_ref_name au)) = ''proposal''"
    "new_verifier (view_get ov) (view_list_kind ov) (view_graph_limits ov) (view_scan_limits ov) = Inr verifier"
    "authorize_decision ov verifier au up = Inr (rc_disposition rc)" "now = Some t" "later = Some t'" "t \<le> t'"
    "query_head s (decision_ref_name au) = Some (decision_head au)" "query_head s (proposal_ref_name au) = Some (proposal_head au)"
    "s' = advance s (decision_update au up t)" "store_inv s'"
proof -
  from ok obtain verifier verdict t e where request: "check_decision_request au up = Inr ()"
    and v: "new_verifier (view_get ov) (view_list_kind ov) (view_graph_limits ov) (view_scan_limits ov) = Inr verifier"
    and a: "authorize_decision ov verifier au up = Inr verdict" and t: "now = Some t"
    and cas: "compare_and_swap_with_preconditions_and_guard (\<lambda>h. caught (validate_prepared_head (view_get ov) verifier h))
         (decision_guard later t) s (decision_update au up t)
         [\<lparr> pre_ref_name = proposal_ref_name au, pre_expected_head = Some (proposal_head au) \<rparr>] = Inr (e, s')"
    and verdict: "rc_disposition rc = verdict"
    unfolding publish_decision_through_def bindE_eq_Inr
    by (auto simp: bindE_eq_Inr map_err_eq_Inr read_clock_def split: if_splits option.splits)
  from cas have adm: "update_admissible (\<lambda>h. caught (validate_prepared_head (view_get ov) verifier h)) (decision_guard later t) s
      (decision_update au up t) [\<lparr> pre_ref_name = proposal_ref_name au, pre_expected_head = Some (proposal_head au) \<rparr>]"
    and room: "sequence s < i64_max" and s': "s' = advance s (decision_update au up t)"
    unfolding cas_exact [OF s] by auto
  from adm have valid: "update_valid (decision_update au up t)" and live: "query_head s (decision_ref_name au) = Some (decision_head au)"
      "query_head s (proposal_ref_name au) = Some (proposal_head au)" and guard: "decision_guard later t = Inr ()"
    by (auto simp: update_admissible_def decision_update_def)
  from guard obtain t' where "later = Some t'" "t \<le> t'" by (auto simp: decision_guard_ok)
  moreover have "store_inv s'" using advance_inv [OF s valid room] s' by simp
  ultimately show ?thesis
    using that request ref_namespace_ok v a t live s' verdict unfolding check_decision_request_def bindE_eq_Inr by blast
qed

end
