(* ===== verification/Authorization_Sample.thy ===== *)
theory Authorization_Sample
  imports Authorization_Outputs Human_Decision
begin

text \<open>
  A project with a human principal and an agent, over which the checks are evaluated: the base Commit on
  \<open>decision/main\<close> holds the Actor, Grant and Policy records, the agent's proposal adds its Activity and one
  analysis result, and the human adopts it unchanged. Object identifiers stay symbolic during evaluation:
  the rules below say how they compare and parse.
\<close>

section \<open>Identifiers\<close>

definition oid_at :: "object_kind \<Rightarrow> char \<Rightarrow> str" where
  "oid_at kind c = format_oid kind (replicate 64 c)"

lemma oid_at_eq [simp]: "oid_at k c = oid_at k' c' \<longleftrightarrow> k = k' \<and> c = c'"
  by (cases k; cases k') (auto simp: oid_at_def format_oid_def oid_infix_def)

lemma parse_oid_at [simp]: "is_lower_hex c \<Longrightarrow> parse_oid (oid_at k c) = Inr k"
  by (simp add: oid_at_def parse_format_oid is_digest_def list_all_iff)

lemma target_bytes_at [simp]: "is_lower_hex c \<Longrightarrow> dynamic_target_bytes (oid_at k c) = 0"
  by (simp add: dynamic_target_bytes_eq is_ok_iff)

lemma list_le_append: "xs @ ys \<le> xs @ zs \<longleftrightarrow> ys \<le> (zs :: char list)"
  by (induction xs) auto

lemma replicate_le: "n > 0 \<Longrightarrow> replicate n c \<le> replicate n d \<longleftrightarrow> c \<le> (d :: char)"
proof (induction n)
  case (Suc n)
  then show ?case by (cases n) auto
qed simp

lemma oid_at_le: "oid_at k c \<le> oid_at k' c' \<longleftrightarrow> (if k = k' then c \<le> c' else kind_prefix k \<le> kind_prefix k')"
proof (cases "k = k'")
  case True
  then show ?thesis by (simp add: oid_at_def format_oid_def list_le_append replicate_le)
next
  case False
  then show ?thesis by (cases k; cases k') (simp_all add: oid_at_def format_oid_def)
qed

lemma hex_digits: "list_all is_lower_hex ''0123456789abc''"
  by code_simp

lemma hex_digit [simp]: "is_lower_hex (CHR ''0'')" "is_lower_hex (CHR ''1'')" "is_lower_hex (CHR ''2'')" "is_lower_hex (CHR ''3'')"
  "is_lower_hex (CHR ''4'')" "is_lower_hex (CHR ''5'')" "is_lower_hex (CHR ''6'')" "is_lower_hex (CHR ''7'')" "is_lower_hex (CHR ''8'')"
  "is_lower_hex (CHR ''9'')" "is_lower_hex (CHR ''a'')" "is_lower_hex (CHR ''b'')" "is_lower_hex (CHR ''c'')"
  using hex_digits by simp_all

section \<open>Objects\<close>

abbreviation principal_oid :: str where "principal_oid \<equiv> oid_at Record (CHR ''0'')"
abbreviation agent_oid :: str where "agent_oid \<equiv> oid_at Record (CHR ''1'')"
abbreviation grant_oid :: str where "grant_oid \<equiv> oid_at Record (CHR ''2'')"
abbreviation policy_oid :: str where "policy_oid \<equiv> oid_at Record (CHR ''3'')"
abbreviation base_tree :: str where "base_tree \<equiv> oid_at Tree (CHR ''4'')"
abbreviation base_oid :: str where "base_oid \<equiv> oid_at Commit (CHR ''5'')"
abbreviation pack_oid :: str where "pack_oid \<equiv> oid_at Record (CHR ''6'')"
abbreviation result_oid :: str where "result_oid \<equiv> oid_at Record (CHR ''7'')"
abbreviation run_oid :: str where "run_oid \<equiv> oid_at Record (CHR ''8'')"
abbreviation next_tree :: str where "next_tree \<equiv> oid_at Tree (CHR ''9'')"
abbreviation next_oid :: str where "next_oid \<equiv> oid_at Commit (CHR ''a'')"
abbreviation feedback_oid :: str where "feedback_oid \<equiv> oid_at Record (CHR ''b'')"
abbreviation verdict_oid :: str where "verdict_oid \<equiv> oid_at Commit (CHR ''c'')"

definition record_fields :: "str \<Rightarrow> str \<Rightarrow> (str \<times> json) list \<Rightarrow> (str \<times> json) list" where
  "record_fields record_type asserted_by payload =
     [(''object_type'', String ''record''), (''record_type'', String record_type), (''asserted_by'', String asserted_by),
      (''payload'', Object payload)]"

definition tree_of :: "(str \<times> str) list \<Rightarrow> json" where
  "tree_of names = Object [(''object_type'', String ''tree''), (''entries'', Object (map (\<lambda>(n, oid).
     (n, Object [(''entry_kind'', String ''record''), (''oid'', String oid)])) names))]"

definition commit_of :: "str \<Rightarrow> str \<Rightarrow> str \<Rightarrow> str list \<Rightarrow> str list \<Rightarrow> json" where
  "commit_of kind author tree parents transitions =
     Object [(''object_type'', String ''commit''), (''commit_kind'', String kind), (''author_ref'', String author),
       (''snapshot'', String tree), (''parents'', Array (map String parents)),
       (''transition_refs'', Array (map String transitions)), (''bound_declaration_refs'', Array [])]"

definition sample_caps :: json where
  "sample_caps = Array [String ''read_context'', String ''analyze'', String ''propose_branch'']"

definition principal_record :: json where
  "principal_record = Object ((''entity_id'', String ''human-1'') # record_fields ''actor'' ''human-1'' [(''actor_kind'', String ''human'')])"

definition agent_record :: json where
  "agent_record = Object ((''entity_id'', String ''agent-1'') # record_fields ''actor'' ''human-1''
     [(''actor_kind'', String ''ai_agent''), (''ai_profile'', Object [(''capabilities'', sample_caps)])])"

definition grant_record :: json where
  "grant_record = Object ((''recorded_at'', String ''2026-01-01T00:00:00.000000000Z'') # record_fields ''delegation_grant'' ''human-1''
     [(''delegate_ref'', String ''agent-1''), (''principal_ref'', String ''human-1''), (''project_ref'', String ''p''),
      (''data_classes'', Array [String ''public'']), (''resource_selectors'', Array [String ''project/**'']),
      (''writable_ref_prefixes'', Array [String ''proposal/'']), (''capabilities'', sample_caps),
      (''required_human_gates'', Array [String ''before_decision_ref'']),
      (''expires_at'', String ''2026-01-02T00:00:00.000000000Z''), (''max_output_bytes'', Integer 50)])"

definition allow_rule :: "str \<Rightarrow> str \<Rightarrow> json" where
  "allow_rule action selector = Object [(''action'', String action), (''resource_selector'', String selector), (''effect'', String ''allow'')]"

definition policy_record :: json where
  "policy_record = Object (record_fields ''policy'' ''human-1'' [(''scope_refs'', Array [String ''p'']), (''default_effect'', String ''deny''),
     (''rules'', Array [allow_rule ''read'' ''project/p'', allow_rule ''analyze'' ''project/p'', allow_rule ''propose'' ''proposal/**'',
        Object [(''action'', String ''publish''), (''resource_selector'', String ''decision/**''),
          (''effect'', String ''require_human_gate''), (''human_gate'', String ''before_decision_ref'')]])])"

definition pack_record :: json where
  "pack_record = Object (record_fields ''context_pack'' ''human-1''
     [(''delegation_grant_ref'', String grant_oid), (''policy_snapshot_ref'', String policy_oid),
      (''base_commit'', String base_oid), (''expected_ref_head'', String base_oid),
      (''base_ref_name'', String ''decision/main''), (''selected_context_refs'', Array [String base_oid]),
      (''data_classification'', String ''public'')])"

definition result_record :: json where
  "result_record = Object (record_fields ''analysis_result'' ''agent-1'' [])"

definition run_record :: json where
  "run_record = Object (record_fields ''activity'' ''agent-1''
     [(''activity_kind'', String ''ai_run''), (''side_effect_class'', String ''none''),
      (''actor_refs'', Array [Object [(''role'', String ''agent''), (''actor_ref'', String ''agent-1'')],
         Object [(''role'', String ''responsible_principal''), (''actor_ref'', String ''human-1'')]]),
      (''input_refs'', Array [Object [(''role'', String ''context''), (''oid'', String pack_oid)]]),
      (''output_refs'', Array [Object [(''role'', String ''result''), (''oid'', String result_oid)]]),
      (''ai_run'', Object [(''status'', String ''proposal_ready''), (''agent_ref'', String ''agent-1''),
         (''responsible_principal_ref'', String ''human-1''), (''context_pack_ref'', String pack_oid),
         (''delegation_grant_ref'', String grant_oid), (''requested_capabilities'', sample_caps),
         (''required_human_gates'', Array [String ''before_decision_ref''])])])"

definition feedback_record :: json where
  "feedback_record = Object ((''origin'', String ''self_declared'') # record_fields ''decision_feedback'' ''human-1''
     [(''proposal_ref'', String next_oid), (''disposition'', String ''adopted_unchanged'')])"

definition sample_object_at :: "str \<Rightarrow> (object_kind \<times> json) option" where
  "sample_object_at = map_of
     [(principal_oid, Record, principal_record), (agent_oid, Record, agent_record), (grant_oid, Record, grant_record),
      (policy_oid, Record, policy_record),
      (base_tree, Tree, tree_of [(''a'', principal_oid), (''b'', agent_oid), (''c'', grant_oid), (''d'', policy_oid)]),
      (base_oid, Commit, commit_of ''checkpoint'' ''human-1'' base_tree [] []),
      (pack_oid, Record, pack_record), (result_oid, Record, result_record), (run_oid, Record, run_record),
      (next_tree, Tree, tree_of [(''a'', principal_oid), (''b'', agent_oid), (''c'', grant_oid), (''d'', policy_oid),
         (''e'', result_oid), (''f'', run_oid)]),
      (next_oid, Commit, commit_of ''checkpoint'' ''agent-1'' next_tree [base_oid] [run_oid]),
      (feedback_oid, Record, feedback_record),
      (verdict_oid, Commit, commit_of ''decision'' ''human-1'' next_tree [base_oid] [feedback_oid])]"

definition sample_view :: object_view where
  "sample_view = \<lparr>
     view_get = (\<lambda>oid. case sample_object_at oid of
        Some (kind, v) \<Rightarrow> Inr (Some \<lparr> info = \<lparr> info_oid = oid, info_kind = kind, info_byte_len = 10 \<rparr>, structured = Some v \<rparr>)
      | None \<Rightarrow> (case parse_oid oid of Inl e \<Rightarrow> fails (Core e) | Inr kind \<Rightarrow> Inr None)),
     view_list_kind = (\<lambda>kind m. Inr []), view_validate = (\<lambda>_. Inr ()),
     view_graph_limits = default_graph_limits, view_scan_limits = default_tombstone_scan_limits \<rparr>"

section \<open>Evaluation\<close>

text \<open>Arguments first: a binder is entered only with its value.\<close>

lemma bindE_weak_cong: "m = m' \<Longrightarrow> bindE m f = bindE m' f" by simp

lemmas eval_cong = let_weak_cong bindE_weak_cong

lemma collect_short [simp]:
  assumes "length t < 40" shows "collect_oid_string p src rt eid t x = x"
proof -
  have "parse_oid t \<noteq> Inr k" for k using assms by (auto elim!: parse_oid_cases simp: format_oid_def is_digest_def)
  then show ?thesis by (cases "parse_oid t") (auto simp: collect_oid_string_def)
qed

lemma collect_at:
  assumes "is_lower_hex c" "rt \<noteq> ''tombstone''" "pointer \<noteq> ''/supersedes''"
  shows "collect_oid_string pointer src rt eid (oid_at k c) x =
    push 0 (length pointer) (constraint_len (record_constraint_for rt pointer))
      \<lparr> ref_target = oid_at k c, ref_expected_kind = (if record_constraint_for rt pointer \<noteq> None then Record else k),
        ref_role = RecordReference pointer, ref_constraint = record_constraint_for rt pointer \<rparr> x"
  using assms by (simp add: collect_oid_string_def Let_def)

lemma pointer_chars:
  assumes "list_all (\<lambda>c. c \<noteq> CHR ''~'' \<and> c \<noteq> CHR ''/'' \<and> is_ascii c) k" "length p + length k \<le> n" "n \<le> usize_max"
  shows "append_pointer_chars n p (map byte_val k) = Some (p @ k)"
  using assms
proof (induction k arbitrary: p)
  case (Cons c k)
  have "c \<noteq> CHR ''~''" "c \<noteq> CHR ''/''" "byte_val c < 0x80" using Cons.prems by (auto simp: is_ascii_def)
  moreover have inj: "byte_val c = byte_val d \<longleftrightarrow> c = d" for d by simp
  have "byte_val c \<noteq> 126" "byte_val c \<noteq> 47" using inj [of "CHR ''~''"] inj [of "CHR ''/''"] calculation by simp_all
  ultimately have "pointer_escape (byte_val c) = [c]" using ascii_scalar [of c] by (simp add: pointer_escape_def)
  then show ?case using Cons by (simp add: checked_add_def)
qed simp

lemma chars_ascii:
  assumes "list_all is_ascii k" shows "chars k = map byte_val k"
proof -
  have "utf8_text (map byte_val k) = k" using assms by (induction k) (simp_all add: is_ascii_def ascii_scalar)
  moreover have "list_all is_scalar (map byte_val k)" using assms by (simp add: list_all_iff is_ascii_def ascii_scalar)
  ultimately show ?thesis using chars_text by metis
qed

lemma pointer_key [simp]:
  assumes "list_all (\<lambda>c. c \<noteq> CHR ''~'' \<and> c \<noteq> CHR ''/'' \<and> is_ascii c) k" "length p + 1 + length k \<le> n" "n \<le> usize_max"
  shows "append_pointer_key p k n = Some (p @ ''/'' @ k)"
proof -
  have "list_all is_ascii k" using assms(1) by (simp add: list_all_iff)
  then show ?thesis using pointer_chars [OF assms(1), of "p @ ''/''" n] assms(2,3)
    by (simp add: append_pointer_key_def chars_ascii checked_add_def)
qed

lemma pointer_index: "nat_to_str 0 = ''0''" "nat_to_str (Suc 0) = ''1''" "nat_to_str 1 = ''1''" "nat_to_str 2 = ''2''"
  "nat_to_str (Suc (Suc 0)) = ''2''" "nat_to_str 3 = ''3''" "nat_to_str (Suc (Suc (Suc 0))) = ''3''"
  by code_simp+

lemmas collect_eval = extract_references_def extract_record_references_def new_collector_def is_exceeded_def push_def try_push_def
  reference_charge_def checked_mul_def checked_add_def Let_def str_field_def collect_record_oid_strings.simps collect_at record_constraint_for_def
  append_pointer_index_def usize_max_def pointer_index record_fields_def sample_caps_def is_ascii_def

definition record_object :: "str \<Rightarrow> json \<Rightarrow> verified_object" where
  "record_object oid v = \<lparr> info = \<lparr> info_oid = oid, info_kind = Record, info_byte_len = 10 \<rparr>, structured = Some v \<rparr>"

lemma record_object_simps [simp]:
  "info (record_object oid v) = \<lparr> info_oid = oid, info_kind = Record, info_byte_len = 10 \<rparr>" "structured (record_object oid v) = Some v"
  by (simp_all add: record_object_def)

lemma extract_plain:
  assumes "v \<in> {principal_record, agent_record, grant_record, policy_record, result_record}"
  shows "extract_references (record_object oid v) iss e b 67108864 = (new_collector e b 67108864, iss)"
  using assms
  by (auto simp: principal_record_def agent_record_def grant_record_def policy_record_def result_record_def allow_rule_def collect_eval
      cong: eval_cong)

definition pointer_at :: "nat \<Rightarrow> str" where
  "pointer_at n = [''/payload/delegation_grant_ref'', ''/payload/policy_snapshot_ref'', ''/payload/base_commit'',
     ''/payload/expected_ref_head'', ''/payload/selected_context_refs/0'', ''/payload/input_refs/0/oid'',
     ''/payload/output_refs/0/oid'', ''/payload/ai_run/context_pack_ref'', ''/payload/ai_run/delegation_grant_ref'',
     ''/payload/proposal_ref''] ! n"

definition reference_at :: "str \<Rightarrow> object_kind \<Rightarrow> nat \<Rightarrow> record_constraint option \<Rightarrow> pending_reference" where
  "reference_at target kind n constraint =
     \<lparr> ref_target = target, ref_expected_kind = kind, ref_role = RecordReference (pointer_at n), ref_constraint = constraint \<rparr>"

lemma extract_pack:
  assumes "10 \<le> e" "1000 \<le> b"
  shows "extract_references (record_object oid pack_record) iss e b 67108864
    = ((new_collector e b 67108864)\<lparr> charged_bytes := 405, references :=
         [reference_at grant_oid Record 0 (Some (RecordType ''delegation_grant'')),
          reference_at policy_oid Record 1 (Some (RecordType ''policy'')),
          reference_at base_oid Commit 2 None, reference_at base_oid Commit 3 None, reference_at base_oid Commit 4 None] \<rparr>, iss)"
  using assms by (simp add: pack_record_def reference_at_def pointer_at_def collect_eval cong: eval_cong)

lemma extract_run:
  assumes "10 \<le> e" "1000 \<le> b"
  shows "extract_references (record_object oid run_record) iss e b 67108864
    = ((new_collector e b 67108864)\<lparr> charged_bytes := 357, references :=
         [reference_at pack_oid Record 5 None, reference_at result_oid Record 6 None,
          reference_at pack_oid Record 7 (Some (RecordType ''context_pack'')),
          reference_at grant_oid Record 8 (Some (RecordType ''delegation_grant''))] \<rparr>, iss)"
  using assms by (simp add: run_record_def reference_at_def pointer_at_def collect_eval cong: eval_cong)

lemma extract_feedback:
  assumes "10 \<le> e" "1000 \<le> b"
  shows "extract_references (record_object oid feedback_record) iss e b 67108864
    = ((new_collector e b 67108864)\<lparr> charged_bytes := 63, references := [reference_at next_oid Commit 9 None] \<rparr>, iss)"
  using assms by (simp add: feedback_record_def reference_at_def pointer_at_def collect_eval cong: eval_cong)

lemma extract_graph:
  "obj_kind ob = Commit \<Longrightarrow> extract_references ob iss e b p = extract_commit_references ob (new_collector e b p, iss)"
  "obj_kind ob = Tree \<Longrightarrow> extract_references ob iss e b p = extract_tree_references ob (new_collector e b p, iss)"
  by (simp_all add: extract_references_def)

lemma sample_types [simp]:
  "str_field principal_record ''record_type'' = Some ''actor''" "str_field agent_record ''record_type'' = Some ''actor''"
  "str_field grant_record ''record_type'' = Some ''delegation_grant''" "str_field policy_record ''record_type'' = Some ''policy''"
  "str_field pack_record ''record_type'' = Some ''context_pack''" "str_field run_record ''record_type'' = Some ''activity''"
  "str_field result_record ''record_type'' = Some ''analysis_result''" "str_field feedback_record ''record_type'' = Some ''decision_feedback''"
  by (simp_all add: str_field_def record_fields_def principal_record_def agent_record_def grant_record_def policy_record_def
      result_record_def pack_record_def run_record_def feedback_record_def)

definition graph_object :: "str \<Rightarrow> object_kind \<Rightarrow> json \<Rightarrow> verified_object" where
  "graph_object oid kind v = \<lparr> info = \<lparr> info_oid = oid, info_kind = kind, info_byte_len = 10 \<rparr>, structured = Some v \<rparr>"

lemma graph_object_simps [simp]:
  "info (graph_object oid kind v) = \<lparr> info_oid = oid, info_kind = kind, info_byte_len = 10 \<rparr>" "structured (graph_object oid kind v) = Some v"
  by (simp_all add: graph_object_def)

definition base_commit :: json where
  "base_commit = commit_of ''checkpoint'' ''human-1'' base_tree [] []"

definition next_commit :: json where
  "next_commit = commit_of ''checkpoint'' ''agent-1'' next_tree [base_oid] [run_oid]"

definition verdict_commit :: json where
  "verdict_commit = commit_of ''decision'' ''human-1'' next_tree [base_oid] [feedback_oid]"

definition base_tree_object :: json where
  "base_tree_object = tree_of [(''a'', principal_oid), (''b'', agent_oid), (''c'', grant_oid), (''d'', policy_oid)]"

definition next_tree_object :: json where
  "next_tree_object = tree_of [(''a'', principal_oid), (''b'', agent_oid), (''c'', grant_oid), (''d'', policy_oid),
     (''e'', result_oid), (''f'', run_oid)]"

lemma sample_get [simp]:
  "view_get sample_view principal_oid = Inr (Some (record_object principal_oid principal_record))"
  "view_get sample_view agent_oid = Inr (Some (record_object agent_oid agent_record))"
  "view_get sample_view grant_oid = Inr (Some (record_object grant_oid grant_record))"
  "view_get sample_view policy_oid = Inr (Some (record_object policy_oid policy_record))"
  "view_get sample_view pack_oid = Inr (Some (record_object pack_oid pack_record))"
  "view_get sample_view result_oid = Inr (Some (record_object result_oid result_record))"
  "view_get sample_view run_oid = Inr (Some (record_object run_oid run_record))"
  "view_get sample_view feedback_oid = Inr (Some (record_object feedback_oid feedback_record))"
  "view_get sample_view base_oid = Inr (Some (graph_object base_oid Commit base_commit))"
  "view_get sample_view next_oid = Inr (Some (graph_object next_oid Commit next_commit))"
  "view_get sample_view verdict_oid = Inr (Some (graph_object verdict_oid Commit verdict_commit))"
  "view_get sample_view base_tree = Inr (Some (graph_object base_tree Tree base_tree_object))"
  "view_get sample_view next_tree = Inr (Some (graph_object next_tree Tree next_tree_object))"
  by (simp_all add: sample_view_def sample_object_at_def record_object_def graph_object_def base_commit_def next_commit_def
      verdict_commit_def base_tree_object_def next_tree_object_def)

lemma extract_commits:
  assumes "10 \<le> e" "1000 \<le> b"
  shows "extract_references (graph_object base_oid Commit base_commit) iss e b p
      = ((new_collector e b p)\<lparr> references := [\<lparr> ref_target = base_tree, ref_expected_kind = Tree, ref_role = CommitSnapshot, ref_constraint = None \<rparr>] \<rparr>, iss)"
    and "extract_references (graph_object next_oid Commit next_commit) iss e b p
      = ((new_collector e b p)\<lparr> references := [\<lparr> ref_target = base_oid, ref_expected_kind = Commit, ref_role = CommitParent 0, ref_constraint = None \<rparr>,
          \<lparr> ref_target = next_tree, ref_expected_kind = Tree, ref_role = CommitSnapshot, ref_constraint = None \<rparr>,
          \<lparr> ref_target = run_oid, ref_expected_kind = Record, ref_role = CommitTransition 0, ref_constraint = None \<rparr>] \<rparr>, iss)"
    and "extract_references (graph_object verdict_oid Commit verdict_commit) iss e b p
      = ((new_collector e b p)\<lparr> references := [\<lparr> ref_target = base_oid, ref_expected_kind = Commit, ref_role = CommitParent 0, ref_constraint = None \<rparr>,
          \<lparr> ref_target = next_tree, ref_expected_kind = Tree, ref_role = CommitSnapshot, ref_constraint = None \<rparr>,
          \<lparr> ref_target = feedback_oid, ref_expected_kind = Record, ref_role = CommitTransition 0, ref_constraint = None \<rparr>] \<rparr>, iss)"
  using assms
  by (simp_all add: extract_graph extract_commit_references_def append_array_references_def new_collector_def is_exceeded_def push_def
      try_push_def reference_charge_def checked_mul_def checked_add_def usize_max_def Let_def base_commit_def next_commit_def verdict_commit_def
      commit_of_def cong: eval_cong)

definition entry_at :: "str \<Rightarrow> str \<Rightarrow> pending_reference" where
  "entry_at segment oid = \<lparr> ref_target = oid, ref_expected_kind = Record, ref_role = TreeEntry segment, ref_constraint = None \<rparr>"

lemma extract_trees:
  assumes "10 \<le> e" "1000 \<le> b"
  shows "extract_references (graph_object base_tree Tree base_tree_object) iss e b p
      = ((new_collector e b p)\<lparr> charged_bytes := 12, references :=
          [entry_at ''a'' principal_oid, entry_at ''b'' agent_oid, entry_at ''c'' grant_oid, entry_at ''d'' policy_oid] \<rparr>, iss)"
    and "extract_references (graph_object next_tree Tree next_tree_object) iss e b p
      = ((new_collector e b p)\<lparr> charged_bytes := 18, references :=
          [entry_at ''a'' principal_oid, entry_at ''b'' agent_oid, entry_at ''c'' grant_oid, entry_at ''d'' policy_oid,
           entry_at ''e'' result_oid, entry_at ''f'' run_oid] \<rparr>, iss)"
  using assms
  by (simp_all add: extract_graph extract_tree_references_def new_collector_def is_exceeded_def push_def entry_at_def
      try_push_def reference_charge_def checked_mul_def checked_add_def usize_max_def Let_def base_tree_object_def next_tree_object_def
      tree_of_def tree_entry_kind_def is_portable_segment_def kind_of_prefix_def cong: eval_cong)

lemma walk_Nil: "stack w = [] \<Longrightarrow> walk get bounds cat w = Inr (report w)"
  by (subst walk.simps) simp

lemma walk_Cons:
  "stack w = item # rest \<Longrightarrow> walk get bounds cat w =
    bindE (walk_step get bounds cat item (w\<lparr> stack := rest \<rparr>)) (\<lambda>out. case out of Break w' \<Rightarrow> Inr (report w') | Continue w' \<Rightarrow> walk get bounds cat w')"
  by (subst walk.simps) simp

lemmas walk_eval = walk_Nil walk_Cons start_walk_def enter_object_def visit_new_def visit_present_def expand_object_def
  extract_plain extract_pack extract_run extract_feedback extract_commits extract_trees reference_at_def entry_at_def
  new_collector_def is_exceeded_def checked_add_def Let_def follow_reference_def set_issues_def note_semantics_def put_node_def exit_object_def
  record_semantics_for_def record_constraint_issue_def or_missing_def MAX_GRAPH_REFERENCE_BYTES_def usize_max_def default_graph_limits_def
  visit_active_def

definition sample_verifier :: prepared_verifier where
  "sample_verifier = from_catalog default_graph_limits (empty_catalog\<lparr> cat_limits := Some default_tombstone_scan_limits \<rparr>)"

lemma sample_new_verifier:
  "new_verifier (view_get sample_view) (view_list_kind sample_view) (view_graph_limits sample_view) (view_scan_limits sample_view)
    = Inr sample_verifier"
  by (simp add: sample_view_def sample_verifier_def new_verifier_def validate_tombstone_scan_limits_def collect_tombstones_bounded_def
      bounded_catalog_def collect_tombstones_from_oids_def default_tombstone_scan_limits_def)

lemmas closure_eval = walk_eval verify_uncached_def verify_closure_with_tombstones_def sample_verifier_def from_catalog_def is_complete_def

lemmas head_eval = closure_eval validate_prepared_head_def as_validation_def validate_closure_report_def limit_reached_def

lemma sample_base_valid: "validate_prepared_head (view_get sample_view) sample_verifier base_oid = Inr ()"
  by (simp add: head_eval cong: eval_cong)

lemma sample_next_valid: "validate_prepared_head (view_get sample_view) sample_verifier next_oid = Inr ()"
  by (simp add: head_eval cong: eval_cong)

lemma sample_verdict_valid: "validate_prepared_head (view_get sample_view) sample_verifier verdict_oid = Inr ()"
  by (simp add: head_eval cong: eval_cong)

section \<open>Snapshots\<close>

lemma snapshot_Nil: "sn_pending sn = [] \<Longrightarrow> snapshot_loop ov sn = Inr (sort (sn_objects sn))"
  by (subst snapshot_loop.simps) simp

lemma snapshot_Cons:
  "sn_pending sn = item # rest \<Longrightarrow> snapshot_loop ov sn =
    bindE (snapshot_step ov item (sn\<lparr> sn_pending := rest \<rparr>)) (\<lambda>sn'. snapshot_loop ov sn')"
  by (subst snapshot_loop.simps) simp

lemma sample_view_limits [simp]:
  "view_graph_limits sample_view = default_graph_limits" "view_validate sample_view v = Inr ()" "view_list_kind sample_view = (\<lambda>kind m. Inr [])"
  by (simp_all add: sample_view_def)

lemmas load_eval = load_record_def load_structured_def structured_body_def get_present_def kind_of_oid_def require_string_def require_object_def
  require_array_def require_array_contains_def require_equal_def require_that_def get_str_def Let_def

lemmas snapshot_eval = snapshot_Nil snapshot_Cons snapshot_object_set_def snapshot_step_def snapshot_entry_def load_eval usize_max_def
  default_graph_limits_def List.insert_def oid_at_le commit_of_def tree_of_def base_commit_def next_commit_def verdict_commit_def
  base_tree_object_def next_tree_object_def

lemma sample_snapshots:
  "snapshot_object_set sample_view base_oid = Inr [principal_oid, agent_oid, grant_oid, policy_oid, base_tree]"
  "snapshot_object_set sample_view next_oid = Inr [principal_oid, agent_oid, grant_oid, policy_oid, result_oid, run_oid, next_tree]"
  "snapshot_object_set sample_view verdict_oid = Inr [principal_oid, agent_oid, grant_oid, policy_oid, result_oid, run_oid, next_tree]"
  by (simp_all add: snapshot_eval cong: eval_cong)

section \<open>The binding of the proposal\<close>

definition sample_binding :: candidate_binding where
  "sample_binding = \<lparr> cb_candidate_commit = next_oid, cb_base_commit = base_oid, cb_activity_oid = run_oid,
     cb_context_pack_oid = pack_oid, cb_actor_id = ''agent-1'', cb_context_payload = the (json_get pack_record ''payload''),
     cb_activity_payload = the (json_get run_record ''payload''), cb_grant_payload = the (json_get grant_record ''payload'') \<rparr>"

text \<open>A record is opened only where one of its fields is read.\<close>

lemma sample_field:
  "v = w \<Longrightarrow> json_get v k = json_get w k"
  by simp

lemmas sample_fields = principal_record_def [THEN sample_field] agent_record_def [THEN sample_field] grant_record_def [THEN sample_field]
  policy_record_def [THEN sample_field] pack_record_def [THEN sample_field] run_record_def [THEN sample_field]
  result_record_def [THEN sample_field] feedback_record_def [THEN sample_field] base_commit_def [THEN sample_field]
  next_commit_def [THEN sample_field] verdict_commit_def [THEN sample_field]

lemmas record_eval = sample_fields record_fields_def sample_caps_def commit_of_def

lemma sample_verifier_made:
  "new_verifier (view_get sample_view) (\<lambda>kind m. Inr []) \<lparr> max_objects = 100000, max_edges = 1000000, max_depth = 512 \<rparr>
    (view_scan_limits sample_view) = Inr sample_verifier"
  using sample_new_verifier by (simp add: default_graph_limits_def)

lemmas binding_eval = require_candidate_output_binding_def sample_verifier_made sample_snapshots load_eval
  oid_fields_def btree_set_def close_under_def linked_def oid_strings_def oid_at_le
  check_input_object_def node_kind_def snapshot_links_def unbound_def distinct_first_def check_snapshot_declared_def check_closure_declared_def
  is_tree_node_def count_tree_def count_bytes_def count_output_def check_output_record_def require_capability_def role_capability_def
  within_output_limit_def u64_max_def less_eq_ai_capability_def

lemma sample_binding_ok: "require_candidate_output_binding sample_view sample_binding = Inr [ReadContext, Analyze, ProposeBranch]"
  by (simp add: sample_binding_def binding_eval closure_eval record_eval cong: eval_cong)

end
