(* ===== verification/Publication_Sample.thy ===== *)
theory Publication_Sample
  imports Authorization_Sample
begin

text \<open>
  The sample project, continued: the agent publishes its proposal on \<open>proposal/one\<close>, and the human publishes
  the decision that adopts it on \<open>decision/main\<close>.
\<close>

section \<open>Records and their payloads\<close>

definition payload_of :: "json \<Rightarrow> json" where
  "payload_of v = the (json_get v ''payload'')"

text \<open>A record or payload is opened only where one of its fields is read.\<close>

lemma record_field: "v = w \<Longrightarrow> k \<noteq> ''payload'' \<Longrightarrow> json_get v k = json_get w k"
  by simp

lemma payload_field: "v = w \<Longrightarrow> json_get (payload_of v) k = json_get (the (json_get w ''payload'')) k"
  by (simp add: payload_of_def)

lemmas open_records = principal_record_def [THEN record_field] agent_record_def [THEN record_field] grant_record_def [THEN record_field]
  policy_record_def [THEN record_field] pack_record_def [THEN record_field] run_record_def [THEN record_field]
  result_record_def [THEN record_field] feedback_record_def [THEN record_field] base_commit_def [THEN record_field]
  next_commit_def [THEN record_field] verdict_commit_def [THEN record_field]

lemmas open_payloads = principal_record_def [THEN payload_field] agent_record_def [THEN payload_field] grant_record_def [THEN payload_field]
  policy_record_def [THEN payload_field] pack_record_def [THEN payload_field] run_record_def [THEN payload_field]
  feedback_record_def [THEN payload_field]

lemma payload_eq [simp]:
  "json_get principal_record ''payload'' = Some (payload_of principal_record)" "json_get agent_record ''payload'' = Some (payload_of agent_record)"
  "json_get grant_record ''payload'' = Some (payload_of grant_record)" "json_get policy_record ''payload'' = Some (payload_of policy_record)"
  "json_get pack_record ''payload'' = Some (payload_of pack_record)" "json_get run_record ''payload'' = Some (payload_of run_record)"
  "json_get feedback_record ''payload'' = Some (payload_of feedback_record)"
  by (simp_all add: payload_of_def record_eval)

lemma payload_object [simp]:
  "as_object (payload_of principal_record) \<noteq> None" "as_object (payload_of agent_record) \<noteq> None"
  "as_object (payload_of grant_record) \<noteq> None" "as_object (payload_of policy_record) \<noteq> None"
  "as_object (payload_of pack_record) \<noteq> None" "as_object (payload_of run_record) \<noteq> None"
  "as_object (payload_of feedback_record) \<noteq> None"
  by (simp_all add: payload_of_def record_eval)

lemma sample_load [simp]:
  "load_structured sample_view principal_oid Record = Inr principal_record" "load_structured sample_view agent_oid Record = Inr agent_record"
  "load_structured sample_view grant_oid Record = Inr grant_record" "load_structured sample_view policy_oid Record = Inr policy_record"
  "load_structured sample_view pack_oid Record = Inr pack_record" "load_structured sample_view run_oid Record = Inr run_record"
  "load_structured sample_view result_oid Record = Inr result_record" "load_structured sample_view feedback_oid Record = Inr feedback_record"
  "load_structured sample_view base_oid Commit = Inr base_commit" "load_structured sample_view next_oid Commit = Inr next_commit"
  "load_structured sample_view verdict_oid Commit = Inr verdict_commit"
  by (simp_all add: load_structured_def structured_body_def get_present_def kind_of_oid_def)

lemmas field_eval = open_records open_payloads record_fields_def sample_caps_def commit_of_def load_record_def kind_of_oid_def
  require_string_def require_object_def require_array_def require_array_contains_def require_equal_def require_that_def get_str_def Let_def

section \<open>The agent's authority\<close>

definition sample_authority :: ai_execution_authority where
  "sample_authority = \<lparr> authenticated_actor_id = ''agent-1'', authorized_project_id = ''p'', authorized_principal_id = ''human-1'',
     authorized_base_ref = ''decision/main'', actor_record_oid = agent_oid,
     principal_actor_record_oid = principal_oid, context_pack_oid = pack_oid,
     authorized_capabilities = [ReadContext, Analyze, ProposeBranch],
     runtime_capabilities = [ReadContext, Analyze, ProposeBranch, RenderPreview] \<rparr>"

definition sample_now :: int where
  "sample_now = 1767260000000000000"

definition sample_target :: ai_publication_target where
  "sample_target = \<lparr> tg_ref_name = ''proposal/one'', tg_expected_head = None, tg_side_effect_class = NoSideEffect \<rparr>"

definition sample_resolved :: resolved_ai_authority where
  "sample_resolved = \<lparr> res_context_payload = payload_of pack_record, res_grant_payload = payload_of grant_record,
     res_delegation_grant_oid = grant_oid, res_policy_oid = policy_oid, res_base_ref_name = ''decision/main'',
     res_base_commit_oid = base_oid, res_target_ref_name = ''proposal/one'', res_expected_target_head = None,
     res_side_effect_class = NoSideEffect, res_exact_capabilities = [ReadContext, Analyze, ProposeBranch],
     res_grant_active_from = 1767225600000000000, res_grant_expires_at = 1767312000000000000, res_evaluated_at = sample_now \<rparr>"

lemma sample_names [simp]:
  "validate_ref_name ''proposal/one'' = Inr ()" "validate_ref_name ''decision/main'' = Inr ()"
  "require_ai_namespace ''proposal/one'' = Inr ()" "require_human_gated_base ''decision/main'' = Inr ()"
  "require_ref_namespace ''decision/main'' ''decision'' = Inr ()" "require_ref_namespace ''proposal/one'' ''proposal'' = Inr ()"
  by code_simp+

lemma sample_scope [simp]:
  "require_project_resource (payload_of grant_record) ''p'' = Inr ()" "require_writable_prefix (payload_of grant_record) ''proposal/one'' = Inr ()"
  by code_simp+

lemma sample_capabilities [simp]:
  "parse_capabilities [String ''read_context'', String ''analyze'', String ''propose_branch''] = Inr [ReadContext, Analyze, ProposeBranch]"
  "btree_set [ReadContext, Analyze, ProposeBranch] = [ReadContext, Analyze, ProposeBranch]"
  "btree_set [ReadContext, Analyze, ProposeBranch, RenderPreview] = [ReadContext, Analyze, ProposeBranch, RenderPreview]"
  by code_simp+

lemma sample_policy [simp]:
  "authorize_policy_capability policy_record ReadContext ''p'' ''proposal/one'' = Inr ()"
  "authorize_policy_capability policy_record Analyze ''p'' ''proposal/one'' = Inr ()"
  "authorize_policy_capability policy_record ProposeBranch ''p'' ''proposal/one'' = Inr ()"
  "authorize_human_publish (payload_of policy_record) ''decision/main'' = Inr ()"
  by code_simp+

lemma sample_interval [simp]:
  "canonical_timestamp_unix_nanos ''2026-01-01T00:00:00.000000000Z'' = Inr 1767225600000000000"
  "canonical_timestamp_unix_nanos ''2026-01-02T00:00:00.000000000Z'' = Inr 1767312000000000000"
  by code_simp+

lemmas presence_eval = require_present_oid_array_def require_present_def get_present_def

lemma sample_resolves: "resolve_ai_authority sample_view sample_authority (Some sample_now) sample_target = Inr sample_resolved"
  by (simp add: resolve_ai_authority_def resolve_grant_def resolve_policy_def resolve_actor_def check_principal_def resolve_base_def
      check_scope_def check_capabilities_def read_clock_def validate_commit_oid_opt_def require_base_snapshot_bindings_def sample_snapshots
      presence_eval field_eval sample_authority_def sample_target_def sample_resolved_def sample_now_def cong: eval_cong)

section \<open>The proposal is published\<close>

definition sample_request :: ai_proposal_update where
  "sample_request = \<lparr> pr_ref_name = ''proposal/one'', pr_expected_head = None, pr_new_head = next_oid,
     pr_message = None, pr_activity_oid = run_oid \<rparr>"

definition sample_refs :: ref_store where
  "sample_refs = advance empty_store \<lparr> up_ref_name = ''decision/main'', up_expected_head = None, up_new_head = base_oid,
     up_metadata = \<lparr> md_occurred_at = 0, md_actor = None, md_message = None \<rparr> \<rparr>"

definition sample_activity :: activity_claims where
  "sample_activity = \<lparr> act_payload = payload_of run_record, act_ai_run = the (json_get (payload_of run_record) ''ai_run''),
     act_side_effect = NoSideEffect, act_context_pack_oid = pack_oid, act_grant_oid = grant_oid \<rparr>"

lemma sample_binding_ok':
  "require_candidate_output_binding sample_view
     \<lparr> cb_candidate_commit = next_oid, cb_base_commit = base_oid, cb_activity_oid = run_oid, cb_context_pack_oid = pack_oid,
       cb_actor_id = ''agent-1'', cb_context_payload = payload_of pack_record, cb_activity_payload = payload_of run_record,
       cb_grant_payload = payload_of grant_record \<rparr> = Inr [ReadContext, Analyze, ProposeBranch]"
  using sample_binding_ok unfolding sample_binding_def payload_of_def .

lemma sample_activity_ok: "check_activity sample_authority run_record = Inr sample_activity"
  by (simp add: check_activity_def require_role_actor_def require_role_oid_def require_role_def side_effect_parse_def field_eval
      sample_authority_def sample_activity_def cong: eval_cong)

lemma sample_commit_ok:
  "check_candidate_commit sample_authority sample_request next_commit = Inr ()"
  "require_direct_base_parent next_commit base_oid = Inr ()"
  "require_candidate_preserves_base_snapshot_objects sample_view next_oid base_oid = Inr ()"
  "require_present_activity_references sample_view (payload_of run_record) = Inr ()"
  by (simp_all add: check_candidate_commit_def require_direct_base_parent_def require_candidate_preserves_base_snapshot_objects_def
      require_present_activity_references_def require_present_reference_array_def require_present_optional_def presence_eval
      sample_snapshots field_eval sample_authority_def sample_request_def cong: eval_cong)

lemma sample_requested_ok:
  "check_requested_capabilities (act_ai_run sample_activity) [ReadContext, Analyze, ProposeBranch] [ReadContext, Analyze, ProposeBranch]
    = Inr [ReadContext, Analyze, ProposeBranch]"
  by (simp add: check_requested_capabilities_def sample_activity_def field_eval cong: eval_cong)

lemma sample_parts [simp]:
  "authenticated_actor_id sample_authority = ''agent-1''" "authorized_base_ref sample_authority = ''decision/main''"
  "pr_ref_name sample_request = ''proposal/one''" "pr_expected_head sample_request = None" "pr_new_head sample_request = next_oid"
  "pr_activity_oid sample_request = run_oid" "pr_message sample_request = None"
  "act_side_effect sample_activity = NoSideEffect" "act_grant_oid sample_activity = grant_oid" "act_payload sample_activity = payload_of run_record"
  "act_context_pack_oid sample_activity = pack_oid" "res_delegation_grant_oid sample_resolved = grant_oid"
  "res_base_commit_oid sample_resolved = base_oid" "res_base_ref_name sample_resolved = ''decision/main''"
  "res_context_payload sample_resolved = payload_of pack_record" "res_grant_payload sample_resolved = payload_of grant_record"
  "res_exact_capabilities sample_resolved = [ReadContext, Analyze, ProposeBranch]" "res_evaluated_at sample_resolved = sample_now"
  "res_grant_active_from sample_resolved = 1767225600000000000" "res_grant_expires_at sample_resolved = 1767312000000000000"
  by (simp_all add: sample_authority_def sample_request_def sample_activity_def sample_resolved_def)

lemma sample_authorized:
  assumes "se \<in> {None, Some NoSideEffect}" "check_preflight sample_resolved pf = Inr ()"
  shows "authorize_proposal sample_view sample_verifier sample_authority (Some sample_now) sample_request se pf
    = Inr (sample_resolved, sample_activity, [ReadContext, Analyze, ProposeBranch])"
proof -
  have side: "(case se of None \<Rightarrow> act_side_effect sample_activity | Some c \<Rightarrow> c) = NoSideEffect" using assms(1) by auto
  have load: "load_record sample_view run_oid ''activity'' = Inr run_record" by (simp add: field_eval)
  show ?thesis
    by (simp add: authorize_proposal_def assms(2) side require_that_def require_equal_def sample_target_def [symmetric] Let_def
        load sample_commit_ok sample_activity_ok sample_resolves sample_next_valid sample_binding_ok' sample_requested_ok)
qed

lemma commit_oid_at [simp]: "is_lower_hex c \<Longrightarrow> validate_commit_oid (oid_at Commit c) = Inr ()"
  by (simp add: validate_commit_oid_iff oid_at_def) (metis is_digest_def length_replicate list_all_length nth_replicate)

lemma sample_refs_inv: "store_inv sample_refs"
  unfolding sample_refs_def
  by (rule advance_inv [OF empty_store_inv]) (simp_all add: update_valid_def validate_commit_oid_opt_def validate_metadata_def empty_store_def i64_max_def)

lemma sample_refs_parts [simp]:
  "query_head sample_refs n = (if n = ''decision/main'' then Some base_oid else None)" "read_only sample_refs = False" "sequence sample_refs = 1"
  by (simp_all add: sample_refs_def query_head_advance) (simp_all add: advance_def empty_store_def query_head_def find_ref_def)

lemma sample_verifier_default:
  "new_verifier (view_get sample_view) (\<lambda>kind m. Inr []) default_graph_limits (view_scan_limits sample_view) = Inr sample_verifier"
  using sample_new_verifier by simp

lemma sample_request_ok: "check_proposal_request sample_authority sample_request = Inr ()"
  by (simp add: check_proposal_request_def validate_commit_oid_opt_def require_oid_kind_def kind_of_oid_def)

lemma sample_now_range: "in_i64 sample_now"
  by (simp add: in_i64_def sample_now_def)

lemma sample_published:
  assumes "se \<in> {None, Some NoSideEffect}" "check_preflight sample_resolved pf = Inr ()"
  shows "is_ok (publish_proposal_internal sample_view sample_authority (Some sample_now) (Some (sample_now + 1)) sample_refs sample_request se pf)"
proof -
  have "compare_and_swap_with_preconditions_and_guard (\<lambda>h. caught (validate_prepared_head (view_get sample_view) sample_verifier h))
      (transaction_guard (Some (sample_now + 1)) sample_resolved) sample_refs (proposal_update sample_authority sample_request sample_now)
      [\<lparr> pre_ref_name = ''decision/main'', pre_expected_head = Some base_oid \<rparr>]
    = Inr (update_entry sample_refs (proposal_update sample_authority sample_request sample_now),
        advance sample_refs (proposal_update sample_authority sample_request sample_now))"
    unfolding cas_exact [OF sample_refs_inv]
    by (simp add: update_admissible_def update_valid_def proposal_update_def validate_commit_oid_opt_def validate_metadata_def
        check_precondition_syntax_def sample_next_valid transaction_guard_def sample_now_def i64_max_def caught_def)
  then show ?thesis
    by (simp add: publish_proposal_internal_def sample_request_ok sample_verifier_default sample_authorized [OF assms] sample_now_range)
qed

section \<open>The proposal is adopted\<close>

definition sample_review :: human_decision_authority where
  "sample_review = \<lparr> authenticated_human_id = ''human-1'', decision_project_id = ''p'', decision_ref_name = ''decision/main'',
     decision_head = base_oid, proposal_ref_name = ''proposal/one'', proposal_head = next_oid,
     human_actor_record_oid = principal_oid, policy_record_oid = policy_oid \<rparr>"

definition sample_decision :: human_decision_update where
  "sample_decision = \<lparr> hd_new_head = verdict_oid, hd_decision_feedback_oid = feedback_oid, hd_message = None \<rparr>"

definition proposed_refs :: ref_store where
  "proposed_refs = advance sample_refs (proposal_update sample_authority sample_request sample_now)"

lemma review_parts [simp]:
  "authenticated_human_id sample_review = ''human-1''" "decision_project_id sample_review = ''p''"
  "decision_ref_name sample_review = ''decision/main''" "decision_head sample_review = base_oid"
  "proposal_ref_name sample_review = ''proposal/one''" "proposal_head sample_review = next_oid"
  "human_actor_record_oid sample_review = principal_oid" "policy_record_oid sample_review = policy_oid"
  "hd_new_head sample_decision = verdict_oid" "hd_decision_feedback_oid sample_decision = feedback_oid" "hd_message sample_decision = None"
  by (simp_all add: sample_review_def sample_decision_def)

lemma sample_request_checked: "check_decision_request sample_review sample_decision = Inr ()"
  by (simp add: check_decision_request_def require_commit_oid_def require_oid_kind_def kind_of_oid_def)

lemma sample_reviewer_ok: "check_reviewer sample_view sample_review principal_record policy_record = Inr ()"
  by (simp add: check_reviewer_def require_human_actor_def require_base_authority_bindings_def sample_snapshots field_eval cong: eval_cong)

lemma ancestry_Nil: "an_pending an = [] \<Longrightarrow> ancestry_loop ov p an = Inr ()"
  by (subst ancestry_loop.simps) simp

lemma ancestry_Cons:
  "an_pending an = item # rest \<Longrightarrow> ancestry_loop ov p an =
    bindE (ancestry_step ov p item (an\<lparr> an_pending := rest \<rparr>)) (\<lambda>an'. ancestry_loop ov p an')"
  by (subst ancestry_loop.simps) simp

lemma sample_undecided: "require_proposal_not_previously_decided sample_view base_oid next_oid = Inr ()"
  by (simp add: require_proposal_not_previously_decided_def ancestry_Nil ancestry_Cons ancestry_step_def default_graph_limits_def
      field_eval cong: eval_cong)

lemma sample_controls:
  "protected_control_set sample_view base_oid = Inr [principal_oid, agent_oid, grant_oid, policy_oid]"
  "protected_control_set sample_view next_oid = Inr [principal_oid, agent_oid, grant_oid, policy_oid]"
  "protected_control_set sample_view verdict_oid = Inr [principal_oid, agent_oid, grant_oid, policy_oid]"
  by (simp_all add: protected_control_set_def sample_snapshots add_control_def is_control_type_def btree_set_def oid_at_le field_eval
      cong: eval_cong)

lemma sample_retained:
  "require_snapshot_retains_base_non_tree sample_view next_oid base_oid = Inr ()"
  "require_snapshot_retains_base_non_tree sample_view verdict_oid base_oid = Inr ()"
  by (simp_all add: require_snapshot_retains_base_non_tree_def sample_snapshots require_that_def kind_of_oid_def)

definition sample_chain :: proposal_chain where
  "sample_chain = \<lparr> ch_activity_oid = run_oid, ch_activity_payload = payload_of run_record, ch_agent_id = ''agent-1'',
     ch_context_oid = pack_oid, ch_grant_oid = grant_oid \<rparr>"

lemma chain_parts [simp]:
  "ch_activity_oid sample_chain = run_oid" "ch_activity_payload sample_chain = payload_of run_record" "ch_agent_id sample_chain = ''agent-1''"
  "ch_context_oid sample_chain = pack_oid" "ch_grant_oid sample_chain = grant_oid"
  by (simp_all add: sample_chain_def)

lemma sample_chain_ok:
  "check_proposal_activity sample_view next_commit ''human-1'' = Inr sample_chain"
  "check_proposal_context sample_view sample_review sample_chain = Inr (payload_of pack_record)"
  "check_proposal_grant sample_view sample_review sample_chain (payload_of pack_record) = Inr (payload_of grant_record)"
  by (simp_all add: check_proposal_activity_def check_proposal_context_def check_proposal_grant_def require_field_def sample_snapshots
      require_role_actor_def require_role_oid_def require_role_def presence_eval field_eval sample_chain_def [symmetric] cong: eval_cong)

lemma sample_proposal_ok: "check_proposal sample_view sample_review next_commit = Inr ()"
proof -
  have "require_ai_proposal_chain sample_view sample_review next_commit = Inr ()"
    by (simp add: require_ai_proposal_chain_def sample_chain_ok sample_commit_ok sample_binding_ok')
  then show ?thesis
    by (simp add: check_proposal_def sample_undecided sample_retained require_exact_protected_controls_def sample_controls
        require_single_parent_def field_eval cong: eval_cong)
qed

lemma sample_verdict_ok:
  "check_decision_commit sample_review sample_decision verdict_commit = Inr ()"
  "check_feedback sample_review feedback_record = Inr AdoptedUnchanged"
  "require_disposition_snapshot base_commit next_commit verdict_commit AdoptedUnchanged = Inr ()"
  by (simp_all add: check_decision_commit_def check_feedback_def require_disposition_snapshot_def require_single_parent_def
      require_exact_transition_def disposition_parse_def field_eval cong: eval_cong)

lemma sample_decision_authorized: "authorize_decision sample_view sample_verifier sample_review sample_decision = Inr AdoptedUnchanged"
proof -
  have "load_record sample_view feedback_oid ''decision_feedback'' = Inr feedback_record"
      "load_record sample_view principal_oid ''actor'' = Inr principal_record" "load_record sample_view policy_oid ''policy'' = Inr policy_record"
    by (simp_all add: field_eval)
  then show ?thesis
    by (simp add: authorize_decision_def validated_heads_def sample_base_valid sample_next_valid sample_verdict_valid sample_reviewer_ok
        sample_proposal_ok sample_verdict_ok sample_retained require_exact_protected_controls_def sample_controls require_that_def)
qed

lemma proposed_refs_inv: "store_inv proposed_refs"
  unfolding proposed_refs_def
  by (rule advance_inv [OF sample_refs_inv]) (simp_all add: update_valid_def proposal_update_def validate_commit_oid_opt_def
      validate_metadata_def i64_max_def)

lemma proposed_refs_parts [simp]:
  "query_head proposed_refs n = (if n = ''proposal/one'' then Some next_oid else query_head sample_refs n)"
  "read_only proposed_refs = False" "sequence proposed_refs = 2"
  by (simp_all add: proposed_refs_def query_head_advance proposal_update_def del: sample_refs_parts(1)) (simp_all add: advance_def)

lemma sample_decided:
  "is_ok (publish_decision_through sample_view sample_review (Some (sample_now + 2)) (Some (sample_now + 3)) sample_decision proposed_refs)"
proof -
  have range: "in_i64 (sample_now + 2)" by (simp add: in_i64_def sample_now_def)
  have "compare_and_swap_with_preconditions_and_guard (\<lambda>h. caught (validate_prepared_head (view_get sample_view) sample_verifier h))
      (decision_guard (Some (sample_now + 3)) (sample_now + 2)) proposed_refs (decision_update sample_review sample_decision (sample_now + 2))
      [\<lparr> pre_ref_name = ''proposal/one'', pre_expected_head = Some next_oid \<rparr>]
    = Inr (update_entry proposed_refs (decision_update sample_review sample_decision (sample_now + 2)),
        advance proposed_refs (decision_update sample_review sample_decision (sample_now + 2)))"
    unfolding cas_exact [OF proposed_refs_inv]
    by (simp add: update_admissible_def update_valid_def decision_update_def validate_commit_oid_opt_def validate_metadata_def
        check_precondition_syntax_def sample_verdict_valid decision_guard_def i64_max_def caught_def)
  with range show ?thesis
    by (simp add: publish_decision_through_def sample_request_checked sample_verifier_default sample_decision_authorized read_clock_def)
qed

end
