(* ===== verification/Publication_Properties.thy ===== *)
theory Publication_Properties
  imports Decision_Laws Publication_Sample
begin

text \<open>
  The properties of the two publication routes, agents to \<open>proposal/*\<close> and humans to \<open>decision/*\<close>, with the
  sample project as the witness of each.
\<close>

section \<open>Agents\<close>

text \<open>
  C2: What an agent publishes, it was allowed to publish. A successful publication writes one event on a Ref
  under \<open>proposal/\<close>, on a base that is the live head of a human-gated Ref; the candidate is the agent's own
  checkpoint on that base; a Grant that the base snapshot holds delegates the project to the agent and was in
  force at the evaluation and again inside the transaction, at a time that is no earlier; the Grant allows the
  Ref; and every effective capability is given by the runtime, the Grant, the Actor record and the Policy.
\<close>

theorem publish_requires_authority:
  assumes "store_inv s" and "publish_proposal_internal ov authority now later s request se preflight = Inr (d, s')"
  shows "\<exists>t t' grant payload base snap. now = Some t \<and> later = Some t' \<and> t \<le> t'
    \<and> hd (split_on (CHR ''/'') (pr_ref_name request)) = ''proposal''
    \<and> hd (split_on (CHR ''/'') (authorized_base_ref authority)) \<in> {''decision'', ''release''}
    \<and> query_head s (authorized_base_ref authority) = Some base
    \<and> checkpoint_by ov (authenticated_actor_id authority) base (pr_new_head request)
    \<and> delegates ov authority (dec_delegation_grant_oid d) grant payload \<and> in_force grant payload t \<and> in_force grant payload t'
    \<and> ref_writable payload (pr_ref_name request) \<and> snapshot_object_set ov base = Inr snap
    \<and> {actor_record_oid authority, principal_actor_record_oid authority, dec_delegation_grant_oid d, dec_policy_oid d} \<subseteq> set snap
    \<and> ProposeBranch \<in> set (dec_effective_capabilities d)
    \<and> set (dec_effective_capabilities d) \<subseteq> Collect (capability_given ov authority payload (dec_policy_oid d) (pr_ref_name request))
    \<and> s' = advance s (proposal_update authority request t)"
  using assms by (rule publish_internal_facts) blast

theorem publish_requires_authority_witness:
  "\<exists>d s' snap. publish_proposal_internal sample_view sample_authority (Some sample_now) (Some (sample_now + 1)) sample_refs sample_request
      None None = Inr (d, s')
    \<and> snapshot_object_set sample_view base_oid = Inr snap \<and> dec_delegation_grant_oid d \<in> set snap
    \<and> s' = advance sample_refs (proposal_update sample_authority sample_request sample_now)"
proof -
  obtain d s' where ok: "publish_proposal_internal sample_view sample_authority (Some sample_now) (Some (sample_now + 1)) sample_refs
      sample_request None None = Inr (d, s')"
    using sample_published [of None None] by (auto simp: is_ok_iff check_preflight_def)
  from publish_requires_authority [OF sample_refs_inv ok] ok show ?thesis by auto
qed



text \<open>
  C12: The Policy decides a capability by all of its rules: it is granted exactly when no rule fails, denies or
  asks for a human gate, and some rule allows it or the default does. The order of the rules is irrelevant and
  one refusal overrides every permission.
\<close>

theorem policy_refusal_overrides:
  "authorize_policy_capability policy c project ref = Inr () \<longleftrightarrow>
    (\<exists>fields rules. json_get policy ''payload'' = Some (Object fields) \<and> json_get (Object fields) ''rules'' = Some (Array rules)
      \<and> rule_effect (policy_action c) (capability_resource c project ref) ` set rules \<subseteq> {Inr None, Inr (Some Allow)}
      \<and> (Inr (Some Allow) \<in> rule_effect (policy_action c) (capability_resource c project ref) ` set rules
          \<or> get_str (Object fields) ''default_effect'' = Some ''allow''))"
  unfolding authorize_policy_iff by (auto simp: image_subset_iff image_iff eq_commute)

text \<open>
  C40: The authorization clock never runs backwards and never behind the wall clock: between two readings at
  least the monotonic time passes, whatever the wall clock did meanwhile.
\<close>

theorem clock_monotone:
  assumes "i < j" "j < length samples" "readings state samples ! i = Some t" "readings state samples ! j = Some t'"
  shows "t + int (monotonic_clock (samples ! j) - monotonic_clock (samples ! i)) \<le> t'
    \<and> monotonic_clock (samples ! i) \<le> monotonic_clock (samples ! j)
    \<and> (\<exists>w. wall_clock (samples ! j) = Some w \<and> int w \<le> t')"
  using readings_monotone [OF assms] readings_above_wall [OF assms(2,4)] by blast

theorem clock_monotone_witness:
  "readings None [\<lparr> wall_clock = Some 100, monotonic_clock = 5 \<rparr>, \<lparr> wall_clock = Some 40, monotonic_clock = 25 \<rparr>] ! 1 = Some 120
    \<and> (100 :: int) + int (25 - 5) \<le> 120"
proof -
  let ?samples = "[\<lparr> wall_clock = Some 100, monotonic_clock = 5 \<rparr>, \<lparr> wall_clock = Some 40, monotonic_clock = 25 \<rparr>]"
  have "readings None ?samples = [Some 100, Some 120]" by code_simp
  then show ?thesis using clock_monotone [of 0 1 ?samples None 100 120] by simp
qed

section \<open>Humans\<close>

text \<open>
  C3: What lands on a decision Ref was reviewed. A successful publication moves a Ref under \<open>decision/\<close> from the
  head the reviewer saw, while the proposal Ref still points at the proposal they saw; the reviewer is a human
  Actor whom the base and its Policy let publish; the new head is their decision Commit on the base and binds
  their feedback on that proposal, an agent's checkpoint on the base with declared outputs; its snapshot is the
  proposal's when the verdict adopts it and the base's otherwise; and the protected control Records, Actors,
  Policies, Grants and Tombstones, are those of the base.
\<close>

theorem decision_requires_review:
  assumes "store_inv s" and "publish_decision_through ov au now later up s = Inr (rc, s')"
  shows "\<exists>t controls. now = Some t \<and> hd (split_on (CHR ''/'') (decision_ref_name au)) = ''decision''
    \<and> query_head s (decision_ref_name au) = Some (decision_head au) \<and> query_head s (proposal_ref_name au) = Some (proposal_head au)
    \<and> decision_reviewed ov au up (rc_disposition rc) \<and> rc_disposition rc \<notin> {AdoptedModified, PartiallyAdopted}
    \<and> snapshot_of ov (hd_new_head up) = verdict_snapshot ov au (rc_disposition rc) \<and> snapshot_of ov (hd_new_head up) \<noteq> None
    \<and> protected_control_set ov (decision_head au) = Inr controls \<and> protected_control_set ov (hd_new_head up) = Inr controls
    \<and> s' = advance s (decision_update au up t)"
  using assms
proof (rule publish_decision_cases)
  fix verifier t t'
  assume "authorize_decision ov verifier au up = Inr (rc_disposition rc)"
  note facts = authorize_decision_facts [OF this]
  assume "now = Some t" "hd (split_on (CHR ''/'') (decision_ref_name au)) = ''decision''"
    "query_head s (decision_ref_name au) = Some (decision_head au)" "query_head s (proposal_ref_name au) = Some (proposal_head au)"
    "s' = advance s (decision_update au up t)"
  then show ?thesis using facts(1,3,4) by blast
qed

theorem decision_requires_review_witness:
  "\<exists>rc s'. publish_decision_through sample_view sample_review (Some (sample_now + 2)) (Some (sample_now + 3)) sample_decision proposed_refs
      = Inr (rc, s')
    \<and> decision_reviewed sample_view sample_review sample_decision (rc_disposition rc)
    \<and> s' = advance proposed_refs (decision_update sample_review sample_decision (sample_now + 2))"
proof -
  obtain rc s' where ok: "publish_decision_through sample_view sample_review (Some (sample_now + 2)) (Some (sample_now + 3)) sample_decision
      proposed_refs = Inr (rc, s')"
    using sample_decided by (auto simp: is_ok_iff)
  from decision_requires_review [OF proposed_refs_inv ok] ok show ?thesis by auto
qed

section \<open>Histories of the two routes\<close>

text \<open>
  A repository under both routes: objects are added, agents publish, humans decide. The log of decided
  proposals is kept beside the state.
\<close>

record route_state =
  rs_view :: object_view
  rs_refs :: ref_store
  rs_decided :: "(str \<times> str) list"

inductive route_step :: "route_state \<Rightarrow> route_state \<Rightarrow> bool" where
  objects: "view_extends (rs_view r) ov \<Longrightarrow> route_step r (r\<lparr> rs_view := ov \<rparr>)"
| propose: "publish_proposal_internal (rs_view r) authority now later (rs_refs r) request se preflight = Inr (d, s)
    \<Longrightarrow> route_step r (r\<lparr> rs_refs := s \<rparr>)"
| decide: "publish_decision_through (rs_view r) au now later up (rs_refs r) = Inr (rc, s)
    \<Longrightarrow> route_step r (r\<lparr> rs_refs := s, rs_decided := (decision_ref_name au, proposal_head au) # rs_decided r \<rparr>)"

inductive_cases route_stepE: "route_step r r'"

text \<open>What has been decided on a Ref stays in the history of its head.\<close>

definition route_inv :: "route_state \<Rightarrow> bool" where
  "route_inv r \<longleftrightarrow> store_inv (rs_refs r) \<and> distinct (rs_decided r)
     \<and> (\<forall>(n, p)\<in>set (rs_decided r). hd (split_on (CHR ''/'') n) = ''decision''
          \<and> (\<exists>h. query_head (rs_refs r) n = Some h \<and> decided_in (rs_view r) h p))"

lemma decision_decides:
  assumes "decision_reviewed ov au up verdict"
  shows "decided_in ov (hd_new_head up) (proposal_head au)" "decision_head au \<in> parents_of ov (hd_new_head up)"
proof -
  from assms obtain commit v payload where
    c: "load_structured ov (hd_new_head up) Commit = Inr commit" "json_get commit ''parents'' = Some (Array [String (decision_head au)])"
      "json_get commit ''transition_refs'' = Some (Array [String (hd_decision_feedback_oid up)])"
    and f: "load_structured ov (hd_decision_feedback_oid up) Record = Inr v" "get_str v ''record_type'' = Some ''decision_feedback''"
      "json_get v ''payload'' = Some payload" "get_str payload ''proposal_ref'' = Some (proposal_head au)"
    by (auto simp: decision_reviewed_def decision_by_def feedback_by_def load_record_def bindE_eq_Inr require_string_ok require_equal_ok)
  then have "binds_feedback ov (hd_new_head up) (proposal_head au)"
    by (auto simp: binds_feedback_def feedback_for_def)
  then show "decided_in ov (hd_new_head up) (proposal_head au)" unfolding decided_in_def using ancestor.self by blast
  show "decision_head au \<in> parents_of ov (hd_new_head up)" using c by (auto simp: parents_of_def)
qed

lemma decide_inv:
  assumes inv: "route_inv r" and ok: "publish_decision_through (rs_view r) au now later up (rs_refs r) = Inr (rc, s)"
  shows "route_inv (r\<lparr> rs_refs := s, rs_decided := (decision_ref_name au, proposal_head au) # rs_decided r \<rparr>)"
proof -
  have s: "store_inv (rs_refs r)" using inv by (simp add: route_inv_def)
  from s ok show ?thesis
  proof (rule publish_decision_cases)
    fix verifier t t'
    assume ns: "hd (split_on (CHR ''/'') (decision_ref_name au)) = ''decision''"
      and auth: "authorize_decision (rs_view r) verifier au up = Inr (rc_disposition rc)"
      and live: "query_head (rs_refs r) (decision_ref_name au) = Some (decision_head au)"
      and s': "s = advance (rs_refs r) (decision_update au up t)" "store_inv s"
    note facts = authorize_decision_facts [OF auth]
    have move: "query_head s n = (if n = decision_ref_name au then Some (hd_new_head up) else query_head (rs_refs r) n)" for n
      using s' by (simp add: query_head_advance decision_update_def)
    have fresh: "(decision_ref_name au, proposal_head au) \<notin> set (rs_decided r)"
      using inv live facts(2) by (auto simp: route_inv_def)
    have "\<exists>h. query_head s n = Some h \<and> decided_in (rs_view r) h p" if "(n, p) \<in> set (rs_decided r)" for n p
    proof -
      from that inv obtain h where h: "query_head (rs_refs r) n = Some h" "decided_in (rs_view r) h p" by (auto simp: route_inv_def)
      show ?thesis
      proof (cases "n = decision_ref_name au")
        case True
        with h live have "decided_in (rs_view r) (decision_head au) p" by simp
        then show ?thesis using decided_in_parent decision_decides(2) [OF facts(1)] True move by auto
      qed (use h move in simp)
    qed
    then show ?thesis
      using inv fresh ns s'(2) move decision_decides(1) [OF facts(1)] unfolding route_inv_def by auto
  qed
qed

lemma propose_inv:
  assumes inv: "route_inv r" and ok: "publish_proposal_internal (rs_view r) authority now later (rs_refs r) request se preflight = Inr (d, s)"
  shows "route_inv (r\<lparr> rs_refs := s \<rparr>)"
proof -
  have "store_inv (rs_refs r)" using inv by (simp add: route_inv_def)
  from this ok show ?thesis
  proof (rule publish_internal_facts)
    fix t t' grant payload base snap
    assume ns: "hd (split_on (CHR ''/'') (pr_ref_name request)) = ''proposal''"
      and s: "s = advance (rs_refs r) (proposal_update authority request t)" "store_inv s"
    have "query_head s n = query_head (rs_refs r) n" if "hd (split_on (CHR ''/'') n) = ''decision''" for n
      using that ns s(1) by (auto simp: query_head_advance proposal_update_def)
    then show ?thesis using inv s(2) unfolding route_inv_def by fastforce
  qed
qed

lemma route_step_inv: "route_step r r' \<Longrightarrow> route_inv r \<Longrightarrow> route_inv r'"
  by (erule route_stepE) (auto intro: decide_inv propose_inv, fastforce simp: route_inv_def intro: decided_in_extends)

text \<open>
  C1: A proposal is decided at most once. Along every history in which objects are added, agents publish and
  humans decide, in any order, no decision Ref decides the same proposal twice, and every proposal it has
  decided is answered by feedback in the ancestry of its current head.
\<close>

theorem decided_once:
  assumes "route_step\<^sup>*\<^sup>* r0 r" and "store_inv (rs_refs r0)" and "rs_decided r0 = []"
  shows "distinct (rs_decided r)
    \<and> set (rs_decided r) \<subseteq> {(n, p). \<exists>h. query_head (rs_refs r) n = Some h \<and> decided_in (rs_view r) h p}"
proof -
  have "route_inv r0" using assms(2,3) by (simp add: route_inv_def)
  with assms(1) have "route_inv r" by (induction rule: rtranclp_induct) (auto intro: route_step_inv)
  then show ?thesis by (auto simp: route_inv_def)
qed

theorem decided_once_witness:
  "\<exists>r. route_step\<^sup>*\<^sup>* \<lparr> rs_view = sample_view, rs_refs = sample_refs, rs_decided = [] \<rparr> r
    \<and> rs_decided r = [(''decision/main'', next_oid)]
    \<and> (\<exists>h. query_head (rs_refs r) ''decision/main'' = Some h \<and> decided_in sample_view h next_oid)"
proof -
  let ?start = "\<lparr> rs_view = sample_view, rs_refs = sample_refs, rs_decided = [] \<rparr>"
  obtain d s where p: "publish_proposal_internal sample_view sample_authority (Some sample_now) (Some (sample_now + 1)) sample_refs
      sample_request None None = Inr (d, s)" using sample_published [of None None] by (auto simp: is_ok_iff check_preflight_def)
  then have s: "s = proposed_refs" unfolding proposed_refs_def
    by (rule publish_internal_facts [OF sample_refs_inv]) simp
  obtain rc s' where q: "publish_decision_through sample_view sample_review (Some (sample_now + 2)) (Some (sample_now + 3)) sample_decision
      proposed_refs = Inr (rc, s')" using sample_decided by (auto simp: is_ok_iff)
  let ?finish = "\<lparr> rs_view = sample_view, rs_refs = s', rs_decided = [(''decision/main'', next_oid)] \<rparr>"
  have "route_step ?start \<lparr> rs_view = sample_view, rs_refs = proposed_refs, rs_decided = [] \<rparr>"
    using route_step.propose [of ?start] p s by simp
  moreover have "route_step \<lparr> rs_view = sample_view, rs_refs = proposed_refs, rs_decided = [] \<rparr> ?finish"
    using route_step.decide [of "\<lparr> rs_view = sample_view, rs_refs = proposed_refs, rs_decided = [] \<rparr>", of sample_review] q by simp
  ultimately have run: "route_step\<^sup>*\<^sup>* ?start ?finish" by (meson r_into_rtranclp rtranclp.rtrancl_into_rtrancl)
  from decided_once [OF run] sample_refs_inv run show ?thesis by (intro exI [of _ ?finish]) simp
qed

end
