(* ===== verification/Fair_Gate.thy ===== *)
theory Fair_Gate
  imports Prelude
begin

text \<open>
  The FIFO publication gate of a project, \<^verbatim>\<open>FairGate\<close> in \<^verbatim>\<open>src/crates/synapse-application/src/lib.rs\<close>: a ticket
  lock on a mutex and a condition variable. \<open>enter\<close> draws a ticket and blocks in \<^verbatim>\<open>Condvar::wait\<close> until its
  ticket is served; dropping the guard serves the next ticket and wakes every blocked thread. The mutex is
  held from \<^verbatim>\<open>lock\<close> to \<^verbatim>\<open>wait\<close>, which releases it and blocks the thread in one action, and from a wake-up to
  the next \<^verbatim>\<open>wait\<close>; those sections are the steps of the model, and threads interleave between them. A thread
  blocked in \<^verbatim>\<open>wait\<close> cannot step until it is notified or, as the documentation of \<^verbatim>\<open>Condvar\<close> permits, woken
  spuriously. The only panic with the mutex held is the \<open>expect\<close> of \<open>drop\<close>, which never fails, so the
  mutex is never poisoned and those error paths of \<open>enter\<close> are not reached.
\<close>

section \<open>Operations\<close>

record fair_gate =
  next_ticket :: nat
  serving :: nat
  occupied :: bool

definition new_gate :: fair_gate where
  "new_gate = \<lparr> next_ticket = 0, serving = 0, occupied = False \<rparr>"

text \<open>\<open>None\<close>: the counter is exhausted and \<open>enter\<close> fails.\<close>

definition take_ticket :: "fair_gate \<Rightarrow> (nat \<times> fair_gate) option" where
  "take_ticket g =
     map_option (\<lambda>n. (next_ticket g, g\<lparr> next_ticket := n \<rparr>)) (if next_ticket g = u64_max then None else Some (next_ticket g + 1))"

definition must_wait :: "nat \<Rightarrow> fair_gate \<Rightarrow> bool" where
  "must_wait ticket g \<longleftrightarrow> occupied g \<or> serving g \<noteq> ticket"

definition pass_gate :: "fair_gate \<Rightarrow> fair_gate" where
  "pass_gate g = g\<lparr> occupied := True \<rparr>"

text \<open>\<open>None\<close>: the \<open>expect\<close> on the serving counter fails.\<close>

definition leave_gate :: "fair_gate \<Rightarrow> fair_gate option" where
  "leave_gate g =
     (if serving g = u64_max then None else Some (g\<lparr> occupied := False, serving := serving g + 1 \<rparr>))"

section \<open>Threads\<close>

text \<open>
  The gate with its threads, named by their tickets: those that were woken and are about to test the loop
  condition again, those blocked in \<^verbatim>\<open>wait\<close>, those that hold a guard, and the order in which tickets passed.
\<close>

record gate_state =
  gate :: fair_gate
  awake :: "nat set"
  asleep :: "nat set"
  inside :: "nat set"
  passed :: "nat list"

definition initial_gate :: gate_state where
  "initial_gate = \<lparr> gate = new_gate, awake = {}, asleep = {}, inside = {}, passed = [] \<rparr>"

text \<open>One test of the loop condition by a thread that holds the mutex: it blocks, or leaves the loop with a guard.\<close>

definition loop_test :: "nat \<Rightarrow> gate_state \<Rightarrow> gate_state" where
  "loop_test t s =
     (if must_wait t (gate s) then s\<lparr> awake := awake s - {t}, asleep := insert t (asleep s) \<rparr>
      else s\<lparr> gate := pass_gate (gate s), awake := awake s - {t}, inside := insert t (inside s), passed := passed s @ [t] \<rparr>)"

definition enter :: "gate_state \<Rightarrow> gate_state option" where
  "enter s = map_option (\<lambda>(t, g). loop_test t (s\<lparr> gate := g \<rparr>)) (take_ticket (gate s))"

definition notify_all :: "gate_state \<Rightarrow> gate_state" where
  "notify_all s = s\<lparr> awake := awake s \<union> asleep s, asleep := {} \<rparr>"

definition drop_guard :: "nat \<Rightarrow> gate_state \<Rightarrow> gate_state option" where
  "drop_guard t s = map_option (\<lambda>g. notify_all (s\<lparr> gate := g, inside := inside s - {t} \<rparr>)) (leave_gate (gate s))"

inductive gate_step :: "gate_state \<Rightarrow> gate_state \<Rightarrow> bool" where
  arrive: "enter s = Some s' \<Longrightarrow> gate_step s s'"
| resume: "t \<in> awake s \<Longrightarrow> gate_step s (loop_test t s)"
| spurious: "t \<in> asleep s \<Longrightarrow> gate_step s (s\<lparr> awake := insert t (awake s), asleep := asleep s - {t} \<rparr>)"
| leave: "t \<in> inside s \<Longrightarrow> drop_guard t s = Some s' \<Longrightarrow> gate_step s s'"

inductive_cases gate_stepE: "gate_step s s'"

section \<open>Safety\<close>

text \<open>
  Tickets below the counter are waiting, inside or done, and they pass in order. No wake-up is lost: when the
  gate is free and someone waits, the thread being served is awake.
\<close>

definition entered :: "gate_state \<Rightarrow> nat" where
  "entered s = serving (gate s) + (if occupied (gate s) then 1 else 0)"

definition gate_inv :: "gate_state \<Rightarrow> bool" where
  "gate_inv s \<longleftrightarrow> inside s = (if occupied (gate s) then {serving (gate s)} else {})
     \<and> passed s = [0..<entered s] \<and> awake s \<union> asleep s = {entered s..<next_ticket (gate s)}
     \<and> awake s \<inter> asleep s = {}
     \<and> (\<not> occupied (gate s) \<longrightarrow> serving (gate s) < next_ticket (gate s) \<longrightarrow> serving (gate s) \<in> awake s)
     \<and> entered s \<le> next_ticket (gate s) \<and> next_ticket (gate s) \<le> u64_max"

lemma gate_inv_initial: "gate_inv initial_gate"
  by (simp add: gate_inv_def entered_def initial_gate_def new_gate_def u64_max_def)

lemma gate_inv_enter:
  assumes "gate_inv s" "enter s = Some s'"
  shows "gate_inv s'"
proof -
  let ?t = "next_ticket (gate s)"
  have s': "s' = loop_test ?t (s\<lparr> gate := (gate s)\<lparr> next_ticket := ?t + 1 \<rparr> \<rparr>)" and max: "?t < u64_max"
    using assms by (auto simp: enter_def take_ticket_def gate_inv_def split: if_splits)
  have new: "?t \<notin> awake s" using assms(1) unfolding gate_inv_def by (metis UnI1 atLeastLessThan_iff less_irrefl)
  have "entered s \<le> ?t" using assms(1) by (simp add: gate_inv_def)
  then have "insert ?t {entered s..<?t} = {entered s..<Suc ?t}" by auto
  then show ?thesis using assms(1) max new unfolding s' gate_inv_def
    by (auto simp: loop_test_def must_wait_def pass_gate_def entered_def)
qed

lemma gate_inv_resume:
  assumes "gate_inv s" "t \<in> awake s"
  shows "gate_inv (loop_test t s)"
proof -
  have "t \<in> {entered s..<next_ticket (gate s)}" using assms unfolding gate_inv_def by blast
  moreover have "(awake s - {t}) \<union> insert t (asleep s) = awake s \<union> asleep s" using assms(2) by blast
  moreover have "(awake s - {t}) \<union> asleep s = awake s \<union> asleep s - {t}" using assms by (auto simp: gate_inv_def)
  moreover have "{t..<next_ticket (gate s)} - {t} = {Suc t..<next_ticket (gate s)}" by auto
  ultimately show ?thesis using assms(1)
    by (auto simp: gate_inv_def loop_test_def must_wait_def pass_gate_def entered_def)
qed

lemma gate_inv_spurious:
  assumes "gate_inv s" "t \<in> asleep s"
  shows "gate_inv (s\<lparr> awake := insert t (awake s), asleep := asleep s - {t} \<rparr>)"
proof -
  have "insert t (awake s) \<union> (asleep s - {t}) = awake s \<union> asleep s" using assms(2) by blast
  then show ?thesis using assms by (auto simp: gate_inv_def entered_def)
qed

lemma gate_inv_leave:
  assumes "gate_inv s" "t \<in> inside s" "drop_guard t s = Some s'"
  shows "gate_inv s'"
proof -
  have "s' = notify_all (s\<lparr> gate := (gate s)\<lparr> occupied := False, serving := serving (gate s) + 1 \<rparr>, inside := inside s - {t} \<rparr>)"
    using assms(3) by (auto simp: drop_guard_def leave_gate_def split: if_splits)
  moreover have "occupied (gate s)" using assms(1,2) by (auto simp: gate_inv_def split: if_splits)
  ultimately show ?thesis using assms(1,2) by (auto simp: gate_inv_def notify_all_def entered_def)
qed

lemma gate_step_inv: "gate_step s s' \<Longrightarrow> gate_inv s \<Longrightarrow> gate_inv s'"
  by (erule gate_stepE) (auto intro: gate_inv_enter gate_inv_resume gate_inv_spurious gate_inv_leave)

text \<open>Dropping a guard never panics.\<close>

lemma drop_guard_total: "gate_inv s \<Longrightarrow> t \<in> inside s \<Longrightarrow> \<exists>s'. drop_guard t s = Some s'"
  by (auto simp: gate_inv_def drop_guard_def leave_gate_def entered_def split: if_splits)

section \<open>Liveness\<close>

text \<open>
  An execution: every moment a thread takes a step or none does. It is fair when every guard is dropped in the
  end and every thread that is awake gets the mutex in the end; nothing is assumed of blocked threads.
\<close>

definition gate_run :: "(nat \<Rightarrow> gate_state) \<Rightarrow> bool" where
  "gate_run run \<longleftrightarrow> run 0 = initial_gate \<and> (\<forall>i. gate_step (run i) (run (Suc i)) \<or> run (Suc i) = run i)"

definition fair_run :: "(nat \<Rightarrow> gate_state) \<Rightarrow> bool" where
  "fair_run run \<longleftrightarrow> (\<forall>i t. t \<in> inside (run i) \<longrightarrow> (\<exists>j\<ge>i. t \<notin> inside (run j)))
     \<and> (\<forall>i t. t \<in> awake (run i) \<longrightarrow> (\<exists>j\<ge>i. t \<notin> awake (run j)))"

lemma gate_run_inv: "gate_run run \<Longrightarrow> gate_inv (run i)"
proof (induction i)
  case (Suc i)
  then have "gate_inv (run i)" "gate_step (run i) (run (Suc i)) \<or> run (Suc i) = run i" by (auto simp: gate_run_def)
  then show ?case using gate_step_inv by metis
qed (simp add: gate_run_def gate_inv_initial)

text \<open>What holds until something happens, and does not hold for ever, makes it happen.\<close>

lemma unless_ensures:
  assumes "P (run i)" "\<And>k. P (run k) \<Longrightarrow> P (run (Suc k)) \<or> Q (run (Suc k))" "j \<ge> i" "\<not> P (run j)"
  shows "\<exists>k\<ge>i. Q (run k)"
proof (rule ccontr)
  assume never: "\<not> (\<exists>k\<ge>i. Q (run k))"
  have "P (run k)" if "i \<le> k" for k using that
  proof (induction rule: dec_induct)
    case (step k)
    then show ?case using assms(2) [of k] never le_SucI by blast
  qed (rule assms(1))
  with assms(3,4) show False by blast
qed

lemma served_unless:
  assumes "gate_inv s" "gate_step s s'" "\<not> occupied (gate s) \<and> serving (gate s) = e \<and> e \<in> awake s"
  shows "(\<not> occupied (gate s') \<and> serving (gate s') = e \<and> e \<in> awake s') \<or> entered s' = Suc e"
  using assms(2)
proof (cases rule: gate_step.cases)
  case arrive
  have "next_ticket (gate s) \<notin> awake s" using assms(1) unfolding gate_inv_def by (metis UnI1 atLeastLessThan_iff less_irrefl)
  then show ?thesis using arrive assms(3)
    by (auto simp: enter_def take_ticket_def loop_test_def must_wait_def split: if_splits)
next
  case (leave t)
  then show ?thesis using assms(1,3) by (simp add: gate_inv_def)
qed (use assms(3) in \<open>auto simp: loop_test_def must_wait_def pass_gate_def entered_def\<close>)

lemma inside_unless:
  assumes "gate_inv s" "gate_step s s'" "occupied (gate s) \<and> serving (gate s) = e"
  shows "(occupied (gate s') \<and> serving (gate s') = e) \<or> (\<not> occupied (gate s') \<and> serving (gate s') = Suc e)"
  using assms(2)
  by (cases rule: gate_step.cases) (use assms(3) in \<open>auto simp: enter_def take_ticket_def loop_test_def must_wait_def
      drop_guard_def leave_gate_def notify_all_def split: if_splits\<close>)

lemma next_ticket_grows: "gate_step s s' \<Longrightarrow> next_ticket (gate s) \<le> next_ticket (gate s')"
  by (erule gate_stepE) (auto simp: enter_def take_ticket_def loop_test_def pass_gate_def drop_guard_def leave_gate_def
      notify_all_def split: if_splits)

lemma next_ticket_mono: "gate_run run \<Longrightarrow> i \<le> j \<Longrightarrow> next_ticket (gate (run i)) \<le> next_ticket (gate (run j))"
  by (rule lift_Suc_mono_le [of "\<lambda>k. next_ticket (gate (run k))"]) (metis gate_run_def next_ticket_grows order_refl)

lemma free_gate_served:
  assumes "gate_run run" "fair_run run" "\<not> occupied (gate (run i))" "serving (gate (run i)) = e" "e < next_ticket (gate (run i))"
  shows "\<exists>j\<ge>i. entered (run j) = Suc e"
proof -
  let ?P = "\<lambda>s. \<not> occupied (gate s) \<and> serving (gate s) = e \<and> e \<in> awake s"
  have P: "?P (run i)" using gate_run_inv [OF assms(1), of i] assms(3-5) by (auto simp: gate_inv_def)
  moreover obtain j where "j \<ge> i" "\<not> ?P (run j)" using P assms(2) unfolding fair_run_def by blast
  moreover have "?P (run (Suc k)) \<or> entered (run (Suc k)) = Suc e" if "?P (run k)" for k
    using served_unless [OF gate_run_inv [OF assms(1)] _ that] assms(1) that unfolding gate_run_def by metis
  ultimately show ?thesis using unless_ensures [of ?P run i "\<lambda>s. entered s = Suc e" j] by blast
qed

lemma next_enters:
  assumes "gate_run run" "fair_run run" "entered (run i) < next_ticket (gate (run i))"
  shows "\<exists>j\<ge>i. entered (run j) = Suc (entered (run i))"
proof (cases "occupied (gate (run i))")
  case False
  then show ?thesis using free_gate_served [OF assms(1,2) False refl] assms(3) by (simp add: entered_def)
next
  case True
  let ?e = "serving (gate (run i))" and ?P = "\<lambda>s. occupied (gate s) \<and> serving (gate s) = serving (gate (run i))"
  have "?e \<in> inside (run i)" using True gate_run_inv [OF assms(1), of i] by (simp add: gate_inv_def)
  then obtain j where j: "j \<ge> i" "?e \<notin> inside (run j)" using assms(2) unfolding fair_run_def by blast
  then have "\<not> ?P (run j)" using gate_run_inv [OF assms(1), of j] by (auto simp: gate_inv_def)
  moreover have "?P (run (Suc k)) \<or> (\<not> occupied (gate (run (Suc k))) \<and> serving (gate (run (Suc k))) = Suc ?e)" if "?P (run k)" for k
    using inside_unless [OF gate_run_inv [OF assms(1)] _ that] assms(1) that unfolding gate_run_def by metis
  ultimately obtain k where k: "k \<ge> i" "\<not> occupied (gate (run k))" "serving (gate (run k)) = Suc ?e"
    using unless_ensures [of ?P run i "\<lambda>s. \<not> occupied (gate s) \<and> serving (gate s) = Suc ?e" j] True j(1) by blast
  have "Suc ?e < next_ticket (gate (run k))"
    using next_ticket_mono [OF assms(1) k(1)] assms(3) True by (simp add: entered_def)
  from free_gate_served [OF assms(1,2) k(2,3) this] show ?thesis using True k(1) order_trans by (fastforce simp: entered_def)
qed

lemma ticket_enters:
  assumes "gate_run run" "fair_run run"
  shows "t < next_ticket (gate (run i)) \<Longrightarrow> \<exists>j\<ge>i. t < entered (run j)"
proof (induction "Suc t - entered (run i)" arbitrary: i rule: less_induct)
  case less
  show ?case
  proof (cases "t < entered (run i)")
    case False
    then obtain j where j: "j \<ge> i" "entered (run j) = Suc (entered (run i))"
      using next_enters [OF assms, of i] less.prems by auto
    moreover have "t < next_ticket (gate (run j))" using less.prems next_ticket_mono [OF assms(1) j(1)] by simp
    ultimately show ?thesis using less.hyps [of j] False order_trans by (metis Suc_diff_Suc diff_less_mono2 lessI less_Suc_eq not_less_eq)
  qed auto
qed

text \<open>
  C15: the publication gate is a fair lock. In every execution, at every moment: at most one thread holds a guard
  and it has the ticket being served, threads have passed in the order in which they drew tickets, every other
  drawn ticket waits, and dropping a guard never panics. And every thread that drew a ticket passes in the end,
  although a blocked thread moves only when notified, provided that guards are dropped and awake threads run.
\<close>

theorem gate_fair:
  assumes "gate_run run"
  shows "passed (run i) = [0..<length (passed (run i))]
    \<and> inside (run i) = (if occupied (gate (run i)) then {serving (gate (run i))} else {})
    \<and> awake (run i) \<union> asleep (run i) = {length (passed (run i))..<next_ticket (gate (run i))}
    \<and> (\<forall>t\<in>inside (run i). drop_guard t (run i) \<noteq> None)
    \<and> (fair_run run \<longrightarrow> (\<forall>t<next_ticket (gate (run i)). \<exists>j\<ge>i. t \<in> set (passed (run j))))"
proof -
  have inv: "gate_inv (run j)" for j by (rule gate_run_inv [OF assms])
  have "passed (run i) = [0..<length (passed (run i))]" "length (passed (run i)) = entered (run i)"
    "set (passed (run j)) = {0..<entered (run j)}" for j
    using inv by (auto simp: gate_inv_def)
  moreover have "\<forall>t\<in>inside (run i). drop_guard t (run i) \<noteq> None" using drop_guard_total [OF inv] by blast
  ultimately show ?thesis using inv [of i] ticket_enters [OF assms] by (auto simp: gate_inv_def)
qed

text \<open>Two threads: the second blocks, is woken when the first drops its guard, and passes.\<close>

definition sample_run :: "nat \<Rightarrow> gate_state" where
  "sample_run i = (if i = 0 then initial_gate
     else if i = 1 then \<lparr> gate = \<lparr> next_ticket = 1, serving = 0, occupied = True \<rparr>, awake = {}, asleep = {}, inside = {0}, passed = [0] \<rparr>
     else if i = 2 then \<lparr> gate = \<lparr> next_ticket = 2, serving = 0, occupied = True \<rparr>, awake = {}, asleep = {1}, inside = {0}, passed = [0] \<rparr>
     else if i = 3 then \<lparr> gate = \<lparr> next_ticket = 2, serving = 1, occupied = False \<rparr>, awake = {1}, asleep = {}, inside = {}, passed = [0] \<rparr>
     else if i = 4 then \<lparr> gate = \<lparr> next_ticket = 2, serving = 1, occupied = True \<rparr>, awake = {}, asleep = {}, inside = {1}, passed = [0, 1] \<rparr>
     else \<lparr> gate = \<lparr> next_ticket = 2, serving = 2, occupied = False \<rparr>, awake = {}, asleep = {}, inside = {}, passed = [0, 1] \<rparr>)"

lemmas gate_ops = enter_def take_ticket_def loop_test_def must_wait_def pass_gate_def drop_guard_def leave_gate_def
  notify_all_def initial_gate_def new_gate_def u64_max_def

lemma sample_run_gate: "gate_run sample_run"
proof -
  have "gate_step (sample_run i) (sample_run (Suc i)) \<or> sample_run (Suc i) = sample_run i" for i
  proof -
    consider "i = 0" | "i = 1" | "i = 2" | "i = 3" | "i = 4" | "4 < i" by linarith
    then show ?thesis
    proof cases
      case 1 then show ?thesis by (intro disjI1 gate_step.arrive) (simp add: sample_run_def gate_ops)
    next
      case 2 then show ?thesis by (intro disjI1 gate_step.arrive) (simp add: sample_run_def gate_ops)
    next
      case 3 then show ?thesis by (intro disjI1 gate_step.leave [of 0]) (simp_all add: sample_run_def gate_ops)
    next
      case 4
      then have "gate_step (sample_run i) (loop_test 1 (sample_run i))" by (intro gate_step.resume) (simp add: sample_run_def)
      with 4 show ?thesis by (simp add: sample_run_def gate_ops)
    next
      case 5 then show ?thesis by (intro disjI1 gate_step.leave [of 1]) (simp_all add: sample_run_def gate_ops)
    qed (simp add: sample_run_def)
  qed
  then show ?thesis by (simp add: gate_run_def sample_run_def)
qed

theorem gate_fair_witness:
  "1 \<in> asleep (sample_run 2) \<and> (\<exists>j\<ge>2. 1 \<in> set (passed (sample_run j)))"
proof -
  have "\<exists>j\<ge>i. t \<notin> inside (sample_run j)" "\<exists>j\<ge>i. t \<notin> awake (sample_run j)" for i t
    by (intro exI [of _ "i + 5"]; simp add: sample_run_def)+
  then have "fair_run sample_run" by (simp add: fair_run_def)
  with gate_fair [OF sample_run_gate, of 2] show ?thesis by (auto simp: sample_run_def)
qed

end
