(* ===== verification/Application.thy ===== *)
theory Application
  imports Human_Decision Fair_Gate
begin

text \<open>
  The application boundary in front of the two publication routes, \<^verbatim>\<open>src/crates/synapse-application/src/lib.rs\<close> and
  \<^verbatim>\<open>src/crates/synapse-application/src/human.rs\<close>: projects, access lists, authority profiles, one-time registrations
  and one-shot permits, kept in one process-local security state.

  The embedding service supplies an authenticator, an executor and a clock. What each call of them returned is
  an argument of the operation that makes the call, so that they may behave differently at every call. An
  operation that holds the publication gate of its project is one action. The use of a permit is two: the permit
  is removed, and for a proposal the executor runs, before the gate is entered, so other operations may come
  between \<open>claim_execution\<close> and \<open>complete_execution\<close>, and between \<open>claim_decision\<close> and \<open>complete_decision\<close>. The security lock is never held where
  something can panic. The lock of a repository is: a panic of the core poisons it.
\<close>

section \<open>Values\<close>

datatype application_error = AuthenticationRequired | ProjectAccessDenied | ExecutionPermitInvalid | ExecutionFailed
  | AppStaleBase | AppRefConflict | ConfigInvalid | ServiceUnavailable | AppCore repository_error

fun application_error_code :: "application_error \<Rightarrow> str" where
  "application_error_code AuthenticationRequired = ''authentication_required''"
| "application_error_code ProjectAccessDenied = ''project_access_denied''"
| "application_error_code ExecutionPermitInvalid = ''execution_permit_invalid''"
| "application_error_code ExecutionFailed = ''execution_failed''"
| "application_error_code AppStaleBase = ''stale_base''"
| "application_error_code AppRefConflict = ''ref_conflict''"
| "application_error_code ConfigInvalid = ''configuration_invalid''"
| "application_error_code ServiceUnavailable = ''service_unavailable''"
| "application_error_code (AppCore e) = repository_error_code e"

type_synonym 'a app_result = "application_error fault + 'a"

record authenticated_session =
  ss_actor_id :: str
  ss_session_id :: str

definition valid_control_value :: "str \<Rightarrow> bool" where
  "valid_control_value v \<longleftrightarrow> v \<noteq> [] \<and> length v \<le> 4096 \<and> \<not> list_ex is_control (chars v)"

definition new_session :: "str \<Rightarrow> str \<Rightarrow> authenticated_session option" where
  "new_session actor_id session_id =
     (if \<not> valid_control_value actor_id \<or> \<not> valid_control_value session_id then None
      else Some \<lparr> ss_actor_id = actor_id, ss_session_id = session_id \<rparr>)"

text \<open>What a call of the authenticator, the executor or the clock came to.\<close>

datatype authentication = AuthPanicked | AuthFailed | Authenticated authenticated_session

record executed_ai_proposal =
  ex_new_head :: str
  ex_activity_oid :: str
  ex_message :: "str option"

datatype execution = ExecPanicked | ExecFailed | Executed executed_ai_proposal

type_synonym reading = "int option"

text \<open>
  How the core reads the objects of a repository. The core's own view is \<open>repo_view sha256 nfc reg\<close>: with it, the
  two publications below are \<open>publish_preflighted\<close> and \<open>publish_decision\<close>.
\<close>

type_synonym core_view = "repository \<Rightarrow> object_view"

definition authenticate :: "authentication \<Rightarrow> authenticated_session app_result" where
  "authenticate a =
     (case a of AuthPanicked \<Rightarrow> fails ServiceUnavailable | AuthFailed \<Rightarrow> fails AuthenticationRequired | Authenticated s \<Rightarrow> Inr s)"

definition run_executor :: "execution \<Rightarrow> executed_ai_proposal app_result" where
  "run_executor x = (case x of Executed p \<Rightarrow> Inr p | _ \<Rightarrow> fails ExecutionFailed)"

record ai_execution_context =
  xc_execution_id :: nat
  xc_actor_id :: str
  xc_project_id :: str
  xc_principal_id :: str
  xc_base_ref_name :: str
  xc_base_head :: str
  xc_target_ref_name :: str
  xc_expected_target_head :: "str option"
  xc_context_pack_oid :: str
  xc_capabilities :: "ai_capability list"
  xc_side_effect_class :: ai_side_effect_class
  xc_not_after :: int

section \<open>Profiles, registrations and permits\<close>

record ai_authority_profile_config =
  pc_project :: str
  pc_actor_id :: str
  pc_principal_id :: str
  pc_base_ref_name :: str
  pc_actor_record_oid :: str
  pc_principal_actor_record_oid :: str
  pc_context_pack_oid :: str
  pc_target_ref_name :: str
  pc_exact_capabilities :: "ai_capability list"
  pc_runtime_capabilities :: "ai_capability list"
  pc_side_effect_class :: ai_side_effect_class

definition unique_capabilities :: "ai_capability list \<Rightarrow> bool" where
  "unique_capabilities cs \<longleftrightarrow> length (btree_set cs) = length cs"

definition valid_profile_config :: "ai_authority_profile_config \<Rightarrow> bool" where
  "valid_profile_config c \<longleftrightarrow>
     list_all valid_control_value [pc_project c, pc_actor_id c, pc_principal_id c, pc_base_ref_name c, pc_actor_record_oid c,
       pc_principal_actor_record_oid c, pc_context_pack_oid c, pc_target_ref_name c]
     \<and> hd (split_on (CHR ''/'') (pc_base_ref_name c)) \<in> {''decision'', ''release''}
     \<and> hd (split_on (CHR ''/'') (pc_target_ref_name c)) = ''proposal''
     \<and> pc_exact_capabilities c \<noteq> [] \<and> ProposeBranch \<in> set (pc_exact_capabilities c)
     \<and> unique_capabilities (pc_exact_capabilities c) \<and> unique_capabilities (pc_runtime_capabilities c)
     \<and> list_all (\<lambda>cap. cap \<in> set (pc_runtime_capabilities c)) (pc_exact_capabilities c)"

definition sorted_config :: "ai_authority_profile_config \<Rightarrow> ai_authority_profile_config" where
  "sorted_config c = c\<lparr> pc_exact_capabilities := sort (pc_exact_capabilities c), pc_runtime_capabilities := sort (pc_runtime_capabilities c) \<rparr>"

definition profile_authority :: "ai_authority_profile_config \<Rightarrow> ai_execution_authority" where
  "profile_authority c = \<lparr> authenticated_actor_id = pc_actor_id c, authorized_project_id = pc_project c,
     authorized_principal_id = pc_principal_id c, authorized_base_ref = pc_base_ref_name c, actor_record_oid = pc_actor_record_oid c,
     principal_actor_record_oid = pc_principal_actor_record_oid c, context_pack_oid = pc_context_pack_oid c,
     authorized_capabilities = pc_exact_capabilities c, runtime_capabilities = pc_runtime_capabilities c \<rparr>"

record handle =
  hn_instance :: nat
  hn_project :: str
  hn_serial :: nat

record permit =
  pm_instance :: nat
  pm_serial :: nat

record authority_profile_record =
  pf_generation :: nat
  pf_suspended :: bool
  pf_config :: ai_authority_profile_config

record execution_registration_record =
  rg_project :: str
  rg_profile_serial :: nat
  rg_profile_generation :: nat
  rg_expected_target_head :: "str option"

record permit_record =
  pt_actor_id :: str
  pt_session_id :: str
  pt_project :: str
  pt_security_epoch :: nat
  pt_profile_serial :: nat
  pt_profile_generation :: nat
  pt_execution_serial :: nat
  pt_not_after :: int
  pt_last_observed :: int
  pt_preflight :: ai_preflight_decision

record human_profile_config =
  hc_project :: str
  hc_human_id :: str
  hc_decision_ref_name :: str
  hc_human_actor_record_oid :: str
  hc_policy_record_oid :: str

record human_profile_record =
  hp_generation :: nat
  hp_suspended :: bool
  hp_config :: human_profile_config

record human_decision_candidate =
  cd_new_head :: str
  cd_decision_feedback_oid :: str
  cd_message :: "str option"

record human_registration_record =
  hr_project :: str
  hr_profile_serial :: nat
  hr_profile_generation :: nat
  hr_decision_head :: str
  hr_proposal_ref_name :: str
  hr_proposal_head :: str
  hr_candidate :: human_decision_candidate

record human_permit_record =
  ht_actor_id :: str
  ht_session_id :: str
  ht_project :: str
  ht_security_epoch :: nat
  ht_profile_serial :: nat
  ht_profile_generation :: nat
  ht_decision_head :: str
  ht_proposal_ref_name :: str
  ht_proposal_head :: str
  ht_candidate :: human_decision_candidate
  ht_not_after :: int
  ht_last_observed :: int

record admitted_proposal_handle =
  ad_instance :: nat
  ad_project :: str
  ad_proposal_ref_name :: str
  ad_proposal_head :: str

record ai_publication_receipt =
  pub_decision :: authorization_decision
  pub_admitted_proposal :: admitted_proposal_handle

record durable_proposal_binding =
  db_project :: str
  db_proposal_ref_name :: str
  db_proposal_head :: str
  db_decision_ref_name :: str
  db_decision_head :: str

definition valid_durable_binding :: "durable_proposal_binding \<Rightarrow> bool" where
  "valid_durable_binding b \<longleftrightarrow>
     list_all valid_control_value [db_project b, db_proposal_ref_name b, db_proposal_head b, db_decision_ref_name b, db_decision_head b]
     \<and> non_empty_suffix (db_proposal_ref_name b) ''proposal/'' \<and> non_empty_suffix (db_decision_ref_name b) ''decision/''"

definition valid_human_config :: "human_profile_config \<Rightarrow> bool" where
  "valid_human_config c \<longleftrightarrow>
     list_all valid_control_value [hc_project c, hc_human_id c, hc_decision_ref_name c, hc_human_actor_record_oid c, hc_policy_record_oid c]
     \<and> hd (split_on (CHR ''/'') (hc_decision_ref_name c)) = ''decision''"

definition valid_candidate :: "human_decision_candidate \<Rightarrow> bool" where
  "valid_candidate c \<longleftrightarrow> valid_control_value (cd_new_head c) \<and> valid_control_value (cd_decision_feedback_oid c)
     \<and> (case cd_message c of None \<Rightarrow> True | Some m \<Rightarrow> length m \<le> 2000 \<and> valid_control_value m)"

definition human_authority :: "human_profile_config \<Rightarrow> str \<Rightarrow> str \<Rightarrow> str \<Rightarrow> human_decision_authority" where
  "human_authority c head_oid proposal_ref proposal =
     \<lparr> authenticated_human_id = hc_human_id c, decision_project_id = hc_project c, decision_ref_name = hc_decision_ref_name c,
       decision_head = head_oid, proposal_ref_name = proposal_ref, proposal_head = proposal,
       human_actor_record_oid = hc_human_actor_record_oid c, policy_record_oid = hc_policy_record_oid c \<rparr>"

section \<open>The application\<close>

record project_security =
  sec_epoch :: nat
  sec_allowed_actors :: "str set"

record security_state =
  next_serial :: nat
  project_securities :: "str \<rightharpoonup> project_security"
  profiles :: "nat \<rightharpoonup> authority_profile_record"
  registrations :: "nat \<rightharpoonup> execution_registration_record"
  permits :: "nat \<rightharpoonup> permit_record"
  human_profiles :: "nat \<rightharpoonup> human_profile_record"
  human_registrations :: "nat \<rightharpoonup> human_registration_record"
  human_permits :: "nat \<rightharpoonup> human_permit_record"

record project_slot =
  slot_repository :: repository
  slot_poisoned :: bool
  slot_gate :: fair_gate

record application =
  app_instance :: nat
  permit_ttl_nanos :: int
  slots :: "str \<rightharpoonup> project_slot"
  security :: security_state

type_synonym 'a app_action = "(application, application_error fault, 'a) action"

text \<open>The part of an operation that holds the security lock: nothing changes when it fails.\<close>

definition on_security :: "(security_state \<Rightarrow> ('a \<times> security_state) app_result) \<Rightarrow> 'a app_action" where
  "on_security f app =
     (case f (security app) of Inl e \<Rightarrow> (Inl e, app) | Inr (x, st) \<Rightarrow> (Inr x, app\<lparr> security := st \<rparr>))"

definition find_slot :: "application_error \<Rightarrow> str \<Rightarrow> unit app_action" where
  "find_slot missing p = readA (\<lambda>app. if slots app p = None then fails missing else Inr ())"

text \<open>
  A call that passed the gate of its project, from the moment its ticket is served to the drop of the guard.
\<close>

definition at_gate :: "str \<Rightarrow> fair_gate \<Rightarrow> application \<Rightarrow> application" where
  "at_gate p g app = app\<lparr> slots := (slots app)(p := map_option (slot_gate_update (\<lambda>_. g)) (slots app p)) \<rparr>"

definition gate_of :: "application \<Rightarrow> str \<Rightarrow> fair_gate" where
  "gate_of app p = (case slots app p of None \<Rightarrow> new_gate | Some slot \<Rightarrow> slot_gate slot)"

definition gated :: "str \<Rightarrow> 'a app_action \<Rightarrow> 'a app_action" where
  "gated p f app =
     (case take_ticket (gate_of app p) of
        None \<Rightarrow> (fails ServiceUnavailable, app)
      | Some (ticket, g) \<Rightarrow>
          (case f (at_gate p (pass_gate g) app) of (r, app') \<Rightarrow>
             (case leave_gate (gate_of app' p) of
                None \<Rightarrow> (panics, at_gate p ((gate_of app' p)\<lparr> occupied := False \<rparr>) app')
              | Some g' \<Rightarrow> (r, at_gate p g' app'))))"

definition map_core :: "(repository_error \<Rightarrow> application_error) \<Rightarrow> 'a repo_result \<Rightarrow> 'a app_result" where
  "map_core f = map_err (map_fault f)"

text \<open>A call of the core under the repository lock; a panic poisons the lock.\<close>

definition on_repository :: "str \<Rightarrow> (repository_error \<Rightarrow> application_error) \<Rightarrow> 'a repo_action \<Rightarrow> 'a app_action" where
  "on_repository p f core app =
     (case slots app p of
        None \<Rightarrow> (fails ServiceUnavailable, app)
      | Some slot \<Rightarrow>
          if slot_poisoned slot then (fails ServiceUnavailable, app)
          else
            (case core (slot_repository slot) of (r, repo) \<Rightarrow>
               (map_core f r, app\<lparr> slots := (slots app)(p \<mapsto>
                  slot\<lparr> slot_repository := repo, slot_poisoned := (r = panics) \<rparr>) \<rparr>)))"

definition read_head :: "str \<Rightarrow> repository \<Rightarrow> str option repo_result" where
  "read_head n r = live_head (refs_of r) n"

definition next_epoch :: "nat \<Rightarrow> nat app_result" where
  "next_epoch epoch = (if epoch = u64_max then fails ServiceUnavailable else Inr (epoch + 1))"

definition allocate_serial :: "security_state \<Rightarrow> (nat \<times> security_state) app_result" where
  "allocate_serial st =
     (if next_serial st = u64_max then fails ServiceUnavailable
      else Inr (next_serial st, st\<lparr> next_serial := next_serial st + 1 \<rparr>))"

definition found :: "application_error \<Rightarrow> ('a \<Rightarrow> bool) \<Rightarrow> 'a option \<Rightarrow> 'a app_result" where
  "found missing P x = (case x of Some y \<Rightarrow> if P y then Inr y else fails missing | None \<Rightarrow> fails missing)"

definition ensureE :: "application_error \<Rightarrow> bool \<Rightarrow> unit app_result" where
  "ensureE e b = (if b then Inr () else fails e)"

text \<open>Construction. The instance counter of the process is passed along.\<close>

definition allocate_application_instance :: "nat \<Rightarrow> (nat \<times> nat) app_result" where
  "allocate_application_instance counter = (if counter = u64_max then fails ServiceUnavailable else Inr (counter, counter + 1))"

definition add_project :: "(str \<rightharpoonup> project_slot) \<Rightarrow> str \<times> repository \<Rightarrow> (str \<rightharpoonup> project_slot) app_result" where
  "add_project sl pr =
     (if \<not> valid_control_value (fst pr) \<or> sl (fst pr) \<noteq> None then fails ConfigInvalid
      else Inr (sl(fst pr \<mapsto> \<lparr> slot_repository = snd pr, slot_poisoned = False, slot_gate = new_gate \<rparr>)))"

definition initial_security :: "(str \<rightharpoonup> project_slot) \<Rightarrow> security_state" where
  "initial_security sl =
     \<lparr> next_serial = 1, project_securities = (\<lambda>p. map_option (\<lambda>_. \<lparr> sec_epoch = 0, sec_allowed_actors = {} \<rparr>) (sl p)),
       profiles = Map.empty, registrations = Map.empty, permits = Map.empty, human_profiles = Map.empty,
       human_registrations = Map.empty, human_permits = Map.empty \<rparr>"

definition new_application :: "nat \<Rightarrow> int \<Rightarrow> (str \<times> repository) list \<Rightarrow> application app_result \<times> nat" where
  "new_application counter ttl projects =
     (if ttl \<le> 0 then (fails ConfigInvalid, counter)
      else case allocate_application_instance counter of
        Inl e \<Rightarrow> (Inl e, counter)
      | Inr (inst, counter') \<Rightarrow>
          (bindE (foldE add_project Map.empty projects) (\<lambda>sl.
           if projects = [] then fails ConfigInvalid
           else Inr \<lparr> app_instance = inst, permit_ttl_nanos = ttl, slots = sl, security = initial_security sl \<rparr>), counter'))"

section \<open>Access\<close>

definition change_access :: "str \<Rightarrow> bool \<Rightarrow> (str set \<Rightarrow> str set) \<Rightarrow> str \<Rightarrow> security_state \<Rightarrow> (unit \<times> security_state) app_result" where
  "change_access actor_id present change p st =
     bindE (found ConfigInvalid (\<lambda>_. True) (project_securities st p)) (\<lambda>sec.
     if (actor_id \<in> sec_allowed_actors sec) \<noteq> present then Inr ((), st)
     else
       bindE (next_epoch (sec_epoch sec)) (\<lambda>epoch.
       Inr ((), st\<lparr> project_securities := (project_securities st)(p \<mapsto>
         \<lparr> sec_epoch = epoch, sec_allowed_actors = change (sec_allowed_actors sec) \<rparr>) \<rparr>)))"

definition grant_project_access :: "str \<Rightarrow> str \<Rightarrow> unit app_action" where
  "grant_project_access p actor_id =
     bindA (resultA (ensureE ConfigInvalid (valid_control_value actor_id))) (\<lambda>_.
     bindA (find_slot ConfigInvalid p) (\<lambda>_.
     gated p (on_security (change_access actor_id False (insert actor_id) p))))"

definition revoke_project_access :: "str \<Rightarrow> str \<Rightarrow> unit app_action" where
  "revoke_project_access p actor_id =
     bindA (find_slot ConfigInvalid p) (\<lambda>_.
     gated p (on_security (change_access actor_id True (\<lambda>actors. actors - {actor_id}) p)))"

section \<open>Authority profiles of agents\<close>

definition bump_epoch :: "str \<Rightarrow> security_state \<Rightarrow> security_state app_result" where
  "bump_epoch p st =
     bindE (found ConfigInvalid (\<lambda>_. True) (project_securities st p)) (\<lambda>sec.
     bindE (next_epoch (sec_epoch sec)) (\<lambda>epoch.
     Inr (st\<lparr> project_securities := (project_securities st)(p \<mapsto> sec\<lparr> sec_epoch := epoch \<rparr>) \<rparr>)))"

definition insert_profile :: "nat \<Rightarrow> ai_authority_profile_config \<Rightarrow> security_state \<Rightarrow> (handle \<times> security_state) app_result" where
  "insert_profile inst config st =
     bindE (allocate_serial st) (\<lambda>(serial, st).
     Inr (\<lparr> hn_instance = inst, hn_project = pc_project config, hn_serial = serial \<rparr>,
       st\<lparr> profiles := (profiles st)(serial \<mapsto> \<lparr> pf_generation = 1, pf_suspended = False, pf_config = config \<rparr>) \<rparr>))"

definition instanceA :: "nat app_action" where
  "instanceA = readA (\<lambda>app. Inr (app_instance app))"

definition register_authority_profile :: "ai_authority_profile_config \<Rightarrow> handle app_action" where
  "register_authority_profile config0 =
     (let config = sorted_config config0 in
      bindA (resultA (ensureE ConfigInvalid (valid_profile_config config))) (\<lambda>_.
      bindA (find_slot ConfigInvalid (pc_project config)) (\<lambda>_.
      bindA instanceA (\<lambda>inst.
      gated (pc_project config) (on_security (insert_profile inst config))))))"

definition replace_profile :: "handle \<Rightarrow> ai_authority_profile_config \<Rightarrow> security_state \<Rightarrow> (unit \<times> security_state) app_result" where
  "replace_profile h replacement st =
     bindE (found ConfigInvalid (\<lambda>_. True) (profiles st (hn_serial h))) (\<lambda>profile.
     bindE (next_epoch (pf_generation profile)) (\<lambda>generation.
     bindE (bump_epoch (pc_project replacement) st) (\<lambda>st.
     Inr ((), st\<lparr> profiles := (profiles st)(hn_serial h \<mapsto>
       \<lparr> pf_generation = generation, pf_suspended = False, pf_config = replacement \<rparr>) \<rparr>))))"

definition replace_authority_profile :: "handle \<Rightarrow> ai_authority_profile_config \<Rightarrow> unit app_action" where
  "replace_authority_profile h config =
     (let replacement = sorted_config config in
      bindA (resultA (ensureE ConfigInvalid (valid_profile_config replacement))) (\<lambda>_.
      bindA instanceA (\<lambda>inst.
      bindA (resultA (ensureE ConfigInvalid (hn_instance h = inst \<and> hn_project h = pc_project replacement))) (\<lambda>_.
      bindA (find_slot ConfigInvalid (pc_project replacement)) (\<lambda>_.
      gated (pc_project replacement) (on_security (replace_profile h replacement)))))))"

definition suspend_profile :: "handle \<Rightarrow> bool \<Rightarrow> security_state \<Rightarrow> (unit \<times> security_state) app_result" where
  "suspend_profile h suspended st =
     bindE (found ConfigInvalid (\<lambda>_. True) (profiles st (hn_serial h))) (\<lambda>profile.
     if pf_suspended profile = suspended then Inr ((), st)
     else
       bindE (next_epoch (pf_generation profile)) (\<lambda>generation.
       bindE (bump_epoch (hn_project h) st) (\<lambda>st.
       Inr ((), st\<lparr> profiles := (profiles st)(hn_serial h \<mapsto>
         profile\<lparr> pf_suspended := suspended, pf_generation := generation \<rparr>) \<rparr>))))"

definition set_authority_profile_suspended :: "handle \<Rightarrow> bool \<Rightarrow> unit app_action" where
  "set_authority_profile_suspended h suspended =
     bindA instanceA (\<lambda>inst.
     bindA (resultA (ensureE ConfigInvalid (hn_instance h = inst))) (\<lambda>_.
     bindA (find_slot ConfigInvalid (hn_project h)) (\<lambda>_.
     gated (hn_project h) (on_security (suspend_profile h suspended)))))"

section \<open>Executions of agents\<close>

definition readS :: "(security_state \<Rightarrow> 'a app_result) \<Rightarrow> 'a app_action" where
  "readS f = readA (\<lambda>app. f (security app))"

text \<open>Registration seals the head of the target Ref.\<close>

definition live_profile :: "handle \<Rightarrow> security_state \<Rightarrow> authority_profile_record app_result" where
  "live_profile h st =
     bindE (found ConfigInvalid (\<lambda>profile. \<not> pf_suspended profile) (profiles st (hn_serial h))) (\<lambda>profile.
     if pc_project (pf_config profile) \<noteq> hn_project h then fails ConfigInvalid else Inr profile)"

definition insert_registration ::
    "nat \<Rightarrow> handle \<Rightarrow> authority_profile_record \<Rightarrow> str option \<Rightarrow> security_state \<Rightarrow> (handle \<times> security_state) app_result" where
  "insert_registration inst h profile expected st =
     bindE (found ConfigInvalid (\<lambda>live. \<not> pf_suspended live \<and> pf_generation live = pf_generation profile
       \<and> pc_project (pf_config live) = hn_project h) (profiles st (hn_serial h))) (\<lambda>live.
     bindE (allocate_serial st) (\<lambda>(serial, st).
     Inr (\<lparr> hn_instance = inst, hn_project = hn_project h, hn_serial = serial \<rparr>,
       st\<lparr> registrations := (registrations st)(serial \<mapsto> \<lparr> rg_project = hn_project h, rg_profile_serial = hn_serial h,
         rg_profile_generation = pf_generation live, rg_expected_target_head = expected \<rparr>) \<rparr>)))"

definition register_execution :: "handle \<Rightarrow> handle app_action" where
  "register_execution h =
     bindA instanceA (\<lambda>inst.
     bindA (resultA (ensureE ConfigInvalid (hn_instance h = inst))) (\<lambda>_.
     bindA (find_slot ConfigInvalid (hn_project h)) (\<lambda>_.
     gated (hn_project h) (
       bindA (readS (live_profile h)) (\<lambda>profile.
       bindA (on_repository (hn_project h) (\<lambda>_. ServiceUnavailable)
         (readA (read_head (pc_target_ref_name (pf_config profile))))) (\<lambda>expected.
       on_security (insert_registration inst h profile expected)))))))"

definition map_preflight_error :: "repository_error \<Rightarrow> application_error" where
  "map_preflight_error e =
     (let code = repository_error_code e in
      if code = ''stale_base'' then AppStaleBase
      else if code = ''ref_conflict'' then AppRefConflict
      else if code = ''storage_error'' \<or> code = ''resource_limit'' then ServiceUnavailable
      else ConfigInvalid)"

definition preflight_matches_profile :: "ai_preflight_decision \<Rightarrow> ai_authority_profile_config \<Rightarrow> bool" where
  "preflight_matches_profile d c \<longleftrightarrow> pd_actor_id d = pc_actor_id c \<and> pd_project_id d = pc_project c \<and> pd_principal_id d = pc_principal_id c
     \<and> pd_base_ref d = pc_base_ref_name c \<and> pd_target_ref_name d = pc_target_ref_name c \<and> pd_context_pack_oid d = pc_context_pack_oid c
     \<and> pd_side_effect_class d = pc_side_effect_class c \<and> pd_exact_capabilities d = pc_exact_capabilities c"

definition i128_max :: int where
  "i128_max = 170141183460469231731687303715884105727"

definition i128_checked_add :: "int \<Rightarrow> int \<Rightarrow> int option" where
  "i128_checked_add a b = (if a + b \<le> i128_max \<and> a + b \<ge> - i128_max - 1 then Some (a + b) else None)"

definition allowed_in :: "str \<Rightarrow> authenticated_session \<Rightarrow> project_security \<Rightarrow> bool" where
  "allowed_in p session sec \<longleftrightarrow> ss_actor_id session \<in> sec_allowed_actors sec"

definition profile_permits :: "authenticated_session \<Rightarrow> str \<Rightarrow> nat \<Rightarrow> authority_profile_record \<Rightarrow> bool" where
  "profile_permits session p generation profile \<longleftrightarrow> \<not> pf_suspended profile \<and> pf_generation profile = generation
     \<and> pc_project (pf_config profile) = p \<and> pc_actor_id (pf_config profile) = ss_actor_id session"

definition read_execution ::
    "nat \<Rightarrow> authenticated_session \<Rightarrow> str \<Rightarrow> handle \<Rightarrow> security_state
      \<Rightarrow> (nat \<times> execution_registration_record \<times> authority_profile_record) app_result" where
  "read_execution inst session p h st =
     bindE (found ProjectAccessDenied (allowed_in p session) (project_securities st p)) (\<lambda>sec.
     if hn_instance h \<noteq> inst \<or> hn_project h \<noteq> p then fails ProjectAccessDenied
     else
     bindE (found ProjectAccessDenied (\<lambda>rg. rg_project rg = p) (registrations st (hn_serial h))) (\<lambda>rg.
     bindE (found ProjectAccessDenied (profile_permits session p (rg_profile_generation rg)) (profiles st (rg_profile_serial rg))) (\<lambda>profile.
     Inr (sec_epoch sec, rg, profile))))"

text \<open>The permit ends with its time to live or with the Grant.\<close>

definition permit_deadline :: "int \<Rightarrow> ai_preflight_decision \<Rightarrow> int app_result" where
  "permit_deadline ttl d =
     (case i128_checked_add (pd_evaluated_at d) ttl of
        None \<Rightarrow> fails ServiceUnavailable
      | Some deadline \<Rightarrow>
          let not_after = min deadline (pd_grant_expires_at d) in
          if pd_evaluated_at d \<ge> not_after then fails ConfigInvalid else Inr not_after)"

definition issue_permit ::
    "nat \<Rightarrow> authenticated_session \<Rightarrow> str \<Rightarrow> handle \<Rightarrow> nat \<Rightarrow> execution_registration_record \<Rightarrow> ai_preflight_decision \<Rightarrow> int
      \<Rightarrow> security_state \<Rightarrow> (permit \<times> security_state) app_result" where
  "issue_permit inst session p h epoch rg d not_after st =
     bindE (found ProjectAccessDenied (\<lambda>sec. sec_epoch sec = epoch \<and> allowed_in p session sec) (project_securities st p)) (\<lambda>_.
     bindE (found ProjectAccessDenied (\<lambda>live. live = rg) (registrations st (hn_serial h))) (\<lambda>_.
     bindE (found ProjectAccessDenied (\<lambda>live. \<not> pf_suspended live \<and> pf_generation live = rg_profile_generation rg
       \<and> pc_actor_id (pf_config live) = ss_actor_id session) (profiles st (rg_profile_serial rg))) (\<lambda>_.
     bindE (allocate_serial st) (\<lambda>(serial, st).
     Inr (\<lparr> pm_instance = inst, pm_serial = serial \<rparr>,
       st\<lparr> registrations := (registrations st)(hn_serial h := None),
           permits := (permits st)(serial \<mapsto>
             \<lparr> pt_actor_id = ss_actor_id session, pt_session_id = ss_session_id session, pt_project = p, pt_security_epoch = epoch,
               pt_profile_serial = rg_profile_serial rg, pt_profile_generation = rg_profile_generation rg,
               pt_execution_serial = hn_serial h, pt_not_after = not_after, pt_last_observed = pd_evaluated_at d,
               pt_preflight = d \<rparr>) \<rparr>)))))"

definition profile_target :: "authority_profile_record \<Rightarrow> execution_registration_record \<Rightarrow> ai_publication_target" where
  "profile_target profile rg = \<lparr> tg_ref_name = pc_target_ref_name (pf_config profile), tg_expected_head = rg_expected_target_head rg,
     tg_side_effect_class = pc_side_effect_class (pf_config profile) \<rparr>"

definition prepare_ai ::
    "core_view \<Rightarrow> authentication \<Rightarrow> reading \<Rightarrow> str \<Rightarrow> handle \<Rightarrow> permit app_action" where
  "prepare_ai view auth now p h =
     bindA (resultA (authenticate auth)) (\<lambda>session.
     bindA (find_slot ProjectAccessDenied p) (\<lambda>_.
     bindA instanceA (\<lambda>inst.
     gated p (
       bindA (readS (read_execution inst session p h)) (\<lambda>(epoch, rg, profile).
       bindA (on_repository p map_preflight_error (readA (\<lambda>r.
         preflight_proposal (view r) (refs_of r) (profile_authority (pf_config profile)) now
           (profile_target profile rg)))) (\<lambda>d.
       bindA (resultA (ensureE ConfigInvalid (preflight_matches_profile d (pf_config profile)))) (\<lambda>_.
       bindA (readA (\<lambda>app. permit_deadline (permit_ttl_nanos app) d)) (\<lambda>not_after.
       on_security (issue_permit inst session p h epoch rg d not_after)))))))))"

section \<open>Execution and publication\<close>

definition permit_time :: "reading \<Rightarrow> int \<Rightarrow> int \<Rightarrow> int app_result" where
  "permit_time now not_after floor_time =
     (case now of
        None \<Rightarrow> fails ExecutionPermitInvalid
      | Some t \<Rightarrow> if t < floor_time \<or> t \<ge> not_after then fails ExecutionPermitInvalid else Inr t)"

definition validate_live_permit :: "permit_record \<Rightarrow> authenticated_session \<Rightarrow> security_state \<Rightarrow> authority_profile_record app_result" where
  "validate_live_permit rec session st =
     bindE (found ExecutionPermitInvalid (\<lambda>sec. sec_epoch sec = pt_security_epoch rec \<and> allowed_in (pt_project rec) session sec)
       (project_securities st (pt_project rec))) (\<lambda>_.
     found ExecutionPermitInvalid (profile_permits session (pt_project rec) (pt_profile_generation rec)) (profiles st (pt_profile_serial rec)))"

definition execution_context :: "permit_record \<Rightarrow> ai_execution_context" where
  "execution_context rec =
     (let d = pt_preflight rec in
      \<lparr> xc_execution_id = pt_execution_serial rec, xc_actor_id = pd_actor_id d, xc_project_id = pd_project_id d,
        xc_principal_id = pd_principal_id d, xc_base_ref_name = pd_base_ref d, xc_base_head = pd_base_commit_oid d,
        xc_target_ref_name = pd_target_ref_name d, xc_expected_target_head = pd_expected_target_head d,
        xc_context_pack_oid = pd_context_pack_oid d, xc_capabilities = pd_exact_capabilities d,
        xc_side_effect_class = pd_side_effect_class d, xc_not_after = pt_not_after rec \<rparr>)"

text \<open>The claim removes the permit before every further check: whatever follows, it is burned.\<close>

definition burn_permit :: "permit \<Rightarrow> security_state \<Rightarrow> (permit_record \<times> security_state) app_result" where
  "burn_permit pm st =
     bindE (found ExecutionPermitInvalid (\<lambda>_. True) (permits st (pm_serial pm))) (\<lambda>rec.
     Inr (rec, st\<lparr> permits := (permits st)(pm_serial pm := None) \<rparr>))"

record claimed_execution =
  cl_session :: authenticated_session
  cl_record :: permit_record
  cl_started_at :: int

definition claim_execution :: "authentication \<Rightarrow> reading \<Rightarrow> permit \<Rightarrow> claimed_execution app_action" where
  "claim_execution auth now pm =
     bindA (resultA (authenticate auth)) (\<lambda>session.
     bindA instanceA (\<lambda>inst.
     bindA (resultA (ensureE ExecutionPermitInvalid (pm_instance pm = inst))) (\<lambda>_.
     bindA (on_security (burn_permit pm)) (\<lambda>rec.
     bindA (resultA (ensureE ExecutionPermitInvalid (pt_actor_id rec = ss_actor_id session \<and> pt_session_id rec = ss_session_id session))) (\<lambda>_.
     bindA (find_slot ExecutionPermitInvalid (pt_project rec)) (\<lambda>_.
     bindA (resultA (permit_time now (pt_not_after rec) (pt_last_observed rec))) (\<lambda>started_at.
     bindA (readS (validate_live_permit rec session)) (\<lambda>_.
     resultA (Inr \<lparr> cl_session = session, cl_record = rec\<lparr> pt_last_observed := started_at \<rparr>, cl_started_at = started_at \<rparr>)))))))))"

text \<open>The clock the core reads: past the permit's deadline it reports the end of the Grant.\<close>

definition deadline_clock :: "int \<Rightarrow> int \<Rightarrow> int \<Rightarrow> reading \<Rightarrow> reading" where
  "deadline_clock floor_time not_after grant_expires_at now =
     (case now of
        None \<Rightarrow> None
      | Some t \<Rightarrow> if t < floor_time then None else if t \<ge> not_after then Some (max t grant_expires_at) else Some t)"

definition core_generated :: "executed_ai_proposal \<Rightarrow> ai_generated_proposal" where
  "core_generated x = \<lparr> gen_new_head = ex_new_head x, gen_activity_oid = ex_activity_oid x, gen_message = ex_message x \<rparr>"

definition permit_publication ::
    "core_view \<Rightarrow> permit_record \<Rightarrow> authority_profile_record \<Rightarrow> executed_ai_proposal \<Rightarrow> int \<Rightarrow> reading \<Rightarrow> reading
      \<Rightarrow> authorization_decision repo_action" where
  "permit_publication view rec profile generated checked_at now later r =
     (let clock = deadline_clock checked_at (pt_not_after rec) (pd_grant_expires_at (pt_preflight rec)) in
      on_refs (publish_preflighted_through (view r) (profile_authority (pf_config profile)) (clock now) (clock later)
        (pt_preflight rec) (core_generated generated)) r)"

definition receipt_for :: "nat \<Rightarrow> str \<Rightarrow> authorization_decision \<Rightarrow> ai_publication_receipt" where
  "receipt_for inst p d = \<lparr> pub_decision = d, pub_admitted_proposal = \<lparr> ad_instance = inst, ad_project = p,
     ad_proposal_ref_name = ref_name (dec_reflog d), ad_proposal_head = new_head (dec_reflog d) \<rparr> \<rparr>"

definition complete_execution ::
    "core_view \<Rightarrow> claimed_execution \<Rightarrow> execution \<Rightarrow> authentication \<Rightarrow> reading \<Rightarrow> reading \<Rightarrow> reading
      \<Rightarrow> ai_publication_receipt app_action" where
  "complete_execution view cl outcome final_auth checked now later =
     (let rec = cl_record cl; p = pt_project rec in
      bindA (resultA (run_executor outcome)) (\<lambda>generated.
      bindA (resultA (authenticate final_auth)) (\<lambda>final_session.
      bindA (resultA (ensureE ExecutionPermitInvalid (final_session = cl_session cl))) (\<lambda>_.
      gated p (
        bindA (resultA (permit_time checked (pt_not_after rec) (cl_started_at cl))) (\<lambda>checked_at.
        bindA (readS (validate_live_permit rec final_session)) (\<lambda>profile.
        bindA instanceA (\<lambda>inst.
        bindA (on_repository p AppCore (permit_publication view rec profile generated checked_at now later)) (\<lambda>d.
        resultA (Inr (receipt_for inst p d)))))))))))"

definition execute_and_publish_ai ::
    "core_view \<Rightarrow> authentication \<Rightarrow> reading \<Rightarrow> permit \<Rightarrow> (ai_execution_context \<Rightarrow> execution)
      \<Rightarrow> authentication \<Rightarrow> reading \<Rightarrow> reading \<Rightarrow> reading \<Rightarrow> ai_publication_receipt app_action" where
  "execute_and_publish_ai view auth started pm executor final_auth checked now later =
     bindA (claim_execution auth started pm) (\<lambda>cl.
     complete_execution view cl (executor (execution_context (cl_record cl))) final_auth checked now later)"

section \<open>Authority profiles of humans\<close>

definition insert_human_profile :: "nat \<Rightarrow> human_profile_config \<Rightarrow> security_state \<Rightarrow> (handle \<times> security_state) app_result" where
  "insert_human_profile inst config st =
     bindE (allocate_serial st) (\<lambda>(serial, st).
     Inr (\<lparr> hn_instance = inst, hn_project = hc_project config, hn_serial = serial \<rparr>,
       st\<lparr> human_profiles := (human_profiles st)(serial \<mapsto> \<lparr> hp_generation = 1, hp_suspended = False, hp_config = config \<rparr>) \<rparr>))"

definition register_human_profile :: "human_profile_config \<Rightarrow> handle app_action" where
  "register_human_profile config =
     bindA (resultA (ensureE ConfigInvalid (valid_human_config config))) (\<lambda>_.
     bindA (find_slot ConfigInvalid (hc_project config)) (\<lambda>_.
     bindA instanceA (\<lambda>inst.
     gated (hc_project config) (on_security (insert_human_profile inst config)))))"

definition update_human_profile ::
    "handle \<Rightarrow> human_profile_record \<Rightarrow> bool \<Rightarrow> human_profile_config \<Rightarrow> security_state \<Rightarrow> (unit \<times> security_state) app_result" where
  "update_human_profile h profile suspended config st =
     bindE (next_epoch (hp_generation profile)) (\<lambda>generation.
     bindE (bump_epoch (hn_project h) st) (\<lambda>st.
     Inr ((), st\<lparr> human_profiles := (human_profiles st)(hn_serial h \<mapsto>
       \<lparr> hp_generation = generation, hp_suspended = suspended, hp_config = config \<rparr>) \<rparr>)))"

definition find_human_profile :: "handle \<Rightarrow> security_state \<Rightarrow> human_profile_record app_result" where
  "find_human_profile h st =
     found ConfigInvalid (\<lambda>profile. hc_project (hp_config profile) = hn_project h) (human_profiles st (hn_serial h))"

definition replace_human :: "handle \<Rightarrow> human_profile_config \<Rightarrow> security_state \<Rightarrow> (unit \<times> security_state) app_result" where
  "replace_human h replacement st =
     bindE (find_human_profile h st) (\<lambda>profile. update_human_profile h profile False replacement st)"

definition replace_human_profile :: "handle \<Rightarrow> human_profile_config \<Rightarrow> unit app_action" where
  "replace_human_profile h replacement =
     bindA (resultA (ensureE ConfigInvalid (valid_human_config replacement))) (\<lambda>_.
     bindA instanceA (\<lambda>inst.
     bindA (resultA (ensureE ConfigInvalid (hn_instance h = inst \<and> hn_project h = hc_project replacement))) (\<lambda>_.
     bindA (find_slot ConfigInvalid (hc_project replacement)) (\<lambda>_.
     gated (hc_project replacement) (on_security (replace_human h replacement))))))"

definition suspend_human :: "handle \<Rightarrow> bool \<Rightarrow> security_state \<Rightarrow> (unit \<times> security_state) app_result" where
  "suspend_human h suspended st =
     bindE (find_human_profile h st) (\<lambda>profile.
     if hp_suspended profile = suspended then Inr ((), st)
     else update_human_profile h profile suspended (hp_config profile) st)"

definition set_human_profile_suspended :: "handle \<Rightarrow> bool \<Rightarrow> unit app_action" where
  "set_human_profile_suspended h suspended =
     bindA instanceA (\<lambda>inst.
     bindA (resultA (ensureE ConfigInvalid (hn_instance h = inst))) (\<lambda>_.
     bindA (find_slot ConfigInvalid (hn_project h)) (\<lambda>_.
     gated (hn_project h) (on_security (suspend_human h suspended)))))"

section \<open>Registrations of decisions\<close>

definition human_profile_live :: "str \<Rightarrow> human_profile_record \<Rightarrow> bool" where
  "human_profile_live p profile \<longleftrightarrow> \<not> hp_suspended profile \<and> hc_project (hp_config profile) = p"

definition insert_human_registration ::
    "nat \<Rightarrow> handle \<Rightarrow> (human_profile_record \<Rightarrow> bool) \<Rightarrow> human_profile_record \<Rightarrow> str \<Rightarrow> str \<Rightarrow> str \<Rightarrow> human_decision_candidate
      \<Rightarrow> security_state \<Rightarrow> (handle \<times> security_state) app_result" where
  "insert_human_registration inst h live profile head_oid proposal_ref proposal candidate st =
     bindE (found ConfigInvalid (\<lambda>q. live q \<and> hp_generation q = hp_generation profile) (human_profiles st (hn_serial h))) (\<lambda>_.
     bindE (allocate_serial st) (\<lambda>(serial, st).
     Inr (\<lparr> hn_instance = inst, hn_project = hn_project h, hn_serial = serial \<rparr>,
       st\<lparr> human_registrations := (human_registrations st)(serial \<mapsto>
         \<lparr> hr_project = hn_project h, hr_profile_serial = hn_serial h, hr_profile_generation = hp_generation profile,
           hr_decision_head = head_oid, hr_proposal_ref_name = proposal_ref, hr_proposal_head = proposal, hr_candidate = candidate \<rparr>) \<rparr>)))"

definition repo_head :: "str \<Rightarrow> str \<Rightarrow> str option app_action" where
  "repo_head p n = on_repository p (\<lambda>_. ServiceUnavailable) (readA (read_head n))"

definition register_human_decision :: "handle \<Rightarrow> admitted_proposal_handle \<Rightarrow> human_decision_candidate \<Rightarrow> handle app_action" where
  "register_human_decision h admitted candidate =
     bindA (resultA (ensureE ConfigInvalid (valid_candidate candidate))) (\<lambda>_.
     bindA instanceA (\<lambda>inst.
     bindA (resultA (ensureE ConfigInvalid (hn_instance h = inst \<and> ad_instance admitted = inst \<and> hn_project h = ad_project admitted))) (\<lambda>_.
     bindA (find_slot ConfigInvalid (hn_project h)) (\<lambda>_.
     gated (hn_project h) (
       bindA (readS (\<lambda>st. found ConfigInvalid (human_profile_live (hn_project h)) (human_profiles st (hn_serial h)))) (\<lambda>profile.
       bindA (repo_head (hn_project h) (hc_decision_ref_name (hp_config profile))) (\<lambda>decision.
       bindA (resultA (found ConfigInvalid (\<lambda>_. True) decision)) (\<lambda>head_oid.
       bindA (repo_head (hn_project h) (ad_proposal_ref_name admitted)) (\<lambda>current.
       bindA (resultA (ensureE ConfigInvalid (current = Some (ad_proposal_head admitted)))) (\<lambda>_.
       on_security (insert_human_registration inst h (human_profile_live (hn_project h)) profile head_oid
         (ad_proposal_ref_name admitted) (ad_proposal_head admitted) candidate)))))))))))"

definition binding_profile_live :: "durable_proposal_binding \<Rightarrow> human_profile_record \<Rightarrow> bool" where
  "binding_profile_live b profile \<longleftrightarrow> human_profile_live (db_project b) profile
     \<and> hc_decision_ref_name (hp_config profile) = db_decision_ref_name b"

definition check_binding :: "handle \<Rightarrow> durable_proposal_binding \<Rightarrow> human_profile_record app_action" where
  "check_binding h b =
     bindA (readS (\<lambda>st. found ConfigInvalid (binding_profile_live b) (human_profiles st (hn_serial h)))) (\<lambda>profile.
     bindA (repo_head (db_project b) (db_proposal_ref_name b)) (\<lambda>current_proposal.
     bindA (repo_head (db_project b) (db_decision_ref_name b)) (\<lambda>current_decision.
     bindA (resultA (ensureE AppRefConflict (current_proposal = Some (db_proposal_head b)))) (\<lambda>_.
     bindA (resultA (ensureE AppStaleBase (current_decision = Some (db_decision_head b)))) (\<lambda>_.
     resultA (Inr profile))))))"

definition verify_recovered_human_decision_binding :: "handle \<Rightarrow> durable_proposal_binding \<Rightarrow> unit app_action" where
  "verify_recovered_human_decision_binding h b =
     bindA (resultA (ensureE ConfigInvalid (valid_durable_binding b))) (\<lambda>_.
     bindA instanceA (\<lambda>inst.
     bindA (resultA (ensureE ConfigInvalid (hn_instance h = inst \<and> hn_project h = db_project b))) (\<lambda>_.
     bindA (find_slot ConfigInvalid (db_project b)) (\<lambda>_.
     gated (db_project b) (
       bindA (check_binding h b) (\<lambda>profile.
       readS (\<lambda>st. bindE (found ConfigInvalid (\<lambda>q. binding_profile_live b q \<and> hp_generation q = hp_generation profile)
         (human_profiles st (hn_serial h))) (\<lambda>_. Inr ()))))))))"

definition register_recovered_human_decision ::
    "handle \<Rightarrow> durable_proposal_binding \<Rightarrow> human_decision_candidate \<Rightarrow> handle app_action" where
  "register_recovered_human_decision h b candidate =
     bindA (resultA (ensureE ConfigInvalid (valid_candidate candidate))) (\<lambda>_.
     bindA (resultA (ensureE ConfigInvalid (valid_durable_binding b))) (\<lambda>_.
     bindA instanceA (\<lambda>inst.
     bindA (resultA (ensureE ConfigInvalid (hn_instance h = inst \<and> hn_project h = db_project b))) (\<lambda>_.
     bindA (find_slot ConfigInvalid (db_project b)) (\<lambda>_.
     gated (db_project b) (
       bindA (check_binding h b) (\<lambda>profile.
       on_security (insert_human_registration inst h (binding_profile_live b) profile (db_decision_head b)
         (db_proposal_ref_name b) (db_proposal_head b) candidate))))))))"

section \<open>Decisions\<close>

definition human_profile_permits :: "authenticated_session \<Rightarrow> str \<Rightarrow> nat \<Rightarrow> human_profile_record \<Rightarrow> bool" where
  "human_profile_permits session p generation profile \<longleftrightarrow> \<not> hp_suspended profile \<and> hp_generation profile = generation
     \<and> hc_project (hp_config profile) = p \<and> hc_human_id (hp_config profile) = ss_actor_id session"

definition read_human_registration ::
    "nat \<Rightarrow> authenticated_session \<Rightarrow> str \<Rightarrow> handle \<Rightarrow> security_state \<Rightarrow> (nat \<times> human_registration_record) app_result" where
  "read_human_registration inst session p h st =
     bindE (found ProjectAccessDenied (allowed_in p session) (project_securities st p)) (\<lambda>sec.
     if hn_instance h \<noteq> inst \<or> hn_project h \<noteq> p then fails ProjectAccessDenied
     else
     bindE (found ProjectAccessDenied (\<lambda>rg. hr_project rg = p) (human_registrations st (hn_serial h))) (\<lambda>rg.
     bindE (found ProjectAccessDenied (human_profile_permits session p (hr_profile_generation rg)) (human_profiles st (hr_profile_serial rg))) (\<lambda>_.
     Inr (sec_epoch sec, rg))))"

definition human_permit_deadline :: "reading \<Rightarrow> int \<Rightarrow> (int \<times> int) app_result" where
  "human_permit_deadline now ttl =
     (case now of
        None \<Rightarrow> fails ServiceUnavailable
      | Some issued_at \<Rightarrow>
          (case i128_checked_add issued_at ttl of
             None \<Rightarrow> fails ServiceUnavailable
           | Some not_after \<Rightarrow> if issued_at \<ge> not_after then fails ServiceUnavailable else Inr (issued_at, not_after)))"

definition issue_human_permit ::
    "nat \<Rightarrow> authenticated_session \<Rightarrow> str \<Rightarrow> handle \<Rightarrow> nat \<Rightarrow> human_registration_record \<Rightarrow> int \<Rightarrow> int
      \<Rightarrow> security_state \<Rightarrow> (permit \<times> security_state) app_result" where
  "issue_human_permit inst session p h epoch rg issued_at not_after st =
     bindE (found ProjectAccessDenied (\<lambda>sec. sec_epoch sec = epoch \<and> allowed_in p session sec) (project_securities st p)) (\<lambda>_.
     bindE (found ProjectAccessDenied (\<lambda>live. live = rg) (human_registrations st (hn_serial h))) (\<lambda>_.
     bindE (found ProjectAccessDenied (human_profile_permits session p (hr_profile_generation rg)) (human_profiles st (hr_profile_serial rg))) (\<lambda>_.
     bindE (allocate_serial st) (\<lambda>(serial, st).
     Inr (\<lparr> pm_instance = inst, pm_serial = serial \<rparr>,
       st\<lparr> human_registrations := (human_registrations st)(hn_serial h := None),
           human_permits := (human_permits st)(serial \<mapsto>
             \<lparr> ht_actor_id = ss_actor_id session, ht_session_id = ss_session_id session, ht_project = p, ht_security_epoch = epoch,
               ht_profile_serial = hr_profile_serial rg, ht_profile_generation = hr_profile_generation rg,
               ht_decision_head = hr_decision_head rg, ht_proposal_ref_name = hr_proposal_ref_name rg,
               ht_proposal_head = hr_proposal_head rg, ht_candidate = hr_candidate rg,
               ht_not_after = not_after, ht_last_observed = issued_at \<rparr>) \<rparr>)))))"

definition prepare_human_decision :: "authentication \<Rightarrow> reading \<Rightarrow> str \<Rightarrow> handle \<Rightarrow> permit app_action" where
  "prepare_human_decision auth now p h =
     bindA (resultA (authenticate auth)) (\<lambda>session.
     bindA (find_slot ProjectAccessDenied p) (\<lambda>_.
     bindA instanceA (\<lambda>inst.
     gated p (
       bindA (readS (read_human_registration inst session p h)) (\<lambda>(epoch, rg).
       bindA (readA (\<lambda>app. human_permit_deadline now (permit_ttl_nanos app))) (\<lambda>(issued_at, not_after).
       on_security (issue_human_permit inst session p h epoch rg issued_at not_after)))))))"

definition burn_human_permit :: "permit \<Rightarrow> security_state \<Rightarrow> (human_permit_record \<times> security_state) app_result" where
  "burn_human_permit pm st =
     bindE (found ExecutionPermitInvalid (\<lambda>_. True) (human_permits st (pm_serial pm))) (\<lambda>rec.
     Inr (rec, st\<lparr> human_permits := (human_permits st)(pm_serial pm := None) \<rparr>))"

definition validate_live_human_permit :: "human_permit_record \<Rightarrow> authenticated_session \<Rightarrow> security_state \<Rightarrow> human_profile_record app_result" where
  "validate_live_human_permit rec session st =
     bindE (found ExecutionPermitInvalid (\<lambda>sec. sec_epoch sec = ht_security_epoch rec \<and> allowed_in (ht_project rec) session sec)
       (project_securities st (ht_project rec))) (\<lambda>_.
     found ExecutionPermitInvalid (human_profile_permits session (ht_project rec) (ht_profile_generation rec))
       (human_profiles st (ht_profile_serial rec)))"

text \<open>The clock the core reads fails from the permit's deadline on.\<close>

definition human_deadline_clock :: "int \<Rightarrow> int \<Rightarrow> reading \<Rightarrow> reading" where
  "human_deadline_clock floor_time not_after now =
     (case now of None \<Rightarrow> None | Some t \<Rightarrow> if t < floor_time \<or> t \<ge> not_after then None else Some t)"

definition candidate_update :: "human_decision_candidate \<Rightarrow> human_decision_update" where
  "candidate_update c = \<lparr> hd_new_head = cd_new_head c, hd_decision_feedback_oid = cd_decision_feedback_oid c, hd_message = cd_message c \<rparr>"

definition permit_decision ::
    "core_view \<Rightarrow> human_permit_record \<Rightarrow> human_profile_record \<Rightarrow> int \<Rightarrow> reading \<Rightarrow> reading \<Rightarrow> human_decision_receipt repo_action" where
  "permit_decision view rec profile checked_at now later r =
     (let clock = human_deadline_clock checked_at (ht_not_after rec) in
      on_refs (publish_decision_through (view r)
        (human_authority (hp_config profile) (ht_decision_head rec) (ht_proposal_ref_name rec) (ht_proposal_head rec))
        (clock now) (clock later) (candidate_update (ht_candidate rec))) r)"

text \<open>Before the gate: the permit is removed, so whatever the outcome, it is burned.\<close>

record claimed_decision =
  kd_session :: authenticated_session
  kd_record :: human_permit_record
  kd_started_at :: int

definition claim_decision :: "authentication \<Rightarrow> reading \<Rightarrow> permit \<Rightarrow> claimed_decision app_action" where
  "claim_decision auth now pm =
     bindA (resultA (authenticate auth)) (\<lambda>session.
     bindA instanceA (\<lambda>inst.
     bindA (resultA (ensureE ExecutionPermitInvalid (pm_instance pm = inst))) (\<lambda>_.
     bindA (on_security (burn_human_permit pm)) (\<lambda>rec.
     bindA (resultA (ensureE ExecutionPermitInvalid (ht_actor_id rec = ss_actor_id session \<and> ht_session_id rec = ss_session_id session))) (\<lambda>_.
     bindA (find_slot ExecutionPermitInvalid (ht_project rec)) (\<lambda>_.
     bindA (resultA (permit_time now (ht_not_after rec) (ht_last_observed rec))) (\<lambda>started_at.
     resultA (Inr \<lparr> kd_session = session, kd_record = rec\<lparr> ht_last_observed := started_at \<rparr>, kd_started_at = started_at \<rparr>))))))))"

text \<open>Inside the gate: the permit is checked again and the decision is published.\<close>

definition complete_decision ::
    "core_view \<Rightarrow> claimed_decision \<Rightarrow> reading \<Rightarrow> reading \<Rightarrow> reading \<Rightarrow> human_decision_receipt app_action" where
  "complete_decision view kd checked now later =
     (let rec = kd_record kd in
      gated (ht_project rec) (
        bindA (resultA (permit_time checked (ht_not_after rec) (kd_started_at kd))) (\<lambda>checked_at.
        bindA (readS (validate_live_human_permit rec (kd_session kd))) (\<lambda>profile.
        on_repository (ht_project rec) AppCore
          (permit_decision view (rec\<lparr> ht_last_observed := checked_at \<rparr>) profile checked_at now later)))))"

definition publish_human_decision ::
    "core_view \<Rightarrow> authentication \<Rightarrow> reading \<Rightarrow> reading \<Rightarrow> reading \<Rightarrow> reading \<Rightarrow> permit \<Rightarrow> human_decision_receipt app_action" where
  "publish_human_decision view auth started checked now later pm =
     bindA (claim_decision auth started pm) (\<lambda>kd. complete_decision view kd checked now later)"

end
