(* ===== verification/Application_Laws.thy ===== *)
theory Application_Laws
  imports Application Proposal_Laws Decision_Laws
begin

text \<open>
  What every operation of the application keeps: serial numbers and epochs only grow, a permit or registration
  that is gone stays gone, and the Ref stores stay well-formed. The locale \<open>app_relation\<close> lifts such a
  relation from the parts of an operation to the operation, and the model's relation \<open>app_good\<close> is an instance.
\<close>

section \<open>Results\<close>

named_theorems app_simps \<open>when the helpers of the application succeed\<close>

lemma found_ok [app_simps]: "found e P x = Inr y \<longleftrightarrow> x = Some y \<and> P y"
  by (auto simp: found_def split: option.splits)

lemma ensureE_ok [app_simps]: "ensureE e b = Inr u \<longleftrightarrow> b"
  by (simp add: ensureE_def)

lemma next_epoch_ok [app_simps]: "next_epoch n = Inr m \<longleftrightarrow> n \<noteq> u64_max \<and> m = n + 1"
  by (auto simp: next_epoch_def)

lemma allocate_serial_ok [app_simps]:
  "allocate_serial st = Inr x \<longleftrightarrow> next_serial st \<noteq> u64_max \<and> x = (next_serial st, st\<lparr> next_serial := next_serial st + 1 \<rparr>)"
  by (auto simp: allocate_serial_def)

lemma bump_epoch_ok [app_simps]:
  "bump_epoch p st = Inr st' \<longleftrightarrow> (\<exists>sec. project_securities st p = Some sec \<and> sec_epoch sec \<noteq> u64_max
    \<and> st' = st\<lparr> project_securities := (project_securities st)(p \<mapsto> sec\<lparr> sec_epoch := sec_epoch sec + 1 \<rparr>) \<rparr>)"
  by (auto simp: bump_epoch_def bindE_eq_Inr app_simps)

lemma permit_time_ok [app_simps]: "permit_time now not_after low = Inr t \<longleftrightarrow> now = Some t \<and> low \<le> t \<and> t < not_after"
  by (auto simp: permit_time_def split: option.splits)

lemma bindA_ok: "bindA m f s = (Inr y, t) \<longleftrightarrow> (\<exists>x u. m s = (Inr x, u) \<and> f x u = (Inr y, t))"
  by (auto simp: bindA_def split: prod.splits sum.splits)

lemma on_security_ok:
  "on_security f app = (Inr x, app') \<longleftrightarrow> (\<exists>st. f (security app) = Inr (x, st) \<and> app' = app\<lparr> security := st \<rparr>)"
  by (auto simp: on_security_def split: sum.splits prod.splits)

lemma find_slot_ok: "find_slot e p app = (Inr u, app') \<longleftrightarrow> slots app p \<noteq> None \<and> app' = app"
  by (auto simp: find_slot_def)

lemma instanceA_ok: "instanceA app = (Inr n, app') \<longleftrightarrow> n = app_instance app \<and> app' = app"
  by (auto simp: instanceA_def)

lemma readS_ok: "readS f app = (Inr x, app') \<longleftrightarrow> f (security app) = Inr x \<and> app' = app"
  by (auto simp: readS_def)

lemma resultA_ok: "resultA r app = (Inr x, app') \<longleftrightarrow> r = Inr x \<and> app' = app"
  by auto

lemma at_gate_parts [simp]:
  "security (at_gate p g app) = security app" "app_instance (at_gate p g app) = app_instance app"
  "permit_ttl_nanos (at_gate p g app) = permit_ttl_nanos app"
  by (simp_all add: at_gate_def)

lemma in_gate_ok:
  "gated p f app = (Inr x, app') \<Longrightarrow> \<exists>g g' app1. f (at_gate p g app) = (Inr x, app1) \<and> app' = at_gate p g' app1"
  by (auto simp: gated_def split: option.splits prod.splits)

lemmas action_ok = bindA_ok on_security_ok find_slot_ok instanceA_ok readS_ok resultA_ok

section \<open>What is kept\<close>

text \<open>
  A relation between applications that ignores the gates: it holds across an operation, successful or not,
  when it holds across its parts.
\<close>

locale app_relation =
  fixes R :: "application \<Rightarrow> application \<Rightarrow> bool"
  assumes refl: "R app app" and trans: "R app app' \<Longrightarrow> R app' app'' \<Longrightarrow> R app app''" and gate: "R app (at_gate p g app)"
begin

lemma moves_pure: "moves R (resultA r)" "moves R (readA f)" "moves R (readS h)" "moves R (find_slot e p)" "moves R instanceA"
  unfolding readS_def find_slot_def instanceA_def by (simp_all add: moves_def refl)

lemma moves_gated:
  assumes "moves R f" shows "moves R (gated p f)"
proof -
  have "R app (at_gate p g' (snd (f (at_gate p g app))))" for app g g'
    using assms trans gate unfolding moves_def by blast
  then show ?thesis unfolding moves_def gated_def
    by (auto simp: refl split: option.splits prod.splits) (metis snd_conv)+
qed

lemma moves_bind: "moves R m \<Longrightarrow> (\<And>x. moves R (f x)) \<Longrightarrow> moves R (bindA m f)"
  by (rule moves_bindA) (auto intro: transpI trans)

lemma moves_pair: "(\<And>a b. moves R (f a b)) \<Longrightarrow> moves R (case x of (a, b) \<Rightarrow> f a b)"
  by (cases x) simp

lemmas moves_rules = moves_bind moves_pair moves_gated moves_pure

end

text \<open>
  The security state moves forward: serials are allocated upwards, epochs grow, and below the counter nothing
  appears that was not there.
\<close>

definition st_advances :: "security_state \<Rightarrow> security_state \<Rightarrow> bool" where
  "st_advances st st' \<longleftrightarrow> next_serial st \<le> next_serial st'
     \<and> (\<forall>p sec. project_securities st p = Some sec \<longrightarrow> (\<exists>sec'. project_securities st' p = Some sec' \<and> sec_epoch sec \<le> sec_epoch sec'))
     \<and> (\<forall>n<next_serial st. permits st' n \<in> {None, permits st n} \<and> human_permits st' n \<in> {None, human_permits st n}
          \<and> registrations st' n \<in> {None, registrations st n} \<and> human_registrations st' n \<in> {None, human_registrations st n})"

definition serials_ok :: "security_state \<Rightarrow> bool" where
  "serials_ok st \<longleftrightarrow> (\<forall>n\<ge>next_serial st. permits st n = None \<and> human_permits st n = None)"

definition refs_ok :: "application \<Rightarrow> bool" where
  "refs_ok app \<longleftrightarrow> (\<forall>p slot. slots app p = Some slot \<longrightarrow> store_inv (refs_of (slot_repository slot)))"

definition app_good :: "application \<Rightarrow> application \<Rightarrow> bool" where
  "app_good app app' \<longleftrightarrow> app_instance app' = app_instance app \<and> permit_ttl_nanos app' = permit_ttl_nanos app
     \<and> st_advances (security app) (security app') \<and> (serials_ok (security app) \<longrightarrow> serials_ok (security app'))
     \<and> (refs_ok app \<longrightarrow> refs_ok app')"

lemma st_advances_refl: "st_advances st st"
  by (auto simp: st_advances_def)

lemma st_advances_trans:
  assumes "st_advances st st'" "st_advances st' st''" shows "st_advances st st''"
proof -
  have "\<exists>sec''. project_securities st'' p = Some sec'' \<and> sec_epoch sec \<le> sec_epoch sec''" if "project_securities st p = Some sec" for p sec
    using that assms unfolding st_advances_def by (meson order_trans)
  moreover have "permits st'' n \<in> {None, permits st n} \<and> human_permits st'' n \<in> {None, human_permits st n}
      \<and> registrations st'' n \<in> {None, registrations st n} \<and> human_registrations st'' n \<in> {None, human_registrations st n}"
    if "n < next_serial st" for n
  proof -
    have "n < next_serial st'" using that assms(1) by (simp add: st_advances_def)
    with that assms show ?thesis unfolding st_advances_def by (metis insert_iff singletonD)
  qed
  ultimately show ?thesis using assms unfolding st_advances_def by simp
qed

lemma refs_ok_gate: "refs_ok app \<Longrightarrow> refs_ok (at_gate p g app)"
  by (auto simp: refs_ok_def at_gate_def split: if_splits)

interpretation kept: app_relation app_good
  by unfold_locales (auto simp: app_good_def st_advances_refl refs_ok_gate intro: st_advances_trans)

section \<open>The locked sections\<close>

definition secures :: "(security_state \<Rightarrow> ('a \<times> security_state) app_result) \<Rightarrow> bool" where
  "secures f \<longleftrightarrow> (\<forall>st x st'. f st = Inr (x, st') \<longrightarrow> st_advances st st' \<and> (serials_ok st \<longrightarrow> serials_ok st'))"

lemma moves_security: "secures f \<Longrightarrow> moves app_good (on_security f)"
  by (auto simp: moves_def on_security_def app_good_def secures_def refs_ok_def st_advances_refl split: sum.splits)

lemmas secures_defs = secures_def bindE_eq_Inr app_simps st_advances_def serials_ok_def

lemma secures_access: "secures (change_access a b f p)"
  by (auto simp: change_access_def secures_defs split: if_splits)

lemma secures_profiles: "secures (insert_profile i c)" "secures (replace_profile h c)" "secures (suspend_profile h b)"
  by (auto simp: insert_profile_def replace_profile_def suspend_profile_def secures_defs split: if_splits)

lemma secures_registration: "secures (insert_registration i h pf e)"
  by (auto simp: insert_registration_def secures_defs)

lemma secures_issue: "secures (issue_permit i se p h e rg d na)"
  by (auto simp: issue_permit_def secures_defs)

lemma secures_burn: "secures (burn_permit pm)" "secures (burn_human_permit pm)"
  by (auto simp: burn_permit_def burn_human_permit_def secures_defs)

lemma secures_human_profiles: "secures (insert_human_profile i hc)" "secures (replace_human h hc)" "secures (suspend_human h b)"
  by (auto simp: insert_human_profile_def replace_human_def suspend_human_def update_human_profile_def find_human_profile_def secures_defs
      split: if_splits)

lemma secures_human_registration: "secures (insert_human_registration i h lv pf hoid pr ph cd)"
  by (auto simp: insert_human_registration_def secures_defs)

lemma secures_human_issue: "secures (issue_human_permit i se p h e rg t na)"
  by (auto simp: issue_human_permit_def secures_defs)

lemmas secures_rules = secures_access secures_profiles secures_registration secures_issue secures_burn secures_human_profiles
  secures_human_registration secures_human_issue

section \<open>Calls of the core\<close>

definition keeps_refs :: "'a repo_action \<Rightarrow> bool" where
  "keeps_refs core \<longleftrightarrow> (\<forall>r. store_inv (refs_of r) \<longrightarrow> store_inv (refs_of (snd (core r))))"

lemma moves_repository: "keeps_refs core \<Longrightarrow> moves app_good (on_repository p f core)"
  by (auto simp: moves_def on_repository_def app_good_def keeps_refs_def refs_ok_def st_advances_refl split: option.splits prod.splits)
    (metis snd_conv)+

lemma keeps_read: "keeps_refs (readA f)"
  by (simp add: keeps_refs_def)

lemma keeps_on_refs:
  assumes "\<And>r x s. store_inv (refs_of r) \<Longrightarrow> f r (refs_of r) = Inr (x, s) \<Longrightarrow> store_inv s"
  shows "keeps_refs (\<lambda>r. on_refs (f r) r)"
  using assms by (auto simp: keeps_refs_def on_refs_def split: sum.splits)

lemma preflighted_inv:
  assumes "store_inv s" "publish_preflighted_through ov au now later d gen s = Inr (x, s')" shows "store_inv s'"
  using assms unfolding publish_preflighted_through_def bindE_eq_Inr by (auto elim: publish_internal_facts)

lemma decision_inv:
  assumes "store_inv s" "publish_decision_through ov au now later up s = Inr (x, s')" shows "store_inv s'"
  using assms by (rule publish_decision_cases)

lemma keeps_publications:
  "keeps_refs (permit_publication view rec profile generated checked_at now later)"
  "keeps_refs (permit_decision view hrec hprofile checked_at now later)"
  unfolding permit_publication_def permit_decision_def Let_def
  by (rule keeps_on_refs; blast intro: preflighted_inv decision_inv)+

section \<open>The operations\<close>

lemmas op_rules = kept.moves_rules moves_security moves_repository secures_rules keeps_read keeps_publications

lemma moves_access: "moves app_good (grant_project_access p a)" "moves app_good (revoke_project_access p a)"
  unfolding grant_project_access_def revoke_project_access_def by (intro op_rules)+

lemma moves_profiles: "moves app_good (register_authority_profile c)" "moves app_good (replace_authority_profile h c)"
  "moves app_good (set_authority_profile_suspended h b)"
  unfolding register_authority_profile_def replace_authority_profile_def set_authority_profile_suspended_def Let_def by (intro op_rules)+

lemma moves_executions: "moves app_good (register_execution h)" "moves app_good (prepare_ai view auth now p h)"
  "moves app_good (claim_execution auth now pm)" "moves app_good (complete_execution view cl outcome auth checked now later)"
  unfolding register_execution_def prepare_ai_def claim_execution_def complete_execution_def Let_def by (intro op_rules)+

lemma moves_human_profiles: "moves app_good (register_human_profile hc)" "moves app_good (replace_human_profile h hc)"
  "moves app_good (set_human_profile_suspended h b)"
  unfolding register_human_profile_def replace_human_profile_def set_human_profile_suspended_def by (intro op_rules)+

lemma moves_decisions: "moves app_good (register_human_decision h ad cd)" "moves app_good (verify_recovered_human_decision_binding h b)"
  "moves app_good (register_recovered_human_decision h b cd)" "moves app_good (prepare_human_decision auth now p h)"
  "moves app_good (claim_decision auth now' pm)" "moves app_good (complete_decision view kd checked now'' later)"
  unfolding register_human_decision_def verify_recovered_human_decision_binding_def register_recovered_human_decision_def check_binding_def
    prepare_human_decision_def claim_decision_def complete_decision_def repo_head_def Let_def by (intro op_rules)+

lemma moves_publish: "moves app_good (publish_human_decision view auth started checked now later pm)"
  unfolding publish_human_decision_def by (intro kept.moves_bind moves_decisions)

text \<open>A new application starts well-formed.\<close>

lemma add_projects_ok:
  assumes "foldE add_project sl projects = Inr sl'" "\<forall>pr\<in>set projects. store_inv (refs_of (snd pr))"
    "\<forall>p slot. sl p = Some slot \<longrightarrow> store_inv (refs_of (slot_repository slot))"
  shows "\<forall>p slot. sl' p = Some slot \<longrightarrow> store_inv (refs_of (slot_repository slot))"
  by (rule foldE_invariant [where P = "\<lambda>sl. \<forall>p slot. sl p = Some slot \<longrightarrow> store_inv (refs_of (slot_repository slot))", OF assms(1,3)]) (use assms(2) in \<open>fastforce simp: add_project_def split: if_splits\<close>)

lemma new_application_ok:
  assumes "new_application counter ttl projects = (Inr app, counter')" "\<forall>pr\<in>set projects. store_inv (refs_of (snd pr))"
  shows "serials_ok (security app) \<and> refs_ok app"
  using assms add_projects_ok [of Map.empty projects]
  by (auto simp: new_application_def bindE_eq_Inr serials_ok_def refs_ok_def initial_security_def split: if_splits sum.splits prod.splits)

text \<open>One operation by anyone, with any arguments and whatever the embedding service answered.\<close>

inductive app_step :: "core_view \<Rightarrow> application \<Rightarrow> application \<Rightarrow> bool" for view where
  "app_step view app (snd (grant_project_access p a app))"
| "app_step view app (snd (revoke_project_access p a app))"
| "app_step view app (snd (register_authority_profile c app))"
| "app_step view app (snd (replace_authority_profile h c app))"
| "app_step view app (snd (set_authority_profile_suspended h b app))"
| "app_step view app (snd (register_execution h app))"
| "app_step view app (snd (prepare_ai view auth now p h app))"
| "app_step view app (snd (claim_execution auth now pm app))"
| "app_step view app (snd (complete_execution view cl outcome auth checked now later app))"
| "app_step view app (snd (register_human_profile hc app))"
| "app_step view app (snd (replace_human_profile h hc app))"
| "app_step view app (snd (set_human_profile_suspended h b app))"
| "app_step view app (snd (register_human_decision h ad cd app))"
| "app_step view app (snd (verify_recovered_human_decision_binding h db app))"
| "app_step view app (snd (register_recovered_human_decision h db cd app))"
| "app_step view app (snd (prepare_human_decision auth now p h app))"
| "app_step view app (snd (claim_decision auth started pm app))"
| "app_step view app (snd (complete_decision view kd checked now later app))"

lemmas op_moves = moves_access moves_profiles moves_executions moves_human_profiles moves_decisions

lemma app_step_good: "app_step view app app' \<Longrightarrow> app_good app app'"
  by (induction rule: app_step.induct) (simp_all add: op_moves [unfolded moves_def])

lemma app_run_good: "(app_step view)\<^sup>*\<^sup>* app app' \<Longrightarrow> app_good app app'"
  by (induction rule: rtranclp_induct) (auto intro: kept.refl kept.trans app_step_good)

section \<open>Permits are claimed once\<close>

lemma burn_security:
  assumes "pm_instance pm = app_instance app" "permits (security app) (pm_serial pm) \<noteq> None"
  shows "permits (security (snd (claim_execution (Authenticated session) now pm app))) (pm_serial pm) = None"
proof -
  from assms(2) obtain rec where rec: "permits (security app) (pm_serial pm) = Some rec" by auto
  let ?st = "(security app)\<lparr> permits := (permits (security app))(pm_serial pm := None) \<rparr>"
  have burn: "on_security (burn_permit pm) app = (Inr rec, app\<lparr> security := ?st \<rparr>)"
    using rec by (simp add: on_security_def burn_permit_def found_def)
  have "security (snd (claim_execution (Authenticated session) now pm app)) = ?st"
    using assms(1) burn by (auto simp: claim_execution_def authenticate_def bindA_def instanceA_def ensureE_def find_slot_def readS_def
        split: sum.splits prod.splits)
  then show ?thesis by simp
qed

lemma burn_human_security:
  assumes "pm_instance pm = app_instance app" "human_permits (security app) (pm_serial pm) \<noteq> None"
  shows "human_permits (security (snd (claim_decision (Authenticated session) now pm app))) (pm_serial pm) = None"
proof -
  from assms(2) obtain rec where rec: "human_permits (security app) (pm_serial pm) = Some rec" by auto
  let ?st = "(security app)\<lparr> human_permits := (human_permits (security app))(pm_serial pm := None) \<rparr>"
  have burn: "on_security (burn_human_permit pm) app = (Inr rec, app\<lparr> security := ?st \<rparr>)"
    using rec by (simp add: on_security_def burn_human_permit_def found_def)
  have "security (snd (claim_decision (Authenticated session) now pm app)) = ?st"
    using assms(1) burn by (auto simp: claim_decision_def authenticate_def bindA_def instanceA_def ensureE_def find_slot_def
        split: sum.splits prod.splits)
  then show ?thesis by simp
qed

text \<open>A use of a permit is its claim, followed by the completion when the claim succeeded.\<close>

lemma publish_state:
  "snd (publish_human_decision view auth started checked now later pm app) = snd (claim_decision auth started pm app)
    \<or> (\<exists>kd. snd (publish_human_decision view auth started checked now later pm app)
        = snd (complete_decision view kd checked now later (snd (claim_decision auth started pm app))))"
  by (auto simp: publish_human_decision_def bindA_def split: prod.splits sum.splits)

lemma publish_steps:
  "(app_step view)\<^sup>*\<^sup>* (snd (claim_decision auth started pm app)) (snd (publish_human_decision view auth started checked now later pm app))"
  using publish_state [of view auth started checked now later pm app] app_step.intros(18) by (metis r_into_rtranclp rtranclp.rtrancl_refl)

lemma claim_needs_permit: "claim_execution auth now pm app = (Inr cl, app') \<Longrightarrow> permits (security app) (pm_serial pm) \<noteq> None"
  by (auto simp: claim_execution_def action_ok burn_permit_def bindE_eq_Inr app_simps)

lemma claimed_decision_facts:
  assumes "claim_decision auth now pm app = (Inr kd, app')"
  obtains rec where "human_permits (security app) (pm_serial pm) = Some rec" "now = Some (kd_started_at kd)"
    "ht_last_observed rec \<le> kd_started_at kd" "kd_record kd = rec\<lparr> ht_last_observed := kd_started_at kd \<rparr>"
    "app' = app\<lparr> security := (security app)\<lparr> human_permits := (human_permits (security app))(pm_serial pm := None) \<rparr> \<rparr>"
  using assms by (auto simp: claim_decision_def action_ok burn_human_permit_def bindE_eq_Inr app_simps)

lemma decision_needs_permit:
  assumes "human_permits (security app) (pm_serial pm) = None"
  shows "\<not> is_ok (fst (claim_decision auth now pm app))"
    "\<not> is_ok (fst (publish_human_decision view auth now checked now' later pm app))"
proof -
  have "claim_decision auth now pm app \<noteq> (Inr kd, app')" for kd app'
    using assms claimed_decision_facts by (metis option.distinct(1))
  then show "\<not> is_ok (fst (claim_decision auth now pm app))"
    "\<not> is_ok (fst (publish_human_decision view auth now checked now' later pm app))"
    by (cases "claim_decision auth now pm app"; auto simp: publish_human_decision_def bindA_def is_ok_iff split: sum.splits)+
qed

lemma gone_stays_gone:
  assumes "app_good app app'" "n < next_serial (security app)"
  shows "permits (security app) n = None \<Longrightarrow> permits (security app') n = None"
    "human_permits (security app) n = None \<Longrightarrow> human_permits (security app') n = None"
  using assms by (auto simp: app_good_def st_advances_def)

section \<open>Fences\<close>

definition epoch_in :: "security_state \<Rightarrow> str \<Rightarrow> nat" where
  "epoch_in st p = (case project_securities st p of None \<Rightarrow> 0 | Some sec \<Rightarrow> sec_epoch sec)"

definition epoch_of :: "application \<Rightarrow> str \<Rightarrow> nat" where
  "epoch_of app p = epoch_in (security app) p"

lemma epoch_grows:
  assumes "app_good app app'" shows "epoch_of app p \<le> epoch_of app' p"
proof (cases "project_securities (security app) p")
  case (Some sec)
  with assms obtain sec' where "project_securities (security app') p = Some sec'" "sec_epoch sec \<le> sec_epoch sec'"
    unfolding app_good_def st_advances_def by blast
  with Some show ?thesis by (simp add: epoch_of_def epoch_in_def)
qed (simp add: epoch_of_def epoch_in_def)

lemma epoch_gate [simp]: "epoch_of (at_gate p g app) q = epoch_of app q"
  by (simp add: epoch_of_def)

text \<open>The changes that fence: access revoked, a profile suspended, resumed or replaced.\<close>

inductive fencing :: "str \<Rightarrow> application \<Rightarrow> application \<Rightarrow> bool" where
  "revoke_project_access p a app = (Inr (), app') \<Longrightarrow> project_securities (security app) p = Some sec \<Longrightarrow> a \<in> sec_allowed_actors sec
    \<Longrightarrow> fencing p app app'"
| "set_authority_profile_suspended h b app = (Inr (), app') \<Longrightarrow> profiles (security app) (hn_serial h) = Some profile
    \<Longrightarrow> pf_suspended profile \<noteq> b \<Longrightarrow> fencing (hn_project h) app app'"
| "replace_authority_profile h c app = (Inr (), app') \<Longrightarrow> fencing (hn_project h) app app'"
| "set_human_profile_suspended h b app = (Inr (), app') \<Longrightarrow> human_profiles (security app) (hn_serial h) = Some hprofile
    \<Longrightarrow> hp_suspended hprofile \<noteq> b \<Longrightarrow> fencing (hn_project h) app app'"
| "replace_human_profile h hc app = (Inr (), app') \<Longrightarrow> fencing (hn_project h) app app'"

lemma gated_security:
  assumes "gated p (on_security f) app = (Inr x, app')"
  obtains st where "f (security app) = Inr (x, st)" "\<And>q. epoch_of app' q = epoch_in st q"
  using in_gate_ok [OF assms] by (auto simp: on_security_ok epoch_of_def)

lemma fencing_epoch: "fencing p app app' \<Longrightarrow> epoch_of app p < epoch_of app' p"
proof (induction rule: fencing.induct)
  case (1 p a app app' sec)
  then have "gated p (on_security (change_access a True (\<lambda>actors. actors - {a}) p)) app = (Inr (), app')"
    by (auto simp: revoke_project_access_def action_ok)
  then show ?case using 1(2,3) by (auto elim!: gated_security simp: change_access_def bindE_eq_Inr app_simps epoch_of_def epoch_in_def)
next
  case (2 h b app app' profile)
  then have "gated (hn_project h) (on_security (suspend_profile h b)) app = (Inr (), app')"
    by (auto simp: set_authority_profile_suspended_def action_ok)
  then show ?case using 2(2,3) by (auto elim!: gated_security simp: suspend_profile_def bindE_eq_Inr app_simps epoch_of_def epoch_in_def)
next
  case (3 h c app app')
  then have "gated (hn_project h) (on_security (replace_profile h (sorted_config c))) app = (Inr (), app')" "pc_project (sorted_config c) = hn_project h"
    by (auto simp: replace_authority_profile_def Let_def action_ok app_simps)
  then show ?case by (auto elim!: gated_security simp: replace_profile_def bindE_eq_Inr app_simps epoch_of_def epoch_in_def)
next
  case (4 h b app app' hprofile)
  then have "gated (hn_project h) (on_security (suspend_human h b)) app = (Inr (), app')"
    by (auto simp: set_human_profile_suspended_def action_ok)
  then show ?case using 4(2,3)
    by (auto elim!: gated_security simp: suspend_human_def find_human_profile_def update_human_profile_def bindE_eq_Inr app_simps epoch_of_def epoch_in_def)
next
  case (5 h hc app app')
  then have "gated (hn_project h) (on_security (replace_human h hc)) app = (Inr (), app')"
    by (auto simp: replace_human_profile_def action_ok app_simps)
  then show ?case
    by (auto elim!: gated_security simp: replace_human_def find_human_profile_def update_human_profile_def bindE_eq_Inr app_simps epoch_of_def epoch_in_def)
qed

lemma fencing_good: "fencing p app app' \<Longrightarrow> app_good app app'"
  by (induction rule: fencing.induct) (metis op_moves moves_def snd_conv)+

lemma live_permit_epoch: "validate_live_permit rec session (security app) = Inr profile \<Longrightarrow> epoch_of app (pt_project rec) = pt_security_epoch rec"
  by (auto simp: validate_live_permit_def bindE_eq_Inr app_simps epoch_of_def epoch_in_def)

lemma live_human_epoch:
  "validate_live_human_permit rec session (security app) = Inr profile \<Longrightarrow> epoch_of app (ht_project rec) = ht_security_epoch rec"
  by (auto simp: validate_live_human_permit_def bindE_eq_Inr app_simps epoch_of_def epoch_in_def)

lemma claim_epoch:
  assumes "claim_execution auth now pm app = (Inr cl, app')"
  shows "epoch_of app' (pt_project (cl_record cl)) = pt_security_epoch (cl_record cl)"
proof -
  from assms obtain session rec profile t where "validate_live_permit rec session (security app') = Inr profile"
      "cl_record cl = rec\<lparr> pt_last_observed := t \<rparr>"
    by (auto simp: claim_execution_def action_ok)
  then show ?thesis using live_permit_epoch by simp
qed

lemma issued_human_permit:
  assumes "issue_human_permit inst session p h epoch rg t na st = Inr (pm, st')"
  shows "\<exists>rec. human_permits st' (pm_serial pm) = Some rec \<and> pm_serial pm < next_serial st' \<and> ht_project rec = p
    \<and> ht_security_epoch rec = epoch_in st' p"
  using assms by (auto simp: issue_human_permit_def bindE_eq_Inr app_simps epoch_in_def)

lemma prepared_human_permit:
  assumes "prepare_human_decision auth now p h app = (Inr pm, app')"
  shows "\<exists>rec. human_permits (security app') (pm_serial pm) = Some rec \<and> pm_serial pm < next_serial (security app') \<and> ht_project rec = p
    \<and> ht_security_epoch rec = epoch_of app' p"
  using assms by (auto simp: prepare_human_decision_def action_ok epoch_of_def dest!: in_gate_ok issued_human_permit)

end
