(* ===== verification/Application_Properties.thy ===== *)
theory Application_Properties
  imports Application_Laws Publication_Sample
begin

text \<open>
  The properties of the application boundary: permits are claimed once, control changes fence the permits issued
  before them, and nothing is published after a permit's deadline. The sample project runs through it.
\<close>

section \<open>Deadlines\<close>

lemma deadline_reading: "deadline_clock low not_after ends now = Some t \<Longrightarrow> t < ends \<Longrightarrow> now = Some t \<and> low \<le> t \<and> t < not_after"
  by (auto simp: deadline_clock_def split: option.splits if_splits)

lemma human_deadline_reading: "human_deadline_clock low not_after now = Some t \<Longrightarrow> now = Some t \<and> low \<le> t \<and> t < not_after"
  by (auto simp: human_deadline_clock_def split: option.splits if_splits)

lemma preflighted_facts:
  assumes s: "store_inv s" and ok: "publish_preflighted_through ov au now later d gen s = Inr (x, s')"
  obtains t t' where "now = Some t" "later = Some t'" "t \<le> t'" "t < pd_grant_expires_at d" "t' < pd_grant_expires_at d"
    "dec_reflog x = update_entry s (proposal_update au (preflight_update d gen) t)"
    "s' = advance s (proposal_update au (preflight_update d gen) t)"
proof -
  have pub: "publish_proposal_internal ov au now later s (preflight_update d gen) (Some (pd_side_effect_class d)) (Some d) = Inr (x, s')"
    using ok by (auto simp: publish_preflighted_through_def bindE_eq_Inr)
  from s pub show thesis
  proof (rule publish_internal_cases)
    fix verifier resolved act t'
    assume auth: "authorize_proposal ov verifier au now (preflight_update d gen) (Some (pd_side_effect_class d)) (Some d)
        = Inr (resolved, act, dec_effective_capabilities x)"
      and later: "later = Some t'" "res_evaluated_at resolved \<le> t'" "t' < res_grant_expires_at resolved"
      and out: "dec_reflog x = update_entry s (proposal_update au (preflight_update d gen) (res_evaluated_at resolved))"
        "s' = advance s (proposal_update au (preflight_update d gen) (res_evaluated_at resolved))"
    from auth obtain required target where r: "resolve_ai_authority ov au now target = Inr resolved"
        and pre: "check_preflight resolved (Some d) = Inr ()"
      by (rule authorize_proposal_facts)
    have ends: "res_grant_expires_at resolved = pd_grant_expires_at d"
      using pre by (auto simp: check_preflight_def require_resolved_preflight_binding_def require_that_ok split: if_splits)
    from r show thesis
    proof (rule resolve_authority_facts)
      fix t grant snap
      assume "now = Some t" "res_evaluated_at resolved = t" "in_force grant (res_grant_payload resolved) t"
        "\<And>t'. in_force grant (res_grant_payload resolved) t' \<longleftrightarrow> res_grant_active_from resolved \<le> t' \<and> t' < res_grant_expires_at resolved"
      then show thesis using that [of t t'] later out ends by simp
    qed
  qed
qed

lemma on_repository_ok:
  assumes "on_repository p f core app = (Inr x, app')"
  obtains slot r where "slots app p = Some slot" "core (slot_repository slot) = (Inr x, r)"
    "slots app' = (slots app)(p \<mapsto> slot\<lparr> slot_repository := r, slot_poisoned := False \<rparr>)"
  using assms by (auto simp: on_repository_def map_core_def map_err_eq_Inr split: option.splits if_splits prod.splits)

lemma on_refs_ok: "on_refs f r = (Inr x, r') \<longleftrightarrow> (\<exists>s. f (refs_of r) = Inr (x, s) \<and> r' = r\<lparr> refs_of := s \<rparr>)"
  by (auto simp: on_refs_def split: sum.splits prod.splits)

text \<open>The head of a Ref of a project.\<close>

definition project_head :: "application \<Rightarrow> str \<Rightarrow> str \<Rightarrow> str option" where
  "project_head app p n = (case slots app p of None \<Rightarrow> None | Some slot \<Rightarrow> query_head (refs_of (slot_repository slot)) n)"

lemma project_head_gate [simp]: "project_head (at_gate q g app) p n = project_head app p n"
  by (auto simp: project_head_def at_gate_def split: option.splits)

lemma refs_ok_slot: "refs_ok app \<Longrightarrow> slots (at_gate q g app) p = Some slot \<Longrightarrow> store_inv (refs_of (slot_repository slot))"
  using refs_ok_gate unfolding refs_ok_def by blast

lemma permit_publication_facts:
  assumes s: "store_inv (refs_of r)" and ok: "permit_publication view rec profile generated t1 now later r = (Inr d, r')"
  obtains t t' where "now = Some t" "later = Some t'" "t1 \<le> t" "t \<le> t'" "t' < pt_not_after rec"
    "query_head (refs_of r') (ref_name (dec_reflog d)) = Some (new_head (dec_reflog d))" "occurred_at_unix_nanos (dec_reflog d) = t"
proof -
  let ?clock = "deadline_clock t1 (pt_not_after rec) (pd_grant_expires_at (pt_preflight rec))"
  from ok obtain s' where pub: "publish_preflighted_through (view r) (profile_authority (pf_config profile)) (?clock now) (?clock later)
      (pt_preflight rec) (core_generated generated) (refs_of r) = Inr (d, s')" and r': "refs_of r' = s'"
    by (auto simp: permit_publication_def Let_def on_refs_ok)
  from s pub show thesis
  proof (rule preflighted_facts)
    fix t t'
    let ?up = "proposal_update (profile_authority (pf_config profile)) (preflight_update (pt_preflight rec) (core_generated generated)) t"
    assume "?clock now = Some t" "?clock later = Some t'" "t \<le> t'" "t < pd_grant_expires_at (pt_preflight rec)"
      "t' < pd_grant_expires_at (pt_preflight rec)"
      and entry: "dec_reflog d = update_entry (refs_of r) ?up" "s' = advance (refs_of r) ?up"
    then show thesis
      using that [of t t'] r' by (auto dest!: deadline_reading simp: update_entry_def query_head_advance proposal_update_def)
  qed
qed

lemma permit_decision_facts:
  assumes s: "store_inv (refs_of r)" and ok: "permit_decision view rec profile t1 now later r = (Inr rc, r')"
  obtains t t' where "now = Some t" "later = Some t'" "t1 \<le> t" "t \<le> t'" "t' < ht_not_after rec"
    "query_head (refs_of r') (hc_decision_ref_name (hp_config profile)) = Some (cd_new_head (ht_candidate rec))"
proof -
  let ?au = "human_authority (hp_config profile) (ht_decision_head rec) (ht_proposal_ref_name rec) (ht_proposal_head rec)"
  let ?clock = "human_deadline_clock t1 (ht_not_after rec)"
  from ok obtain s' where pub: "publish_decision_through (view r) ?au (?clock now) (?clock later) (candidate_update (ht_candidate rec)) (refs_of r)
      = Inr (rc, s')" and r': "refs_of r' = s'"
    by (auto simp: permit_decision_def Let_def on_refs_ok)
  from s pub show thesis
  proof (rule publish_decision_cases)
    fix verifier t t'
    assume "?clock now = Some t" "?clock later = Some t'" "t \<le> t'" and s': "s' = advance (refs_of r) (decision_update ?au (candidate_update (ht_candidate rec)) t)"
    then show thesis
      using that [of t t'] r' by (auto dest!: human_deadline_reading simp: query_head_advance decision_update_def human_authority_def candidate_update_def)
  qed
qed

lemma complete_facts:
  assumes refs: "refs_ok app" and ok: "complete_execution view cl outcome fa checked now later app = (Inr receipt, app')"
  obtains t1 t2 t3 where "checked = Some t1" "now = Some t2" "later = Some t3" "cl_started_at cl \<le> t1" "t1 \<le> t2" "t2 \<le> t3"
    "t3 < pt_not_after (cl_record cl)" "ad_project (pub_admitted_proposal receipt) = pt_project (cl_record cl)"
    "project_head app' (pt_project (cl_record cl)) (ad_proposal_ref_name (pub_admitted_proposal receipt))
      = Some (ad_proposal_head (pub_admitted_proposal receipt))"
    "occurred_at_unix_nanos (dec_reflog (pub_decision receipt)) = t2"
proof -
  let ?rec = "cl_record cl"
  from ok obtain g g' app1 t1 profile generated d where t1: "checked = Some t1" "cl_started_at cl \<le> t1"
    and core: "on_repository (pt_project ?rec) AppCore (permit_publication view ?rec profile generated t1 now later) (at_gate (pt_project ?rec) g app)
      = (Inr d, app1)"
    and out: "receipt = receipt_for (app_instance app) (pt_project ?rec) d" "app' = at_gate (pt_project ?rec) g' app1"
    by (auto simp: complete_execution_def Let_def action_ok app_simps dest!: in_gate_ok)
  from core show thesis
  proof (rule on_repository_ok)
    fix slot r
    assume slot: "slots (at_gate (pt_project ?rec) g app) (pt_project ?rec) = Some slot"
      and run: "permit_publication view ?rec profile generated t1 now later (slot_repository slot) = (Inr d, r)"
      and after: "slots app1 = (slots (at_gate (pt_project ?rec) g app))(pt_project ?rec \<mapsto> slot\<lparr> slot_repository := r, slot_poisoned := False \<rparr>)"
    from refs_ok_slot [OF refs slot] run show thesis
    proof (rule permit_publication_facts)
      fix t t'
      assume "now = Some t" "later = Some t'" "t1 \<le> t" "t \<le> t'" "t' < pt_not_after ?rec"
        "query_head (refs_of r) (ref_name (dec_reflog d)) = Some (new_head (dec_reflog d))" "occurred_at_unix_nanos (dec_reflog d) = t"
      then show thesis using that [of t1 t t'] t1 out after by (simp add: receipt_for_def project_head_def [of app1])
    qed
  qed
qed

lemma decision_facts:
  assumes refs: "refs_ok app" and ok: "complete_decision view kd checked now later app = (Inr rc, app')"
  obtains profile t1 t2 t3 where "human_profiles (security app) (ht_profile_serial (kd_record kd)) = Some profile"
    "checked = Some t1" "now = Some t2" "later = Some t3" "kd_started_at kd \<le> t1" "t1 \<le> t2" "t2 \<le> t3" "t3 < ht_not_after (kd_record kd)"
    "project_head app' (ht_project (kd_record kd)) (hc_decision_ref_name (hp_config profile)) = Some (cd_new_head (ht_candidate (kd_record kd)))"
proof -
  let ?rec = "kd_record kd"
  from ok obtain g g' app1 t1 profile where times: "checked = Some t1" "kd_started_at kd \<le> t1"
    and core: "on_repository (ht_project ?rec) AppCore (permit_decision view (?rec\<lparr> ht_last_observed := t1 \<rparr>) profile t1 now later)
      (at_gate (ht_project ?rec) g app) = (Inr rc, app1)"
    and live: "validate_live_human_permit ?rec (kd_session kd) (security app) = Inr profile"
    and app': "app' = at_gate (ht_project ?rec) g' app1"
    by (auto simp: complete_decision_def Let_def action_ok app_simps dest!: in_gate_ok)
  have profile: "human_profiles (security app) (ht_profile_serial ?rec) = Some profile"
    using live by (auto simp: validate_live_human_permit_def bindE_eq_Inr app_simps)
  from core show thesis
  proof (rule on_repository_ok)
    fix slot r
    assume slot: "slots (at_gate (ht_project ?rec) g app) (ht_project ?rec) = Some slot"
      and run: "permit_decision view (?rec\<lparr> ht_last_observed := t1 \<rparr>) profile t1 now later (slot_repository slot) = (Inr rc, r)"
      and after: "slots app1 = (slots (at_gate (ht_project ?rec) g app))(ht_project ?rec \<mapsto> slot\<lparr> slot_repository := r, slot_poisoned := False \<rparr>)"
    from refs_ok_slot [OF refs slot] run show thesis
    proof (rule permit_decision_facts)
      fix t t'
      assume "now = Some t" "later = Some t'" "t1 \<le> t" "t \<le> t'" "t' < ht_not_after (?rec\<lparr> ht_last_observed := t1 \<rparr>)"
        "query_head (refs_of r) (hc_decision_ref_name (hp_config profile)) = Some (cd_new_head (ht_candidate (?rec\<lparr> ht_last_observed := t1 \<rparr>)))"
      then show thesis using that [of profile t1 t t'] profile times app' after by (simp add: project_head_def [of app1])
    qed
  qed
qed

lemma human_facts:
  assumes refs: "refs_ok app" and ok: "publish_human_decision view auth started checked now later pm app = (Inr rc, app')"
  obtains rec profile t1 t2 t3 t4 where "human_permits (security app) (pm_serial pm) = Some rec"
    "human_profiles (security app) (ht_profile_serial rec) = Some profile" "started = Some t1" "checked = Some t2" "now = Some t3"
    "later = Some t4" "ht_last_observed rec \<le> t1" "t1 \<le> t2" "t2 \<le> t3" "t3 \<le> t4" "t4 < ht_not_after rec"
    "project_head app' (ht_project rec) (hc_decision_ref_name (hp_config profile)) = Some (cd_new_head (ht_candidate rec))"
proof -
  from ok obtain kd app1 where claim: "claim_decision auth started pm app = (Inr kd, app1)"
    and finish: "complete_decision view kd checked now later app1 = (Inr rc, app')"
    by (auto simp: publish_human_decision_def bindA_ok)
  from claim show thesis
  proof (rule claimed_decision_facts)
    fix rec
    assume rec: "human_permits (security app) (pm_serial pm) = Some rec" "started = Some (kd_started_at kd)"
        "ht_last_observed rec \<le> kd_started_at kd" "kd_record kd = rec\<lparr> ht_last_observed := kd_started_at kd \<rparr>"
      and app1: "app1 = app\<lparr> security := (security app)\<lparr> human_permits := (human_permits (security app))(pm_serial pm := None) \<rparr> \<rparr>"
    have "refs_ok app1" using refs by (simp add: refs_ok_def app1)
    from this finish show thesis
      by (rule decision_facts) (use that [of rec] rec app1 in auto)
  qed
qed

section \<open>The sample project behind the application\<close>

definition sample_config :: ai_authority_profile_config where
  "sample_config = \<lparr> pc_project = ''p'', pc_actor_id = ''agent-1'', pc_principal_id = ''human-1'', pc_base_ref_name = ''decision/main'',
     pc_actor_record_oid = agent_oid, pc_principal_actor_record_oid = principal_oid, pc_context_pack_oid = pack_oid,
     pc_target_ref_name = ''proposal/one'', pc_exact_capabilities = [ReadContext, Analyze, ProposeBranch],
     pc_runtime_capabilities = [ReadContext, Analyze, ProposeBranch, RenderPreview], pc_side_effect_class = NoSideEffect \<rparr>"

definition sample_preflight :: ai_preflight_decision where
  "sample_preflight = \<lparr> pd_actor_id = ''agent-1'', pd_project_id = ''p'', pd_principal_id = ''human-1'', pd_base_ref = ''decision/main'',
     pd_actor_record_oid = agent_oid, pd_principal_actor_record_oid = principal_oid, pd_context_pack_oid = pack_oid,
     pd_delegation_grant_oid = grant_oid, pd_policy_oid = policy_oid, pd_base_commit_oid = base_oid, pd_target_ref_name = ''proposal/one'',
     pd_expected_target_head = None, pd_side_effect_class = NoSideEffect, pd_exact_capabilities = [ReadContext, Analyze, ProposeBranch],
     pd_runtime_capabilities = [ReadContext, Analyze, ProposeBranch, RenderPreview], pd_evaluated_at = sample_now,
     pd_grant_expires_at = 1767312000000000000 \<rparr>"

definition agent_session :: authenticated_session where
  "agent_session = \<lparr> ss_actor_id = ''agent-1'', ss_session_id = ''s-1'' \<rparr>"

definition human_session :: authenticated_session where
  "human_session = \<lparr> ss_actor_id = ''human-1'', ss_session_id = ''s-2'' \<rparr>"

definition sample_human_config :: human_profile_config where
  "sample_human_config = \<lparr> hc_project = ''p'', hc_human_id = ''human-1'', hc_decision_ref_name = ''decision/main'',
     hc_human_actor_record_oid = principal_oid, hc_policy_record_oid = policy_oid \<rparr>"

definition sample_candidate :: human_decision_candidate where
  "sample_candidate = \<lparr> cd_new_head = verdict_oid, cd_decision_feedback_oid = feedback_oid, cd_message = None \<rparr>"

definition sample_permit :: permit_record where
  "sample_permit = \<lparr> pt_actor_id = ''agent-1'', pt_session_id = ''s-1'', pt_project = ''p'', pt_security_epoch = 2, pt_profile_serial = 1,
     pt_profile_generation = 1, pt_execution_serial = 3, pt_not_after = sample_now + 1000, pt_last_observed = sample_now,
     pt_preflight = sample_preflight \<rparr>"

definition sample_human_permit :: human_permit_record where
  "sample_human_permit = \<lparr> ht_actor_id = ''human-1'', ht_session_id = ''s-2'', ht_project = ''p'', ht_security_epoch = 2, ht_profile_serial = 2,
     ht_profile_generation = 1, ht_decision_head = base_oid, ht_proposal_ref_name = ''proposal/one'', ht_proposal_head = next_oid,
     ht_candidate = sample_candidate, ht_not_after = sample_now + 1000, ht_last_observed = sample_now \<rparr>"

definition sample_registration :: human_registration_record where
  "sample_registration = \<lparr> hr_project = ''p'', hr_profile_serial = 2, hr_profile_generation = 1, hr_decision_head = base_oid,
     hr_proposal_ref_name = ''proposal/one'', hr_proposal_head = next_oid, hr_candidate = sample_candidate \<rparr>"

text \<open>Two profiles, two permits and one more registration; the agent and the human have access.\<close>

definition sample_security :: security_state where
  "sample_security = \<lparr> next_serial = 8,
     project_securities = [''p'' \<mapsto> \<lparr> sec_epoch = 2, sec_allowed_actors = {''agent-1'', ''human-1''} \<rparr>],
     profiles = [1 \<mapsto> \<lparr> pf_generation = 1, pf_suspended = False, pf_config = sample_config \<rparr>], registrations = Map.empty,
     permits = [4 \<mapsto> sample_permit], human_profiles = [2 \<mapsto> \<lparr> hp_generation = 1, hp_suspended = False, hp_config = sample_human_config \<rparr>],
     human_registrations = [7 \<mapsto> sample_registration], human_permits = [6 \<mapsto> sample_human_permit] \<rparr>"

definition sample_app :: "ref_store \<Rightarrow> application" where
  "sample_app s = \<lparr> app_instance = 1, permit_ttl_nanos = 1000,
     slots = [''p'' \<mapsto> \<lparr> slot_repository = \<lparr> objects = sample_files, refs_of = s, repo_graph_limits = default_graph_limits,
       repo_scan_limits = default_tombstone_scan_limits, repo_read_only = False \<rparr>, slot_poisoned = False, slot_gate = new_gate \<rparr>],
     security = sample_security \<rparr>"

lemma sample_app_ok: "serials_ok (security (sample_app s))" "store_inv s \<Longrightarrow> refs_ok (sample_app s)"
  by (auto simp: serials_ok_def refs_ok_def sample_app_def sample_security_def split: if_splits)

lemmas sample_app_defs = sample_app_def sample_security_def sample_permit_def sample_human_permit_def sample_registration_def sample_config_def
  sample_human_config_def agent_session_def human_session_def

lemmas action_eval = bindA_def authenticate_def instanceA_def ensureE_def on_security_def find_slot_def readS_def found_def permit_time_def
  gated_def gate_of_def at_gate_def new_gate_def take_ticket_def pass_gate_def leave_gate_def u64_max_def

definition sample_claimed :: claimed_execution where
  "sample_claimed = \<lparr> cl_session = agent_session, cl_record = sample_permit, cl_started_at = sample_now \<rparr>"

lemma sample_claim:
  "claim_execution (Authenticated agent_session) (Some sample_now) \<lparr> pm_instance = 1, pm_serial = 4 \<rparr> (sample_app s)
    = (Inr sample_claimed, (sample_app s)\<lparr> security := sample_security\<lparr> permits := Map.empty \<rparr> \<rparr>)"
  by (simp add: claim_execution_def burn_permit_def validate_live_permit_def profile_permits_def allowed_in_def sample_claimed_def
      action_eval sample_app_defs)

lemma sample_profile_authority: "profile_authority sample_config = sample_authority"
  by (simp add: profile_authority_def sample_config_def sample_authority_def)

definition sample_output :: executed_ai_proposal where
  "sample_output = \<lparr> ex_new_head = next_oid, ex_activity_oid = run_oid, ex_message = None \<rparr>"

lemma sample_publication:
  "is_ok (publish_preflighted_through sample_view sample_authority (Some sample_now) (Some (sample_now + 1)) sample_preflight
    (core_generated sample_output) sample_refs)"
proof -
  have "check_preflight sample_resolved (Some sample_preflight) = Inr ()"
    by (simp add: check_preflight_def require_resolved_preflight_binding_def require_that_def sample_preflight_def sample_resolved_def)
  from sample_published [OF _ this, of "Some NoSideEffect"]
  have "is_ok (publish_proposal_internal sample_view sample_authority (Some sample_now) (Some (sample_now + 1)) sample_refs sample_request
      (Some NoSideEffect) (Some sample_preflight))" by simp
  moreover have "preflight_update sample_preflight (core_generated sample_output) = sample_request"
    by (simp add: preflight_update_def core_generated_def sample_preflight_def sample_output_def sample_request_def)
  moreover have "require_preflight_authority_binding sample_authority sample_preflight = Inr ()"
    by (simp add: require_preflight_authority_binding_def require_that_def normalized_capabilities_def sample_authority_def sample_preflight_def)
  ultimately show ?thesis by (simp add: publish_preflighted_through_def sample_preflight_def)
qed

lemma sample_completed:
  "is_ok (fst (complete_execution (\<lambda>_. sample_view) sample_claimed (Executed sample_output) (Authenticated agent_session) (Some sample_now)
    (Some sample_now) (Some (sample_now + 1)) (sample_app sample_refs)))"
proof -
  obtain d s where pub: "publish_preflighted_through sample_view sample_authority (Some sample_now) (Some (sample_now + 1)) sample_preflight
      (core_generated sample_output) sample_refs = Inr (d, s)"
    using sample_publication by (auto simp: is_ok_iff)
  have clock: "deadline_clock sample_now (sample_now + 1000) 1767312000000000000 (Some sample_now) = Some sample_now"
    "deadline_clock sample_now (sample_now + 1000) 1767312000000000000 (Some (sample_now + 1)) = Some (sample_now + 1)"
    by (simp_all add: deadline_clock_def)
  show ?thesis
    using pub clock
    by (simp add: complete_execution_def Let_def run_executor_def validate_live_permit_def profile_permits_def allowed_in_def sample_claimed_def
        on_repository_def permit_publication_def on_refs_def map_core_def sample_profile_authority [unfolded sample_config_def]
        action_eval sample_app_defs sample_preflight_def)
qed

lemma sample_review_authority:
  "human_authority sample_human_config base_oid ''proposal/one'' next_oid = sample_review" "candidate_update sample_candidate = sample_decision"
  by (simp_all add: human_authority_def sample_human_config_def sample_review_def candidate_update_def sample_candidate_def sample_decision_def)

lemma sample_permit_decided:
  "is_ok (fst (publish_human_decision (\<lambda>_. sample_view) (Authenticated human_session) (Some sample_now) (Some sample_now)
    (Some (sample_now + 2)) (Some (sample_now + 3)) \<lparr> pm_instance = 1, pm_serial = 6 \<rparr> (sample_app proposed_refs)))"
proof -
  obtain d s where pub: "publish_decision_through sample_view sample_review (Some (sample_now + 2)) (Some (sample_now + 3)) sample_decision
      proposed_refs = Inr (d, s)"
    using sample_decided by (auto simp: is_ok_iff)
  have clock: "human_deadline_clock sample_now (sample_now + 1000) (Some (sample_now + 2)) = Some (sample_now + 2)"
    "human_deadline_clock sample_now (sample_now + 1000) (Some (sample_now + 3)) = Some (sample_now + 3)"
    by (simp_all add: human_deadline_clock_def)
  show ?thesis
    using pub clock
    by (simp add: publish_human_decision_def claim_decision_def complete_decision_def Let_def burn_human_permit_def validate_live_human_permit_def
        human_profile_permits_def allowed_in_def on_repository_def permit_decision_def on_refs_def map_core_def
        sample_review_authority [unfolded sample_human_config_def] action_eval sample_app_defs)
qed

section \<open>Permits that are no longer live\<close>

text \<open>The heads of every Ref of every project.\<close>

definition same_heads :: "application \<Rightarrow> application \<Rightarrow> bool" where
  "same_heads app app' \<longleftrightarrow> (\<forall>p n. project_head app' p n = project_head app p n)"

interpretation heads: app_relation same_heads
  by unfold_locales (simp_all add: same_heads_def)

lemma heads_security: "moves same_heads (on_security f)"
  by (auto simp: moves_def on_security_def same_heads_def project_head_def split: sum.splits)

text \<open>
  An operation that never gets past a guard behaves like one that has nothing behind it.
\<close>

definition refused :: "'a app_action \<Rightarrow> application \<Rightarrow> bool" where
  "refused m app \<longleftrightarrow> \<not> is_ok (fst (m app)) \<and> same_heads app (snd (m app))"

lemma refused_bind:
  assumes "same_heads app (snd (m app))" "\<And>x app'. m app = (Inr x, app') \<Longrightarrow> refused (f x) app'"
  shows "refused (bindA m f) app"
proof (cases "m app")
  case (Pair r app')
  show ?thesis
  proof (cases r)
    case (Inr x)
    then have "same_heads app' (snd (f x app'))" "\<not> is_ok (fst (f x app'))" using assms(2) Pair by (auto simp: refused_def)
    moreover have "same_heads app app'" using assms(1) Pair by simp
    ultimately show ?thesis using Pair Inr heads.trans by (auto simp: refused_def bindA_def)
  qed (use assms(1) Pair in \<open>simp add: refused_def bindA_def\<close>)
qed

lemma refused_gated: "(\<And>g. refused f (at_gate p g app)) \<Longrightarrow> refused (gated p f) app"
  unfolding refused_def gated_def
  by (auto simp: heads.refl same_heads_def split: option.splits prod.splits) (metis fst_conv snd_conv project_head_gate)+

lemma refused_dead: "\<not> is_ok (h (security app)) \<Longrightarrow> refused (bindA (readS h) f) app"
  by (rule refused_bind) (auto simp: readS_def heads.refl)

lemma refused_pure: "(\<And>x. r = Inr x \<Longrightarrow> refused (f x) app) \<Longrightarrow> refused (bindA (resultA r) f) app"
  by (rule refused_bind) (auto simp: heads.refl)

lemma refused_slot: "refused (f ()) app \<Longrightarrow> refused (bindA (find_slot e p) f) app"
  by (rule refused_bind) (auto simp: find_slot_def heads.refl)

lemma refused_instance: "refused (f (app_instance app)) app \<Longrightarrow> refused (bindA instanceA f) app"
  by (rule refused_bind) (auto simp: instanceA_def heads.refl)

lemma dead_completion:
  assumes "epoch_of app (pt_project (cl_record cl)) \<noteq> pt_security_epoch (cl_record cl)"
  shows "refused (complete_execution view cl outcome fa checked now later) app"
proof -
  have "\<not> is_ok (validate_live_permit (cl_record cl) session (security (at_gate p g app)))" for session p g
    using assms live_permit_epoch [of "cl_record cl" session app] by (auto simp: is_ok_iff)
  then show ?thesis unfolding complete_execution_def Let_def
    by (intro refused_pure refused_gated refused_dead)
qed

lemma dead_decision:
  assumes "epoch_of app (ht_project (kd_record kd)) \<noteq> ht_security_epoch (kd_record kd)"
  shows "refused (complete_decision view kd checked now later) app"
proof -
  have "\<not> is_ok (validate_live_human_permit (kd_record kd) (kd_session kd) (security (at_gate p g app)))" for p g
    using assms live_human_epoch [of "kd_record kd" "kd_session kd" app] by (auto simp: is_ok_iff)
  then show ?thesis unfolding complete_decision_def Let_def
    by (intro refused_pure refused_gated refused_dead)
qed

lemma claim_same_heads: "same_heads app (snd (claim_decision auth now pm app))"
proof -
  have "moves same_heads (claim_decision auth now pm)"
    unfolding claim_decision_def by (intro heads.moves_rules heads_security)
  then show ?thesis by (simp add: moves_def)
qed

lemma dead_permit:
  assumes "\<And>rec. human_permits (security app) (pm_serial pm) = Some rec \<Longrightarrow> epoch_of app (ht_project rec) \<noteq> ht_security_epoch rec"
  shows "refused (publish_human_decision view auth started checked now later pm) app"
  unfolding publish_human_decision_def
proof (rule refused_bind [OF claim_same_heads])
  fix kd app'
  assume "claim_decision auth started pm app = (Inr kd, app')"
  then show "refused (complete_decision view kd checked now later) app'"
    by (rule claimed_decision_facts) (use assms in \<open>auto intro!: dead_decision simp: epoch_of_def epoch_in_def\<close>)
qed

section \<open>Properties\<close>

text \<open>
  C4: A permit is used at most once. After any attempt of an authenticated caller to use it, successful or not and
  whoever the caller was, and after any further operations of anyone, using the same permit again fails. The same
  holds of the permits for human decisions, already from the moment the first caller has removed the permit and
  before it has entered the gate.
\<close>

theorem permit_one_shot:
  assumes wf: "serials_ok (security app)" and inst: "pm_instance pm = app_instance app"
  shows "(permits (security app) (pm_serial pm) \<noteq> None
        \<and> (app_step view)\<^sup>*\<^sup>* (snd (claim_execution (Authenticated session) started pm app)) app'
      \<longrightarrow> \<not> is_ok (fst (claim_execution auth started' pm app')))
    \<and> (human_permits (security app) (pm_serial pm) \<noteq> None
        \<and> one \<in> {snd (claim_decision (Authenticated session) started pm app),
                  snd (publish_human_decision view (Authenticated session) started checked now later pm app)}
        \<and> (app_step view)\<^sup>*\<^sup>* one app'
      \<longrightarrow> \<not> is_ok (fst (claim_decision auth started' pm app'))
        \<and> \<not> is_ok (fst (publish_human_decision view auth started' checked' now' later' pm app')))"
proof (intro conjI impI; elim conjE)
  let ?one = "snd (claim_execution (Authenticated session) started pm app)"
  assume ready: "permits (security app) (pm_serial pm) \<noteq> None" and run: "(app_step view)\<^sup>*\<^sup>* ?one app'"
  have "pm_serial pm < next_serial (security app)" using ready wf by (meson linorder_not_less serials_ok_def)
  moreover have "next_serial (security app) \<le> next_serial (security ?one)"
    using moves_executions(3) [unfolded moves_def] by (simp add: app_good_def st_advances_def)
  ultimately have "permits (security app') (pm_serial pm) = None"
    using gone_stays_gone(1) [OF app_run_good [OF run]] burn_security [OF inst ready] by simp
  then show "\<not> is_ok (fst (claim_execution auth started' pm app'))"
    using claim_needs_permit by (metis is_ok_iff prod.collapse)
next
  let ?claim = "snd (claim_decision (Authenticated session) started pm app)"
  assume ready: "human_permits (security app) (pm_serial pm) \<noteq> None" and run: "(app_step view)\<^sup>*\<^sup>* one app'"
    and one: "one \<in> {?claim, snd (publish_human_decision view (Authenticated session) started checked now later pm app)}"
  have steps: "(app_step view)\<^sup>*\<^sup>* ?claim app'" using one run publish_steps [of view] by (metis insert_iff rtranclp_trans singletonD)
  have "pm_serial pm < next_serial (security app)" using ready wf by (meson linorder_not_less serials_ok_def)
  moreover have "next_serial (security app) \<le> next_serial (security ?claim)"
    using moves_decisions(5) [unfolded moves_def] by (simp add: app_good_def st_advances_def)
  ultimately have "human_permits (security app') (pm_serial pm) = None"
    using gone_stays_gone(2) [OF app_run_good [OF steps]] burn_human_security [OF inst ready] by simp
  then show "\<not> is_ok (fst (claim_decision auth started' pm app'))"
    "\<not> is_ok (fst (publish_human_decision view auth started' checked' now' later' pm app'))"
    by (rule decision_needs_permit)+
qed

theorem permit_one_shot_witness:
  "is_ok (fst (claim_execution (Authenticated agent_session) (Some sample_now) \<lparr> pm_instance = 1, pm_serial = 4 \<rparr> (sample_app sample_refs)))
    \<and> \<not> is_ok (fst (claim_execution (Authenticated agent_session) (Some sample_now) \<lparr> pm_instance = 1, pm_serial = 4 \<rparr>
         (snd (claim_execution (Authenticated agent_session) (Some sample_now) \<lparr> pm_instance = 1, pm_serial = 4 \<rparr> (sample_app sample_refs)))))"
proof
  show "is_ok (fst (claim_execution (Authenticated agent_session) (Some sample_now) \<lparr> pm_instance = 1, pm_serial = 4 \<rparr> (sample_app sample_refs)))"
    unfolding sample_claim by simp
  have ready: "pm_instance \<lparr> pm_instance = 1, pm_serial = 4 \<rparr> = app_instance (sample_app sample_refs)"
    "permits (security (sample_app sample_refs)) (pm_serial \<lparr> pm_instance = 1, pm_serial = 4 \<rparr>) \<noteq> None"
    by (simp_all add: sample_app_defs)
  show "\<not> is_ok (fst (claim_execution (Authenticated agent_session) (Some sample_now) \<lparr> pm_instance = 1, pm_serial = 4 \<rparr>
         (snd (claim_execution (Authenticated agent_session) (Some sample_now) \<lparr> pm_instance = 1, pm_serial = 4 \<rparr> (sample_app sample_refs)))))"
    using permit_one_shot [OF sample_app_ok(1) ready(1), of "\<lambda>_. sample_view", THEN conjunct1] ready(2) by blast
qed

text \<open>
  C5: Control changes fence agents. When, after an execution has been claimed, access to its project is revoked or
  a profile of the project is suspended, resumed or replaced, its completion is refused whatever the executor
  returned and whatever anyone did before or after the change, and no Ref of any project moves.
\<close>

theorem control_fences_execution:
  assumes claim: "claim_execution auth started pm app = (Inr cl, app1)" and before: "(app_step view)\<^sup>*\<^sup>* app1 app2"
    and change: "fencing (pt_project (cl_record cl)) app2 app3" and after: "(app_step view)\<^sup>*\<^sup>* app3 app4"
  shows "\<not> is_ok (fst (complete_execution view cl outcome final_auth checked now later app4))
    \<and> project_head (snd (complete_execution view cl outcome final_auth checked now later app4)) p n = project_head app4 p n"
proof -
  have "epoch_of app1 (pt_project (cl_record cl)) < epoch_of app4 (pt_project (cl_record cl))"
    using epoch_grows [OF app_run_good [OF before]] fencing_epoch [OF change] epoch_grows [OF app_run_good [OF after]]
    by (meson le_less_trans less_le_trans)
  then have "refused (complete_execution view cl outcome final_auth checked now later) app4"
    using claim_epoch [OF claim] by (intro dead_completion) simp
  then show ?thesis by (simp add: refused_def same_heads_def)
qed

lemma sample_revoke:
  "revoke_project_access ''p'' ''agent-1'' (app\<lparr> security := sample_security\<lparr> permits := m \<rparr> \<rparr>)
    = (Inr (), snd (revoke_project_access ''p'' ''agent-1'' (app\<lparr> security := sample_security\<lparr> permits := m \<rparr> \<rparr>)))"
  if "app = sample_app s" for app s
  unfolding that
  by (simp add: revoke_project_access_def change_access_def next_epoch_def valid_control_value_def is_control_def action_eval sample_app_defs)

theorem control_fences_execution_witness:
  "is_ok (fst (complete_execution (\<lambda>_. sample_view) sample_claimed (Executed sample_output) (Authenticated agent_session) (Some sample_now)
      (Some sample_now) (Some (sample_now + 1)) (sample_app sample_refs)))
    \<and> \<not> is_ok (fst (complete_execution (\<lambda>_. sample_view) sample_claimed (Executed sample_output) (Authenticated agent_session) (Some sample_now)
      (Some sample_now) (Some (sample_now + 1))
      (snd (revoke_project_access ''p'' ''agent-1'' ((sample_app sample_refs)\<lparr> security := sample_security\<lparr> permits := Map.empty \<rparr> \<rparr>)))))"
proof
  have fence: "fencing (pt_project (cl_record sample_claimed)) ((sample_app sample_refs)\<lparr> security := sample_security\<lparr> permits := Map.empty \<rparr> \<rparr>)
      (snd (revoke_project_access ''p'' ''agent-1'' ((sample_app sample_refs)\<lparr> security := sample_security\<lparr> permits := Map.empty \<rparr> \<rparr>)))"
    using fencing.intros(1) [OF sample_revoke [OF refl]] by (simp add: sample_claimed_def sample_permit_def sample_security_def)
  show "\<not> is_ok (fst (complete_execution (\<lambda>_. sample_view) sample_claimed (Executed sample_output) (Authenticated agent_session) (Some sample_now)
      (Some sample_now) (Some (sample_now + 1))
      (snd (revoke_project_access ''p'' ''agent-1'' ((sample_app sample_refs)\<lparr> security := sample_security\<lparr> permits := Map.empty \<rparr> \<rparr>)))))"
    by (rule control_fences_execution [OF sample_claim rtranclp.rtrancl_refl fence rtranclp.rtrancl_refl, THEN conjunct1])
qed (rule sample_completed)

text \<open>
  C13: Control changes fence humans too. Once a permit for a decision is issued, a later revocation of access, or
  suspension, resumption or replacement of a profile of its project makes every later use of the permit fail,
  by whomever and whatever happens in between, and no Ref of any project moves. So does a use that has removed
  the permit before the change and enters the gate after it.
\<close>

theorem control_fences_decision:
  assumes issued: "prepare_human_decision auth issued_at p h app = (Inr pm, app1)" and before: "(app_step view)\<^sup>*\<^sup>* app1 app2"
    and change: "fencing p app2 app3" and after: "(app_step view)\<^sup>*\<^sup>* app3 app4"
  shows "\<not> is_ok (fst (publish_human_decision view auth' started checked now later pm app4))
    \<and> project_head (snd (publish_human_decision view auth' started checked now later pm app4)) q n = project_head app4 q n
    \<and> (\<forall>mid mid' kd. (app_step view)\<^sup>*\<^sup>* app1 mid \<and> claim_decision auth' started pm mid = (Inr kd, mid') \<longrightarrow>
        \<not> is_ok (fst (complete_decision view kd checked now later app4))
        \<and> project_head (snd (complete_decision view kd checked now later app4)) q n = project_head app4 q n)"
proof -
  from prepared_human_permit [OF issued] obtain rec where rec: "human_permits (security app1) (pm_serial pm) = Some rec"
      "pm_serial pm < next_serial (security app1)" "ht_project rec = p" "ht_security_epoch rec = epoch_of app1 p" by blast
  have good: "app_good app1 app4"
    using app_run_good [OF before] fencing_good [OF change] app_run_good [OF after] by (blast intro: kept.trans)
  have "epoch_of app1 p < epoch_of app4 p"
    using epoch_grows [OF app_run_good [OF before]] fencing_epoch [OF change] epoch_grows [OF app_run_good [OF after]]
    by (meson le_less_trans less_le_trans)
  then have fenced: "epoch_of app4 (ht_project rec) \<noteq> ht_security_epoch rec" using rec(3,4) by simp
  have same: "human_permits (security later_app) (pm_serial pm) \<in> {None, Some rec}" if "app_good app1 later_app" for later_app
    using that rec(1,2) unfolding app_good_def st_advances_def by metis
  have "refused (publish_human_decision view auth' started checked now later pm) app4"
    using same [OF good] fenced by (intro dead_permit) auto
  moreover have "refused (complete_decision view kd checked now later) app4"
    if run: "(app_step view)\<^sup>*\<^sup>* app1 mid" and claim: "claim_decision auth' started pm mid = (Inr kd, mid')" for mid mid' kd
  proof (rule claimed_decision_facts [OF claim])
    fix rec'
    assume "human_permits (security mid) (pm_serial pm) = Some rec'" "kd_record kd = rec'\<lparr> ht_last_observed := kd_started_at kd \<rparr>"
    then show ?thesis using same [OF app_run_good [OF run]] fenced by (intro dead_decision) auto
  qed
  ultimately show ?thesis by (auto simp: refused_def same_heads_def)
qed

definition sample_prepared :: application where
  "sample_prepared = snd (prepare_human_decision (Authenticated human_session) (Some sample_now) ''p''
     \<lparr> hn_instance = 1, hn_project = ''p'', hn_serial = 7 \<rparr> (sample_app proposed_refs))"

lemma sample_prepare:
  "prepare_human_decision (Authenticated human_session) (Some sample_now) ''p'' \<lparr> hn_instance = 1, hn_project = ''p'', hn_serial = 7 \<rparr>
    (sample_app proposed_refs) = (Inr \<lparr> pm_instance = 1, pm_serial = 8 \<rparr>, sample_prepared)"
  "project_securities (security sample_prepared) ''p'' = Some \<lparr> sec_epoch = 2, sec_allowed_actors = {''agent-1'', ''human-1''} \<rparr>"
  "revoke_project_access ''p'' ''human-1'' sample_prepared = (Inr (), snd (revoke_project_access ''p'' ''human-1'' sample_prepared))"
  by (simp_all add: sample_prepared_def prepare_human_decision_def read_human_registration_def human_profile_permits_def allowed_in_def
      human_permit_deadline_def i128_checked_add_def i128_max_def issue_human_permit_def allocate_serial_def sample_now_def
      revoke_project_access_def change_access_def next_epoch_def valid_control_value_def is_control_def action_eval sample_app_defs)

text \<open>The permit is removed, then access is revoked, then the holder enters the gate.\<close>

definition sample_held :: "(claimed_decision app_result \<times> application)" where
  "sample_held = claim_decision (Authenticated human_session) (Some sample_now) \<lparr> pm_instance = 1, pm_serial = 8 \<rparr> sample_prepared"

lemma sample_hold:
  "\<exists>kd. sample_held = (Inr kd, snd sample_held)"
  "project_securities (security (snd sample_held)) ''p'' = Some \<lparr> sec_epoch = 2, sec_allowed_actors = {''agent-1'', ''human-1''} \<rparr>"
  "revoke_project_access ''p'' ''human-1'' (snd sample_held) = (Inr (), snd (revoke_project_access ''p'' ''human-1'' (snd sample_held)))"
  by (simp_all add: sample_held_def claim_decision_def burn_human_permit_def permit_time_def
      sample_prepared_def prepare_human_decision_def read_human_registration_def human_profile_permits_def allowed_in_def
      human_permit_deadline_def i128_checked_add_def i128_max_def issue_human_permit_def allocate_serial_def sample_now_def
      revoke_project_access_def change_access_def next_epoch_def valid_control_value_def is_control_def action_eval sample_app_defs)

theorem control_fences_decision_witness:
  "\<not> is_ok (fst (publish_human_decision (\<lambda>_. sample_view) (Authenticated human_session) (Some sample_now) (Some sample_now)
      (Some (sample_now + 2)) (Some (sample_now + 3)) \<lparr> pm_instance = 1, pm_serial = 8 \<rparr>
      (snd (revoke_project_access ''p'' ''human-1'' sample_prepared))))
    \<and> (\<exists>kd. fst sample_held = Inr kd \<and> \<not> is_ok (fst (complete_decision (\<lambda>_. sample_view) kd (Some sample_now)
      (Some (sample_now + 2)) (Some (sample_now + 3)) (snd (revoke_project_access ''p'' ''human-1'' (snd sample_held))))))"
proof
  have "fencing ''p'' sample_prepared (snd (revoke_project_access ''p'' ''human-1'' sample_prepared))"
    by (rule fencing.intros(1) [OF sample_prepare(3,2)]) simp
  then show "\<not> is_ok (fst (publish_human_decision (\<lambda>_. sample_view) (Authenticated human_session) (Some sample_now) (Some sample_now)
      (Some (sample_now + 2)) (Some (sample_now + 3)) \<lparr> pm_instance = 1, pm_serial = 8 \<rparr>
      (snd (revoke_project_access ''p'' ''human-1'' sample_prepared))))"
    using control_fences_decision [OF sample_prepare(1) rtranclp.rtrancl_refl _ rtranclp.rtrancl_refl] by blast
next
  obtain kd where kd: "sample_held = (Inr kd, snd sample_held)" using sample_hold(1) by blast
  have held: "(app_step (\<lambda>_. sample_view))\<^sup>*\<^sup>* sample_prepared (snd sample_held)"
    unfolding sample_held_def by (rule r_into_rtranclp) (rule app_step.intros)
  have "fencing ''p'' (snd sample_held) (snd (revoke_project_access ''p'' ''human-1'' (snd sample_held)))"
    by (rule fencing.intros(1) [OF sample_hold(3,2)]) simp
  from control_fences_decision [OF sample_prepare(1) held this rtranclp.rtrancl_refl, of "Authenticated human_session" "Some sample_now"]
  have "\<not> is_ok (fst (complete_decision (\<lambda>_. sample_view) kd (Some sample_now)
      (Some (sample_now + 2)) (Some (sample_now + 3)) (snd (revoke_project_access ''p'' ''human-1'' (snd sample_held)))))"
    using kd unfolding sample_held_def by blast
  then show "\<exists>kd. fst sample_held = Inr kd \<and> \<not> is_ok (fst (complete_decision (\<lambda>_. sample_view) kd (Some sample_now)
      (Some (sample_now + 2)) (Some (sample_now + 3)) (snd (revoke_project_access ''p'' ''human-1'' (snd sample_held)))))"
    using kd by (metis fst_conv)
qed

text \<open>
  C14: Nothing is published late. A proposal is published only if the clock was read during the completion, not
  before the claim, in order and each time before the permit's deadline; the receipt names the head the project
  then has, and the event carries one of these readings. The same holds of the completion of a decision, and of
  a whole use of a permit, whose permit and profile stood in the security state.
\<close>

theorem published_in_time:
  assumes refs: "refs_ok app"
  shows "(complete_execution view cl outcome final_auth checked now later app = (Inr receipt, app') \<longrightarrow>
      (\<exists>t1 t2 t3. checked = Some t1 \<and> now = Some t2 \<and> later = Some t3
        \<and> cl_started_at cl \<le> t1 \<and> t1 \<le> t2 \<and> t2 \<le> t3 \<and> t3 < pt_not_after (cl_record cl)
        \<and> occurred_at_unix_nanos (dec_reflog (pub_decision receipt)) = t2
        \<and> project_head app' (pt_project (cl_record cl)) (ad_proposal_ref_name (pub_admitted_proposal receipt))
            = Some (ad_proposal_head (pub_admitted_proposal receipt))))
    \<and> (complete_decision view kd checked now later app = (Inr decision, app') \<longrightarrow>
      (\<exists>profile t2 t3 t4. human_profiles (security app) (ht_profile_serial (kd_record kd)) = Some profile
        \<and> checked = Some t2 \<and> now = Some t3 \<and> later = Some t4
        \<and> kd_started_at kd \<le> t2 \<and> t2 \<le> t3 \<and> t3 \<le> t4 \<and> t4 < ht_not_after (kd_record kd)
        \<and> project_head app' (ht_project (kd_record kd)) (hc_decision_ref_name (hp_config profile))
            = Some (cd_new_head (ht_candidate (kd_record kd)))))
    \<and> (publish_human_decision view auth started checked now later pm app = (Inr decision, app') \<longrightarrow>
      (\<exists>rec profile t1 t2 t3 t4. human_permits (security app) (pm_serial pm) = Some rec
        \<and> human_profiles (security app) (ht_profile_serial rec) = Some profile
        \<and> started = Some t1 \<and> checked = Some t2 \<and> now = Some t3 \<and> later = Some t4
        \<and> ht_last_observed rec \<le> t1 \<and> t1 \<le> t2 \<and> t2 \<le> t3 \<and> t3 \<le> t4 \<and> t4 < ht_not_after rec
        \<and> project_head app' (ht_project rec) (hc_decision_ref_name (hp_config profile)) = Some (cd_new_head (ht_candidate rec))))"
proof (intro conjI impI)
  assume "complete_execution view cl outcome final_auth checked now later app = (Inr receipt, app')"
  with refs show "\<exists>t1 t2 t3. checked = Some t1 \<and> now = Some t2 \<and> later = Some t3
        \<and> cl_started_at cl \<le> t1 \<and> t1 \<le> t2 \<and> t2 \<le> t3 \<and> t3 < pt_not_after (cl_record cl)
        \<and> occurred_at_unix_nanos (dec_reflog (pub_decision receipt)) = t2
        \<and> project_head app' (pt_project (cl_record cl)) (ad_proposal_ref_name (pub_admitted_proposal receipt))
            = Some (ad_proposal_head (pub_admitted_proposal receipt))"
    by (rule complete_facts) blast
next
  assume "complete_decision view kd checked now later app = (Inr decision, app')"
  with refs show "\<exists>profile t2 t3 t4. human_profiles (security app) (ht_profile_serial (kd_record kd)) = Some profile
        \<and> checked = Some t2 \<and> now = Some t3 \<and> later = Some t4
        \<and> kd_started_at kd \<le> t2 \<and> t2 \<le> t3 \<and> t3 \<le> t4 \<and> t4 < ht_not_after (kd_record kd)
        \<and> project_head app' (ht_project (kd_record kd)) (hc_decision_ref_name (hp_config profile))
            = Some (cd_new_head (ht_candidate (kd_record kd)))"
    by (rule decision_facts) blast
next
  assume "publish_human_decision view auth started checked now later pm app = (Inr decision, app')"
  with refs show "\<exists>rec profile t1 t2 t3 t4. human_permits (security app) (pm_serial pm) = Some rec
        \<and> human_profiles (security app) (ht_profile_serial rec) = Some profile
        \<and> started = Some t1 \<and> checked = Some t2 \<and> now = Some t3 \<and> later = Some t4
        \<and> ht_last_observed rec \<le> t1 \<and> t1 \<le> t2 \<and> t2 \<le> t3 \<and> t3 \<le> t4 \<and> t4 < ht_not_after rec
        \<and> project_head app' (ht_project rec) (hc_decision_ref_name (hp_config profile)) = Some (cd_new_head (ht_candidate rec))"
    by (rule human_facts) blast
qed

theorem published_in_time_witness:
  "project_head (snd (publish_human_decision (\<lambda>_. sample_view) (Authenticated human_session) (Some sample_now) (Some sample_now)
        (Some (sample_now + 2)) (Some (sample_now + 3)) \<lparr> pm_instance = 1, pm_serial = 6 \<rparr> (sample_app proposed_refs)))
      ''p'' ''decision/main'' = Some verdict_oid"
proof -
  from sample_permit_decided obtain d app' where run: "publish_human_decision (\<lambda>_. sample_view) (Authenticated human_session) (Some sample_now)
      (Some sample_now) (Some (sample_now + 2)) (Some (sample_now + 3)) \<lparr> pm_instance = 1, pm_serial = 6 \<rparr> (sample_app proposed_refs) = (Inr d, app')"
    unfolding is_ok_iff by (metis prod.collapse)
  from published_in_time [OF sample_app_ok(2) [OF proposed_refs_inv], THEN conjunct2, THEN conjunct2, rule_format, OF run]
  have "project_head app' ''p'' ''decision/main'' = Some verdict_oid"
    by (auto simp: sample_app_defs sample_candidate_def)
  then show ?thesis unfolding run by simp
qed

end
