(* ===== verification/Spec2Isabelle.thy ===== *)
theory Spec2Isabelle
  imports Canonical_Time Ref_Store Closure_Properties Schema_Laws Repository_Properties Publication_Properties Application_Properties
begin

text \<open>
  SynapseGit: the integrity core, from canonical bytes to authorized publication.

  SynapseGit (the Rust workspace under \<^verbatim>\<open>src/crates\<close>) keeps creative projects as immutable, content-addressed
  objects (Blobs, Records, Trees, Commits) and mutable Refs with an append-only reflog. Everything the
  other crates do goes through these layers, and this library models them bottom up.

  \<^bold>\<open>Prelude.\<close> \<open>Prelude\<close> (results with panics, checked arithmetic, byte and text predicates, codecs as a
  locale), \<open>Decimal_Text\<close> (decimal numerals) and \<open>File_Tree\<close> (a directory tree with files, directories and
  symbolic links). Stateful operations are functions from a state to a result and a new state; a Rust
  panic is a value of its own, so that its absence can be stated.

  \<^bold>\<open>Canonical values\<close> (\<^verbatim>\<open>synapse-canonical\<close>). \<open>Canonical_Utf8\<close>, \<open>Canonical_Json\<close> (the canonical printer and its
  size pass), \<open>Canonical_Parser\<close> (the strict parser), \<open>Canonical_Oid\<close> (object identifiers, portable paths) and
  \<open>Canonical_Time\<close> (canonical timestamps). The lemmas show that printing and parsing invert each other,
  that canonical bytes and OIDs identify values up to key order, that the parser never panics, and that
  timestamps convert exactly.

  \<^bold>\<open>Object store\<close> (\<^verbatim>\<open>synapse-cas/src/store.rs\<close>). \<open>Object_Store\<close> models every operation over the directory tree;
  \<open>Object_Store_Laws\<close> shows that no operation changes an object that verifies, that puts and reads agree,
  that repair restores, that inventories are exact and what the memo of an integrity check answers while the
  store changes.

  \<^bold>\<open>Ref store\<close> (\<^verbatim>\<open>synapse-sqlite/src/lib.rs\<close>). \<open>Ref_Store\<close>: the tables, compare-and-swap with preconditions and a guard,
  reflog pages, archive export and restore, refined to an abstract history of events.

  \<^bold>\<open>Object graph\<close> (\<^verbatim>\<open>synapse-cas/src/graph.rs\<close>). \<open>Closure_Graph\<close> models reference extraction, Tombstones, the
  iterative walk with its limits, the prepared verifier and fsck; \<open>Closure_Laws\<close> and \<open>Closure_Properties\<close> relate a
  complete report to reachability between objects.

  \<^bold>\<open>Schema boundary\<close> (\<^verbatim>\<open>synapse-schema\<close>). \<open>Scaled_Integer\<close>, \<open>Schema_Validation\<close> and \<open>Schema_Laws\<close>: fixed-point numbers,
  the walk along schema annotations, the semantic rules and ingestion.

  \<^bold>\<open>Repository\<close> (\<^verbatim>\<open>synapse-core/src/lib.rs\<close>). \<open>Repository\<close> composes the four layers; \<open>Repository_Laws\<close> states what a
  history of its operations keeps as the locale \<open>head_history\<close>, and \<open>Repository_Properties\<close> draws the conclusions:
  what was published stays readable.

  \<^bold>\<open>AI authorization\<close> (\<^verbatim>\<open>synapse-core/src/authorization.rs\<close>). \<open>Authorization\<close> models the publication boundary of
  AI agents, \<open>Authorization_Laws\<close> and \<open>Authorization_Outputs\<close> read its checks as conditions on records and
  on reachability, and \<open>Proposal_Laws\<close> states what a publication needs and what it can do.

  \<^bold>\<open>Human decisions\<close> (\<^verbatim>\<open>synapse-core/src/human_decision.rs\<close>). \<open>Human_Decision\<close> models the route that publishes decisions,
  \<open>Decision_Laws\<close> shows that its traversal of the ancestry finds every earlier feedback and what a decision rests
  on. \<open>Authorization_Sample\<close> and \<open>Publication_Sample\<close> evaluate a small project through both routes, and
  \<open>Publication_Properties\<close> draws the conclusions: agents publish within their authority, decisions are reviewed,
  and along any history of both routes a proposal is decided at most once.

  \<^bold>\<open>Application boundary\<close> (\<^verbatim>\<open>synapse-application\<close>). \<open>Fair_Gate\<close> models the publication gate of a project as a ticket lock
  with its condition variable: blocked threads step only when notified, and every thread passes in fair executions; \<open>Application\<close> models access lists, authority profiles, registrations, one-shot permits and the two
  publications behind them; \<open>Application_Laws\<close> lifts what the locked sections keep to every operation, through the
  locale \<open>app_relation\<close>, and to histories of operations; \<open>Application_Properties\<close> shows that permits are used once, that control
  changes fence the permits issued before them and that nothing is published after a deadline.

  \<^bold>\<open>Parameters.\<close> SHA-256 and Unicode NFC are functions the operations take; what is needed of them (32 bytes
  of digest, no more) is a hypothesis where it is used. The JSON Schema compiler and the schema documents
  are fields of the registry. A clock is its readings; authenticator and executor are what their calls returned. A
  reader or a Ref validator is an argument.

  \<^bold>\<open>Loops.\<close> No definition uses fuel: every loop is a recursive function with a termination proof. The parser
  consumes input, the closure walk, the snapshot and the ancestry traversals spend objects and edges of their limits,
  schema expansion and the binding of Trees add to a bounded set, streams and paging shrink a list.

  \<^bold>\<open>Not modelled.\<close> The archive procedures and the repair from other copies in \<^verbatim>\<open>synapse-core/src/lib.rs\<close> (staging
  directories, renames and fsync around the modelled export, restore and repair of the stores); device
  errors and concurrent writers; error messages. The crates above the application are adapters: file mapping,
  SQLite projections, rendering, the local service, HTTP and the command line.
\<close>

end
